(* ===== verification/Prelude.thy ===== *)
theory Prelude
  imports Main "HOL-Library.Word" "HOL-Library.AList" "HOL-Library.Monad_Syntax"
begin

text \<open>
  Shared vocabulary of the development.

  Go values: a byte is an \<open>8 word\<close>, a Go string is a \<open>string\<close> (one \<open>char\<close> per byte), a Go map
  is an association list with distinct keys whose order is the order in which Go happens to
  iterate over it (\<^const>\<open>map_of\<close> reads it, \<^const>\<open>AList.update\<close> writes it,
  \<^const>\<open>AList.delete\<close> deletes from it).  Functions that may panic or call \<open>log.Fatalf\<close> and
  return nothing else of interest are in the option type, \<open>None\<close> being the panic; functions that
  return a Go \<open>error\<close> are in a sum type, \<open>Inl\<close> being the error.
\<close>

type_synonym byte = "8 word"

section \<open>Lemma collections\<close>

named_theorems reg_tables \<open>tables of the register file (reg.go)\<close>
named_theorems codec_laws \<open>decoding what was just encoded (bwrite.go)\<close>
named_theorems codec_cuts \<open>decoding a strict prefix of an encoding fails (bwrite.go)\<close>
named_theorems wire_defs \<open>definitions of the object-file writers and readers\<close>
named_theorems flow_simps \<open>look-ups in the provenance state (flow/state.go)\<close>

section \<open>Errors as values\<close>

text \<open>Sequencing of computations that return a value or an error, as \<open>if err != nil { return err }\<close>.\<close>

definition rbind :: "'e + 'a \<Rightarrow> ('a \<Rightarrow> 'e + 'b) \<Rightarrow> 'e + 'b" where
  "rbind m f = (case m of Inl e \<Rightarrow> Inl e | Inr x \<Rightarrow> f x)"

lemma rbind_simps [simp]:
  "rbind (Inl e) f = Inl e"
  "rbind (Inr x) f = f x"
  "rbind m Inr = m"
  by (simp_all add: rbind_def split: sum.split)

lemma rbind_eq_Inr: "rbind m f = Inr y \<longleftrightarrow> (\<exists>x. m = Inr x \<and> f x = Inr y)"
  by (cases m) auto

lemma rbind_eq_Inl: "rbind m f = Inl e \<longleftrightarrow> m = Inl e \<or> (\<exists>x. m = Inr x \<and> f x = Inl e)"
  by (cases m) auto

section \<open>Maps as association lists\<close>

lemma map_of_filter_key:
  "map_of (filter (\<lambda>(k, v). P k) xs) = (\<lambda>k. if P k then map_of xs k else None)"
  by (induction xs) auto

lemma map_of_eq_Some_in: "map_of xs k = Some v \<Longrightarrow> k \<in> fst ` set xs"
  by (force dest: map_of_SomeD)

lemma map_of_eq_None_notin: "map_of xs k = None \<longleftrightarrow> k \<notin> fst ` set xs"
  by (simp add: map_of_eq_None_iff)

end
