(* ===== verification/Register.thy ===== *)
theory Register
  imports Prelude
begin

text \<open>
  The x86-64 register names of the assembler, \<open>reg.go\<close>: the enumeration \<open>Register\<close>, its printer
  and parser, the encoding byte, the width, and the tables that relate a register to the
  64-bit register it is part of (\<open>fullReg\<close>), to its 8-bit neighbour (\<open>brother8\<close>) and to its
  sub-registers (\<open>subRegisters8\<close>, \<open>partial\<close>).  \<open>None\<close> (the outer one where there are two) stands
  for the panic or \<open>log.Fatalf\<close> of the code; the inner \<open>None\<close> is the Go result \<open>(0, false)\<close>.
\<close>

section \<open>The registers\<close>

text \<open>The constants in the order of the source (\<open>iota\<close>).\<close>

datatype (plugins only: code size) Register =
    R_AL | R_AH | R_AX | R_EAX | R_RAX | R_BL | R_BH | R_BX | R_EBX | R_RBX | R_CL | R_CH
  | R_CX | R_ECX | R_RCX | R_DL | R_DH | R_DX | R_EDX | R_RDX | R_SP | R_ESP | R_RSP
  | R_BP | R_EBP | R_RBP | R_SI | R_ESI | R_RSI | R_DI | R_EDI | R_RDI | R8 | R8B | R8W
  | R8D | R9 | R9B | R9W | R9D | R10 | R10B | R10W | R10D | R11 | R11B | R11W | R11D | R12
  | R12B | R12W | R12D | R13 | R13B | R13W | R13D | R14 | R14B | R14W | R14D | R15 | R15B
  | R15W | R15D | R_RIP | R_DIL | R_SIL

definition all_regs :: "Register list" where
  "all_regs = [R_AL, R_AH, R_AX, R_EAX, R_RAX, R_BL, R_BH, R_BX, R_EBX, R_RBX,
     R_CL, R_CH, R_CX, R_ECX, R_RCX, R_DL, R_DH, R_DX, R_EDX, R_RDX,
     R_SP, R_ESP, R_RSP, R_BP, R_EBP, R_RBP, R_SI, R_ESI, R_RSI, R_DI,
     R_EDI, R_RDI, R8, R8B, R8W, R8D, R9, R9B, R9W, R9D,
     R10, R10B, R10W, R10D, R11, R11B, R11W, R11D, R12, R12B,
     R12W, R12D, R13, R13B, R13W, R13D, R14, R14B, R14W, R14D,
     R15, R15B, R15W, R15D, R_RIP, R_DIL, R_SIL]"

lemma all_regs_UNIV: "r \<in> set all_regs"
  by (cases r) (simp_all add: all_regs_def)

text \<open>A property of every register is a property of the list: this turns a claim about all
  registers into an evaluation.\<close>

lemma all_registers: "(\<forall>r. P r) \<longleftrightarrow> list_all P all_regs"
  by (auto simp: list_all_iff all_regs_UNIV)

lemma by_register_table: "list_all P all_regs \<Longrightarrow> P r"
  by (simp add: list_all_iff all_regs_UNIV)

section \<open>Printing and parsing\<close>

primrec reg_String :: "Register \<Rightarrow> string" where
    "reg_String R_AL = ''AL''"
  | "reg_String R_AH = ''AH''"
  | "reg_String R_AX = ''AX''"
  | "reg_String R_EAX = ''EAX''"
  | "reg_String R_RAX = ''RAX''"
  | "reg_String R_BL = ''BL''"
  | "reg_String R_BH = ''BH''"
  | "reg_String R_BX = ''BX''"
  | "reg_String R_EBX = ''EBX''"
  | "reg_String R_RBX = ''RBX''"
  | "reg_String R_CL = ''CL''"
  | "reg_String R_CH = ''CH''"
  | "reg_String R_CX = ''CX''"
  | "reg_String R_ECX = ''ECX''"
  | "reg_String R_RCX = ''RCX''"
  | "reg_String R_DL = ''DL''"
  | "reg_String R_DH = ''DH''"
  | "reg_String R_DX = ''DX''"
  | "reg_String R_EDX = ''EDX''"
  | "reg_String R_RDX = ''RDX''"
  | "reg_String R_SP = ''SP''"
  | "reg_String R_ESP = ''ESP''"
  | "reg_String R_RSP = ''RSP''"
  | "reg_String R_BP = ''BP''"
  | "reg_String R_EBP = ''EBP''"
  | "reg_String R_RBP = ''RBP''"
  | "reg_String R_SI = ''SI''"
  | "reg_String R_ESI = ''ESI''"
  | "reg_String R_RSI = ''RSI''"
  | "reg_String R_DI = ''DI''"
  | "reg_String R_EDI = ''EDI''"
  | "reg_String R_RDI = ''RDI''"
  | "reg_String R8 = ''R8''"
  | "reg_String R8B = ''R8B''"
  | "reg_String R8W = ''R8W''"
  | "reg_String R8D = ''R8D''"
  | "reg_String R9 = ''R9''"
  | "reg_String R9B = ''R9B''"
  | "reg_String R9W = ''R9W''"
  | "reg_String R9D = ''R9D''"
  | "reg_String R10 = ''R10''"
  | "reg_String R10B = ''R10B''"
  | "reg_String R10W = ''R10W''"
  | "reg_String R10D = ''R10D''"
  | "reg_String R11 = ''R11''"
  | "reg_String R11B = ''R11B''"
  | "reg_String R11W = ''R11W''"
  | "reg_String R11D = ''R11D''"
  | "reg_String R12 = ''R12''"
  | "reg_String R12B = ''R12B''"
  | "reg_String R12W = ''R12W''"
  | "reg_String R12D = ''R12D''"
  | "reg_String R13 = ''R13''"
  | "reg_String R13B = ''R13B''"
  | "reg_String R13W = ''R13W''"
  | "reg_String R13D = ''R13D''"
  | "reg_String R14 = ''R14''"
  | "reg_String R14B = ''R14B''"
  | "reg_String R14W = ''R14W''"
  | "reg_String R14D = ''R14D''"
  | "reg_String R15 = ''R15''"
  | "reg_String R15B = ''R15B''"
  | "reg_String R15W = ''R15W''"
  | "reg_String R15D = ''R15D''"
  | "reg_String R_RIP = ''RIP''"
  | "reg_String R_DIL = ''DIL''"
  | "reg_String R_SIL = ''SIL''"

text \<open>
  \<open>strings.ToUpper\<close>, as far as \<open>ParseReg\<close> can observe it: ASCII letters are folded, and so are
  the two non-ASCII runes whose upper case is an ASCII letter (dotless i, bytes C4 B1, and long s,
  bytes C5 BF).  Every other rune keeps or maps to non-ASCII bytes, which no register name has.
\<close>

definition upper_ascii :: "char \<Rightarrow> char" where
  "upper_ascii c =
     (if 97 \<le> (of_char c :: nat) \<and> (of_char c :: nat) \<le> 122
      then char_of ((of_char c :: nat) - 32) else c)"

fun ToUpper :: "string \<Rightarrow> string" where
  "ToUpper [] = []"
| "ToUpper [c] = [upper_ascii c]"
| "ToUpper (c # d # cs) =
     (if c = CHR 0xC4 \<and> d = CHR 0xB1 then CHR ''I'' # ToUpper cs
      else if c = CHR 0xC5 \<and> d = CHR 0xBF then CHR ''S'' # ToUpper cs
      else upper_ascii c # ToUpper (d # cs))"

text \<open>The cases of the switch of \<open>ParseReg\<close>, in order.\<close>

definition reg_names :: "(string \<times> Register) list" where
  "reg_names = [
     (''AL'', R_AL), (''AH'', R_AH), (''AX'', R_AX), (''EAX'', R_EAX), (''RAX'', R_RAX),
     (''BL'', R_BL), (''BH'', R_BH), (''BX'', R_BX), (''EBX'', R_EBX), (''RBX'', R_RBX),
     (''CL'', R_CL), (''CH'', R_CH), (''CX'', R_CX), (''ECX'', R_ECX), (''RCX'', R_RCX),
     (''DL'', R_DL), (''DH'', R_DH), (''DX'', R_DX), (''EDX'', R_EDX), (''RDX'', R_RDX),
     (''SP'', R_SP), (''ESP'', R_ESP), (''RSP'', R_RSP), (''BP'', R_BP), (''EBP'', R_EBP),
     (''RBP'', R_RBP), (''SI'', R_SI), (''ESI'', R_ESI), (''RSI'', R_RSI), (''DI'', R_DI),
     (''EDI'', R_EDI), (''RDI'', R_RDI), (''R8'', R8), (''R8B'', R8B), (''R8W'', R8W),
     (''R8D'', R8D), (''R9'', R9), (''R9B'', R9B), (''R9W'', R9W), (''R9D'', R9D),
     (''R10'', R10), (''R10B'', R10B), (''R10W'', R10W), (''R10D'', R10D), (''R11'', R11),
     (''R11B'', R11B), (''R11W'', R11W), (''R11D'', R11D), (''R12'', R12), (''R12B'', R12B),
     (''R12W'', R12W), (''R12D'', R12D), (''R13'', R13), (''R13B'', R13B), (''R13W'', R13W),
     (''R13D'', R13D), (''R14'', R14), (''R14B'', R14B), (''R14W'', R14W), (''R14D'', R14D),
     (''R15'', R15), (''R15B'', R15B), (''R15W'', R15W), (''R15D'', R15D), (''DIL'', R_DIL),
     (''SIL'', R_SIL)]"

text \<open>\<open>Inl\<close> is the error "No such register", with the folded name it prints.\<close>

definition ParseReg :: "string \<Rightarrow> string + Register" where
  "ParseReg s = (case map_of reg_names (ToUpper s) of
     Some r \<Rightarrow> Inr r
   | None \<Rightarrow> Inl (ToUpper s))"

section \<open>Width, encoding and the register tables\<close>

primrec fullReg :: "Register \<Rightarrow> Register option" where
    "fullReg R_AL = Some R_RAX"
  | "fullReg R_AH = Some R_RAX"
  | "fullReg R_AX = Some R_RAX"
  | "fullReg R_EAX = Some R_RAX"
  | "fullReg R_RAX = Some R_RAX"
  | "fullReg R_BL = Some R_RBX"
  | "fullReg R_BH = Some R_RBX"
  | "fullReg R_BX = Some R_RBX"
  | "fullReg R_EBX = Some R_RBX"
  | "fullReg R_RBX = Some R_RBX"
  | "fullReg R_CL = Some R_RCX"
  | "fullReg R_CH = Some R_RCX"
  | "fullReg R_CX = Some R_RCX"
  | "fullReg R_ECX = Some R_RCX"
  | "fullReg R_RCX = Some R_RCX"
  | "fullReg R_DL = Some R_RDX"
  | "fullReg R_DH = Some R_RDX"
  | "fullReg R_DX = Some R_RDX"
  | "fullReg R_EDX = Some R_RDX"
  | "fullReg R_RDX = Some R_RDX"
  | "fullReg R_SP = Some R_RSP"
  | "fullReg R_ESP = Some R_RSP"
  | "fullReg R_RSP = Some R_RSP"
  | "fullReg R_BP = Some R_RBP"
  | "fullReg R_EBP = Some R_RBP"
  | "fullReg R_RBP = Some R_RBP"
  | "fullReg R_SI = Some R_RSI"
  | "fullReg R_ESI = Some R_RSI"
  | "fullReg R_RSI = Some R_RSI"
  | "fullReg R_DI = Some R_RDI"
  | "fullReg R_EDI = Some R_RDI"
  | "fullReg R_RDI = Some R_RDI"
  | "fullReg R8 = Some R8"
  | "fullReg R8B = Some R8"
  | "fullReg R8W = Some R8"
  | "fullReg R8D = Some R8"
  | "fullReg R9 = Some R9"
  | "fullReg R9B = Some R9"
  | "fullReg R9W = Some R9"
  | "fullReg R9D = Some R9"
  | "fullReg R10 = Some R10"
  | "fullReg R10B = Some R10"
  | "fullReg R10W = Some R10"
  | "fullReg R10D = Some R10"
  | "fullReg R11 = Some R11"
  | "fullReg R11B = Some R11"
  | "fullReg R11W = Some R11"
  | "fullReg R11D = Some R11"
  | "fullReg R12 = Some R12"
  | "fullReg R12B = Some R12"
  | "fullReg R12W = Some R12"
  | "fullReg R12D = Some R12"
  | "fullReg R13 = Some R13"
  | "fullReg R13B = Some R13"
  | "fullReg R13W = Some R13"
  | "fullReg R13D = Some R13"
  | "fullReg R14 = Some R14"
  | "fullReg R14B = Some R14"
  | "fullReg R14W = Some R14"
  | "fullReg R14D = Some R14"
  | "fullReg R15 = Some R15"
  | "fullReg R15B = Some R15"
  | "fullReg R15W = Some R15"
  | "fullReg R15D = Some R15"
  | "fullReg R_RIP = None"
  | "fullReg R_DIL = Some R_RDI"
  | "fullReg R_SIL = Some R_RSI"

primrec Width :: "Register \<Rightarrow> int option" where
    "Width R_AL = Some 8"
  | "Width R_AH = Some 8"
  | "Width R_AX = Some 16"
  | "Width R_EAX = Some 32"
  | "Width R_RAX = Some 64"
  | "Width R_BL = Some 8"
  | "Width R_BH = Some 8"
  | "Width R_BX = Some 16"
  | "Width R_EBX = Some 32"
  | "Width R_RBX = Some 64"
  | "Width R_CL = Some 8"
  | "Width R_CH = Some 8"
  | "Width R_CX = Some 16"
  | "Width R_ECX = Some 32"
  | "Width R_RCX = Some 64"
  | "Width R_DL = Some 8"
  | "Width R_DH = Some 8"
  | "Width R_DX = Some 16"
  | "Width R_EDX = Some 32"
  | "Width R_RDX = Some 64"
  | "Width R_SP = Some 16"
  | "Width R_ESP = Some 32"
  | "Width R_RSP = Some 64"
  | "Width R_BP = Some 16"
  | "Width R_EBP = Some 32"
  | "Width R_RBP = Some 64"
  | "Width R_SI = Some 16"
  | "Width R_ESI = Some 32"
  | "Width R_RSI = Some 64"
  | "Width R_DI = Some 16"
  | "Width R_EDI = Some 32"
  | "Width R_RDI = Some 64"
  | "Width R8 = Some 64"
  | "Width R8B = Some 8"
  | "Width R8W = Some 16"
  | "Width R8D = Some 32"
  | "Width R9 = Some 64"
  | "Width R9B = Some 8"
  | "Width R9W = Some 16"
  | "Width R9D = Some 32"
  | "Width R10 = Some 64"
  | "Width R10B = Some 8"
  | "Width R10W = Some 16"
  | "Width R10D = Some 32"
  | "Width R11 = Some 64"
  | "Width R11B = Some 8"
  | "Width R11W = Some 16"
  | "Width R11D = Some 32"
  | "Width R12 = Some 64"
  | "Width R12B = Some 8"
  | "Width R12W = Some 16"
  | "Width R12D = Some 32"
  | "Width R13 = Some 64"
  | "Width R13B = Some 8"
  | "Width R13W = Some 16"
  | "Width R13D = Some 32"
  | "Width R14 = Some 64"
  | "Width R14B = Some 8"
  | "Width R14W = Some 16"
  | "Width R14D = Some 32"
  | "Width R15 = Some 64"
  | "Width R15B = Some 8"
  | "Width R15W = Some 16"
  | "Width R15D = Some 32"
  | "Width R_RIP = None"
  | "Width R_DIL = Some 8"
  | "Width R_SIL = Some 8"

primrec reg_byte :: "Register \<Rightarrow> byte option" where
    "reg_byte R_AL = Some 0"
  | "reg_byte R_AH = Some 4"
  | "reg_byte R_AX = Some 0"
  | "reg_byte R_EAX = Some 0"
  | "reg_byte R_RAX = Some 0"
  | "reg_byte R_BL = Some 3"
  | "reg_byte R_BH = Some 7"
  | "reg_byte R_BX = Some 3"
  | "reg_byte R_EBX = Some 3"
  | "reg_byte R_RBX = Some 3"
  | "reg_byte R_CL = Some 1"
  | "reg_byte R_CH = Some 5"
  | "reg_byte R_CX = Some 1"
  | "reg_byte R_ECX = Some 1"
  | "reg_byte R_RCX = Some 1"
  | "reg_byte R_DL = Some 2"
  | "reg_byte R_DH = Some 6"
  | "reg_byte R_DX = Some 2"
  | "reg_byte R_EDX = Some 2"
  | "reg_byte R_RDX = Some 2"
  | "reg_byte R_SP = Some 4"
  | "reg_byte R_ESP = Some 4"
  | "reg_byte R_RSP = Some 4"
  | "reg_byte R_BP = Some 5"
  | "reg_byte R_EBP = Some 5"
  | "reg_byte R_RBP = Some 5"
  | "reg_byte R_SI = Some 6"
  | "reg_byte R_ESI = Some 6"
  | "reg_byte R_RSI = Some 6"
  | "reg_byte R_DI = Some 7"
  | "reg_byte R_EDI = Some 7"
  | "reg_byte R_RDI = Some 7"
  | "reg_byte R8 = Some 8"
  | "reg_byte R8B = Some 8"
  | "reg_byte R8W = Some 8"
  | "reg_byte R8D = Some 8"
  | "reg_byte R9 = Some 9"
  | "reg_byte R9B = Some 9"
  | "reg_byte R9W = Some 9"
  | "reg_byte R9D = Some 9"
  | "reg_byte R10 = Some 10"
  | "reg_byte R10B = Some 10"
  | "reg_byte R10W = Some 10"
  | "reg_byte R10D = Some 10"
  | "reg_byte R11 = Some 11"
  | "reg_byte R11B = Some 11"
  | "reg_byte R11W = Some 11"
  | "reg_byte R11D = Some 11"
  | "reg_byte R12 = Some 12"
  | "reg_byte R12B = Some 12"
  | "reg_byte R12W = Some 12"
  | "reg_byte R12D = Some 12"
  | "reg_byte R13 = Some 13"
  | "reg_byte R13B = Some 13"
  | "reg_byte R13W = Some 13"
  | "reg_byte R13D = Some 13"
  | "reg_byte R14 = Some 14"
  | "reg_byte R14B = Some 14"
  | "reg_byte R14W = Some 14"
  | "reg_byte R14D = Some 14"
  | "reg_byte R15 = Some 15"
  | "reg_byte R15B = Some 15"
  | "reg_byte R15W = Some 15"
  | "reg_byte R15D = Some 15"
  | "reg_byte R_RIP = Some 5"
  | "reg_byte R_DIL = Some 7"
  | "reg_byte R_SIL = Some 6"

definition needREX :: "Register \<Rightarrow> bool option" where
  "needREX r =
     (if r = R_DIL \<or> r = R_SIL then Some True
      else do { f \<leftarrow> fullReg r; Some (f \<in> {R8, R9, R10, R11, R12, R13, R14, R15}) })"

primrec brother8 :: "Register \<Rightarrow> Register option" where
    "brother8 R_AL = Some R_AH"
  | "brother8 R_AH = Some R_AL"
  | "brother8 R_AX = None"
  | "brother8 R_EAX = None"
  | "brother8 R_RAX = None"
  | "brother8 R_BL = Some R_BH"
  | "brother8 R_BH = Some R_BL"
  | "brother8 R_BX = None"
  | "brother8 R_EBX = None"
  | "brother8 R_RBX = None"
  | "brother8 R_CL = Some R_CH"
  | "brother8 R_CH = Some R_CL"
  | "brother8 R_CX = None"
  | "brother8 R_ECX = None"
  | "brother8 R_RCX = None"
  | "brother8 R_DL = Some R_DH"
  | "brother8 R_DH = Some R_DL"
  | "brother8 R_DX = None"
  | "brother8 R_EDX = None"
  | "brother8 R_RDX = None"
  | "brother8 R_SP = None"
  | "brother8 R_ESP = None"
  | "brother8 R_RSP = None"
  | "brother8 R_BP = None"
  | "brother8 R_EBP = None"
  | "brother8 R_RBP = None"
  | "brother8 R_SI = None"
  | "brother8 R_ESI = None"
  | "brother8 R_RSI = None"
  | "brother8 R_DI = None"
  | "brother8 R_EDI = None"
  | "brother8 R_RDI = None"
  | "brother8 R8 = None"
  | "brother8 R8B = None"
  | "brother8 R8W = None"
  | "brother8 R8D = None"
  | "brother8 R9 = None"
  | "brother8 R9B = None"
  | "brother8 R9W = None"
  | "brother8 R9D = None"
  | "brother8 R10 = None"
  | "brother8 R10B = None"
  | "brother8 R10W = None"
  | "brother8 R10D = None"
  | "brother8 R11 = None"
  | "brother8 R11B = None"
  | "brother8 R11W = None"
  | "brother8 R11D = None"
  | "brother8 R12 = None"
  | "brother8 R12B = None"
  | "brother8 R12W = None"
  | "brother8 R12D = None"
  | "brother8 R13 = None"
  | "brother8 R13B = None"
  | "brother8 R13W = None"
  | "brother8 R13D = None"
  | "brother8 R14 = None"
  | "brother8 R14B = None"
  | "brother8 R14W = None"
  | "brother8 R14D = None"
  | "brother8 R15 = None"
  | "brother8 R15B = None"
  | "brother8 R15W = None"
  | "brother8 R15D = None"
  | "brother8 R_RIP = None"
  | "brother8 R_DIL = None"
  | "brother8 R_SIL = None"

text \<open>The second switch of \<open>subRegisters8\<close>, on the full register.\<close>

definition sub8_table :: "(Register \<times> Register list) list" where
  "sub8_table =
     [(R_RAX, [R_AL, R_AH]), (R_RBX, [R_BL, R_BH]), (R_RCX, [R_CL, R_CH]), (R_RDX, [R_DL, R_DH]),
      (R_RDI, [R_DIL]), (R_RSI, [R_SIL]), (R8, [R8B]), (R9, [R9B]), (R10, [R10B]), (R11, [R11B]),
      (R12, [R12B]), (R13, [R13B]), (R14, [R14B]), (R15, [R15B])]"

definition subRegisters8 :: "Register \<Rightarrow> Register list option option" where
  "subRegisters8 r = do {
     w \<leftarrow> Width r;
     if w = 8 then Some (Some [r])
     else do { f \<leftarrow> fullReg r; Some (map_of sub8_table f) } }"

text \<open>
  \<open>partial\<close> picks the sub-register of a size.  For \<open>R8\<close>--\<open>R15\<close> the source has no test for 64: any
  size other than 8, 16 and 32 gives the full register.
\<close>

primrec partial_reg :: "Register \<Rightarrow> int \<Rightarrow> Register option option" where
    "partial_reg R_AL = (\<lambda>size. Some None)"
  | "partial_reg R_AH = (\<lambda>size. Some None)"
  | "partial_reg R_AX = (\<lambda>size. Some None)"
  | "partial_reg R_EAX = (\<lambda>size. Some None)"
  | "partial_reg R_RAX = (\<lambda>size. Some (if size = 8 then Some R_AL else if size = 16 then Some R_AX
       else if size = 32 then Some R_EAX else if size = 64 then Some R_RAX else None))"
  | "partial_reg R_BL = (\<lambda>size. Some None)"
  | "partial_reg R_BH = (\<lambda>size. Some None)"
  | "partial_reg R_BX = (\<lambda>size. Some None)"
  | "partial_reg R_EBX = (\<lambda>size. Some None)"
  | "partial_reg R_RBX = (\<lambda>size. Some (if size = 8 then Some R_BL else if size = 16 then Some R_BX
       else if size = 32 then Some R_EBX else if size = 64 then Some R_RBX else None))"
  | "partial_reg R_CL = (\<lambda>size. Some None)"
  | "partial_reg R_CH = (\<lambda>size. Some None)"
  | "partial_reg R_CX = (\<lambda>size. Some None)"
  | "partial_reg R_ECX = (\<lambda>size. Some None)"
  | "partial_reg R_RCX = (\<lambda>size. Some (if size = 8 then Some R_CL else if size = 16 then Some R_CX
       else if size = 32 then Some R_ECX else if size = 64 then Some R_RCX else None))"
  | "partial_reg R_DL = (\<lambda>size. Some None)"
  | "partial_reg R_DH = (\<lambda>size. Some None)"
  | "partial_reg R_DX = (\<lambda>size. Some None)"
  | "partial_reg R_EDX = (\<lambda>size. Some None)"
  | "partial_reg R_RDX = (\<lambda>size. Some (if size = 8 then Some R_DL else if size = 16 then Some R_DX
       else if size = 32 then Some R_EDX else if size = 64 then Some R_RDX else None))"
  | "partial_reg R_SP = (\<lambda>size. Some None)"
  | "partial_reg R_ESP = (\<lambda>size. Some None)"
  | "partial_reg R_RSP = (\<lambda>size. Some (if size = 16 then Some R_SP else if size = 32 then Some R_ESP
       else if size = 64 then Some R_RSP else None))"
  | "partial_reg R_BP = (\<lambda>size. Some None)"
  | "partial_reg R_EBP = (\<lambda>size. Some None)"
  | "partial_reg R_RBP = (\<lambda>size. Some (if size = 16 then Some R_BP else if size = 32 then Some R_EBP
       else if size = 64 then Some R_RBP else None))"
  | "partial_reg R_SI = (\<lambda>size. Some None)"
  | "partial_reg R_ESI = (\<lambda>size. Some None)"
  | "partial_reg R_RSI = (\<lambda>size. Some (if size = 8 then Some R_SIL else if size = 16 then Some R_SI
       else if size = 32 then Some R_ESI else if size = 64 then Some R_RSI else None))"
  | "partial_reg R_DI = (\<lambda>size. Some None)"
  | "partial_reg R_EDI = (\<lambda>size. Some None)"
  | "partial_reg R_RDI = (\<lambda>size. Some (if size = 8 then Some R_DIL else if size = 16 then Some R_DI
       else if size = 32 then Some R_EDI else if size = 64 then Some R_RDI else None))"
  | "partial_reg R8 = (\<lambda>size. Some (if size = 8 then Some R8B else if size = 16 then Some R8W
       else if size = 32 then Some R8D else Some R8))"
  | "partial_reg R8B = (\<lambda>size. None)"
  | "partial_reg R8W = (\<lambda>size. None)"
  | "partial_reg R8D = (\<lambda>size. None)"
  | "partial_reg R9 = (\<lambda>size. Some (if size = 8 then Some R9B else if size = 16 then Some R9W
       else if size = 32 then Some R9D else Some R9))"
  | "partial_reg R9B = (\<lambda>size. None)"
  | "partial_reg R9W = (\<lambda>size. None)"
  | "partial_reg R9D = (\<lambda>size. None)"
  | "partial_reg R10 = (\<lambda>size. Some (if size = 8 then Some R10B else if size = 16 then Some R10W
       else if size = 32 then Some R10D else Some R10))"
  | "partial_reg R10B = (\<lambda>size. None)"
  | "partial_reg R10W = (\<lambda>size. None)"
  | "partial_reg R10D = (\<lambda>size. None)"
  | "partial_reg R11 = (\<lambda>size. Some (if size = 8 then Some R11B else if size = 16 then Some R11W
       else if size = 32 then Some R11D else Some R11))"
  | "partial_reg R11B = (\<lambda>size. None)"
  | "partial_reg R11W = (\<lambda>size. None)"
  | "partial_reg R11D = (\<lambda>size. None)"
  | "partial_reg R12 = (\<lambda>size. Some (if size = 8 then Some R12B else if size = 16 then Some R12W
       else if size = 32 then Some R12D else Some R12))"
  | "partial_reg R12B = (\<lambda>size. None)"
  | "partial_reg R12W = (\<lambda>size. None)"
  | "partial_reg R12D = (\<lambda>size. None)"
  | "partial_reg R13 = (\<lambda>size. Some (if size = 8 then Some R13B else if size = 16 then Some R13W
       else if size = 32 then Some R13D else Some R13))"
  | "partial_reg R13B = (\<lambda>size. None)"
  | "partial_reg R13W = (\<lambda>size. None)"
  | "partial_reg R13D = (\<lambda>size. None)"
  | "partial_reg R14 = (\<lambda>size. Some (if size = 8 then Some R14B else if size = 16 then Some R14W
       else if size = 32 then Some R14D else Some R14))"
  | "partial_reg R14B = (\<lambda>size. None)"
  | "partial_reg R14W = (\<lambda>size. None)"
  | "partial_reg R14D = (\<lambda>size. None)"
  | "partial_reg R15 = (\<lambda>size. Some (if size = 8 then Some R15B else if size = 16 then Some R15W
       else if size = 32 then Some R15D else Some R15))"
  | "partial_reg R15B = (\<lambda>size. None)"
  | "partial_reg R15W = (\<lambda>size. None)"
  | "partial_reg R15D = (\<lambda>size. None)"
  | "partial_reg R_RIP = (\<lambda>size. None)"
  | "partial_reg R_DIL = (\<lambda>size. None)"
  | "partial_reg R_SIL = (\<lambda>size. None)"

section \<open>Facts about the tables\<close>

text \<open>The names the parser knows are the printed names, \<open>RIP\<close> excepted.\<close>

definition plain_char :: "char \<Rightarrow> bool" where
  "plain_char c = (c \<in> set ''ABCDEFGHIJKLMNOPQRSTUVWXYZ0123456789'')"

lemma upper_plain: "plain_char c \<Longrightarrow> upper_ascii c = c"
  by (auto simp: plain_char_def upper_ascii_def)

lemma plain_not_lead: "plain_char c \<Longrightarrow> c \<noteq> CHR 0xC4 \<and> c \<noteq> CHR 0xC5"
  by (auto simp: plain_char_def)

lemma ToUpper_plain: "list_all plain_char s \<Longrightarrow> ToUpper s = s"
  by (induction s rule: ToUpper.induct) (auto simp: upper_plain plain_not_lead)

lemma String_plain: "list_all plain_char (reg_String r)"
  by (cases r) (simp_all add: plain_char_def)

lemma ToUpper_String [simp]: "ToUpper (reg_String r) = reg_String r"
  by (rule ToUpper_plain[OF String_plain])

lemma distinct_reg_names: "distinct (map fst reg_names)"
  by (simp add: reg_names_def)

lemma in_reg_names: "(s, r) \<in> set reg_names \<longleftrightarrow> s = reg_String r \<and> r \<noteq> R_RIP"
  by (cases r) (auto simp: reg_names_def)

lemma lookup_reg_names: "map_of reg_names s = Some r \<longleftrightarrow> s = reg_String r \<and> r \<noteq> R_RIP"
  by (simp add: map_of_eq_Some_iff[OF distinct_reg_names] in_reg_names)

text \<open>What the encoder needs of a register: its byte, its width and whether it forces a REX prefix.\<close>

definition reg_key :: "Register \<Rightarrow> byte option \<times> int option \<times> bool option" where
  "reg_key r = (reg_byte r, Width r, needREX r)"

lemma distinct_reg_keys: "distinct (map reg_key all_regs)"
  by (simp add: all_regs_def reg_key_def needREX_def)

text \<open>The full register, the width and the neighbours.\<close>

lemma fullReg_None [reg_tables]: "fullReg r = None \<longleftrightarrow> r = R_RIP"
  by (cases r) auto

lemma Width_None [reg_tables]: "Width r = None \<longleftrightarrow> r = R_RIP"
  by (cases r) auto

lemma Width_range: "Width r = Some w \<Longrightarrow> w \<in> {8, 16, 32, 64}"
  by (cases r) auto

lemma fullReg_full: "fullReg r = Some f \<Longrightarrow> fullReg f = Some f \<and> Width f = Some 64"
  by (cases r) auto

lemma Width_full: "Width r = Some 64 \<Longrightarrow> fullReg r = Some r"
  by (cases r) auto

lemma brother8_sym:
  "brother8 r = Some b \<Longrightarrow>
   brother8 b = Some r \<and> fullReg b = fullReg r \<and> Width r = Some 8 \<and> Width b = Some 8 \<and> b \<noteq> r"
  by (cases r) auto

text \<open>An 8-bit register shares its full register with its brother and no other 8-bit register.\<close>

lemma same_full8:
  assumes "Width r = Some 8" "Width s = Some 8" "fullReg r = fullReg s"
  shows "s = r \<or> brother8 r = Some s"
  using assms by (cases r; simp) (cases s; simp)+

lemma partial_reg_some:
  "partial_reg f n = Some (Some p) \<Longrightarrow> n \<in> {8, 16, 32, 64} \<Longrightarrow>
   fullReg p = Some f \<and> Width p = Some n \<and> fullReg f = Some f"
  by (cases f) (auto split: if_splits)

lemma partial_reg_of:
  "fullReg r = Some f \<Longrightarrow> Width r = Some n \<Longrightarrow> n \<noteq> 8 \<Longrightarrow> partial_reg f n = Some (Some r)"
  by (cases r) auto

lemma partial_reg_full: "fullReg f = Some f \<Longrightarrow> partial_reg f n \<noteq> None"
  by (cases f) auto

lemma subRegisters8_narrow: "Width r = Some 8 \<Longrightarrow> subRegisters8 r = Some (Some [r])"
  by (simp add: subRegisters8_def)

lemma subRegisters8_wide:
  "fullReg r = Some f \<Longrightarrow> Width r \<noteq> Some 8 \<Longrightarrow>
   subRegisters8 r = Some (if f \<in> {R_RSP, R_RBP} then None
     else Some (filter (\<lambda>s. Width s = Some 8 \<and> fullReg s = Some f) all_regs))"
  by (cases r) (auto simp: subRegisters8_def sub8_table_def all_regs_def)

section \<open>Properties\<close>

text \<open>Parsing a register name succeeds exactly when the name, case folded, is the printed name
  of a register other than RIP, and then gives that register: the parser inverts the printer and
  accepts nothing else.\<close>

theorem ParseReg_iff: "ParseReg s = Inr r \<longleftrightarrow> ToUpper s = reg_String r \<and> r \<noteq> R_RIP"
  by (cases "map_of reg_names (ToUpper s)") (auto simp: ParseReg_def lookup_reg_names[symmetric])

text \<open>The machine encoding is unambiguous: no two registers agree on the register byte, the
  width and the need for a REX prefix, which is all an instruction encoding records of a register
  (AH--DH and the REX-only DIL, SIL share a byte and a width and differ in the prefix only).\<close>

theorem reg_encoding_unambiguous: "inj (\<lambda>r. (reg_byte r, Width r, needREX r))"
  using distinct_reg_keys all_regs_UNIV by (auto simp: distinct_map inj_on_def reg_key_def)

end
