(* ===== verification/RegAlloc.thy ===== *)
theory RegAlloc
  imports Register
begin

text \<open>
  The register file of the assembler, \<open>regalloc.go\<close>: which machine registers are in use, and at
  what width.  The file keeps one entry per 64-bit register and one per 8-bit register; a 16-, 32-
  or 64-bit register in use is recorded in its full register's entry with its size, an 8-bit one in
  its own entry and, with size 8, in the full register's.

  The contract of the file is the locale \<open>register_pool\<close>: the set of registers handed out, of which
  no two share bits.  It is interpreted on the model at the end, and the properties follow from it.
\<close>

section \<open>State\<close>

record rstate =
  inuse :: bool
  rsize :: int

text \<open>The Go map \<open>Registers.rs\<close>; dereferencing a missing entry panics (\<open>None\<close>).\<close>

type_synonym regfile = "Register \<Rightarrow> rstate option"

definition managed :: "Register list" where
  "managed = [R_AL, R_AH, R_RAX, R_BL, R_BH, R_RBX, R_CL, R_CH, R_RCX, R_DL, R_DH, R_RDX, R_RSP,
     R_RBP, R_RSI, R_SIL, R_RDI, R_DIL, R8B, R8, R9B, R9, R10B, R10, R11B, R11, R12B, R12, R13B,
     R13, R14B, R14, R15B, R15]"

definition NewRegisters :: regfile where
  "NewRegisters = map_of (map (\<lambda>r. (r, \<lparr>inuse = False, rsize = 0\<rparr>)) managed)"

text \<open>The allocation orders.\<close>

definition regs8 :: "Register list" where
  "regs8 = [R_BL, R_CL, R_DL, R_AL, R8B, R9B, R10B, R11B, R12B, R13B, R14B, R15B]"

definition func_arg_regs :: "Register list" where
  "func_arg_regs = [R9, R8, R_RCX, R_RDX, R_RSI, R_RDI, R_RAX]"

definition callee_saved :: "Register list" where
  "callee_saved = [R_RBX, R12, R13, R14, R15, R_RBP, R_RSP]"

definition other_regs :: "Register list" where
  "other_regs = [R10, R11]"

definition caller_saved :: "Register list" where
  "caller_saved = [R_RAX, R_RCX, R_RDX, R_RSI, R_RDI, R8, R9, R10, R11]"

definition regs64 :: "Register list" where
  "regs64 = other_regs @ callee_saved @ func_arg_regs"

section \<open>Operations\<close>

definition set_inuse :: "Register \<Rightarrow> bool \<Rightarrow> regfile \<Rightarrow> regfile option" where
  "set_inuse r b rs = do { st \<leftarrow> rs r; Some (rs(r \<mapsto> st\<lparr>inuse := b\<rparr>)) }"

definition set_size :: "Register \<Rightarrow> int \<Rightarrow> regfile \<Rightarrow> regfile option" where
  "set_size r n rs = do { st \<leftarrow> rs r; Some (rs(r \<mapsto> st\<lparr>rsize := n\<rparr>)) }"

text \<open>The two assignments \<open>rs.rs[r].inuse = true; rs.rs[r].size = n\<close>.\<close>

definition occupy :: "Register \<Rightarrow> int \<Rightarrow> regfile \<Rightarrow> regfile option" where
  "occupy r n rs = do { rs \<leftarrow> set_inuse r True rs; set_size r n rs }"

text \<open>\<open>unused8\<close>: the loop over \<open>regs8\<close>; the inner \<open>None\<close> is \<open>(0, false)\<close>.\<close>

fun unused8_in :: "Register list \<Rightarrow> regfile \<Rightarrow> Register option option" where
  "unused8_in [] rs = Some None"
| "unused8_in (r # ls) rs = do {
     st \<leftarrow> rs r;
     if \<not> inuse st then do {
       f \<leftarrow> fullReg r;
       full \<leftarrow> rs f;
       if \<not> inuse full \<or> (inuse full \<and> rsize full = 8) then Some (Some r) else unused8_in ls rs }
     else unused8_in ls rs }"

definition unused8 :: "regfile \<Rightarrow> Register option option" where
  "unused8 rs = unused8_in regs8 rs"

text \<open>The loop of \<open>Get\<close> over \<open>regs64\<close>.\<close>

fun get_wide :: "int \<Rightarrow> Register list \<Rightarrow> regfile \<Rightarrow> (Register option \<times> regfile) option" where
  "get_wide n [] rs = Some (None, rs)"
| "get_wide n (r # ls) rs = do {
     st \<leftarrow> rs r;
     if \<not> inuse st then do {
       pr \<leftarrow> partial_reg r n;
       (case pr of
          Some p \<Rightarrow> do { rs \<leftarrow> occupy r n rs; Some (Some p, rs) }
        | None \<Rightarrow> get_wide n ls rs) }
     else get_wide n ls rs }"

definition Get :: "int \<Rightarrow> regfile \<Rightarrow> (Register option \<times> regfile) option" where
  "Get n rs =
     (if n = 8 then do {
        u \<leftarrow> unused8 rs;
        (case u of
           None \<Rightarrow> Some (None, rs)
         | Some r \<Rightarrow> do {
             rs \<leftarrow> occupy r n rs;
             f \<leftarrow> fullReg r;
             rs \<leftarrow> occupy f n rs;
             Some (Some r, rs) }) }
      else get_wide n regs64 rs)"

definition InUse :: "Register \<Rightarrow> regfile \<Rightarrow> bool option" where
  "InUse r rs = do {
     f \<leftarrow> fullReg r;
     w \<leftarrow> Width r;
     if w = 8 then do {
       st \<leftarrow> rs r;
       if inuse st then Some True
       else do { full \<leftarrow> rs f; Some (inuse full \<and> rsize full \<noteq> 8) } }
     else do { full \<leftarrow> rs f; Some (inuse full) } }"

fun inuse_of :: "Register list \<Rightarrow> regfile \<Rightarrow> Register list option" where
  "inuse_of [] rs = Some []"
| "inuse_of (s # ss) rs = do {
     st \<leftarrow> rs s;
     rest \<leftarrow> inuse_of ss rs;
     Some (if inuse st then s # rest else rest) }"

definition Conflicts :: "Register \<Rightarrow> regfile \<Rightarrow> Register list option" where
  "Conflicts r rs = do {
     f \<leftarrow> fullReg r;
     full \<leftarrow> rs f;
     if \<not> inuse full then Some []
     else if rsize full = 8 then do {
       sub \<leftarrow> subRegisters8 r;
       (case sub of None \<Rightarrow> None | Some subrs \<Rightarrow> inuse_of subrs rs) }
     else do {
       pr \<leftarrow> partial_reg f (rsize full);
       (case pr of None \<Rightarrow> None | Some p \<Rightarrow> Some [p]) } }"

definition Release :: "Register \<Rightarrow> regfile \<Rightarrow> regfile option" where
  "Release r rs = do {
     w \<leftarrow> Width r;
     if w = 8 then do {
       rs \<leftarrow> set_inuse r False rs;
       f \<leftarrow> fullReg r;
       (case brother8 r of
          Some b \<Rightarrow> do {
            bst \<leftarrow> rs b;
            if inuse bst then set_inuse f True rs else set_inuse f False rs }
        | None \<Rightarrow> set_inuse f False rs) }
     else do { f \<leftarrow> fullReg r; set_inuse f False rs } }"

definition Use :: "Register \<Rightarrow> regfile \<Rightarrow> (bool \<times> regfile) option" where
  "Use r rs = do {
     w \<leftarrow> Width r;
     f \<leftarrow> fullReg r;
     if w = 8 then do {
       st \<leftarrow> rs r;
       if \<not> inuse st then do {
         full \<leftarrow> rs f;
         if \<not> inuse full \<or> (inuse full \<and> rsize full = 8) then do {
           rs \<leftarrow> occupy r w rs;
           rs \<leftarrow> occupy f w rs;
           Some (True, rs) }
         else Some (False, rs) }
       else Some (False, rs) }
     else do {
       full \<leftarrow> rs f;
       if \<not> inuse full then do { rs \<leftarrow> occupy f w rs; Some (True, rs) }
       else Some (False, rs) } }"

section \<open>What the file records\<close>

text \<open>
  \<open>busy\<close> and \<open>size_of\<close> read an entry.  \<open>regs_ok\<close> is the invariant: every 8-bit and 64-bit register
  has an entry; an 8-bit register in use has its full register in use at size 8; a full register in
  use at size 8 has an 8-bit part in use, and at any other size has a sub-register of that size.
\<close>

definition busy :: "regfile \<Rightarrow> Register \<Rightarrow> bool" where
  "busy rs r = (case rs r of None \<Rightarrow> False | Some st \<Rightarrow> inuse st)"

definition size_of :: "regfile \<Rightarrow> Register \<Rightarrow> int" where
  "size_of rs r = (case rs r of None \<Rightarrow> 0 | Some st \<Rightarrow> rsize st)"

definition part8 :: "Register \<Rightarrow> Register \<Rightarrow> bool" where
  "part8 r f \<longleftrightarrow> Width r = Some 8 \<and> fullReg r = Some f"

definition ok_entries :: "regfile \<Rightarrow> bool" where
  "ok_entries rs \<longleftrightarrow> (\<forall>r. rs r = None \<longleftrightarrow> Width r \<noteq> Some 8 \<and> Width r \<noteq> Some 64)"

definition ok_narrow :: "regfile \<Rightarrow> bool" where
  "ok_narrow rs \<longleftrightarrow> (\<forall>r f. part8 r f \<and> busy rs r \<longrightarrow> busy rs f \<and> size_of rs f = 8)"

definition ok_wide :: "regfile \<Rightarrow> bool" where
  "ok_wide rs \<longleftrightarrow> (\<forall>f. Width f = Some 64 \<and> busy rs f \<longrightarrow>
     (size_of rs f = 8 \<and> (\<exists>r. part8 r f \<and> busy rs r)) \<or>
     (size_of rs f \<in> {16, 32, 64} \<and> (\<exists>p. partial_reg f (size_of rs f) = Some (Some p))))"

definition regs_ok :: "regfile \<Rightarrow> bool" where
  "regs_ok rs \<longleftrightarrow> ok_entries rs \<and> ok_narrow rs \<and> ok_wide rs"

definition overlap :: "Register \<Rightarrow> Register \<Rightarrow> bool" where
  "overlap r s \<longleftrightarrow> fullReg r = fullReg s \<and> (r = s \<or> Width r \<noteq> Some 8 \<or> Width s \<noteq> Some 8)"

definition held :: "regfile \<Rightarrow> Register set" where
  "held rs = {r. \<exists>f. fullReg r = Some f \<and>
     (if Width r = Some 8 then busy rs r else busy rs f \<and> Width r = Some (size_of rs f))}"

lemma set_inuse_eq: "set_inuse r b rs = map_option (\<lambda>st. rs(r \<mapsto> st\<lparr>inuse := b\<rparr>)) (rs r)"
  by (cases "rs r") (simp_all add: set_inuse_def)

lemma occupy_eq: "occupy r n rs = map_option (\<lambda>st. rs(r \<mapsto> \<lparr>inuse = True, rsize = n\<rparr>)) (rs r)"
  by (cases "rs r") (auto simp: occupy_def set_inuse_def set_size_def)

lemma busy_upd [simp]:
  "busy (rs(r \<mapsto> st)) s = (if s = r then inuse st else busy rs s)"
  "size_of (rs(r \<mapsto> st)) s = (if s = r then rsize st else size_of rs s)"
  by (simp_all add: busy_def size_of_def)

lemma part8_full: "part8 r f \<Longrightarrow> Width f = Some 64 \<and> fullReg f = Some f \<and> r \<noteq> f"
  using fullReg_full[of r f] by (auto simp: part8_def)

lemma part8_unique: "part8 r f \<Longrightarrow> part8 r g \<longleftrightarrow> g = f"
  by (auto simp: part8_def)

lemma not_part8: "Width f = Some 64 \<Longrightarrow> \<not> part8 f g"
  by (simp add: part8_def)

lemma register_shape:
  obtains (narrow) g where "part8 r g" | (wide) g where "fullReg r = Some g" "Width r \<noteq> Some 8"
  | (rip) "r = R_RIP"
  by (cases "fullReg r") (auto simp: part8_def fullReg_None)

lemma held_narrow: "part8 r g \<Longrightarrow> r \<in> held rs \<longleftrightarrow> busy rs r"
  by (simp add: held_def part8_def)

lemma held_wide: "fullReg r = Some g \<Longrightarrow> Width r \<noteq> Some 8 \<Longrightarrow>
    r \<in> held rs \<longleftrightarrow> busy rs g \<and> Width r = Some (size_of rs g)"
  by (simp add: held_def)

lemma held_rip [simp]: "R_RIP \<notin> held rs"
  by (simp add: held_def)

lemma part8_not_wide: "part8 r g \<Longrightarrow> fullReg s = Some f \<Longrightarrow> r \<noteq> f"
  using fullReg_full[of s f] by (auto simp: part8_def)

lemma take8:
  assumes ok: "regs_ok rs" and r: "part8 r f"
    and free: "\<not> busy rs r" "\<not> busy rs f \<or> size_of rs f = 8"
  defines "rs' \<equiv> rs(r \<mapsto> \<lparr>inuse = True, rsize = 8\<rparr>, f \<mapsto> \<lparr>inuse = True, rsize = 8\<rparr>)"
  shows "regs_ok rs' \<and> held rs' = insert r (held rs) \<and> (\<forall>h \<in> held rs. \<not> overlap r h)"
proof (intro conjI)
  note f = part8_full[OF r]
  have "ok_entries rs'"
    using ok r f unfolding regs_ok_def ok_entries_def rs'_def by (auto simp: part8_def)
  moreover have "ok_narrow rs'"
    unfolding ok_narrow_def
  proof (intro allI impI)
    fix s g assume s: "part8 s g \<and> busy rs' s"
    then have "s \<noteq> f" using f not_part8 by blast
    with s ok have "s \<noteq> r \<Longrightarrow> busy rs g \<and> size_of rs g = 8"
      by (auto simp: rs'_def regs_ok_def ok_narrow_def)
    with s r part8_unique show "busy rs' g \<and> size_of rs' g = 8"
      by (auto simp: rs'_def)
  qed
  moreover have "ok_wide rs'"
    unfolding ok_wide_def
  proof (intro allI impI)
    fix g assume g: "Width g = Some 64 \<and> busy rs' g"
    then have "g \<noteq> r" using r by (auto simp: part8_def)
    show "size_of rs' g = 8 \<and> (\<exists>r. part8 r g \<and> busy rs' r) \<or>
      size_of rs' g \<in> {16, 32, 64} \<and> (\<exists>p. partial_reg g (size_of rs' g) = Some (Some p))"
    proof (cases "g = f")
      case True
      then show ?thesis using r by (auto simp: rs'_def)
    next
      case False
      with g \<open>g \<noteq> r\<close> ok show ?thesis by (fastforce simp: rs'_def regs_ok_def ok_wide_def)
    qed
  qed
  ultimately show "regs_ok rs'" by (simp add: regs_ok_def)
  show "held rs' = insert r (held rs)"
  proof (rule set_eqI)
    fix s
    show "s \<in> held rs' \<longleftrightarrow> s \<in> insert r (held rs)"
    proof (cases s rule: register_shape)
      case (narrow g)
      then show ?thesis using part8_not_wide[OF narrow, of f f] f
        by (simp add: held_narrow rs'_def)
    next
      case (wide g)
      then have "s \<noteq> r" "g \<noteq> r" using r part8_not_wide[OF r] by (auto simp: part8_def)
      with wide free show ?thesis by (auto simp: held_wide rs'_def)
    qed (use r in \<open>auto simp: part8_def\<close>)
  qed
  show "\<forall>h \<in> held rs. \<not> overlap r h"
  proof
    fix h assume h: "h \<in> held rs"
    show "\<not> overlap r h"
    proof (cases h rule: register_shape)
      case (narrow g)
      with h free r show ?thesis by (auto simp: held_narrow overlap_def part8_def)
    next
      case (wide g)
      with h have "busy rs g" "Width h = Some (size_of rs g)" by (auto simp: held_wide)
      with wide free r show ?thesis by (auto simp: overlap_def part8_def)
    qed (use h in simp)
  qed
qed

lemma take_wide:
  assumes ok: "regs_ok rs" and f: "partial_reg f n = Some (Some p)" "n \<in> {16, 32, 64}"
    and free: "\<not> busy rs f"
  defines "rs' \<equiv> rs(f \<mapsto> \<lparr>inuse = True, rsize = n\<rparr>)"
  shows "regs_ok rs' \<and> held rs' = insert p (held rs) \<and> (\<forall>h \<in> held rs. \<not> overlap p h)"
proof (intro conjI)
  have p: "fullReg p = Some f" "Width p = Some n" "fullReg f = Some f"
    using partial_reg_some[OF f(1)] f(2) by auto
  then have w: "Width f = Some 64" using fullReg_full by blast
  have no8: "\<not> busy rs r" if "part8 r f" for r
    using ok that free by (auto simp: regs_ok_def ok_narrow_def)
  have "ok_entries rs'"
    using ok w unfolding regs_ok_def ok_entries_def rs'_def by auto
  moreover have "ok_narrow rs'"
    using ok no8 w not_part8 unfolding regs_ok_def ok_narrow_def rs'_def by auto
  moreover have "ok_wide rs'"
    unfolding ok_wide_def
  proof (intro allI impI)
    fix g assume g: "Width g = Some 64 \<and> busy rs' g"
    show "size_of rs' g = 8 \<and> (\<exists>r. part8 r g \<and> busy rs' r) \<or>
      size_of rs' g \<in> {16, 32, 64} \<and> (\<exists>p. partial_reg g (size_of rs' g) = Some (Some p))"
    proof (cases "g = f")
      case True
      then show ?thesis using f by (auto simp: rs'_def)
    next
      case False
      with g ok show ?thesis by (fastforce simp: rs'_def regs_ok_def ok_wide_def)
    qed
  qed
  ultimately show "regs_ok rs'" by (simp add: regs_ok_def)
  have p8: "Width p \<noteq> Some 8" using p f(2) by auto
  have p8: "Width p \<noteq> Some 8" using p f(2) by auto
  show "held rs' = insert p (held rs)"
  proof (rule set_eqI)
    fix s
    show "s \<in> held rs' \<longleftrightarrow> s \<in> insert p (held rs)"
    proof (cases s rule: register_shape)
      case (narrow g)
      then have "s \<noteq> p" "s \<noteq> f" using p8 w by (auto simp: part8_def)
      then show ?thesis by (simp add: held_narrow[OF narrow] rs'_def)
    next
      case (wide g)
      have "g = f \<Longrightarrow> Width s = Some n \<Longrightarrow> s = p"
        using partial_reg_of[of s g n] wide f by auto
      with wide p free show ?thesis by (auto simp: held_wide rs'_def)
    qed (use p in auto)
  qed
  show "\<forall>h \<in> held rs. \<not> overlap p h"
  proof
    fix h assume h: "h \<in> held rs"
    show "\<not> overlap p h"
    proof (cases h rule: register_shape)
      case (narrow g)
      with h no8[of h] p show ?thesis by (auto simp: held_narrow overlap_def part8_def)
    next
      case (wide g)
      with h have "busy rs g" by (auto simp: held_wide)
      with wide free p show ?thesis by (auto simp: overlap_def)
    qed (use h in simp)
  qed
qed

text \<open>Freeing.\<close>

lemma drop8:
  fixes st :: rstate
  assumes ok: "regs_ok rs" and r: "part8 r f" and held: "busy rs r"
  defines "rs' \<equiv> rs(r \<mapsto> st\<lparr>inuse := False\<rparr>,
     f \<mapsto> \<lparr>inuse = (\<exists>s. part8 s f \<and> s \<noteq> r \<and> busy rs s), rsize = 8\<rparr>)"
  shows "regs_ok rs' \<and> held rs' = held rs - {r}"
proof (intro conjI)
  note f = part8_full[OF r]
  have busyf: "busy rs f" "size_of rs f = 8"
    using ok r held by (auto simp: regs_ok_def ok_narrow_def)
  have b: "busy rs' s \<longleftrightarrow> s \<noteq> r \<and> busy rs s" if "part8 s g" for s g
    using part8_not_wide[OF that, of f f] f by (simp add: rs'_def)
  have "ok_entries rs'"
    using ok r f unfolding regs_ok_def ok_entries_def rs'_def by (auto simp: part8_def)
  moreover have "ok_narrow rs'"
    unfolding ok_narrow_def
  proof (intro allI impI)
    fix s g assume s: "part8 s g \<and> busy rs' s"
    with b have "s \<noteq> r" "busy rs s" by auto
    with s ok have "busy rs g \<and> size_of rs g = 8" by (auto simp: regs_ok_def ok_narrow_def)
    moreover have "g \<noteq> r" using s r part8_full part8_not_wide by blast
    ultimately show "busy rs' g \<and> size_of rs' g = 8"
      using s \<open>s \<noteq> r\<close> \<open>busy rs s\<close> by (auto simp: rs'_def)
  qed
  moreover have "ok_wide rs'"
    unfolding ok_wide_def
  proof (intro allI impI)
    fix g assume g: "Width g = Some 64 \<and> busy rs' g"
    then have "g \<noteq> r" using r by (auto simp: part8_def)
    show "size_of rs' g = 8 \<and> (\<exists>r. part8 r g \<and> busy rs' r) \<or>
      size_of rs' g \<in> {16, 32, 64} \<and> (\<exists>p. partial_reg g (size_of rs' g) = Some (Some p))"
    proof (cases "g = f")
      case True
      with g b show ?thesis by (auto simp: rs'_def)
    next
      case False
      with g \<open>g \<noteq> r\<close> ok have "size_of rs g = 8 \<and> (\<exists>r. part8 r g \<and> busy rs r) \<or>
        size_of rs g \<in> {16, 32, 64} \<and> (\<exists>p. partial_reg g (size_of rs g) = Some (Some p))"
        by (auto simp: rs'_def regs_ok_def ok_wide_def)
      moreover have "busy rs' s" if "part8 s g" "busy rs s" for s
        using that b False r part8_unique by blast
      moreover have "size_of rs' g = size_of rs g"
        using False \<open>g \<noteq> r\<close> by (simp add: rs'_def)
      ultimately show ?thesis by auto
    qed
  qed
  ultimately show "regs_ok rs'" by (simp add: regs_ok_def)
  show "held rs' = held rs - {r}"
  proof (rule set_eqI)
    fix s
    show "s \<in> held rs' \<longleftrightarrow> s \<in> held rs - {r}"
    proof (cases s rule: register_shape)
      case (narrow g)
      then show ?thesis by (auto simp: held_narrow b)
    next
      case (wide g)
      then have "s \<noteq> r" "g \<noteq> r" using r part8_not_wide[OF r] by (auto simp: part8_def)
      with wide busyf show ?thesis by (auto simp: held_wide rs'_def)
    qed simp
  qed
qed

lemma drop_wide:
  fixes st :: rstate
  assumes ok: "regs_ok rs" and f: "fullReg p = Some f" "Width p \<noteq> Some 8" and held: "p \<in> held rs"
  defines "rs' \<equiv> rs(f \<mapsto> st\<lparr>inuse := False\<rparr>)"
  shows "regs_ok rs' \<and> held rs' = held rs - {p}"
proof (intro conjI)
  have b: "busy rs f" "Width p = Some (size_of rs f)" using held f by (auto simp: held_wide)
  have w: "Width f = Some 64" "fullReg f = Some f" using f fullReg_full by auto
  have no8: "\<not> busy rs r" if "part8 r f" for r
    using ok that b f by (auto simp: regs_ok_def ok_narrow_def)
  have "ok_entries rs'"
    using ok w unfolding regs_ok_def ok_entries_def rs'_def by auto
  moreover have "ok_narrow rs'"
    using ok no8 w not_part8 unfolding regs_ok_def ok_narrow_def rs'_def by auto
  moreover have "ok_wide rs'"
    unfolding ok_wide_def
  proof (intro allI impI)
    fix g assume g: "Width g = Some 64 \<and> busy rs' g"
    then have "g \<noteq> f" by (auto simp: rs'_def)
    with g ok have "size_of rs g = 8 \<and> (\<exists>r. part8 r g \<and> busy rs r) \<or>
      size_of rs g \<in> {16, 32, 64} \<and> (\<exists>p. partial_reg g (size_of rs g) = Some (Some p))"
      by (auto simp: rs'_def regs_ok_def ok_wide_def)
    moreover have "busy rs' s" if "part8 s g" "busy rs s" for s
      using that w part8_not_wide[OF that(1) w(2)] by (simp add: rs'_def)
    moreover have "size_of rs' g = size_of rs g" using \<open>g \<noteq> f\<close> by (simp add: rs'_def)
    ultimately show "size_of rs' g = 8 \<and> (\<exists>r. part8 r g \<and> busy rs' r) \<or>
      size_of rs' g \<in> {16, 32, 64} \<and> (\<exists>p. partial_reg g (size_of rs' g) = Some (Some p))"
      by auto
  qed
  ultimately show "regs_ok rs'" by (simp add: regs_ok_def)
  show "held rs' = held rs - {p}"
  proof (rule set_eqI)
    fix s
    show "s \<in> held rs' \<longleftrightarrow> s \<in> held rs - {p}"
    proof (cases s rule: register_shape)
      case (narrow g)
      then have "s \<noteq> p" "s \<noteq> f" using f w by (auto simp: part8_def)
      then show ?thesis by (simp add: held_narrow[OF narrow] rs'_def)
    next
      case (wide g)
      have "g = f \<Longrightarrow> s \<in> held rs \<Longrightarrow> s = p"
        using partial_reg_of[of s f] partial_reg_of[of p f] wide f b by (auto simp: held_wide)
      with wide show ?thesis by (auto simp: held_wide rs'_def b f)
    qed simp
  qed
qed
section \<open>Each operation keeps the invariant\<close>

lemma entry: "regs_ok rs \<Longrightarrow> Width r = Some 8 \<or> Width r = Some 64 \<Longrightarrow>
    \<exists>st. rs r = Some st \<and> busy rs r = inuse st \<and> size_of rs r = rsize st"
  by (cases "rs r") (auto simp: regs_ok_def ok_entries_def busy_def size_of_def)

lemma regs8_table: "r \<in> set regs8 \<Longrightarrow> \<exists>f. part8 r f"
  by (auto simp: regs8_def part8_def)

lemma regs64_table: "f \<in> set regs64 \<longleftrightarrow> Width f = Some 64"
  by (cases f) (simp_all add: regs64_def other_regs_def callee_saved_def func_arg_regs_def)

lemma unused8_in_spec:
  assumes "regs_ok rs" "\<forall>r \<in> set ls. \<exists>f. part8 r f"
  shows "\<exists>u. unused8_in ls rs = Some u \<and>
    (case u of
       Some r \<Rightarrow> r \<in> set ls \<and> (\<exists>f. part8 r f \<and> \<not> busy rs r \<and> (\<not> busy rs f \<or> size_of rs f = 8))
     | None \<Rightarrow> \<forall>r \<in> set ls. \<forall>f. part8 r f \<longrightarrow> busy rs r \<or> (busy rs f \<and> size_of rs f \<noteq> 8))"
  using assms(2)
proof (induction ls)
  case Nil
  then show ?case by simp
next
  case (Cons r ls)
  then obtain f where r: "part8 r f" by auto
  obtain st where st: "rs r = Some st" "busy rs r = inuse st"
    using entry[OF assms(1), of r] r by (auto simp: part8_def)
  obtain fs where fs: "rs f = Some fs" "busy rs f = inuse fs" "size_of rs f = rsize fs"
    using entry[OF assms(1), of f] part8_full[OF r] by auto
  have f: "fullReg r = Some f" using r by (simp add: part8_def)
  obtain u where IH: "unused8_in ls rs = Some u"
    "case u of
       Some r \<Rightarrow> r \<in> set ls \<and> (\<exists>f. part8 r f \<and> \<not> busy rs r \<and> (\<not> busy rs f \<or> size_of rs f = 8))
     | None \<Rightarrow> \<forall>r \<in> set ls. \<forall>f. part8 r f \<longrightarrow> busy rs r \<or> (busy rs f \<and> size_of rs f \<noteq> 8)"
    using Cons by auto
  show ?case
  proof (cases "\<not> busy rs r \<and> (\<not> busy rs f \<or> size_of rs f = 8)")
    case True
    then have "unused8_in (r # ls) rs = Some (Some r)" using st fs f by simp
    with True r show ?thesis by auto
  next
    case False
    then have "unused8_in (r # ls) rs = Some u" using st fs f IH(1) by auto
    with False IH(2) r part8_unique[OF r] show ?thesis by (cases u) auto
  qed
qed

lemma get_wide_spec:
  assumes "regs_ok rs" "n \<in> {16, 32, 64}" "\<forall>f \<in> set ls. Width f = Some 64"
  shows "\<exists>u rs'. get_wide n ls rs = Some (u, rs') \<and>
    (case u of
       Some p \<Rightarrow> \<exists>f. f \<in> set ls \<and> partial_reg f n = Some (Some p) \<and> \<not> busy rs f \<and>
         rs' = rs(f \<mapsto> \<lparr>inuse = True, rsize = n\<rparr>)
     | None \<Rightarrow> rs' = rs \<and> (\<forall>f \<in> set ls. busy rs f \<or> partial_reg f n = Some None))"
  using assms(3)
proof (induction ls)
  case Nil
  then show ?case by simp
next
  case (Cons f ls)
  then have w: "Width f = Some 64" "fullReg f = Some f" using Width_full by auto
  obtain st where st: "rs f = Some st" "busy rs f = inuse st"
    using entry[OF assms(1), of f] w by auto
  obtain pr where pr: "partial_reg f n = Some pr" using partial_reg_full[OF w(2)] by blast
  show ?case
  proof (cases "busy rs f \<or> pr = None")
    case True
    then have "get_wide n (f # ls) rs = get_wide n ls rs" using st pr by auto
    with True Cons pr show ?thesis by (fastforce split: option.splits)
  next
    case False
    then show ?thesis using st pr by (auto simp: occupy_eq)
  qed
qed

lemma Get_ok:
  assumes ok: "regs_ok rs" and n: "n \<in> {8, 16, 32, 64}"
  shows "\<exists>u rs'. Get n rs = Some (u, rs') \<and> regs_ok rs' \<and>
    (case u of
       None \<Rightarrow> rs' = rs
     | Some p \<Rightarrow> Width p = Some n \<and> held rs' = insert p (held rs) \<and> (\<forall>h \<in> held rs. \<not> overlap p h))"
proof (cases "n = 8")
  case True
  obtain u where u: "unused8_in regs8 rs = Some u"
    "case u of
       Some r \<Rightarrow> r \<in> set regs8 \<and> (\<exists>f. part8 r f \<and> \<not> busy rs r \<and> (\<not> busy rs f \<or> size_of rs f = 8))
     | None \<Rightarrow> \<forall>r \<in> set regs8. \<forall>f. part8 r f \<longrightarrow> busy rs r \<or> (busy rs f \<and> size_of rs f \<noteq> 8)"
    using unused8_in_spec[OF ok, of regs8] regs8_table by blast
  show ?thesis
  proof (cases u)
    case None
    with u True ok show ?thesis by (simp add: Get_def unused8_def)
  next
    case (Some r)
    with u obtain f where r: "part8 r f" and free: "\<not> busy rs r" "\<not> busy rs f \<or> size_of rs f = 8"
      by auto
    obtain st fs where st: "rs r = Some st" "rs f = Some fs"
      using entry[OF ok, of r] entry[OF ok, of f] r part8_full[OF r] by (auto simp: part8_def)
    have "Get n rs = Some (Some r, rs(r \<mapsto> \<lparr>inuse = True, rsize = 8\<rparr>, f \<mapsto> \<lparr>inuse = True, rsize = 8\<rparr>))"
      using True Some u(1) st r part8_full[OF r]
      by (simp add: Get_def unused8_def occupy_eq part8_def)
    with take8[OF ok r free] True r show ?thesis by (simp add: part8_def)
  qed
next
  case False
  then have n': "n \<in> {16, 32, 64}" using n by auto
  obtain u rs' where u: "get_wide n regs64 rs = Some (u, rs')"
    "case u of
       Some p \<Rightarrow> \<exists>f. f \<in> set regs64 \<and> partial_reg f n = Some (Some p) \<and> \<not> busy rs f \<and>
         rs' = rs(f \<mapsto> \<lparr>inuse = True, rsize = n\<rparr>)
     | None \<Rightarrow> rs' = rs \<and> (\<forall>f \<in> set regs64. busy rs f \<or> partial_reg f n = Some None)"
    using get_wide_spec[OF ok n', of regs64] regs64_table by blast
  show ?thesis
  proof (cases u)
    case None
    with u False ok show ?thesis by (simp add: Get_def)
  next
    case (Some p)
    with u obtain f where f: "partial_reg f n = Some (Some p)" "\<not> busy rs f"
      "rs' = rs(f \<mapsto> \<lparr>inuse = True, rsize = n\<rparr>)" by auto
    with take_wide[OF ok f(1) n' f(2)] partial_reg_some[OF f(1)] n' u Some False
    show ?thesis by (auto simp: Get_def)
  qed
qed

text \<open>A busy full register means a held register that is part of it.\<close>

lemma busy_full_held:
  assumes ok: "regs_ok rs" and "busy rs f" "Width f = Some 64"
  shows "\<exists>h \<in> held rs. fullReg h = Some f \<and> (size_of rs f = 8 \<or> Width h \<noteq> Some 8)"
proof (cases "size_of rs f = 8")
  case True
  with assms obtain r where "part8 r f" "busy rs r" by (auto simp: regs_ok_def ok_wide_def)
  with True show ?thesis using held_narrow by (auto simp: part8_def)
next
  case False
  with assms obtain q where "partial_reg f (size_of rs f) = Some (Some q)" "size_of rs f \<in> {16,32,64}"
    by (auto simp: regs_ok_def ok_wide_def)
  with partial_reg_some[of f "size_of rs f" q] False
  have "fullReg q = Some f" "Width q = Some (size_of rs f)" "Width q \<noteq> Some 8" by auto
  with assms show ?thesis using held_wide[of q f rs] by auto
qed

text \<open>When a register is blocked: some held register shares bits with it.\<close>

lemma blocked_narrow:
  assumes ok: "regs_ok rs" and r: "part8 r f"
  shows "busy rs r \<or> (busy rs f \<and> size_of rs f \<noteq> 8) \<longleftrightarrow> (\<exists>h \<in> held rs. overlap r h)"
proof
  assume "busy rs r \<or> (busy rs f \<and> size_of rs f \<noteq> 8)"
  then show "\<exists>h \<in> held rs. overlap r h"
  proof
    assume "busy rs r" then show ?thesis using held_narrow[OF r] by (auto simp: overlap_def)
  next
    assume "busy rs f \<and> size_of rs f \<noteq> 8"
    with busy_full_held[OF ok, of f] part8_full[OF r]
    obtain h where h: "h \<in> held rs" "fullReg h = Some f" "Width h \<noteq> Some 8" by auto
    then have "overlap r h" using r by (simp add: overlap_def part8_def)
    with h show ?thesis by blast
  qed
next
  assume "\<exists>h \<in> held rs. overlap r h"
  with take8[OF ok r] show "busy rs r \<or> (busy rs f \<and> size_of rs f \<noteq> 8)" by blast
qed

lemma blocked_wide:
  assumes ok: "regs_ok rs" and r: "fullReg r = Some f" "Width r \<noteq> Some 8"
  shows "busy rs f \<longleftrightarrow> (\<exists>h \<in> held rs. overlap r h)"
proof
  assume "busy rs f"
  with busy_full_held[OF ok this] fullReg_full[OF r(1)]
  obtain h where h: "h \<in> held rs" "fullReg h = Some f" by auto
  then have "overlap r h" using r by (simp add: overlap_def)
  with h show "\<exists>h \<in> held rs. overlap r h" by blast
next
  assume h: "\<exists>h \<in> held rs. overlap r h"
  obtain n where n: "Width r = Some n" "n \<in> {16, 32, 64}"
    using Width_range r fullReg_None Width_None by (cases "Width r") fastforce+
  then have "partial_reg f n = Some (Some r)" using partial_reg_of r by auto
  with take_wide[OF ok this n(2)] h show "busy rs f" by blast
qed

text \<open>\<open>Get\<close> fails only when every register of that size in the pool is blocked.\<close>

lemma Get_complete:
  assumes ok: "regs_ok rs" and none: "Get n rs = Some (None, rs')" and n: "n \<in> {8, 16, 32, 64}"
    and p: "Width p = Some n" "n = 8 \<Longrightarrow> p \<in> set regs8"
  shows "\<exists>h \<in> held rs. overlap p h"
proof -
  show ?thesis
  proof (cases "n = 8")
    case True
    obtain f where f: "part8 p f" using p True regs8_table by auto
    have "unused8_in regs8 rs = Some None"
      using none True unused8_in_spec[OF ok, of regs8] regs8_table
      by (auto simp: Get_def unused8_def bind_eq_Some_conv split: option.splits)
    then have "busy rs p \<or> (busy rs f \<and> size_of rs f \<noteq> 8)"
      using unused8_in_spec[OF ok, of regs8] regs8_table p True f by fastforce
    then show ?thesis using blocked_narrow[OF ok f] by blast
  next
    case False
    obtain f where f: "fullReg p = Some f" "Width f = Some 64"
      using p fullReg_full by (cases "fullReg p") (auto simp: fullReg_None Width_None)
    then have "partial_reg f n = Some (Some p)" using partial_reg_of p False by blast
    moreover have "get_wide n regs64 rs = Some (None, rs')" using none False by (simp add: Get_def)
    ultimately have "busy rs f"
      using get_wide_spec[OF ok, of n regs64] n False regs64_table f by fastforce
    then show ?thesis using blocked_wide[OF ok f(1)] p False by auto
  qed
qed

lemma Use_ok:
  assumes ok: "regs_ok rs" and r: "r \<noteq> R_RIP"
  shows "\<exists>rs'. Use r rs = Some ((\<forall>h \<in> held rs. \<not> overlap r h), rs') \<and> regs_ok rs' \<and>
    held rs' = (if \<forall>h \<in> held rs. \<not> overlap r h then insert r (held rs) else held rs)"
proof (cases r rule: register_shape)
  case (narrow f)
  note f = part8_full[OF narrow]
  obtain st fs where st: "rs r = Some st" "busy rs r = inuse st" and
    fs: "rs f = Some fs" "busy rs f = inuse fs" "size_of rs f = rsize fs"
    using entry[OF ok, of r] entry[OF ok, of f] narrow f by (auto simp: part8_def)
  show ?thesis
  proof (cases "\<not> busy rs r \<and> (\<not> busy rs f \<or> size_of rs f = 8)")
    case True
    let ?rs = "rs(r \<mapsto> \<lparr>inuse = True, rsize = 8\<rparr>, f \<mapsto> \<lparr>inuse = True, rsize = 8\<rparr>)"
    have "Use r rs = Some (True, ?rs)"
      using True st fs narrow f by (auto simp: Use_def occupy_eq part8_def)
    with take8[OF ok narrow] True show ?thesis by auto
  next
    case False
    have "Use r rs = Some (False, rs)"
      using False st fs narrow f by (auto simp: Use_def part8_def)
    moreover have "\<exists>h \<in> held rs. overlap r h" using False blocked_narrow[OF ok narrow] by blast
    ultimately show ?thesis using ok by auto
  qed
next
  case (wide f)
  then obtain n where n: "Width r = Some n" "n \<in> {16, 32, 64}"
    using Width_range r Width_None by (cases "Width r") fastforce+
  have w: "Width f = Some 64" "fullReg f = Some f" using wide fullReg_full by auto
  obtain fs where fs: "rs f = Some fs" "busy rs f = inuse fs"
    using entry[OF ok, of f] w by auto
  show ?thesis
  proof (cases "busy rs f")
    case True
    then have "Use r rs = Some (False, rs)" using fs wide n by (auto simp: Use_def)
    moreover have "\<exists>h \<in> held rs. overlap r h"
      using True blocked_wide[OF ok wide] by blast
    ultimately show ?thesis using ok by auto
  next
    case False
    have "partial_reg f n = Some (Some r)" using partial_reg_of wide n by auto
    moreover have "Use r rs = Some (True, rs(f \<mapsto> \<lparr>inuse = True, rsize = n\<rparr>))"
      using False fs wide n by (auto simp: Use_def occupy_eq)
    ultimately show ?thesis using take_wide[OF ok _ n(2) False] by auto
  qed
qed (use r in simp)

lemma InUse_ok:
  assumes ok: "regs_ok rs" and r: "r \<noteq> R_RIP"
  shows "InUse r rs = Some (\<exists>h \<in> held rs. overlap r h)"
proof (cases r rule: register_shape)
  case (narrow f)
  note f = part8_full[OF narrow]
  obtain st fs where st: "rs r = Some st" "busy rs r = inuse st" and
    fs: "rs f = Some fs" "busy rs f = inuse fs" "size_of rs f = rsize fs"
    using entry[OF ok, of r] entry[OF ok, of f] narrow f by (auto simp: part8_def)
  have "InUse r rs = Some (busy rs r \<or> (busy rs f \<and> size_of rs f \<noteq> 8))"
    using narrow st fs by (auto simp: InUse_def part8_def)
  also have "(busy rs r \<or> (busy rs f \<and> size_of rs f \<noteq> 8)) \<longleftrightarrow> (\<exists>h \<in> held rs. overlap r h)"
    by (rule blocked_narrow[OF ok narrow])
  finally show ?thesis .
next
  case (wide f)
  have w: "Width f = Some 64" "fullReg f = Some f" using wide fullReg_full by auto
  obtain fs where fs: "rs f = Some fs" "busy rs f = inuse fs"
    using entry[OF ok, of f] w by auto
  obtain n where n: "Width r = Some n" "n \<noteq> 8" using wide r Width_None by (cases "Width r") auto
  have "InUse r rs = Some (busy rs f)" using fs wide n by (simp add: InUse_def)
  moreover have "busy rs f \<longleftrightarrow> (\<exists>h \<in> held rs. overlap r h)"
    by (rule blocked_wide[OF ok wide])
  ultimately show ?thesis by simp
qed (use r in simp)

lemma inuse_of_filter:
  assumes "regs_ok rs" "\<forall>s \<in> set ss. Width s = Some 8"
  shows "inuse_of ss rs = Some (filter (busy rs) ss)"
  using assms(2)
proof (induction ss)
  case (Cons s ss)
  then obtain st where "rs s = Some st" "busy rs s = inuse st"
    using entry[OF assms(1), of s] by auto
  with Cons show ?case by simp
qed simp

text \<open>A held register that overlaps \<open>r\<close> lives in \<open>r\<close>'s full register, in 8-bit parts or whole.\<close>

lemma held_part:
  assumes ok: "regs_ok rs" and f: "fullReg r = Some f" and h: "h \<in> held rs" "overlap r h"
  shows "fullReg h = Some f \<and> busy rs f \<and> (size_of rs f = 8 \<longleftrightarrow> Width h = Some 8)"
proof (cases h rule: register_shape)
  case (narrow g)
  then have "g = f" using h f by (simp add: overlap_def part8_def)
  with narrow h ok show ?thesis
    by (auto simp: held_narrow regs_ok_def ok_narrow_def part8_def)
next
  case (wide g)
  then have "g = f" using h f by (simp add: overlap_def)
  with wide h show ?thesis by (auto simp: held_wide)
qed (use h in simp)

text \<open>\<open>subRegisters8\<close> of a register lists the 8-bit registers it shares bits with.\<close>

lemma subRegisters8_parts:
  assumes "fullReg r = Some f" "part8 s f"
  shows "\<exists>ss. subRegisters8 r = Some (Some ss) \<and> (\<forall>q. q \<in> set ss \<longleftrightarrow> part8 q f \<and> overlap r q)"
proof (cases "Width r = Some 8")
  case True
  then show ?thesis using assms(1) subRegisters8_narrow by (auto simp: part8_def overlap_def)
next
  case False
  have "f \<notin> {R_RSP, R_RBP}" using assms(2) by (cases s) (auto simp: part8_def)
  with subRegisters8_wide[OF assms(1) False] False assms(1) show ?thesis
    by (auto simp: part8_def all_regs_UNIV overlap_def)
qed

lemma Conflicts_split:
  assumes ok: "regs_ok rs" and f: "fullReg r = Some f" and split: "busy rs f" "size_of rs f = 8"
  shows "\<exists>cs. Conflicts r rs = Some cs \<and> set cs = {h \<in> held rs. overlap r h}"
proof -
  have w: "Width f = Some 64" using f fullReg_full by auto
  obtain fs where fs: "rs f = Some fs" "inuse fs" "rsize fs = 8"
    using entry[OF ok, of f] w split by auto
  obtain s where "part8 s f" using ok split w by (auto simp: regs_ok_def ok_wide_def)
  then obtain ss where ss: "subRegisters8 r = Some (Some ss)"
    "\<forall>q. q \<in> set ss \<longleftrightarrow> part8 q f \<and> overlap r q"
    using subRegisters8_parts[OF f] by blast
  then have "inuse_of ss rs = Some (filter (busy rs) ss)"
    using inuse_of_filter[OF ok, of ss] by (simp add: part8_def)
  then have "Conflicts r rs = Some (filter (busy rs) ss)"
    using f fs ss(1) by (simp add: Conflicts_def)
  moreover have "h \<in> set (filter (busy rs) ss) \<longleftrightarrow> h \<in> held rs \<and> overlap r h" for h
  proof
    assume "h \<in> set (filter (busy rs) ss)"
    then show "h \<in> held rs \<and> overlap r h" using ss(2) held_narrow by auto
  next
    assume h: "h \<in> held rs \<and> overlap r h"
    then have "part8 h f" using held_part[OF ok f] split by (auto simp: part8_def)
    with h ss(2) held_narrow show "h \<in> set (filter (busy rs) ss)" by auto
  qed
  ultimately show ?thesis by blast
qed

lemma Conflicts_whole:
  assumes ok: "regs_ok rs" and f: "fullReg r = Some f" and whole: "busy rs f" "size_of rs f \<noteq> 8"
  shows "\<exists>cs. Conflicts r rs = Some cs \<and> set cs = {h \<in> held rs. overlap r h}"
proof -
  have w: "Width f = Some 64" using f fullReg_full by auto
  obtain fs where fs: "rs f = Some fs" "inuse fs" "rsize fs = size_of rs f"
    using entry[OF ok, of f] w whole by auto
  obtain p where p: "partial_reg f (size_of rs f) = Some (Some p)" "size_of rs f \<in> {16, 32, 64}"
    using ok whole w by (auto simp: regs_ok_def ok_wide_def)
  then have pf: "fullReg p = Some f" "Width p = Some (size_of rs f)" "Width p \<noteq> Some 8"
    using partial_reg_some[OF p(1)] whole by auto
  have "Conflicts r rs = Some [p]" using f fs whole p by (simp add: Conflicts_def)
  moreover have "h = p \<longleftrightarrow> h \<in> held rs \<and> overlap r h" for h
  proof
    assume "h = p"
    then show "h \<in> held rs \<and> overlap r h"
      using pf whole f held_wide[OF pf(1,3)] by (auto simp: overlap_def)
  next
    assume h: "h \<in> held rs \<and> overlap r h"
    then have hf: "fullReg h = Some f" "Width h \<noteq> Some 8" using held_part[OF ok f] whole by auto
    then have "Width h = Some (size_of rs f)" using h held_wide[OF hf] by auto
    with partial_reg_of[OF hf(1)] p whole show "h = p" by auto
  qed
  ultimately show ?thesis by auto
qed

lemma Conflicts_ok:
  assumes ok: "regs_ok rs" and r: "r \<noteq> R_RIP"
  shows "\<exists>cs. Conflicts r rs = Some cs \<and> set cs = {h \<in> held rs. overlap r h}"
proof -
  obtain f where f: "fullReg r = Some f" using r fullReg_None by blast
  obtain fs where fs: "rs f = Some fs" "busy rs f = inuse fs"
    using entry[OF ok, of f] f fullReg_full by auto
  show ?thesis
  proof (cases "busy rs f")
    case False
    then show ?thesis using f fs held_part[OF ok f] by (auto simp: Conflicts_def)
  next
    case True
    then show ?thesis using Conflicts_split[OF ok f] Conflicts_whole[OF ok f] by blast
  qed
qed

lemma part8_brother: "part8 r f \<Longrightarrow> part8 s f \<Longrightarrow> s = r \<or> brother8 r = Some s"
  by (rule same_full8) (simp_all add: part8_def)

lemma Release_ok:
  assumes ok: "regs_ok rs" and r: "r \<in> held rs"
  shows "\<exists>rs'. Release r rs = Some rs' \<and> regs_ok rs' \<and> held rs' = held rs - {r}"
proof (cases r rule: register_shape)
  case (narrow f)
  note f = part8_full[OF narrow]
  have busy: "busy rs r" "busy rs f" "size_of rs f = 8"
    using r held_narrow[OF narrow] ok narrow by (auto simp: regs_ok_def ok_narrow_def)
  obtain st fs where st: "rs r = Some st" and fs: "rs f = Some fs" "rsize fs = 8" "inuse fs"
    using entry[OF ok, of r] entry[OF ok, of f] narrow f busy by (auto simp: part8_def)
  have fs': "fs\<lparr>inuse := x\<rparr> = \<lparr>inuse = x, rsize = 8\<rparr>" for x using fs by (cases fs) simp
  let ?other = "\<exists>s. part8 s f \<and> s \<noteq> r \<and> busy rs s"
  have "Release r rs = Some (rs(r \<mapsto> st\<lparr>inuse := False\<rparr>, f \<mapsto> \<lparr>inuse = ?other, rsize = 8\<rparr>))"
  proof (cases "brother8 r")
    case None
    then have no: "?other = False" using part8_brother[OF narrow] by auto
    have "Release r rs = Some (rs(r \<mapsto> st\<lparr>inuse := False\<rparr>, f \<mapsto> fs\<lparr>inuse := False\<rparr>))"
      using None st fs(1) f narrow by (auto simp: Release_def set_inuse_eq part8_def)
    then show ?thesis unfolding no fs' .
  next
    case (Some b)
    have b: "part8 b f" "b \<noteq> r" using brother8_sym[OF Some] narrow by (auto simp: part8_def)
    then have "b \<noteq> f" using part8_full[of b f] by blast
    note b = b this
    obtain bst where bst: "rs b = Some bst" "busy rs b = inuse bst"
      using entry[OF ok, of b] b by (auto simp: part8_def)
    have "?other \<longleftrightarrow> busy rs b"
      using part8_brother[OF narrow] b Some by auto
    moreover have "Release r rs =
        Some (rs(r \<mapsto> st\<lparr>inuse := False\<rparr>, f \<mapsto> fs\<lparr>inuse := inuse bst\<rparr>))"
      using Some st fs(1) f narrow b bst(1)
      by (auto simp: Release_def set_inuse_eq part8_def)
    ultimately show ?thesis unfolding fs' using bst by simp
  qed
  with drop8[OF ok narrow busy(1)] show ?thesis by blast
next
  case (wide f)
  then obtain fs where fs: "rs f = Some fs"
    using entry[OF ok, of f] fullReg_full by blast
  obtain n where n: "Width r = Some n" "n \<noteq> 8"
    using wide Width_None fullReg_None by (cases "Width r") auto
  then have "Release r rs = Some (rs(f \<mapsto> fs\<lparr>inuse := False\<rparr>))"
    using fs wide by (simp add: Release_def set_inuse_eq)
  with drop_wide[OF ok wide r] show ?thesis by blast
qed (use r in simp)

lemma New_ok: "regs_ok NewRegisters" "held NewRegisters = {}"
proof -
  have idle: "\<not> busy NewRegisters r" for r
    by (auto simp: busy_def NewRegisters_def map_of_map_restrict restrict_map_def split: option.split)
  have "NewRegisters r = None \<longleftrightarrow> Width r \<noteq> Some 8 \<and> Width r \<noteq> Some 64" for r
    by (cases r) (simp_all add: NewRegisters_def managed_def)
  with idle show "regs_ok NewRegisters"
    by (simp add: regs_ok_def ok_entries_def ok_narrow_def ok_wide_def)
  show "held NewRegisters = {}" using idle by (auto simp: held_def split: if_splits)
qed

section \<open>The contract\<close>

text \<open>
  A pool hands out resources that must not clash: acquiring gives one that clashes with none held,
  releasing a held one takes exactly it out.  \<open>acquired s r s'\<close> reads: from \<open>s\<close> the pool gives out
  \<open>r\<close> and is then \<open>s'\<close>.
\<close>

locale register_pool =
  fixes inv :: "'s \<Rightarrow> bool" and held_in :: "'s \<Rightarrow> 'r set" and clash :: "'r \<Rightarrow> 'r \<Rightarrow> bool"
    and acquired :: "'s \<Rightarrow> 'r \<Rightarrow> 's \<Rightarrow> bool" and released :: "'s \<Rightarrow> 'r \<Rightarrow> 's \<Rightarrow> bool"
  assumes acquire: "inv s \<Longrightarrow> acquired s r s' \<Longrightarrow>
      inv s' \<and> held_in s' = insert r (held_in s) \<and> (\<forall>h \<in> held_in s. \<not> clash r h)"
    and release: "inv s \<Longrightarrow> r \<in> held_in s \<Longrightarrow> released s r s' \<Longrightarrow>
      inv s' \<and> held_in s' = held_in s - {r}"
    and clash_sym: "clash r h \<Longrightarrow> clash h r"
    and clash_refl: "clash r r"
begin

lemma acquire_fresh: "inv s \<Longrightarrow> acquired s r s' \<Longrightarrow> r \<notin> held_in s"
  using acquire clash_refl by blast

lemma acquire_exclusive:
  assumes "inv s" "acquired s r s'" "pairwise (\<lambda>r h. \<not> clash r h) (held_in s)"
  shows "pairwise (\<lambda>r h. \<not> clash r h) (held_in s')"
  using acquire[OF assms(1,2)] assms(3) clash_sym by (auto simp: pairwise_insert)

lemma release_exclusive:
  assumes "inv s" "r \<in> held_in s" "released s r s'" "pairwise (\<lambda>r h. \<not> clash r h) (held_in s)"
  shows "pairwise (\<lambda>r h. \<not> clash r h) (held_in s')"
  using release[OF assms(1-3)] assms(4) by (auto simp: pairwise_def)

lemma acquire_release:
  assumes "inv s" "acquired s r s'" "released s' r s''"
  shows "held_in s'' = held_in s"
  using acquire[OF assms(1,2)] release[OF _ _ assms(3)] acquire_fresh[OF assms(1,2)] by auto

end

definition acquires :: "regfile \<Rightarrow> Register \<Rightarrow> regfile \<Rightarrow> bool" where
  "acquires rs r rs' \<longleftrightarrow>
     (\<exists>n \<in> {8, 16, 32, 64}. Get n rs = Some (Some r, rs')) \<or> Use r rs = Some (True, rs')"

definition releases :: "regfile \<Rightarrow> Register \<Rightarrow> regfile \<Rightarrow> bool" where
  "releases rs r rs' \<longleftrightarrow> Release r rs = Some rs'"

lemma Use_not_RIP: "Use R_RIP rs = None"
  by (simp add: Use_def)

interpretation pool: register_pool regs_ok held overlap acquires releases
proof
  fix rs r rs'
  assume ok: "regs_ok rs" and acq: "acquires rs r rs'"
  show "regs_ok rs' \<and> held rs' = insert r (held rs) \<and> (\<forall>h \<in> held rs. \<not> overlap r h)"
    using acq unfolding acquires_def
  proof
    assume "\<exists>n \<in> {8, 16, 32, 64}. Get n rs = Some (Some r, rs')"
    then obtain n where n: "n \<in> {8, 16, 32, 64}" "Get n rs = Some (Some r, rs')" by blast
    with Get_ok[OF ok n(1)] show ?thesis by auto
  next
    assume use: "Use r rs = Some (True, rs')"
    then have "r \<noteq> R_RIP" using Use_not_RIP by auto
    with Use_ok[OF ok this] use show ?thesis by auto
  qed
next
  fix rs r rs'
  assume "regs_ok rs" "r \<in> held rs" "releases rs r rs'"
  then show "regs_ok rs' \<and> held rs' = held rs - {r}"
    using Release_ok[of rs r] by (auto simp: releases_def)
qed (auto simp: overlap_def)

text \<open>The states a client can bring the file into: it acquires registers and releases held ones.\<close>

inductive reg_reachable :: "regfile \<Rightarrow> bool" where
  start: "reg_reachable NewRegisters"
| acquire: "reg_reachable rs \<Longrightarrow> acquires rs r rs' \<Longrightarrow> reg_reachable rs'"
| release: "reg_reachable rs \<Longrightarrow> r \<in> held rs \<Longrightarrow> releases rs r rs' \<Longrightarrow> reg_reachable rs'"

lemma reachable_ok: "reg_reachable rs \<Longrightarrow> regs_ok rs"
  by (induction rule: reg_reachable.induct) (auto dest: pool.acquire pool.release intro: New_ok)

section \<open>Properties\<close>

text \<open>C38. In every state reachable by getting, using and releasing registers, no two registers
  handed out share bits: the allocator never gives a register, or a part of one, to two owners.\<close>

theorem held_exclusive: "reg_reachable rs \<Longrightarrow> pairwise (\<lambda>r s. \<not> overlap r s) (held rs)"
proof (induction rule: reg_reachable.induct)
  case start
  show ?case by (simp add: New_ok pairwise_def)
next
  case (acquire rs r rs')
  then show ?case using pool.acquire_exclusive reachable_ok by blast
next
  case (release rs r rs')
  then show ?case using pool.release_exclusive reachable_ok by blast
qed

lemma acquires_first: "r \<noteq> R_RIP \<Longrightarrow> \<exists>rs. acquires NewRegisters r rs"
  using Use_ok[OF New_ok(1), of r] by (auto simp: New_ok acquires_def)

theorem held_exclusive_witness:
  "\<exists>rs. acquires NewRegisters R_BL rs \<and> pairwise (\<lambda>r s. \<not> overlap r s) (held rs)"
  using acquires_first[of R_BL] held_exclusive reg_reachable.intros by blast

text \<open>\<open>Get\<close> of 8, 16, 32 or 64 bits never panics; it gives a register of that width that
  overlaps nothing handed out, adds exactly it to what is handed out, and answers "none" (leaving
  the file unchanged) only when every register of that width in the pool is blocked.\<close>

theorem Get_correct:
  assumes "reg_reachable rs" "n \<in> {8, 16, 32, 64}"
  shows "\<exists>u rs'. Get n rs = Some (u, rs') \<and>
    (case u of
       Some r \<Rightarrow> Width r = Some n \<and> (\<forall>h \<in> held rs. \<not> overlap r h) \<and> held rs' = insert r (held rs)
     | None \<Rightarrow> rs' = rs \<and> (\<forall>p. Width p = Some n \<and> (n = 8 \<longrightarrow> p \<in> set regs8) \<longrightarrow>
         (\<exists>h \<in> held rs. overlap p h)))"
proof -
  note ok = reachable_ok[OF assms(1)]
  from Get_ok[OF ok assms(2)] obtain u rs' where u: "Get n rs = Some (u, rs')"
    "case u of None \<Rightarrow> rs' = rs
     | Some p \<Rightarrow> Width p = Some n \<and> held rs' = insert p (held rs) \<and> (\<forall>h \<in> held rs. \<not> overlap p h)"
    by blast
  show ?thesis
  proof (cases u)
    case None
    with u Get_complete[OF ok, of n rs'] assms(2) show ?thesis by auto
  qed (use u in auto)
qed

theorem Get_correct_witness: "\<exists>r rs. Get 32 NewRegisters = Some (Some r, rs) \<and> Width r = Some 32"
proof -
  have "Get 32 NewRegisters \<noteq> Some (None, NewRegisters)"
    by (simp add: Get_def regs64_def other_regs_def NewRegisters_def managed_def occupy_eq)
  with Get_correct[OF reg_reachable.start, of 32] show ?thesis by (auto split: option.splits)
qed

text \<open>C40. \<open>Use\<close> and \<open>Release\<close> implement the abstract set of registers handed out: \<open>Use r\<close> succeeds
  exactly when nothing handed out overlaps \<open>r\<close> and then adds \<open>r\<close>; releasing a register handed out
  removes exactly it (its 8-bit brother, if in use, stays in use).\<close>

theorem Use_Release_refine:
  assumes "reg_reachable rs" "r \<noteq> R_RIP"
  shows "(\<exists>rs'. Use r rs = Some (\<forall>h \<in> held rs. \<not> overlap r h, rs') \<and>
      held rs' = (if \<forall>h \<in> held rs. \<not> overlap r h then insert r (held rs) else held rs)) \<and>
    (r \<in> held rs \<longrightarrow> (\<exists>rs'. Release r rs = Some rs' \<and> held rs' = held rs - {r}))"
  using Use_ok[OF reachable_ok[OF assms(1)] assms(2)] Release_ok[OF reachable_ok[OF assms(1)]]
  by blast

theorem Use_Release_refine_witness:
  "\<exists>rs rs'. Use R_AH NewRegisters = Some (True, rs) \<and> held rs = {R_AH} \<and>
     Release R_AH rs = Some rs' \<and> held rs' = {}"
proof -
  obtain rs where rs: "Use R_AH NewRegisters = Some (True, rs)" "held rs = {R_AH}"
    using Use_Release_refine[OF reg_reachable.start, of R_AH] by (auto simp: New_ok)
  then have "reg_reachable rs"
    using reg_reachable.acquire[OF reg_reachable.start, of R_AH rs] by (simp add: acquires_def)
  with Use_Release_refine[of rs R_AH] rs show ?thesis by auto
qed

text \<open>\<open>InUse r\<close> and \<open>Conflicts r\<close> are exact: \<open>Conflicts\<close> lists precisely the registers handed
  out that share bits with \<open>r\<close> (and never panics), and \<open>InUse\<close> says whether there is one.\<close>

theorem Conflicts_InUse_exact:
  assumes "reg_reachable rs" "r \<noteq> R_RIP"
  shows "\<exists>cs. Conflicts r rs = Some cs \<and> set cs = {h \<in> held rs. overlap r h} \<and>
    InUse r rs = Some (cs \<noteq> [])"
proof -
  note ok = reachable_ok[OF assms(1)]
  obtain cs where cs: "Conflicts r rs = Some cs" "set cs = {h \<in> held rs. overlap r h}"
    using Conflicts_ok[OF ok assms(2)] by blast
  then have "cs \<noteq> [] \<longleftrightarrow> (\<exists>h \<in> held rs. overlap r h)" by (cases cs) auto
  with cs InUse_ok[OF ok assms(2)] show ?thesis by auto
qed

theorem Conflicts_InUse_exact_witness:
  "\<exists>rs cs. acquires NewRegisters R_CL rs \<and> Conflicts R_ECX rs = Some cs \<and> set cs = {R_CL} \<and>
     InUse R_CH rs = Some False"
proof -
  obtain rs where rs: "acquires NewRegisters R_CL rs" using acquires_first[of R_CL] by auto
  then have h: "held rs = {R_CL}" using pool.acquire[OF New_ok(1) rs] by (simp add: New_ok)
  have re: "reg_reachable rs" using rs reg_reachable.intros by blast
  have "{h \<in> held rs. overlap R_ECX h} = {R_CL}" "{h \<in> held rs. overlap R_CH h} = {}"
    by (auto simp: h overlap_def)
  with Conflicts_InUse_exact[OF re, of R_ECX] Conflicts_InUse_exact[OF re, of R_CH]
  show ?thesis using rs by (auto simp del: Register.simps)
qed

end
