(* ===== verification/Wire.thy ===== *)
theory Wire
  imports Prelude
begin

text \<open>
  The wire format of object files, \<open>bwrite.go\<close>, up to strings, slices and maps.

  A writer is a value of type \<open>ioerr + byte list\<close>: the bytes it appends, or the error it returns.
  A reader takes the bytes still unread and returns the value read with the bytes it left, or the
  error.  \<open>wr_cat\<close> and \<open>rd_bind\<close> are the sequencing of the Go code, which stops at the first error.
  The predicate \<open>codes w d x\<close> is what a writer and a reader owe each other: \<open>w\<close> succeeds, \<open>d\<close> reads
  \<open>x\<close> back from what \<open>w\<close> wrote and leaves the rest untouched, and \<open>d\<close> fails with an end-of-file error
  on every strict prefix.  The locale \<open>codec\<close> states it for a pair of functions.

  Reading from and writing to the file itself is not modelled: an \<open>io.Reader\<close> is the list of bytes
  it will deliver, and writes do not fail.
\<close>

section \<open>Outcomes\<close>

text \<open>\<open>MakeSlicePanic\<close> is the runtime panic of \<open>make([]T, n)\<close> on an impossible length; every other
  constructor is a Go error value.\<close>

datatype ioerr =
    EOF | UnexpectedEOF
  | TooLargeSize nat
  | NegativeSize int
  | MakeSlicePanic
  | BodyErrors "string list"
  | JumpOutOfRange

type_synonym 'a reader = "byte list \<Rightarrow> ioerr + ('a \<times> byte list)"
type_synonym written = "ioerr + byte list"

definition rd_ret :: "'a \<Rightarrow> 'a reader" where
  "rd_ret x = (\<lambda>bs. Inr (x, bs))"

definition rd_bind :: "'a reader \<Rightarrow> ('a \<Rightarrow> 'b reader) \<Rightarrow> 'b reader" where
  "rd_bind d f = (\<lambda>bs. rbind (d bs) (\<lambda>(x, rest). f x rest))"

fun wr_cat :: "written list \<Rightarrow> written" where
  "wr_cat [] = Inr []"
| "wr_cat (w # ws) = rbind w (\<lambda>b. rbind (wr_cat ws) (\<lambda>bs. Inr (b @ bs)))"

section \<open>Little-endian integers\<close>

fun le_bytes :: "nat \<Rightarrow> nat \<Rightarrow> byte list" where
  "le_bytes 0 x = []"
| "le_bytes (Suc n) x = word_of_nat x # le_bytes n (x div 256)"

fun le_nat :: "byte list \<Rightarrow> nat" where
  "le_nat [] = 0"
| "le_nat (b # bs) = unat b + 256 * le_nat bs"

lemma length_le_bytes [simp]: "length (le_bytes n x) = n"
  by (induction n arbitrary: x) auto

lemma le_nat_le_bytes: "le_nat (le_bytes n x) = x mod 256 ^ n"
proof (induction n arbitrary: x)
  case (Suc n)
  have "le_nat (le_bytes (Suc n) x) = x mod 256 + 256 * (x div 256 mod 256 ^ n)"
    by (simp add: Suc unat_of_nat)
  then show ?case by (simp add: mod_mult2_eq)
qed simp

text \<open>\<open>binary.Read\<close> of a value of \<open>n\<close> bytes: \<open>io.ReadFull\<close> reports whether anything was there.\<close>

definition readFull :: "nat \<Rightarrow> byte list reader" where
  "readFull n = (\<lambda>bs.
     if n \<le> length bs then Inr (take n bs, drop n bs)
     else if bs = [] then Inl EOF else Inl UnexpectedEOF)"

definition write_bool :: "bool \<Rightarrow> written" where
  "write_bool b = Inr [if b then 1 else 0]"

definition read_bool :: "bool reader" where
  "read_bool = rd_bind (readFull 1) (\<lambda>bs. rd_ret (le_nat bs \<noteq> 0))"

definition write_u32 :: "32 word \<Rightarrow> written" where
  "write_u32 w = Inr (le_bytes 4 (unat w))"

definition read_u32 :: "32 word reader" where
  "read_u32 = rd_bind (readFull 4) (\<lambda>bs. rd_ret (word_of_nat (le_nat bs)))"

definition write_u64 :: "64 word \<Rightarrow> written" where
  "write_u64 w = Inr (le_bytes 8 (unat w))"

definition read_u64 :: "64 word reader" where
  "read_u64 = rd_bind (readFull 8) (\<lambda>bs. rd_ret (word_of_nat (le_nat bs)))"

section \<open>Sizes, strings, slices and maps\<close>

definition MaxInt :: int where
  "MaxInt = 2 ^ 63 - 1"

definition readSize :: "int reader" where
  "readSize = rd_bind read_u64 (\<lambda>sz.
     if uint sz > MaxInt then (\<lambda>_. Inl (TooLargeSize (unat sz))) else rd_ret (uint sz))"

definition writeSize :: "int \<Rightarrow> written" where
  "writeSize n = (if n < 0 then Inl (NegativeSize n) else write_u64 (of_int n))"

text \<open>
  \<open>make([]T, n)\<close> for elements of \<open>es\<close> bytes panics when the backing array would exceed the address
  space the runtime can map (48 bits on linux/amd64).  Running out of memory below that bound is
  not modelled.
\<close>

definition maxAlloc :: int where
  "maxAlloc = 2 ^ 48"

definition make_slice :: "int \<Rightarrow> int \<Rightarrow> unit reader" where
  "make_slice es n = (if n < 0 \<or> es * n > maxAlloc then (\<lambda>_. Inl MakeSlicePanic) else rd_ret ())"

definition str_bytes :: "string \<Rightarrow> byte list" where
  "str_bytes s = map (\<lambda>c. word_of_nat (of_char c)) s"

definition bytes_str :: "byte list \<Rightarrow> string" where
  "bytes_str bs = map (\<lambda>b. char_of (unat b)) bs"

definition writeBytes :: "byte list \<Rightarrow> written" where
  "writeBytes bs = wr_cat [writeSize (int (length bs)), Inr bs]"

definition readBytes :: "byte list reader" where
  "readBytes = rd_bind readSize (\<lambda>n. rd_bind (make_slice 1 n) (\<lambda>_. readFull (nat n)))"

definition writeString :: "string \<Rightarrow> written" where
  "writeString s = writeBytes (str_bytes s)"

definition readString :: "string reader" where
  "readString = rd_bind readBytes (\<lambda>bs. rd_ret (bytes_str bs))"

text \<open>The loops over a slice: the length, then every element; on reading, \<open>make\<close> first.\<close>

fun write_all :: "('a \<Rightarrow> written) \<Rightarrow> 'a list \<Rightarrow> written" where
  "write_all enc [] = Inr []"
| "write_all enc (x # xs) = wr_cat [enc x, write_all enc xs]"

fun read_n :: "'a reader \<Rightarrow> nat \<Rightarrow> 'a list reader" where
  "read_n dec 0 = rd_ret []"
| "read_n dec (Suc n) = rd_bind dec (\<lambda>x. rd_bind (read_n dec n) (\<lambda>xs. rd_ret (x # xs)))"

definition write_slice :: "('a \<Rightarrow> written) \<Rightarrow> 'a list \<Rightarrow> written" where
  "write_slice enc xs = wr_cat [writeSize (int (length xs)), write_all enc xs]"

definition read_slice :: "int \<Rightarrow> 'a reader \<Rightarrow> 'a list reader" where
  "read_slice es dec =
     rd_bind readSize (\<lambda>n. rd_bind (make_slice es n) (\<lambda>_. read_n dec (nat n)))"

text \<open>The loops that fill a map: \<open>m[key(t)] = t\<close> for every element read.\<close>

fun read_into :: "('a \<Rightarrow> string) \<Rightarrow> 'a reader \<Rightarrow> nat \<Rightarrow> (string \<times> 'a) list \<Rightarrow> (string \<times> 'a) list reader" where
  "read_into key dec 0 m = rd_ret m"
| "read_into key dec (Suc n) m =
     rd_bind dec (\<lambda>t. read_into key dec n (AList.update (key t) t m))"

definition read_map :: "('a \<Rightarrow> string) \<Rightarrow> 'a reader \<Rightarrow> (string \<times> 'a) list reader" where
  "read_map key dec = rd_bind readSize (\<lambda>n. read_into key dec (nat n) [])"

section \<open>What a writer and a reader owe each other\<close>

definition parses :: "'a reader \<Rightarrow> byte list \<Rightarrow> 'a \<Rightarrow> bool" where
  "parses d bs x \<longleftrightarrow> (\<forall>rest. d (bs @ rest) = Inr (x, rest)) \<and>
     (\<forall>n < length bs. d (take n bs) = Inl EOF \<or> d (take n bs) = Inl UnexpectedEOF)"

definition codes :: "written \<Rightarrow> 'a reader \<Rightarrow> 'a \<Rightarrow> bool" where
  "codes w d x \<longleftrightarrow> (\<exists>bs. w = Inr bs \<and> parses d bs x)"

lemma parses_bind:
  assumes d: "parses d b x" and f: "parses (f x) c y"
  shows "parses (rd_bind d f) (b @ c) y"
  unfolding parses_def
proof (intro conjI allI impI)
  fix rest show "rd_bind d f ((b @ c) @ rest) = Inr (y, rest)"
    using d f by (simp add: parses_def rd_bind_def)
next
  fix n assume n: "n < length (b @ c)"
  show "rd_bind d f (take n (b @ c)) = Inl EOF \<or> rd_bind d f (take n (b @ c)) = Inl UnexpectedEOF"
  proof (cases "n < length b")
    case True
    then show ?thesis using d by (auto simp: parses_def rd_bind_def)
  next
    case False
    then have "rd_bind d f (take n (b @ c)) = f x (take (n - length b) c)"
      using d by (simp add: parses_def rd_bind_def)
    moreover have "n - length b < length c" using n False by simp
    ultimately show ?thesis using f by (auto simp: parses_def)
  qed
qed

lemma parses_ret: "parses (rd_ret x) [] x"
  by (simp add: parses_def rd_ret_def)

lemma parses_map: "parses d b x \<Longrightarrow> parses (rd_bind d (\<lambda>x. rd_ret (g x))) b (g x)"
  using parses_bind[of d b x "\<lambda>x. rd_ret (g x)" "[]"] by (simp add: parses_ret)

lemma parses_readFull: "length bs = n \<Longrightarrow> parses (readFull n) bs bs"
  by (auto simp: parses_def readFull_def)

lemma codes_nil [codec_laws]: "codes (wr_cat []) (rd_ret x) x"
  by (simp add: codes_def parses_ret)

lemma codes_cons [codec_laws]:
  "codes w d x \<Longrightarrow> codes (wr_cat ws) (f x) y \<Longrightarrow> codes (wr_cat (w # ws)) (rd_bind d f) y"
  by (auto simp: codes_def intro: parses_bind)

lemma codes_last: "codes w d x \<Longrightarrow> codes (wr_cat [w]) d x"
  by (auto simp: codes_def)

declare wr_cat.simps [simp del]

text \<open>A reader step that consumes nothing.\<close>

lemma codes_skip: "d = rd_ret x \<Longrightarrow> codes w (f x) y \<Longrightarrow> codes w (rd_bind d f) y"
  by (simp add: codes_def rd_bind_def rd_ret_def parses_def)

text \<open>The two consequences used by the properties: the round trip and the rejection of prefixes.\<close>

lemma codes_roundtrip: "codes w d x \<Longrightarrow> \<exists>bs. w = Inr bs \<and> d (bs @ rest) = Inr (x, rest)"
  by (auto simp: codes_def parses_def)

lemma codes_prefix:
  "codes w d x \<Longrightarrow> w = Inr bs \<Longrightarrow> n < length bs \<Longrightarrow>
   d (take n bs) = Inl EOF \<or> d (take n bs) = Inl UnexpectedEOF"
  by (auto simp: codes_def parses_def)

section \<open>The primitives\<close>

lemma codes_bool [codec_laws]: "codes (write_bool b) read_bool b"
proof -
  have "parses read_bool [w] (le_nat [w] \<noteq> 0)" for w
    unfolding read_bool_def by (rule parses_map, rule parses_readFull) simp
  from this[of 1] this[of 0] show ?thesis by (cases b) (simp_all add: codes_def write_bool_def)
qed

lemma codes_u32 [codec_laws]: "codes (write_u32 w) read_u32 w"
proof -
  have "unat w mod 256 ^ 4 = unat w" using unsigned_less[of w] by (intro mod_less) simp
  then have "word_of_nat (le_nat (le_bytes 4 (unat w))) = w" by (simp add: le_nat_le_bytes)
  moreover have "parses read_u32 bs (word_of_nat (le_nat bs))" if "length bs = 4" for bs
    unfolding read_u32_def by (rule parses_map, rule parses_readFull) (rule that)
  ultimately show ?thesis by (metis codes_def length_le_bytes write_u32_def)
qed

lemma codes_u64 [codec_laws]: "codes (write_u64 w) read_u64 w"
proof -
  have "unat w mod 256 ^ 8 = unat w" using unsigned_less[of w] by (intro mod_less) simp
  then have "word_of_nat (le_nat (le_bytes 8 (unat w))) = w" by (simp add: le_nat_le_bytes)
  moreover have "parses read_u64 bs (word_of_nat (le_nat bs))" if "length bs = 8" for bs
    unfolding read_u64_def by (rule parses_map, rule parses_readFull) (rule that)
  ultimately show ?thesis by (metis codes_def length_le_bytes write_u64_def)
qed

lemma codes_size [codec_laws]:
  assumes "0 \<le> n" "n \<le> MaxInt"
  shows "codes (writeSize n) readSize n"
proof -
  let ?w = "of_int n :: 64 word"
  have n: "uint ?w = n"
    using assms by (simp add: unsigned_of_int take_bit_int_eq_self MaxInt_def)
  obtain bs where bs: "write_u64 ?w = Inr bs" "parses read_u64 bs ?w"
    using codes_u64 by (auto simp: codes_def)
  have "parses readSize (bs @ []) n"
    unfolding readSize_def by (rule parses_bind[OF bs(2)]) (use n assms in \<open>simp add: parses_ret\<close>)
  with bs(1) assms show ?thesis by (simp add: writeSize_def codes_def)
qed

lemma str_bytes_inverse [simp]: "bytes_str (str_bytes s) = s"
proof -
  have "char_of (unat (word_of_nat (of_char c) :: byte)) = c" for c
    using of_char_of[of "of_char c :: nat"] nat_of_char_less_256[of c]
    by (simp add: unat_of_nat)
  then show ?thesis by (simp add: bytes_str_def str_bytes_def comp_def)
qed

lemma length_str_bytes [simp]: "length (str_bytes s) = length s"
  by (simp add: str_bytes_def)

lemma make_slice_ok: "0 \<le> n \<Longrightarrow> es * n \<le> maxAlloc \<Longrightarrow> make_slice es n = rd_ret ()"
  by (simp add: make_slice_def)


lemma codes_bytes [codec_laws]:
  assumes "int (length bs) \<le> maxAlloc"
  shows "codes (writeBytes bs) readBytes bs"
proof -
  have "codes (wr_cat [Inr bs]) (readFull (length bs)) bs"
    by (rule codes_last) (simp add: codes_def parses_readFull)
  then show ?thesis
    unfolding writeBytes_def readBytes_def using assms
    by (intro codes_cons[OF codes_size] codes_skip[OF make_slice_ok])
      (auto simp: MaxInt_def maxAlloc_def)
qed

lemma codes_string [codec_laws]:
  assumes "int (length s) \<le> maxAlloc"
  shows "codes (writeString s) readString s"
proof -
  have "codes (wr_cat [writeBytes (str_bytes s)]) readString (bytes_str (str_bytes s))"
    unfolding readString_def
    by (rule codes_cons[OF codes_bytes codes_nil]) (use assms in simp)
  then show ?thesis by (simp add: writeString_def wr_cat.simps)
qed

section \<open>The codec contract\<close>

text \<open>\<open>valid\<close> says which values the format can carry (lengths and sizes within bounds).\<close>

locale codec =
  fixes enc :: "'a \<Rightarrow> written" and dec :: "'a reader" and valid :: "'a \<Rightarrow> bool"
  assumes codes: "valid x \<Longrightarrow> codes (enc x) dec x"
begin

lemma codes_all: "list_all valid xs \<Longrightarrow> codes (write_all enc xs) (read_n dec (length xs)) xs"
proof (induction xs)
  case Nil
  then show ?case by (simp add: codes_def parses_ret)
next
  case (Cons x xs)
  have "codes (wr_cat [write_all enc xs])
      (rd_bind (read_n dec (length xs)) (\<lambda>ys. rd_ret (x # ys))) (x # xs)"
    by (rule codes_cons) (use Cons codes_nil in auto)
  then show ?case
    unfolding write_all.simps list.size(4) add_Suc_right add_0_right read_n.simps
    by (intro codes_cons[OF codes]) (use Cons.prems in auto)
qed

lemma codes_slice:
  assumes "list_all valid xs" "1 \<le> es" "es * int (length xs) \<le> maxAlloc"
  shows "codes (write_slice enc xs) (read_slice es dec) xs"
proof -
  have "1 * int (length xs) \<le> es * int (length xs)" using assms(2) by (intro mult_right_mono) auto
  then have "int (length xs) \<le> MaxInt" using assms(3) by (simp add: maxAlloc_def MaxInt_def)
  then show ?thesis
    unfolding write_slice_def read_slice_def using assms codes_last[OF codes_all]
    by (intro codes_cons[OF codes_size] codes_skip[OF make_slice_ok]) auto
qed

lemma codes_into:
  "list_all valid (map snd ms) \<Longrightarrow> \<forall>(k, v) \<in> set ms. k = key v \<Longrightarrow> distinct (map fst (acc @ ms)) \<Longrightarrow>
   codes (write_all enc (map snd ms)) (read_into key dec (length ms) acc) (acc @ ms)"
proof (induction ms arbitrary: acc)
  case Nil
  then show ?case by (simp add: codes_def parses_ret)
next
  case (Cons kv ms)
  obtain k v where kv: "kv = (k, v)" by fastforce
  have "AList.update k v acc = acc @ [(k, v)]"
    using Cons.prems(3) kv by (induction acc) auto
  moreover have "codes (write_all enc (map snd ms)) (read_into key dec (length ms) (acc @ [kv]))
      ((acc @ [kv]) @ ms)"
    using Cons.prems by (intro Cons.IH) auto
  ultimately show ?case
    using Cons.prems kv by (auto intro!: codes_cons codes codes_last)
qed

lemma codes_map:
  assumes "list_all valid (map snd ms)" "\<forall>(k, v) \<in> set ms. k = key v" "distinct (map fst ms)"
    and "int (length ms) \<le> MaxInt"
  shows "codes (wr_cat [writeSize (int (length ms)), write_all enc (map snd ms)])
    (read_map key dec) ms"
  unfolding read_map_def using assms codes_into[of ms key "[]"]
  by (intro codes_cons[OF codes_size] codes_last) auto

end

definition fits_int :: "int \<Rightarrow> bool" where
  "fits_int n \<longleftrightarrow> 0 \<le> n \<and> n \<le> MaxInt"

definition fits_str :: "string \<Rightarrow> bool" where
  "fits_str s \<longleftrightarrow> int (length s) \<le> maxAlloc"

interpretation size_codec: codec writeSize readSize fits_int
  by unfold_locales (simp add: codes_size fits_int_def)

interpretation string_codec: codec writeString readString fits_str
  by unfold_locales (simp add: codes_string fits_str_def)

end
