(* ===== verification/Patch.thy ===== *)
theory Patch
  imports Wire
begin

text \<open>
  Overwriting slots of a byte slice, as done by the relocations of \<open>ofile.go\<close>: one patch, a
  sequence of patches, and what is found afterwards when the slots are apart and within bounds.
\<close>

text \<open>Overwriting from position \<open>off\<close>; what would fall behind the end is dropped.\<close>

definition overwrite :: "byte list \<Rightarrow> nat \<Rightarrow> byte list \<Rightarrow> byte list" where
  "overwrite bs off new = take off bs @ take (length bs - off) new @ drop (off + length new) bs"

lemma length_overwrite [simp]: "length (overwrite bs off new) = length bs"
  by (simp add: overwrite_def)

lemma nth_overwrite:
  "i < length bs \<Longrightarrow> off \<le> length bs \<Longrightarrow>
   overwrite bs off new ! i = (if off \<le> i \<and> i < off + length new then new ! (i - off) else bs ! i)"
  by (auto simp: overwrite_def nth_append min_def)

lemma nth_overwrite_out:
  "\<not> (off \<le> i \<and> i < off + length new) \<Longrightarrow> i < length bs \<Longrightarrow> overwrite bs off new ! i = bs ! i"
  by (cases "off \<le> length bs") (auto simp: nth_overwrite overwrite_def nth_append)

type_synonym patch = "nat \<times> byte list"

definition slot :: "patch \<Rightarrow> nat set" where
  "slot p = {fst p ..< fst p + length (snd p)}"

fun patch_all :: "byte list \<Rightarrow> patch list \<Rightarrow> byte list" where
  "patch_all bs [] = bs"
| "patch_all bs (p # ps) = patch_all (overwrite bs (fst p) (snd p)) ps"

definition fits :: "nat \<Rightarrow> patch list \<Rightarrow> bool" where
  "fits n ps \<longleftrightarrow> (\<forall>p \<in> set ps. fst p + length (snd p) \<le> n)"

definition apart :: "patch list \<Rightarrow> bool" where
  "apart ps \<longleftrightarrow> sorted_wrt (\<lambda>p q. slot p \<inter> slot q = {}) ps"

lemma fits_simps [simp]:
  "fits n []"
  "fits n (p # ps) \<longleftrightarrow> fst p + length (snd p) \<le> n \<and> fits n ps"
  "fits n (ps @ qs) \<longleftrightarrow> fits n ps \<and> fits n qs"
  by (auto simp: fits_def)

lemma fits_mono: "fits n ps \<Longrightarrow> n \<le> m \<Longrightarrow> fits m ps"
  by (fastforce simp: fits_def)

lemma apart_simps [simp]:
  "apart []"
  "apart (p # ps) \<longleftrightarrow> (\<forall>q \<in> set ps. slot p \<inter> slot q = {}) \<and> apart ps"
  "apart (ps @ qs) \<longleftrightarrow> apart ps \<and> apart qs \<and> (\<forall>p \<in> set ps. \<forall>q \<in> set qs. slot p \<inter> slot q = {})"
  by (auto simp: apart_def sorted_wrt_append)

lemma length_patch_all [simp]: "length (patch_all bs ps) = length bs"
  by (induction ps arbitrary: bs) auto

lemma patch_all_append: "patch_all bs (ps @ qs) = patch_all (patch_all bs ps) qs"
  by (induction ps arbitrary: bs) auto

lemma patch_all_outside:
  "i < length bs \<Longrightarrow> \<forall>p \<in> set ps. i \<notin> slot p \<Longrightarrow> patch_all bs ps ! i = bs ! i"
proof (induction ps arbitrary: bs)
  case (Cons p ps)
  then have "overwrite bs (fst p) (snd p) ! i = bs ! i"
    by (intro nth_overwrite_out) (auto simp: slot_def)
  with Cons show ?case by simp
qed simp

lemma patch_all_nth_slot:
  "p \<in> set ps \<Longrightarrow> apart ps \<Longrightarrow> fits (length bs) ps \<Longrightarrow> j < length (snd p) \<Longrightarrow>
   patch_all bs ps ! (fst p + j) = snd p ! j"
proof (induction ps arbitrary: bs)
  case (Cons q ps)
  show ?case
  proof (cases "p = q")
    case True
    with Cons.prems have "patch_all (overwrite bs (fst p) (snd p)) ps ! (fst p + j) =
        overwrite bs (fst p) (snd p) ! (fst p + j)"
      by (intro patch_all_outside) (auto simp: slot_def)
    also have "\<dots> = snd p ! j" using Cons.prems True by (simp add: nth_overwrite)
    finally show ?thesis using True by simp
  next
    case False
    with Cons show ?thesis by simp
  qed
qed simp

text \<open>The value found in a slot.\<close>

definition slice :: "nat \<Rightarrow> nat \<Rightarrow> byte list \<Rightarrow> byte list" where
  "slice off n bs = take n (drop off bs)"

lemma patch_all_slice:
  assumes "p \<in> set ps" "apart ps" "fits (length bs) ps"
  shows "slice (fst p) (length (snd p)) (patch_all bs ps) = snd p"
proof (rule nth_equalityI)
  have "fst p + length (snd p) \<le> length bs" using assms by (auto simp: fits_def)
  then show "length (slice (fst p) (length (snd p)) (patch_all bs ps)) = length (snd p)"
    by (simp add: slice_def)
  fix j assume "j < length (slice (fst p) (length (snd p)) (patch_all bs ps))"
  then have "j < length (snd p)" by (simp add: slice_def)
  with assms show "slice (fst p) (length (snd p)) (patch_all bs ps) ! j = snd p ! j"
    using patch_all_nth_slot[of p ps bs j] by (auto simp: slice_def fits_def)
qed

lemma patch_all_slice_outside:
  assumes "off + n \<le> length bs" "\<forall>p \<in> set ps. slot p \<inter> {off ..< off + n} = {}"
  shows "slice off n (patch_all bs ps) = slice off n bs"
proof (rule nth_equalityI)
  fix i assume "i < length (slice off n (patch_all bs ps))"
  then have i: "i < n" "off + i < length bs" using assms(1) by (simp_all add: slice_def)
  then have "off + i \<in> {off ..< off + n}" by simp
  then have "patch_all bs ps ! (off + i) = bs ! (off + i)"
    using i assms(2) by (intro patch_all_outside) blast+
  with i assms(1) show "slice off n (patch_all bs ps) ! i = slice off n bs ! i"
    by (simp add: slice_def)
qed (use assms(1) in \<open>simp add: slice_def\<close>)

lemma slice_append1: "off + n \<le> length bs \<Longrightarrow> slice off n (bs @ cs) = slice off n bs"
  by (simp add: slice_def)

lemma slice_append2: "length bs \<le> off \<Longrightarrow> slice off n (bs @ cs) = slice (off - length bs) n cs"
  by (simp add: slice_def)

lemma slice_mid [simp]: "slice (length bs) (length cs) (bs @ cs @ ds) = cs"
  by (simp add: slice_def)

lemma length_slice [simp]: "off + n \<le> length bs \<Longrightarrow> length (slice off n bs) = n"
  by (simp add: slice_def)

lemma overwrite_eq_patch: "overwrite bs off new = patch_all bs [(off, new)]"
  by simp

end
