(* ===== verification/ObjFile.thy ===== *)
theory ObjFile
  imports Patch
begin

text \<open>
  Object files in memory: \<open>ofile.go\<close> and the part of \<open>Function\<close> (\<open>function.go\<close>) that collects
  code, labels, jumps and relocations until the function is written or linked.

  The records have the fields of the Go structs; \<open>Function\<close> leaves out the assembler tables and the
  register allocator it embeds.  The bytes an instruction assembles to (and the relocations it
  carries) come from the encoder and are arguments of \<open>emit\<close>, \<open>Label\<close> and \<open>Jump\<close>.
  Pointers in maps are the records themselves: every entry is created with its own record.
  The theorems: \<open>Resolve\<close> patches every jump with the displacement to its label and nothing else;
  no two variables, data blocks and functions share a name; every table follows one declaration
  contract, stated as the locale \<open>decl_table\<close>.
\<close>

section \<open>Data\<close>

record TypeDescr =
  td_Name :: string
  td_Properties :: "string list"
  td_Description :: "byte list"

record DataReloc =
  dr_Offset :: "32 word"
  dr_Symbol :: string
  dr_Addend :: "64 word"

record Var =
  v_Name :: string
  v_IsPub :: bool
  v_VType :: string
  v_Val :: "byte list"
  v_Relocs :: "DataReloc list"
  v_Kind :: string

record Symbol =
  sy_Name :: string
  sy_Offset :: "32 word"

record Relocation =
  r_Offset :: "32 word"
  r_Symbol :: string
  r_Addend :: "32 word"

record FieldShape =
  fs_Name :: string
  fs_Type :: string

record StructShape =
  ss_Name :: string
  ss_IsPub :: bool
  ss_Fields :: "FieldShape list"
  ss_MethodNames :: "string list"

record TypeAliasShape =
  ta_Name :: string
  ta_IsPub :: bool
  ta_Underlying :: string
  ta_MethodNames :: "string list"

record InterfaceMethodShape =
  im_Name :: string
  im_Params :: "FieldShape list"
  im_Return :: string
  im_ReturnAliases :: "int list list"

record InterfaceShape =
  is_Name :: string
  is_IsPub :: bool
  is_Methods :: "InterfaceMethodShape list"

record ValuesCaseShape =
  vc_Name :: string
  vc_Tag :: "64 word"

record ProjectionShape =
  pj_TargetType :: string

record ValuesShape =
  vs_Name :: string
  vs_IsPub :: bool
  vs_TagType :: string
  vs_Cases :: "ValuesCaseShape list"
  vs_Projections :: "ProjectionShape list"
  vs_MethodNames :: "string list"

record Function =
  f_Name :: string
  f_Pkgname :: string
  f_IsPub :: bool
  f_Type :: string
  f_SrcFile :: string
  f_SrcLine :: int
  f_Args :: "Var list"
  f_Symbols :: "Symbol list"
  f_Relocations :: "Relocation list"
  f_ReturnAliases :: "int list list"
  f_bodyBs :: "byte list option"
  f_bs :: "byte list"
  f_labels :: "(string \<times> nat) list"
  f_jumps :: "Relocation list"
  f_errors :: "string list"

record OFile =
  o_Filename :: string
  o_Pkgname :: string
  o_ExeFormat :: string
  o_Types :: "(string \<times> TypeDescr) list"
  o_Data :: "(string \<times> Var) list"
  o_Vars :: "(string \<times> Var) list"
  o_Funcs :: "(string \<times> Function) list"
  o_Structs :: "(string \<times> StructShape) list"
  o_TypeAliases :: "(string \<times> TypeAliasShape) list"
  o_Interfaces :: "(string \<times> InterfaceShape) list"
  o_Values :: "(string \<times> ValuesShape) list"

section \<open>Patching bytes\<close>

text \<open>
  \<open>Relocation.Apply\<close> writes through a \<open>bytes.Buffer\<close> over \<open>bs[Offset:]\<close>, truncated to nothing.
  Slicing panics when the offset lies behind the end.  When the four bytes do not fit behind the
  offset, they go to the spare capacity of the slice (\<open>spare\<close> bytes; only the part within the
  length is visible), or, when that is too small as well, to a fresh buffer and the slice keeps its
  bytes.
\<close>

definition reloc_target :: "Relocation \<Rightarrow> 32 word \<Rightarrow> 32 word" where
  "reloc_target r value = value - r_Offset r - 4 + r_Addend r"

definition Relocation_Apply :: "nat \<Rightarrow> Relocation \<Rightarrow> byte list \<Rightarrow> 32 word \<Rightarrow> byte list option" where
  "Relocation_Apply spare r bs value =
     (let off = unat (r_Offset r) in
      if off > length bs then None
      else if off + 4 > length bs + spare then Some bs
      else Some (overwrite bs off (le_bytes 4 (unat (reloc_target r value)))))"

definition DataReloc_Apply :: "DataReloc \<Rightarrow> byte list \<Rightarrow> 64 word \<Rightarrow> byte list option" where
  "DataReloc_Apply r bs targetVA =
     (let off = unat (dr_Offset r) in
      if off + 8 > length bs then None
      else Some (overwrite bs off (le_bytes 8 (unat (targetVA + dr_Addend r)))))"

section \<open>Functions under construction\<close>

text \<open>Appending an encoded instruction and its relocations (\<open>Instr\<close> after the encoder).\<close>

definition emit :: "byte list \<Rightarrow> Relocation list \<Rightarrow> Function \<Rightarrow> Function" where
  "emit code rs f = f\<lparr>f_bs := f_bs f @ code, f_Relocations := f_Relocations f @ rs\<rparr>"

text \<open>\<open>spill\<close> is the code \<open>EvictAll\<close> emits to save the live registers.\<close>

definition Label :: "byte list \<Rightarrow> string \<Rightarrow> Function \<Rightarrow> Function" where
  "Label spill l f0 =
     (let f = emit spill [] f0 in
      if map_of (f_labels f) l \<noteq> None
      then f\<lparr>f_errors := f_errors f @ [''Label '' @ l @ '' already exists.'']\<rparr>
      else f\<lparr>f_labels := AList.update l (length (f_bs f)) (f_labels f)\<rparr>)"

text \<open>\<open>code\<close> is the encoding of the jump with a zero displacement, its last four bytes.\<close>

definition Jump :: "byte list \<Rightarrow> byte list \<Rightarrow> string \<Rightarrow> Function \<Rightarrow> Function" where
  "Jump spill code l f0 =
     (let f = emit code [] (emit spill [] f0) in
      f\<lparr>f_jumps := f_jumps f @
          [\<lparr>r_Offset = of_nat (length (f_bs f) - 4), r_Symbol = l, r_Addend = 0\<rparr>]\<rparr>)"

fun resolve_jumps :: "(string \<times> nat) list \<Rightarrow> Relocation list \<Rightarrow> byte list \<times> Relocation list \<Rightarrow>
    (byte list \<times> Relocation list) option" where
  "resolve_jumps ls [] st = Some st"
| "resolve_jumps ls (rel # js) (bs, rs) =
     (case map_of ls (r_Symbol rel) of
        Some loff \<Rightarrow>
          (case Relocation_Apply 0 rel bs (of_nat loff) of
             None \<Rightarrow> None
           | Some bs' \<Rightarrow> resolve_jumps ls js (bs', rs))
      | None \<Rightarrow> resolve_jumps ls js (bs, rs @ [rel]))"

definition qualify_reloc :: "string \<Rightarrow> Relocation \<Rightarrow> Relocation" where
  "qualify_reloc pkg r =
     (if CHR ''.'' \<in> set (r_Symbol r) then r else r\<lparr>r_Symbol := pkg @ ''.'' @ r_Symbol r\<rparr>)"

text \<open>
  \<open>Bytes()\<close> of a buffer never written to is \<open>nil\<close>, and then \<open>bodyBs\<close> stays \<open>nil\<close>.  \<open>None\<close> is the
  panic of an out-of-range jump slot, which \<open>Jump\<close> never creates.
\<close>

definition Resolve :: "Function \<Rightarrow> Function option" where
  "Resolve f =
     (if f_bodyBs f \<noteq> None then Some f
      else case resolve_jumps (f_labels f) (f_jumps f) (f_bs f, f_Relocations f) of
        None \<Rightarrow> None
      | Some (bs, rs) \<Rightarrow>
          Some (f\<lparr>f_bs := bs, f_jumps := [], f_bodyBs := (if bs = [] then None else Some bs),
                  f_Relocations := (if f_Pkgname f = '''' then rs
                                    else map (qualify_reloc (f_Pkgname f)) rs)\<rparr>))"

definition body_of :: "Function \<Rightarrow> byte list" where
  "body_of f = (case f_bodyBs f of None \<Rightarrow> [] | Some bs \<Rightarrow> bs)"

definition Body :: "Function \<Rightarrow> (string list + byte list) option" where
  "Body f = map_option (\<lambda>f. if f_errors f \<noteq> [] then Inl (f_errors f) else Inr (body_of f)) (Resolve f)"

section \<open>Declarations\<close>

definition NewOFile :: "string \<Rightarrow> string \<Rightarrow> OFile" where
  "NewOFile fname pkgname = \<lparr>o_Filename = fname, o_Pkgname = pkgname, o_ExeFormat = '''',
     o_Types = [], o_Data = [], o_Vars = [], o_Funcs = [], o_Structs = [], o_TypeAliases = [],
     o_Interfaces = [], o_Values = []\<rparr>"

definition has :: "(string \<times> 'a) list \<Rightarrow> string \<Rightarrow> bool" where
  "has t n \<longleftrightarrow> map_of t n \<noteq> None"

text \<open>The error messages, by their format string and arguments.\<close>

datatype decl_err =
    DupName string | DupValues string | DupStruct string | DupTypeAlias string
  | DupInterface string | DupType string
  | DupFunction string string int string int

definition AddValues :: "string \<Rightarrow> string \<Rightarrow> ValuesCaseShape list \<Rightarrow> ProjectionShape list \<Rightarrow>
    string list \<Rightarrow> bool \<Rightarrow> OFile \<Rightarrow> decl_err + OFile" where
  "AddValues n tagType cases projections methodNames isPub oo =
     (if has (o_Values oo) n then Inl (DupValues n)
      else if has (o_Structs oo) n \<or> has (o_TypeAliases oo) n \<or> has (o_Interfaces oo) n
      then Inl (DupName n)
      else Inr (oo\<lparr>o_Values := AList.update n
        \<lparr>vs_Name = n, vs_IsPub = isPub, vs_TagType = tagType, vs_Cases = cases,
         vs_Projections = projections, vs_MethodNames = methodNames\<rparr> (o_Values oo)\<rparr>))"

definition AddStruct :: "string \<Rightarrow> FieldShape list \<Rightarrow> string list \<Rightarrow> bool \<Rightarrow> OFile \<Rightarrow> decl_err + OFile" where
  "AddStruct n flds methodNames isPub oo =
     (if has (o_Structs oo) n then Inl (DupStruct n)
      else if has (o_Vars oo) n \<or> has (o_Data oo) n \<or> has (o_Funcs oo) n then Inl (DupName n)
      else Inr (oo\<lparr>o_Structs := AList.update n
        \<lparr>ss_Name = n, ss_IsPub = isPub, ss_Fields = flds, ss_MethodNames = methodNames\<rparr>
        (o_Structs oo)\<rparr>))"

definition AddTypeAlias :: "string \<Rightarrow> string \<Rightarrow> string list \<Rightarrow> bool \<Rightarrow> OFile \<Rightarrow> decl_err + OFile" where
  "AddTypeAlias n underlying methodNames isPub oo =
     (if has (o_TypeAliases oo) n then Inl (DupTypeAlias n)
      else Inr (oo\<lparr>o_TypeAliases := AList.update n
        \<lparr>ta_Name = n, ta_IsPub = isPub, ta_Underlying = underlying, ta_MethodNames = methodNames\<rparr>
        (o_TypeAliases oo)\<rparr>))"

definition AddInterface :: "string \<Rightarrow> InterfaceMethodShape list \<Rightarrow> bool \<Rightarrow> OFile \<Rightarrow> decl_err + OFile" where
  "AddInterface n methods isPub oo =
     (if has (o_Interfaces oo) n then Inl (DupInterface n)
      else Inr (oo\<lparr>o_Interfaces := AList.update n
        \<lparr>is_Name = n, is_IsPub = isPub, is_Methods = methods\<rparr> (o_Interfaces oo)\<rparr>))"

definition AddType :: "string \<Rightarrow> string list \<Rightarrow> byte list \<Rightarrow> OFile \<Rightarrow> decl_err + OFile" where
  "AddType n properties description oo =
     (if has (o_Types oo) n then Inl (DupType n)
      else Inr (oo\<lparr>o_Types := AList.update n
        \<lparr>td_Name = n, td_Properties = properties, td_Description = description\<rparr> (o_Types oo)\<rparr>))"

text \<open>
  The initial value of a variable is an \<open>interface{}\<close>.  \<open>binary.Write\<close> lays out byte slices and
  sized integers; it refuses a plain \<open>int\<close>, and as its error is dropped the value is then empty.
\<close>

datatype init_val =
    ValString string | ValBytes "byte list"
  | ValU8 "8 word" | ValU16 "16 word" | ValU32 "32 word" | ValU64 "64 word"
  | ValInt int

fun val_bytes :: "init_val \<Rightarrow> byte list" where
  "val_bytes (ValString s) = str_bytes s"
| "val_bytes (ValBytes bs) = bs"
| "val_bytes (ValU8 w) = le_bytes 1 (unat w)"
| "val_bytes (ValU16 w) = le_bytes 2 (unat w)"
| "val_bytes (ValU32 w) = le_bytes 4 (unat w)"
| "val_bytes (ValU64 w) = le_bytes 8 (unat w)"
| "val_bytes (ValInt n) = []"

definition new_var :: "string \<Rightarrow> string \<Rightarrow> init_val \<Rightarrow> bool \<Rightarrow> Var" where
  "new_var n vtype val isPub =
     \<lparr>v_Name = n, v_IsPub = isPub, v_VType = vtype, v_Val = val_bytes val, v_Relocs = [], v_Kind = ''''\<rparr>"

definition AddVar :: "string \<Rightarrow> string \<Rightarrow> init_val \<Rightarrow> bool \<Rightarrow> OFile \<Rightarrow> decl_err + OFile" where
  "AddVar n vtype val isPub oo =
     (if has (o_Vars oo) n \<or> has (o_Data oo) n \<or> has (o_Funcs oo) n then Inl (DupName n)
      else Inr (oo\<lparr>o_Vars := AList.update n (new_var n vtype val isPub) (o_Vars oo)\<rparr>))"

definition AddData :: "string \<Rightarrow> string \<Rightarrow> init_val \<Rightarrow> bool \<Rightarrow> OFile \<Rightarrow> decl_err + OFile" where
  "AddData n vtype val isPub oo =
     (if has (o_Vars oo) n \<or> has (o_Data oo) n \<or> has (o_Funcs oo) n then Inl (DupName n)
      else Inr (oo\<lparr>o_Data := AList.update n (new_var n vtype val isPub) (o_Data oo)\<rparr>))"

definition VarFor :: "OFile \<Rightarrow> string \<Rightarrow> Var option" where
  "VarFor oo n = (case map_of (o_Vars oo) n of Some v \<Rightarrow> Some v | None \<Rightarrow> map_of (o_Data oo) n)"

definition new_function :: "string \<Rightarrow> string \<Rightarrow> int \<Rightarrow> string \<Rightarrow> Var list \<Rightarrow> Function" where
  "new_function pkg srcFile srcLine n args =
     \<lparr>f_Name = n, f_Pkgname = pkg, f_IsPub = False, f_Type = '''', f_SrcFile = srcFile,
      f_SrcLine = srcLine, f_Args = args, f_Symbols = [], f_Relocations = [], f_ReturnAliases = [],
      f_bodyBs = None, f_bs = [], f_labels = [], f_jumps = [], f_errors = []\<rparr>"

definition NewFunction :: "string \<Rightarrow> int \<Rightarrow> string \<Rightarrow> Var list \<Rightarrow> OFile \<Rightarrow> decl_err + OFile" where
  "NewFunction srcFile srcLine n args oo =
     (case map_of (o_Funcs oo) n of
        Some f \<Rightarrow> Inl (DupFunction n srcFile srcLine (f_SrcFile f) (f_SrcLine f))
      | None \<Rightarrow> if has (o_Vars oo) n \<or> has (o_Data oo) n then Inl (DupName n)
      else Inr (oo\<lparr>o_Funcs := AList.update n
        (new_function (o_Pkgname oo) srcFile srcLine n args) (o_Funcs oo)\<rparr>))"

section \<open>Relocation slots\<close>

definition rslot :: "Relocation \<Rightarrow> nat set" where
  "rslot r = {unat (r_Offset r) ..< unat (r_Offset r) + 4}"

text \<open>The slots lie within \<open>n\<close> bytes and are apart.\<close>

definition relocs_ok :: "nat \<Rightarrow> Relocation list \<Rightarrow> bool" where
  "relocs_ok n rs \<longleftrightarrow> (\<forall>r \<in> set rs. unat (r_Offset r) + 4 \<le> n) \<and>
     sorted_wrt (\<lambda>r s. rslot r \<inter> rslot s = {}) rs"

definition reloc_patch :: "(Relocation \<Rightarrow> 32 word) \<Rightarrow> Relocation \<Rightarrow> patch" where
  "reloc_patch val r = (unat (r_Offset r), le_bytes 4 (unat (reloc_target r (val r))))"

lemma slot_reloc_patch [simp]: "slot (reloc_patch val r) = rslot r"
  by (simp add: slot_def rslot_def reloc_patch_def)

lemma fits_reloc_patches: "relocs_ok n rs \<Longrightarrow> fits n (map (reloc_patch val) rs)"
  by (auto simp: relocs_ok_def fits_def reloc_patch_def)

lemma apart_reloc_patches: "relocs_ok n rs \<Longrightarrow> apart (map (reloc_patch val) rs)"
  by (simp add: relocs_ok_def apart_def sorted_wrt_map)

lemma relocs_ok_filter: "relocs_ok n rs \<Longrightarrow> relocs_ok n (filter P rs)"
  by (auto simp: relocs_ok_def sorted_wrt_filter)

lemma relocs_ok_mono: "relocs_ok n rs \<Longrightarrow> n \<le> m \<Longrightarrow> relocs_ok m rs"
  by (fastforce simp: relocs_ok_def)

lemma relocs_ok_Cons: "relocs_ok n (r # rs) \<longleftrightarrow>
    unat (r_Offset r) + 4 \<le> n \<and> (\<forall>s \<in> set rs. rslot r \<inter> rslot s = {}) \<and> relocs_ok n rs"
  by (auto simp: relocs_ok_def)

lemma relocs_ok_append: "relocs_ok n (rs @ ss) \<longleftrightarrow>
    relocs_ok n rs \<and> relocs_ok n ss \<and> (\<forall>r \<in> set rs. \<forall>s \<in> set ss. rslot r \<inter> rslot s = {})"
  by (auto simp: relocs_ok_def sorted_wrt_append)

text \<open>Slots in code appended later are apart from the earlier ones.\<close>

lemma rslot_later:
  "unat (r_Offset r) + 4 \<le> n \<Longrightarrow> n \<le> unat (r_Offset s) \<Longrightarrow> rslot r \<inter> rslot s = {}"
  by (auto simp: rslot_def)

lemma Relocation_Apply_ok:
  "unat (r_Offset r) + 4 \<le> length bs \<Longrightarrow>
   Relocation_Apply spare r bs v =
     Some (overwrite bs (unat (r_Offset r)) (le_bytes 4 (unat (reloc_target r v))))"
  by (simp add: Relocation_Apply_def Let_def)

text \<open>The displacement in a slot, read back as the processor reads it.\<close>

definition disp_at :: "nat \<Rightarrow> byte list \<Rightarrow> 32 word" where
  "disp_at off bs = of_nat (le_nat (slice off 4 bs))"

lemma disp_at_patched:
  assumes "relocs_ok (length bs) rs" "r \<in> set rs"
  shows "disp_at (unat (r_Offset r)) (patch_all bs (map (reloc_patch val) rs)) = reloc_target r (val r)"
proof -
  have "slice (fst (reloc_patch val r)) (length (snd (reloc_patch val r)))
      (patch_all bs (map (reloc_patch val) rs)) = snd (reloc_patch val r)"
    using assms by (intro patch_all_slice) (auto simp: apart_reloc_patches fits_reloc_patches)
  moreover have "unat (reloc_target r (val r)) mod 256 ^ 4 = unat (reloc_target r (val r))"
    using unsigned_less[of "reloc_target r (val r)"] by (intro mod_less) simp
  ultimately show ?thesis by (simp add: disp_at_def reloc_patch_def le_nat_le_bytes)
qed

section \<open>Resolving jumps\<close>

definition label_val :: "(string \<times> nat) list \<Rightarrow> Relocation \<Rightarrow> 32 word" where
  "label_val ls j = of_nat (the (map_of ls (r_Symbol j)))"

definition local_jump :: "(string \<times> nat) list \<Rightarrow> Relocation \<Rightarrow> bool" where
  "local_jump ls j \<longleftrightarrow> map_of ls (r_Symbol j) \<noteq> None"

lemma resolve_jumps_eq:
  "relocs_ok (length bs) js \<Longrightarrow> resolve_jumps ls js (bs, rs) =
     Some (patch_all bs (map (reloc_patch (label_val ls)) (filter (local_jump ls) js)),
           rs @ filter (\<lambda>j. \<not> local_jump ls j) js)"
  by (induction js arbitrary: bs rs)
    (auto simp: relocs_ok_Cons local_jump_def Relocation_Apply_ok reloc_patch_def label_val_def
      split: option.splits)

lemma qualify_reloc_idem [simp]:
  "qualify_reloc pkg (qualify_reloc pkg r) = qualify_reloc pkg r"
  by (simp add: qualify_reloc_def)

lemma qualify_reloc_Offset [simp]:
  "r_Offset (qualify_reloc pkg r) = r_Offset r" "r_Addend (qualify_reloc pkg r) = r_Addend r"
  "rslot (qualify_reloc pkg r) = rslot r"
  by (simp_all add: qualify_reloc_def rslot_def)

lemma relocs_ok_qualify [simp]: "relocs_ok n (map (qualify_reloc pkg) rs) = relocs_ok n rs"
  by (simp add: relocs_ok_def sorted_wrt_map)

text \<open>The calls that a function's construction consists of; \<open>emit\<close>'s relocations lie in the code
  emitted with them, the code of a jump ends in its displacement, functions stay below 2 GB, and bytes
  that were written may be patched in place.\<close>

inductive built :: "string \<Rightarrow> string \<Rightarrow> Function \<Rightarrow> bool" for pkg n where
  built_new: "built pkg n (new_function pkg srcFile srcLine n args)"
| built_emit: "built pkg n f \<Longrightarrow> relocs_ok (length (f_bs f @ code)) rs \<Longrightarrow>
    \<forall>r \<in> set rs. length (f_bs f) \<le> unat (r_Offset r) \<Longrightarrow>
    length (f_bs f @ code) < 2 ^ 31 \<Longrightarrow> built pkg n (emit code rs f)"
| built_Label: "built pkg n f \<Longrightarrow> length (f_bs f @ spill) < 2 ^ 31 \<Longrightarrow> built pkg n (Label spill l f)"
| built_Jump: "built pkg n f \<Longrightarrow> 4 \<le> length code \<Longrightarrow> length (f_bs f @ spill @ code) < 2 ^ 31 \<Longrightarrow>
    built pkg n (Jump spill code l f)"
| built_decor: "built pkg n f \<Longrightarrow>
    built pkg n (f\<lparr>f_IsPub := p, f_Type := t, f_Args := as, f_Symbols := ss, f_ReturnAliases := ra\<rparr>)"
| built_patch: "built pkg n f \<Longrightarrow> length bs = length (f_bs f) \<Longrightarrow> built pkg n (f\<lparr>f_bs := bs\<rparr>)"

definition fn_ok :: "Function \<Rightarrow> bool" where
  "fn_ok f \<longleftrightarrow> f_bodyBs f = None \<and> length (f_bs f) < 2 ^ 31 \<and>
     relocs_ok (length (f_bs f)) (f_jumps f @ f_Relocations f) \<and>
     (\<forall>j \<in> set (f_jumps f). r_Addend j = 0) \<and>
     (\<forall>(l, t) \<in> set (f_labels f). t \<le> length (f_bs f))"

lemma fn_ok_emit:
  assumes "fn_ok f" "relocs_ok (length (f_bs f @ code)) rs"
    "\<forall>r \<in> set rs. length (f_bs f) \<le> unat (r_Offset r)" "length (f_bs f @ code) < 2 ^ 31"
  shows "fn_ok (emit code rs f)"
proof -
  let ?n = "length (f_bs f @ code)"
  have old: "relocs_ok (length (f_bs f)) (f_jumps f @ f_Relocations f)"
    using assms by (simp add: fn_ok_def)
  then have "relocs_ok ?n (f_jumps f @ f_Relocations f)" by (rule relocs_ok_mono) simp
  moreover have "rslot r \<inter> rslot s = {}" if "r \<in> set (f_jumps f @ f_Relocations f)" "s \<in> set rs" for r s
    using old that assms(3) by (intro rslot_later[of _ "length (f_bs f)"]) (auto simp: relocs_ok_def)
  ultimately have "relocs_ok ?n (f_jumps f @ (f_Relocations f @ rs))"
    using assms(2) unfolding relocs_ok_append set_append by blast
  then show ?thesis using assms by (auto simp: fn_ok_def emit_def)
qed

lemma set_update_subset: "set (AList.update k v xs) \<subseteq> insert (k, v) (set xs)"
  by (induction xs) auto

lemma fn_ok_Label:
  assumes "fn_ok f" "length (f_bs f @ spill) < 2 ^ 31"
  shows "fn_ok (Label spill l f)"
proof -
  have "fn_ok (emit spill [] f)" using assms by (intro fn_ok_emit) (auto simp: relocs_ok_def)
  then show ?thesis
    using set_update_subset[of l "length (f_bs (emit spill [] f))" "f_labels (emit spill [] f)"]
    by (auto simp: Label_def Let_def fn_ok_def)
qed

lemma fn_ok_Jump:
  assumes "fn_ok f" "4 \<le> length code" "length (f_bs f @ spill @ code) < 2 ^ 31"
  shows "fn_ok (Jump spill code l f)"
proof -
  let ?g = "emit spill [] f" and ?h = "emit code [] (emit spill [] f)"
  let ?j = "\<lparr>r_Offset = of_nat (length (f_bs ?h) - 4), r_Symbol = l, r_Addend = 0\<rparr> :: Relocation"
  have g: "fn_ok ?g" using assms by (intro fn_ok_emit) (auto simp: relocs_ok_def)
  then have h: "fn_ok ?h" using assms
    by (intro fn_ok_emit) (auto simp: relocs_ok_def emit_def)
  have len: "length (f_bs ?h) < 2 ^ 31" "length (f_bs ?g) + 4 \<le> length (f_bs ?h)"
    using assms by (simp_all add: emit_def)
  have "unat (of_nat m :: 32 word) = m" if "m < 2 ^ 31" for m using that by (simp add: unat_of_nat)
  from this[of "length (f_bs ?h) - 4"] len
  have off: "unat (r_Offset ?j) = length (f_bs ?h) - 4" by simp
  have "rslot r \<inter> rslot ?j = {}" if "r \<in> set (f_jumps ?h @ f_Relocations ?h)" for r
  proof (rule rslot_later[of _ "length (f_bs ?g)"])
    show "unat (r_Offset r) + 4 \<le> length (f_bs ?g)"
      using g that by (auto simp: fn_ok_def relocs_ok_def emit_def)
    show "length (f_bs ?g) \<le> unat (r_Offset ?j)" using off len by simp
  qed
  then have "relocs_ok (length (f_bs ?h)) ((f_jumps ?h @ [?j]) @ f_Relocations ?h)"
    using h off len by (auto simp: fn_ok_def relocs_ok_append relocs_ok_Cons Int_commute)
  then show ?thesis using h by (simp add: Jump_def Let_def fn_ok_def)
qed

lemma built_ok: "built pkg n f \<Longrightarrow> fn_ok f \<and> f_Name f = n \<and> f_Pkgname f = pkg"
proof (induction rule: built.induct)
  case (built_new srcFile srcLine args)
  then show ?case by (simp add: new_function_def fn_ok_def relocs_ok_def)
next
  case (built_emit f code rs)
  then show ?case using fn_ok_emit by (simp add: emit_def)
next
  case (built_Label f spill l)
  then show ?case using fn_ok_Label by (simp add: Label_def emit_def Let_def)
next
  case (built_Jump f code spill l)
  then show ?case using fn_ok_Jump by (simp add: Jump_def emit_def Let_def)
next
  case (built_decor f p t as ss ra)
  then show ?case by (simp add: fn_ok_def)
next
  case (built_patch f bs)
  then show ?case by (simp add: fn_ok_def)
qed

lemma sint_word_of_int_32:
  "- (2 ^ 31) \<le> k \<Longrightarrow> k < 2 ^ 31 \<Longrightarrow> sint (word_of_int k :: 32 word) = k"
  by (simp add: signed_of_int signed_take_bit_int_eq_self)

lemma sint_displacement:
  fixes t off n :: nat
  assumes "t \<le> n" "off + 4 \<le> n" "n < 2 ^ 31"
  shows "sint (word_of_int (int t - int off - 4) :: 32 word) = int t - int off - 4"
  by (rule sint_word_of_int_32) (use assms in simp_all)

lemma Resolve_eq:
  assumes "fn_ok f"
  defines "js \<equiv> f_jumps f" and "ls \<equiv> f_labels f"
  shows "Resolve f = Some (let bs = patch_all (f_bs f) (map (reloc_patch (label_val ls)) (filter (local_jump ls) js));
      rs = f_Relocations f @ filter (\<lambda>j. \<not> local_jump ls j) js in
    f\<lparr>f_bs := bs, f_jumps := [], f_bodyBs := (if bs = [] then None else Some bs),
      f_Relocations := (if f_Pkgname f = '''' then rs else map (qualify_reloc (f_Pkgname f)) rs)\<rparr>)"
  using assms by (simp add: Resolve_def fn_ok_def relocs_ok_append resolve_jumps_eq Let_def)

lemma body_of_resolved [simp]:
  "body_of (f\<lparr>f_bs := bs, f_jumps := js, f_bodyBs := (if bs = [] then None else Some bs), f_Relocations := rs\<rparr>) = bs"
  by (simp add: body_of_def)

lemma jump_displacement:
  assumes ok: "fn_ok f" and j: "j \<in> set (f_jumps f)" and t: "map_of (f_labels f) (r_Symbol j) = Some t"
  defines "body \<equiv> patch_all (f_bs f)
      (map (reloc_patch (label_val (f_labels f))) (filter (local_jump (f_labels f)) (f_jumps f)))"
  shows "int (unat (r_Offset j)) + 4 + sint (disp_at (unat (r_Offset j)) body) = int t"
proof -
  have "disp_at (unat (r_Offset j)) body = reloc_target j (label_val (f_labels f) j)"
    unfolding body_def using ok j t
    by (intro disp_at_patched relocs_ok_filter) (auto simp: fn_ok_def relocs_ok_append local_jump_def)
  also have "\<dots> = word_of_int (int t - int (unat (r_Offset j)) - 4)"
    using ok j t by (simp add: reloc_target_def label_val_def fn_ok_def)
  finally have disp: "disp_at (unat (r_Offset j)) body = \<dots>" .
  have "t \<le> length (f_bs f)" "unat (r_Offset j) + 4 \<le> length (f_bs f)" "length (f_bs f) < 2 ^ 31"
    using ok j map_of_SomeD[OF t] by (auto simp: fn_ok_def relocs_ok_def)
  then show ?thesis unfolding disp by (subst sint_displacement) simp_all
qed

lemma bytes_outside_jumps:
  "i < length (f_bs f) \<Longrightarrow> \<forall>j \<in> set (f_jumps f). local_jump ls j \<longrightarrow> i \<notin> rslot j \<Longrightarrow>
   patch_all (f_bs f) (map (reloc_patch v) (filter (local_jump ls) (f_jumps f))) ! i = f_bs f ! i"
  by (rule patch_all_outside) auto

text \<open>C30. Functions, jumps: for every function built by the operations, \<open>Resolve\<close> succeeds, keeps
  the length of the code, writes into the slot of every jump to a label of the function the
  displacement that takes the processor from the end of the slot to the label, changes no other
  byte, and turns every other jump into a relocation, qualified with the package.\<close>

theorem Resolve_jumps:
  assumes "built pkg n f"
  shows "\<exists>f'. Resolve f = Some f' \<and> length (body_of f') = length (f_bs f) \<and>
    (\<forall>j \<in> set (f_jumps f). \<forall>t. map_of (f_labels f) (r_Symbol j) = Some t \<longrightarrow>
       int (unat (r_Offset j)) + 4 + sint (disp_at (unat (r_Offset j)) (body_of f')) = int t) \<and>
    (\<forall>i < length (f_bs f). (\<forall>j \<in> set (f_jumps f). local_jump (f_labels f) j \<longrightarrow> i \<notin> rslot j) \<longrightarrow>
       body_of f' ! i = f_bs f ! i) \<and>
    f_Relocations f' = map (if pkg = '''' then id else qualify_reloc pkg)
      (f_Relocations f @ filter (\<lambda>j. \<not> local_jump (f_labels f) j) (f_jumps f)) \<and>
    relocs_ok (length (body_of f')) (f_Relocations f')"
proof -
  have ok: "fn_ok f" "f_Pkgname f = pkg" using built_ok[OF assms] by auto
  let ?rs = "f_Relocations f @ filter (\<lambda>j. \<not> local_jump (f_labels f) j) (f_jumps f)"
  have "relocs_ok (length (f_bs f)) ?rs"
    using ok(1) unfolding fn_ok_def relocs_ok_append by (auto simp: relocs_ok_filter Int_commute)
  then have "relocs_ok (length (f_bs f)) (map (qualify_reloc pkg) ?rs)" by (simp only: relocs_ok_qualify)
  then show ?thesis
    using ok \<open>relocs_ok _ ?rs\<close> jump_displacement[OF ok(1)] bytes_outside_jumps[of _ f]
    by (simp add: Resolve_eq Let_def)
qed

definition sample_fn :: Function where
  "sample_fn = Jump [] [0xE9, 0, 0, 0, 0] ''print''
     (Jump [0x90] [0x0F, 0x84, 0, 0, 0, 0] ''loop''
       (Label [] ''loop'' (emit [0x31, 0xC0] [] (new_function ''main'' ''a.bs'' 3 ''f'' []))))"

lemma sample_fn_built: "built ''main'' ''f'' sample_fn"
  unfolding sample_fn_def
  by (intro built.intros)
    (auto simp: relocs_ok_def Jump_def Label_def emit_def new_function_def Let_def)

theorem Resolve_jumps_witness:
  "map f_Relocations (case Resolve sample_fn of Some f' \<Rightarrow> [f'] | None \<Rightarrow> []) =
     [[\<lparr>r_Offset = 10, r_Symbol = ''main.print'', r_Addend = 0\<rparr>]] \<and>
   (\<exists>f'. Resolve sample_fn = Some f' \<and> 9 + sint (disp_at 5 (body_of f')) = 2)"
  using Resolve_jumps[OF sample_fn_built]
  by (auto simp: sample_fn_def Jump_def Label_def emit_def new_function_def Let_def local_jump_def
      qualify_reloc_def)

lemma Resolve_idem_lemma: "Resolve f = Some f' \<Longrightarrow> Resolve f' = Some f'"
  by (auto simp: Resolve_def split: if_splits option.splits)

section \<open>The declaration tables\<close>

definition tab_ok :: "('a \<Rightarrow> string) \<Rightarrow> (string \<times> 'a) list \<Rightarrow> bool" where
  "tab_ok nm t \<longleftrightarrow> distinct (map fst t) \<and> (\<forall>(k, v) \<in> set t. nm v = k)"

lemma tab_ok_Nil [simp]: "tab_ok nm []"
  by (simp add: tab_ok_def)

lemma tab_ok_update: "tab_ok nm t \<Longrightarrow> nm v = k \<Longrightarrow> tab_ok nm (AList.update k v t)"
  using set_update_subset[of k v t] by (auto simp: tab_ok_def distinct_update)

lemma tab_ok_lookup: "tab_ok nm t \<Longrightarrow> map_of t k = Some v \<Longrightarrow> nm v = k"
  by (auto simp: tab_ok_def dest: map_of_SomeD)

lemma has_update [simp]: "has (AList.update k v t) n \<longleftrightarrow> n = k \<or> has t n"
  by (simp add: has_def update_conv)

lemma has_Nil [simp]: "\<not> has [] n"
  by (simp add: has_def)

lemma has_Cons [simp]: "has ((k, v) # t) n \<longleftrightarrow> n = k \<or> has t n"
  by (simp add: has_def)

text \<open>What every \<open>Add\<close> operation promises of its table: a name is declared at most once, and after
  the declaration the table maps it to the new record and every other name as before.\<close>

locale decl_table =
  fixes tab :: "OFile \<Rightarrow> (string \<times> 'a) list" and nm :: "'a \<Rightarrow> string"
    and mk :: "'b \<Rightarrow> string \<Rightarrow> OFile \<Rightarrow> 'a" and add :: "'b \<Rightarrow> string \<Rightarrow> OFile \<Rightarrow> decl_err + OFile"
  assumes taken: "has (tab oo) n \<Longrightarrow> \<exists>e. add a n oo = Inl e"
    and added: "add a n oo = Inr oo' \<Longrightarrow> tab oo' = AList.update n (mk a n oo) (tab oo)"
    and named: "nm (mk a n oo) = n"
begin

lemma fresh: "add a n oo = Inr oo' \<Longrightarrow> \<not> has (tab oo) n"
  using taken[of oo n a] by auto

lemma lookup: "add a n oo = Inr oo' \<Longrightarrow>
    map_of (tab oo') = (map_of (tab oo))(n \<mapsto> mk a n oo)"
  by (simp add: added update_conv')

lemma once: "add a n oo = Inr oo' \<Longrightarrow> \<exists>e. add b n oo' = Inl e"
  by (rule taken) (simp add: added)

lemma keeps: "add a n oo = Inr oo' \<Longrightarrow> tab_ok nm (tab oo) \<Longrightarrow> tab_ok nm (tab oo')"
  by (simp add: added named tab_ok_update)

end

interpretation vars: decl_table o_Vars v_Name
  "\<lambda>(t, v, p) n oo. new_var n t v p" "\<lambda>(t, v, p) n oo. AddVar n t v p oo"
  by unfold_locales (auto simp: AddVar_def new_var_def split: if_splits)

interpretation data: decl_table o_Data v_Name
  "\<lambda>(t, v, p) n oo. new_var n t v p" "\<lambda>(t, v, p) n oo. AddData n t v p oo"
  by unfold_locales (auto simp: AddData_def new_var_def split: if_splits)

interpretation funcs: decl_table o_Funcs f_Name
  "\<lambda>(sf, sl, as) n oo. new_function (o_Pkgname oo) sf sl n as"
  "\<lambda>(sf, sl, as) n oo. NewFunction sf sl n as oo"
  by unfold_locales
    (auto simp: NewFunction_def new_function_def has_def split: if_splits option.splits)

interpretation structs: decl_table o_Structs ss_Name
  "\<lambda>(flds, ms, p) n oo. \<lparr>ss_Name = n, ss_IsPub = p, ss_Fields = flds, ss_MethodNames = ms\<rparr>"
  "\<lambda>(flds, ms, p) n oo. AddStruct n flds ms p oo"
  by unfold_locales (auto simp: AddStruct_def split: if_splits)

interpretation aliases: decl_table o_TypeAliases ta_Name
  "\<lambda>(u, ms, p) n oo. \<lparr>ta_Name = n, ta_IsPub = p, ta_Underlying = u, ta_MethodNames = ms\<rparr>"
  "\<lambda>(u, ms, p) n oo. AddTypeAlias n u ms p oo"
  by unfold_locales (auto simp: AddTypeAlias_def split: if_splits)

interpretation ifaces: decl_table o_Interfaces is_Name
  "\<lambda>(ms, p) n oo. \<lparr>is_Name = n, is_IsPub = p, is_Methods = ms\<rparr>"
  "\<lambda>(ms, p) n oo. AddInterface n ms p oo"
  by unfold_locales (auto simp: AddInterface_def split: if_splits)

interpretation types: decl_table o_Types td_Name
  "\<lambda>(ps, d) n oo. \<lparr>td_Name = n, td_Properties = ps, td_Description = d\<rparr>"
  "\<lambda>(ps, d) n oo. AddType n ps d oo"
  by unfold_locales (auto simp: AddType_def split: if_splits)

interpretation valtypes: decl_table o_Values vs_Name
  "\<lambda>(tt, cs, ps, ms, p) n oo. \<lparr>vs_Name = n, vs_IsPub = p, vs_TagType = tt, vs_Cases = cs,
     vs_Projections = ps, vs_MethodNames = ms\<rparr>"
  "\<lambda>(tt, cs, ps, ms, p) n oo. AddValues n tt cs ps ms p oo"
  by unfold_locales (auto simp: AddValues_def split: if_splits)

text \<open>A file under construction: declarations, functions being built, and the fields the assembler
  sets on variables it has just declared.\<close>

inductive assembled :: "OFile \<Rightarrow> bool" where
  as_new: "assembled (NewOFile fname pkg)"
| as_var: "assembled oo \<Longrightarrow> AddVar n t v p oo = Inr oo' \<Longrightarrow> assembled oo'"
| as_data: "assembled oo \<Longrightarrow> AddData n t v p oo = Inr oo' \<Longrightarrow> assembled oo'"
| as_func: "assembled oo \<Longrightarrow> NewFunction sf sl n as oo = Inr oo' \<Longrightarrow> assembled oo'"
| as_struct: "assembled oo \<Longrightarrow> AddStruct n flds ms p oo = Inr oo' \<Longrightarrow> assembled oo'"
| as_alias: "assembled oo \<Longrightarrow> AddTypeAlias n u ms p oo = Inr oo' \<Longrightarrow> assembled oo'"
| as_iface: "assembled oo \<Longrightarrow> AddInterface n ims p oo = Inr oo' \<Longrightarrow> assembled oo'"
| as_type: "assembled oo \<Longrightarrow> AddType n ps d oo = Inr oo' \<Longrightarrow> assembled oo'"
| as_values: "assembled oo \<Longrightarrow> AddValues n tt cs pjs ms p oo = Inr oo' \<Longrightarrow> assembled oo'"
| as_body: "assembled oo \<Longrightarrow> has (o_Funcs oo) n \<Longrightarrow> built (o_Pkgname oo) n f \<Longrightarrow>
    assembled (oo\<lparr>o_Funcs := AList.update n f (o_Funcs oo)\<rparr>)"
| as_var_relocs: "assembled oo \<Longrightarrow> map_of (o_Vars oo) n = Some v \<Longrightarrow>
    assembled (oo\<lparr>o_Vars := AList.update n (v\<lparr>v_Relocs := rs, v_Kind := k\<rparr>) (o_Vars oo)\<rparr>)"
| as_data_relocs: "assembled oo \<Longrightarrow> map_of (o_Data oo) n = Some v \<Longrightarrow>
    assembled (oo\<lparr>o_Data := AList.update n (v\<lparr>v_Relocs := rs, v_Kind := k\<rparr>) (o_Data oo)\<rparr>)"

definition ofile_ok :: "OFile \<Rightarrow> bool" where
  "ofile_ok oo \<longleftrightarrow>
     tab_ok td_Name (o_Types oo) \<and> tab_ok v_Name (o_Data oo) \<and> tab_ok v_Name (o_Vars oo) \<and>
     tab_ok f_Name (o_Funcs oo) \<and> tab_ok ss_Name (o_Structs oo) \<and>
     tab_ok ta_Name (o_TypeAliases oo) \<and> tab_ok is_Name (o_Interfaces oo) \<and>
     tab_ok vs_Name (o_Values oo)"

definition disjoint_names :: "OFile \<Rightarrow> bool" where
  "disjoint_names oo \<longleftrightarrow> (\<forall>n. \<not> (has (o_Vars oo) n \<and> has (o_Data oo) n) \<and>
     \<not> (has (o_Vars oo) n \<and> has (o_Funcs oo) n) \<and> \<not> (has (o_Data oo) n \<and> has (o_Funcs oo) n))"

definition funcs_built :: "OFile \<Rightarrow> bool" where
  "funcs_built oo \<longleftrightarrow> (\<forall>(n, f) \<in> set (o_Funcs oo). built (o_Pkgname oo) n f)"

lemma has_lookup: "map_of t n = Some v \<Longrightarrow> has t n"
  by (simp add: has_def)

lemma has_None: "map_of t n = None \<longleftrightarrow> \<not> has t n"
  by (simp add: has_def)

lemma assembled_tables: "assembled oo \<Longrightarrow> ofile_ok oo"
proof (induction rule: assembled.induct)
  case (as_new fname pkg)
  then show ?case by (simp add: ofile_ok_def NewOFile_def)
next
  case (as_body oo n f)
  then show ?case using built_ok by (simp add: ofile_ok_def tab_ok_update)
next
  case (as_var_relocs oo n v k rs)
  then show ?case by (auto simp: ofile_ok_def intro!: tab_ok_update dest: tab_ok_lookup)
next
  case (as_data_relocs oo n v k rs)
  then show ?case by (auto simp: ofile_ok_def intro!: tab_ok_update dest: tab_ok_lookup)
qed (auto simp: ofile_ok_def AddVar_def AddData_def NewFunction_def AddStruct_def AddTypeAlias_def
    AddInterface_def AddType_def AddValues_def new_var_def new_function_def
    split: if_splits option.splits intro!: tab_ok_update)

lemma assembled_disjoint: "assembled oo \<Longrightarrow> disjoint_names oo"
proof (induction rule: assembled.induct)
  case (as_new fname pkg)
  then show ?case by (simp add: disjoint_names_def NewOFile_def)
next
  case (as_var_relocs oo n v k rs)
  then show ?case by (auto simp: disjoint_names_def dest: has_lookup)
next
  case (as_data_relocs oo n v k rs)
  then show ?case by (auto simp: disjoint_names_def dest: has_lookup)
qed (auto simp: disjoint_names_def AddVar_def AddData_def NewFunction_def AddStruct_def
    AddTypeAlias_def AddInterface_def AddType_def AddValues_def has_None
    split: if_splits option.splits)

lemma assembled_built: "assembled oo \<Longrightarrow> funcs_built oo"
proof (induction rule: assembled.induct)
  case (as_new fname pkg)
  then show ?case by (simp add: funcs_built_def NewOFile_def)
next
  case (as_func oo sf sl n as oo')
  then show ?case
    using set_update_subset[of n _ "o_Funcs oo"] built.built_new
    by (fastforce simp: funcs_built_def NewFunction_def split: if_splits option.splits)
next
  case (as_body oo n f)
  then show ?case using set_update_subset[of n f "o_Funcs oo"] by (auto simp: funcs_built_def)
qed (auto simp: funcs_built_def AddVar_def AddData_def AddStruct_def AddTypeAlias_def
    AddInterface_def AddType_def AddValues_def split: if_splits)

text \<open>C39. Object file under construction: whatever sequence of declarations, function construction
  steps and field settings made it, every table maps a name to at most one record and that record
  carries the name, no two of variables, data blocks and functions share a name, every function was
  built by the function operations under the file's package, and \<open>VarFor\<close> finds exactly the
  variables and data blocks.\<close>

theorem assembled_invariant:
  assumes "assembled oo"
  shows "ofile_ok oo \<and> disjoint_names oo \<and> funcs_built oo \<and>
    (\<forall>n v. VarFor oo n = Some v \<longleftrightarrow> (n, v) \<in> set (o_Vars oo) \<or> (n, v) \<in> set (o_Data oo))"
proof -
  have ok: "ofile_ok oo" and dis: "disjoint_names oo"
    using assms by (simp_all add: assembled_tables assembled_disjoint)
  have in_tab: "map_of t n = Some v \<longleftrightarrow> (n, v) \<in> set t" if "tab_ok nm t"
    for nm :: "Var \<Rightarrow> string" and t n v
    using that by (simp add: tab_ok_def)
  have "map_of (o_Vars oo) n = Some v \<longleftrightarrow> (n, v) \<in> set (o_Vars oo)"
    "map_of (o_Data oo) n = Some v \<longleftrightarrow> (n, v) \<in> set (o_Data oo)" for n v
    using ok in_tab[of v_Name] by (simp_all add: ofile_ok_def)
  moreover have "VarFor oo n = Some v \<longleftrightarrow>
      map_of (o_Vars oo) n = Some v \<or> map_of (o_Data oo) n = Some v" for n v
  proof -
    have "\<not> (has (o_Vars oo) n \<and> has (o_Data oo) n)" using dis by (simp add: disjoint_names_def)
    then show ?thesis by (cases "map_of (o_Vars oo) n") (auto simp: VarFor_def has_def)
  qed
  ultimately show ?thesis using ok dis assembled_built[OF assms] by simp
qed

definition sample_ofile :: OFile where
  "sample_ofile = (let
      add = (\<lambda>f r. case r of Inr x \<Rightarrow> f x | Inl e \<Rightarrow> Inl e);
      r1 = AddVar ''x'' ''i64'' (ValU64 7) True (NewOFile ''a.bo'' ''main'');
      r2 = add (AddData ''msg'' ''byte[2]'' (ValString ''hi'') False) r1;
      r3 = add (NewFunction ''a.bs'' 3 ''f'' []) r2
    in case r3 of Inr x \<Rightarrow> x\<lparr>o_Funcs := AList.update ''f'' sample_fn (o_Funcs x)\<rparr>
       | Inl e \<Rightarrow> NewOFile '''' '''')"

lemma sample_ofile_steps:
  "\<exists>o1 o2 o3. AddVar ''x'' ''i64'' (ValU64 7) True (NewOFile ''a.bo'' ''main'') = Inr o1 \<and>
     AddData ''msg'' ''byte[2]'' (ValString ''hi'') False o1 = Inr o2 \<and>
     NewFunction ''a.bs'' 3 ''f'' [] o2 = Inr o3 \<and> o_Pkgname o3 = ''main'' \<and> has (o_Funcs o3) ''f'' \<and>
     sample_ofile = o3\<lparr>o_Funcs := AList.update ''f'' sample_fn (o_Funcs o3)\<rparr>"
  by (simp add: sample_ofile_def AddVar_def AddData_def NewFunction_def NewOFile_def Let_def)

lemma sample_ofile_assembled: "assembled sample_ofile"
proof -
  obtain o1 o2 o3 where s: "AddVar ''x'' ''i64'' (ValU64 7) True (NewOFile ''a.bo'' ''main'') = Inr o1"
    "AddData ''msg'' ''byte[2]'' (ValString ''hi'') False o1 = Inr o2"
    "NewFunction ''a.bs'' 3 ''f'' [] o2 = Inr o3" "o_Pkgname o3 = ''main''" "has (o_Funcs o3) ''f''"
    "sample_ofile = o3\<lparr>o_Funcs := AList.update ''f'' sample_fn (o_Funcs o3)\<rparr>"
    using sample_ofile_steps by blast
  have "assembled o3"
    by (rule as_func[OF as_data[OF as_var[OF as_new s(1)] s(2)] s(3)])
  then show ?thesis unfolding s(6) using s(4,5) sample_fn_built by (intro as_body) simp_all
qed

theorem assembled_invariant_witness:
  "disjoint_names sample_ofile \<and>
   map_option v_Val (VarFor sample_ofile ''msg'') = Some (str_bytes ''hi'')"
proof
  show "disjoint_names sample_ofile"
    using assembled_invariant[OF sample_ofile_assembled] by simp
  show "map_option v_Val (VarFor sample_ofile ''msg'') = Some (str_bytes ''hi'')"
    by (simp add: sample_ofile_def AddVar_def AddData_def NewFunction_def NewOFile_def Let_def
      VarFor_def new_var_def)
qed

text \<open>Declarations, name clashes between types: a struct name is refused to a later values type,
  but a values type, alias or interface name is not refused to a later struct, so whether the clash
  is an error depends on the order of the declarations (the comment of \<open>AddStruct\<close> promises an error
  for a name used by any kind of declaration).\<close>

theorem AddStruct_clash_order:
  "(AddStruct n flds ms p oo = Inr oo' \<longrightarrow>
      AddValues n tt cs pjs ms' p' oo' = Inl (if has (o_Values oo) n then DupValues n else DupName n)) \<and>
   (AddValues n tt cs pjs ms' p' oo = Inr oo'' \<and>
      \<not> has (o_Vars oo) n \<and> \<not> has (o_Data oo) n \<and> \<not> has (o_Funcs oo) n \<longrightarrow>
      (\<exists>o3. AddStruct n flds ms p oo'' = Inr o3 \<and> has (o_Structs o3) n \<and> has (o_Values o3) n))"
  by (auto simp: AddStruct_def AddValues_def)

theorem AddStruct_clash_order_witness:
  "\<exists>o1 o2. AddValues ''err'' ''i64'' [] [] [] True (NewOFile ''a.bo'' ''m'') = Inr o1 \<and>
     AddStruct ''err'' [] [] True o1 = Inr o2 \<and> has (o_Structs o2) ''err'' \<and> has (o_Values o2) ''err''"
proof -
  obtain o1 where o1: "AddValues ''err'' ''i64'' [] [] [] True (NewOFile ''a.bo'' ''m'') = Inr o1"
    by (simp add: AddValues_def NewOFile_def)
  then show ?thesis
    using AddStruct_clash_order[of "''err''" "[]" "[]" True "NewOFile ''a.bo'' ''m''" undefined
      "''i64''" "[]" "[]" "[]" True o1]
    by (simp add: NewOFile_def)
qed

end
