(* ===== verification/ObjCodec.thy ===== *)
theory ObjCodec
  imports ObjFile "HOL-Library.List_Lexorder" "HOL-Library.Char_ord"
begin

text \<open>
  The object-file format, \<open>bwrite.go\<close>: a writer and a reader for every record of \<open>ofile.go\<close>, each
  pair an instance of the locale \<open>codec\<close>, up to whole files (\<open>writeOFile\<close>, \<open>ReadOFile\<close>).

  The tables of types, data, variables and functions are written in the order Go iterates over the
  map (the order of the association list), the others by sorted name.  The first argument of
  \<open>read_slice\<close> is the size in bytes of the Go element type, for the bound \<open>make\<close> checks.
  The theorems: reading what was written gives the file back (functions in their resolved form);
  every truncated file is rejected with an end-of-file error; exactly which files cannot be written;
  the sorted sections do not depend on the iteration order.
\<close>

section \<open>Records\<close>

definition writeTypeDescr :: "TypeDescr \<Rightarrow> written" where
  "writeTypeDescr t = wr_cat [writeString (td_Name t), write_slice writeString (td_Properties t),
     writeBytes (td_Description t)]"

definition readTypeDescr :: "TypeDescr reader" where
  "readTypeDescr =
     rd_bind readString (\<lambda>n. rd_bind (read_slice 16 readString) (\<lambda>ps. rd_bind readBytes (\<lambda>bs.
     rd_ret \<lparr>td_Name = n, td_Properties = ps, td_Description = bs\<rparr>)))"

definition writeDataReloc :: "DataReloc \<Rightarrow> written" where
  "writeDataReloc r = wr_cat [write_u32 (dr_Offset r), writeString (dr_Symbol r), write_u64 (dr_Addend r)]"

definition readDataReloc :: "DataReloc reader" where
  "readDataReloc =
     rd_bind read_u32 (\<lambda>off. rd_bind readString (\<lambda>sym. rd_bind read_u64 (\<lambda>add.
     rd_ret \<lparr>dr_Offset = off, dr_Symbol = sym, dr_Addend = add\<rparr>)))"

definition writeVar :: "Var \<Rightarrow> written" where
  "writeVar v = wr_cat [writeString (v_Name v), write_bool (v_IsPub v), writeString (v_VType v),
     writeBytes (v_Val v), write_slice writeDataReloc (v_Relocs v), writeString (v_Kind v)]"

definition readVar :: "Var reader" where
  "readVar =
     rd_bind readString (\<lambda>n. rd_bind read_bool (\<lambda>p. rd_bind readString (\<lambda>t. rd_bind readBytes (\<lambda>bs.
     rd_bind (read_slice 32 readDataReloc) (\<lambda>rs. rd_bind readString (\<lambda>k.
     rd_ret \<lparr>v_Name = n, v_IsPub = p, v_VType = t, v_Val = bs, v_Relocs = rs, v_Kind = k\<rparr>))))))"

definition writeSymbol :: "Symbol \<Rightarrow> written" where
  "writeSymbol s = wr_cat [writeString (sy_Name s), write_u32 (sy_Offset s)]"

definition readSymbol :: "Symbol reader" where
  "readSymbol = rd_bind readString (\<lambda>n. rd_bind read_u32 (\<lambda>off.
     rd_ret \<lparr>sy_Name = n, sy_Offset = off\<rparr>))"

definition writeRelocation :: "Relocation \<Rightarrow> written" where
  "writeRelocation r = wr_cat [write_u32 (r_Offset r), writeString (r_Symbol r), write_u32 (r_Addend r)]"

definition readRelocation :: "Relocation reader" where
  "readRelocation =
     rd_bind read_u32 (\<lambda>off. rd_bind readString (\<lambda>sym. rd_bind read_u32 (\<lambda>add.
     rd_ret \<lparr>r_Offset = off, r_Symbol = sym, r_Addend = add\<rparr>)))"

definition writeField :: "FieldShape \<Rightarrow> written" where
  "writeField f = wr_cat [writeString (fs_Name f), writeString (fs_Type f)]"

definition readField :: "FieldShape reader" where
  "readField = rd_bind readString (\<lambda>n. rd_bind readString (\<lambda>t. rd_ret \<lparr>fs_Name = n, fs_Type = t\<rparr>))"

definition writeStruct :: "StructShape \<Rightarrow> written" where
  "writeStruct s = wr_cat [writeString (ss_Name s), write_bool (ss_IsPub s),
     write_slice writeField (ss_Fields s), write_slice writeString (ss_MethodNames s)]"

definition readStruct :: "StructShape reader" where
  "readStruct =
     rd_bind readString (\<lambda>n. rd_bind read_bool (\<lambda>p. rd_bind (read_slice 32 readField) (\<lambda>flds.
     rd_bind (read_slice 16 readString) (\<lambda>ms.
     rd_ret \<lparr>ss_Name = n, ss_IsPub = p, ss_Fields = flds, ss_MethodNames = ms\<rparr>))))"

definition writeTypeAlias :: "TypeAliasShape \<Rightarrow> written" where
  "writeTypeAlias a = wr_cat [writeString (ta_Name a), write_bool (ta_IsPub a),
     writeString (ta_Underlying a), write_slice writeString (ta_MethodNames a)]"

definition readTypeAlias :: "TypeAliasShape reader" where
  "readTypeAlias =
     rd_bind readString (\<lambda>n. rd_bind read_bool (\<lambda>p. rd_bind readString (\<lambda>u.
     rd_bind (read_slice 16 readString) (\<lambda>ms.
     rd_ret \<lparr>ta_Name = n, ta_IsPub = p, ta_Underlying = u, ta_MethodNames = ms\<rparr>))))"

definition writeAliases :: "int list list \<Rightarrow> written" where
  "writeAliases = write_slice (write_slice writeSize)"

definition readAliases :: "int list list reader" where
  "readAliases = read_slice 24 (read_slice 8 readSize)"

definition writeMethod :: "InterfaceMethodShape \<Rightarrow> written" where
  "writeMethod m = wr_cat [writeString (im_Name m), write_slice writeField (im_Params m),
     writeString (im_Return m), writeAliases (im_ReturnAliases m)]"

definition readMethod :: "InterfaceMethodShape reader" where
  "readMethod =
     rd_bind readString (\<lambda>n. rd_bind (read_slice 32 readField) (\<lambda>ps. rd_bind readString (\<lambda>r.
     rd_bind readAliases (\<lambda>ra.
     rd_ret \<lparr>im_Name = n, im_Params = ps, im_Return = r, im_ReturnAliases = ra\<rparr>))))"

definition writeInterface :: "InterfaceShape \<Rightarrow> written" where
  "writeInterface i = wr_cat [writeString (is_Name i), write_bool (is_IsPub i),
     write_slice writeMethod (is_Methods i)]"

definition readInterface :: "InterfaceShape reader" where
  "readInterface =
     rd_bind readString (\<lambda>n. rd_bind read_bool (\<lambda>p. rd_bind (read_slice 80 readMethod) (\<lambda>ms.
     rd_ret \<lparr>is_Name = n, is_IsPub = p, is_Methods = ms\<rparr>)))"

definition writeCase :: "ValuesCaseShape \<Rightarrow> written" where
  "writeCase c = wr_cat [writeString (vc_Name c), write_u64 (vc_Tag c)]"

definition readCase :: "ValuesCaseShape reader" where
  "readCase = rd_bind readString (\<lambda>n. rd_bind read_u64 (\<lambda>t. rd_ret \<lparr>vc_Name = n, vc_Tag = t\<rparr>))"

definition writeProjection :: "ProjectionShape \<Rightarrow> written" where
  "writeProjection p = writeString (pj_TargetType p)"

definition readProjection :: "ProjectionShape reader" where
  "readProjection = rd_bind readString (\<lambda>t. rd_ret \<lparr>pj_TargetType = t\<rparr>)"

definition writeValuesType :: "ValuesShape \<Rightarrow> written" where
  "writeValuesType v = wr_cat [writeString (vs_Name v), write_bool (vs_IsPub v),
     writeString (vs_TagType v), write_slice writeCase (vs_Cases v),
     write_slice writeProjection (vs_Projections v), write_slice writeString (vs_MethodNames v)]"

definition readValuesType :: "ValuesShape reader" where
  "readValuesType =
     rd_bind readString (\<lambda>n. rd_bind read_bool (\<lambda>p. rd_bind readString (\<lambda>t.
     rd_bind (read_slice 24 readCase) (\<lambda>cs. rd_bind (read_slice 16 readProjection) (\<lambda>pjs.
     rd_bind (read_slice 16 readString) (\<lambda>ms.
     rd_ret \<lparr>vs_Name = n, vs_IsPub = p, vs_TagType = t, vs_Cases = cs, vs_Projections = pjs,
             vs_MethodNames = ms\<rparr>))))))"

section \<open>Functions\<close>

definition write_body :: "Function \<Rightarrow> written" where
  "write_body f = (case Body f of
     None \<Rightarrow> Inl JumpOutOfRange
   | Some (Inl es) \<Rightarrow> Inl (BodyErrors es)
   | Some (Inr body) \<Rightarrow> writeBytes body)"

definition writeFunction :: "Function \<Rightarrow> written" where
  "writeFunction f0 = (case Resolve f0 of
     None \<Rightarrow> Inl JumpOutOfRange
   | Some f \<Rightarrow> wr_cat [writeString (f_Name f), write_bool (f_IsPub f), writeString (f_Type f),
       writeString (f_SrcFile f), writeSize (f_SrcLine f), write_slice writeVar (f_Args f),
       write_slice writeSymbol (f_Symbols f), write_slice writeRelocation (f_Relocations f),
       write_body f, writeAliases (f_ReturnAliases f)])"

definition readFunction :: "Function reader" where
  "readFunction =
     rd_bind readString (\<lambda>n. rd_bind read_bool (\<lambda>p. rd_bind readString (\<lambda>t. rd_bind readString (\<lambda>sf.
     rd_bind readSize (\<lambda>sl. rd_bind (read_slice 8 readVar) (\<lambda>as.
     rd_bind (read_slice 24 readSymbol) (\<lambda>ss. rd_bind (read_slice 32 readRelocation) (\<lambda>rs.
     rd_bind readBytes (\<lambda>body. rd_bind readAliases (\<lambda>ra.
     rd_ret \<lparr>f_Name = n, f_Pkgname = '''', f_IsPub = p, f_Type = t, f_SrcFile = sf, f_SrcLine = sl,
       f_Args = as, f_Symbols = ss, f_Relocations = rs, f_ReturnAliases = ra, f_bodyBs = Some body,
       f_bs = [], f_labels = [], f_jumps = [], f_errors = []\<rparr>))))))))))"

section \<open>Files\<close>

definition write_map :: "('a \<Rightarrow> written) \<Rightarrow> (string \<times> 'a) list \<Rightarrow> written" where
  "write_map enc m = wr_cat [writeSize (int (length m)), write_all enc (map snd m)]"

definition sorted_entries :: "(string \<times> 'a) list \<Rightarrow> (string \<times> 'a) list" where
  "sorted_entries m = map (\<lambda>n. (n, the (map_of m n))) (sort (map fst m))"

definition writeTypeDescrs :: "(string \<times> TypeDescr) list \<Rightarrow> written" where
  "writeTypeDescrs m = write_map writeTypeDescr m"

definition readTypeDescrs :: "(string \<times> TypeDescr) list reader" where
  "readTypeDescrs = read_map td_Name readTypeDescr"

definition writeVars :: "(string \<times> Var) list \<Rightarrow> written" where
  "writeVars m = write_map writeVar m"

definition readVars :: "(string \<times> Var) list reader" where
  "readVars = read_map v_Name readVar"

definition writeFunctions :: "(string \<times> Function) list \<Rightarrow> written" where
  "writeFunctions m = write_map writeFunction m"

definition readFunctions :: "(string \<times> Function) list reader" where
  "readFunctions = read_map f_Name readFunction"

definition writeStructs :: "(string \<times> StructShape) list \<Rightarrow> written" where
  "writeStructs m = write_map writeStruct (sorted_entries m)"

definition readStructs :: "(string \<times> StructShape) list reader" where
  "readStructs = read_map ss_Name readStruct"

definition writeTypeAliases :: "(string \<times> TypeAliasShape) list \<Rightarrow> written" where
  "writeTypeAliases m = write_map writeTypeAlias (sorted_entries m)"

definition readTypeAliases :: "(string \<times> TypeAliasShape) list reader" where
  "readTypeAliases = read_map ta_Name readTypeAlias"

definition writeInterfaces :: "(string \<times> InterfaceShape) list \<Rightarrow> written" where
  "writeInterfaces m = write_map writeInterface (sorted_entries m)"

definition readInterfaces :: "(string \<times> InterfaceShape) list reader" where
  "readInterfaces = read_map is_Name readInterface"

definition writeValues :: "(string \<times> ValuesShape) list \<Rightarrow> written" where
  "writeValues m = write_map writeValuesType (sorted_entries m)"

definition readValues :: "(string \<times> ValuesShape) list reader" where
  "readValues = read_map vs_Name readValuesType"

definition writeOFile :: "OFile \<Rightarrow> written" where
  "writeOFile oo = wr_cat [writeString (o_Pkgname oo), writeString (o_ExeFormat oo),
     writeTypeDescrs (o_Types oo), writeVars (o_Data oo), writeVars (o_Vars oo),
     writeFunctions (o_Funcs oo), writeStructs (o_Structs oo), writeTypeAliases (o_TypeAliases oo),
     writeInterfaces (o_Interfaces oo), writeValues (o_Values oo)]"

definition readOFile :: "OFile reader" where
  "readOFile =
     rd_bind readString (\<lambda>pkg. rd_bind readString (\<lambda>exe. rd_bind readTypeDescrs (\<lambda>ts.
     rd_bind readVars (\<lambda>ds. rd_bind readVars (\<lambda>vs. rd_bind readFunctions (\<lambda>fs.
     rd_bind readStructs (\<lambda>ss. rd_bind readTypeAliases (\<lambda>as. rd_bind readInterfaces (\<lambda>is.
     rd_bind readValues (\<lambda>vals.
     rd_ret \<lparr>o_Filename = '''', o_Pkgname = pkg, o_ExeFormat = exe, o_Types = ts, o_Data = ds,
       o_Vars = vs, o_Funcs = fs, o_Structs = ss, o_TypeAliases = as, o_Interfaces = is,
       o_Values = vals\<rparr>))))))))))"

text \<open>\<open>content\<close> is what the file delivers; bytes after the last table are not looked at.\<close>

definition ReadOFile :: "string \<Rightarrow> byte list \<Rightarrow> ioerr + OFile" where
  "ReadOFile fname content = rbind (readOFile content) (\<lambda>(oo, _).
     Inr (oo\<lparr>o_Filename := fname,
             o_Funcs := map (\<lambda>(n, f). (n, f\<lparr>f_Pkgname := o_Pkgname oo\<rparr>)) (o_Funcs oo)\<rparr>))"

section \<open>Which records fit the format\<close>

text \<open>Lengths within what \<open>make\<close> accepts, sizes and indices not negative.\<close>

definition fits_slice :: "int \<Rightarrow> ('a \<Rightarrow> bool) \<Rightarrow> 'a list \<Rightarrow> bool" where
  "fits_slice es v xs \<longleftrightarrow> list_all v xs \<and> es * int (length xs) \<le> maxAlloc"

definition fits_bytes :: "byte list \<Rightarrow> bool" where
  "fits_bytes bs \<longleftrightarrow> int (length bs) \<le> maxAlloc"

definition any :: "'a \<Rightarrow> bool" where
  "any x = True"

context codec
begin

lemma slice: "1 \<le> es \<Longrightarrow> fits_slice es valid xs \<Longrightarrow> codes (write_slice enc xs) (read_slice es dec) xs"
  unfolding fits_slice_def by (rule codes_slice) auto

lemma map_written:
  assumes "list_all valid (map snd m)" "tab_ok key m" "int (length m) \<le> MaxInt"
  shows "codes (write_map enc m) (read_map key dec) m"
  unfolding write_map_def using assms by (intro codes_map) (auto simp: tab_ok_def)

end

lemma codes_done: "x = y \<Longrightarrow> codes (wr_cat []) (rd_ret x) y"
  using codes_nil by simp

interpretation bool_codec: codec write_bool read_bool any
  by unfold_locales (rule codes_bool)

interpretation u32_codec: codec write_u32 read_u32 any
  by unfold_locales (rule codes_u32)

interpretation u64_codec: codec write_u64 read_u64 any
  by unfold_locales (rule codes_u64)

interpretation bytes_codec: codec writeBytes readBytes fits_bytes
  by unfold_locales (simp add: codes_bytes fits_bytes_def)

lemmas prims = codes_cons codes_done string_codec.codes string_codec.slice bool_codec.codes
  u32_codec.codes u64_codec.codes bytes_codec.codes size_codec.codes size_codec.slice

definition fits_td :: "TypeDescr \<Rightarrow> bool" where
  "fits_td t \<longleftrightarrow> fits_str (td_Name t) \<and> fits_slice 16 fits_str (td_Properties t) \<and>
     fits_bytes (td_Description t)"

definition fits_dr :: "DataReloc \<Rightarrow> bool" where
  "fits_dr r \<longleftrightarrow> fits_str (dr_Symbol r)"

definition fits_var :: "Var \<Rightarrow> bool" where
  "fits_var v \<longleftrightarrow> fits_str (v_Name v) \<and> fits_str (v_VType v) \<and> fits_bytes (v_Val v) \<and>
     fits_slice 32 fits_dr (v_Relocs v) \<and> fits_str (v_Kind v)"

definition fits_sym :: "Symbol \<Rightarrow> bool" where
  "fits_sym s \<longleftrightarrow> fits_str (sy_Name s)"

definition fits_rel :: "Relocation \<Rightarrow> bool" where
  "fits_rel r \<longleftrightarrow> fits_str (r_Symbol r)"

definition fits_field :: "FieldShape \<Rightarrow> bool" where
  "fits_field f \<longleftrightarrow> fits_str (fs_Name f) \<and> fits_str (fs_Type f)"

definition fits_struct :: "StructShape \<Rightarrow> bool" where
  "fits_struct s \<longleftrightarrow> fits_str (ss_Name s) \<and> fits_slice 32 fits_field (ss_Fields s) \<and>
     fits_slice 16 fits_str (ss_MethodNames s)"

definition fits_alias :: "TypeAliasShape \<Rightarrow> bool" where
  "fits_alias a \<longleftrightarrow> fits_str (ta_Name a) \<and> fits_str (ta_Underlying a) \<and>
     fits_slice 16 fits_str (ta_MethodNames a)"

definition fits_aliases :: "int list list \<Rightarrow> bool" where
  "fits_aliases = fits_slice 24 (fits_slice 8 fits_int)"

definition fits_method :: "InterfaceMethodShape \<Rightarrow> bool" where
  "fits_method m \<longleftrightarrow> fits_str (im_Name m) \<and> fits_slice 32 fits_field (im_Params m) \<and>
     fits_str (im_Return m) \<and> fits_aliases (im_ReturnAliases m)"

definition fits_iface :: "InterfaceShape \<Rightarrow> bool" where
  "fits_iface i \<longleftrightarrow> fits_str (is_Name i) \<and> fits_slice 80 fits_method (is_Methods i)"

definition fits_case :: "ValuesCaseShape \<Rightarrow> bool" where
  "fits_case c \<longleftrightarrow> fits_str (vc_Name c)"

definition fits_proj :: "ProjectionShape \<Rightarrow> bool" where
  "fits_proj p \<longleftrightarrow> fits_str (pj_TargetType p)"

definition fits_values :: "ValuesShape \<Rightarrow> bool" where
  "fits_values v \<longleftrightarrow> fits_str (vs_Name v) \<and> fits_str (vs_TagType v) \<and>
     fits_slice 24 fits_case (vs_Cases v) \<and> fits_slice 16 fits_proj (vs_Projections v) \<and>
     fits_slice 16 fits_str (vs_MethodNames v)"

interpretation td_codec: codec writeTypeDescr readTypeDescr fits_td
  by unfold_locales
    (unfold writeTypeDescr_def readTypeDescr_def, (rule prims | simp add: fits_td_def)+)

interpretation dr_codec: codec writeDataReloc readDataReloc fits_dr
  by unfold_locales
    (unfold writeDataReloc_def readDataReloc_def, (rule prims | simp add: fits_dr_def any_def)+)

interpretation var_codec: codec writeVar readVar fits_var
  by unfold_locales
    (unfold writeVar_def readVar_def, (rule prims dr_codec.slice | simp add: fits_var_def any_def)+)

interpretation sym_codec: codec writeSymbol readSymbol fits_sym
  by unfold_locales
    (unfold writeSymbol_def readSymbol_def, (rule prims | simp add: fits_sym_def any_def)+)

interpretation rel_codec: codec writeRelocation readRelocation fits_rel
  by unfold_locales
    (unfold writeRelocation_def readRelocation_def, (rule prims | simp add: fits_rel_def any_def)+)

interpretation field_codec: codec writeField readField fits_field
  by unfold_locales (unfold writeField_def readField_def, (rule prims | simp add: fits_field_def)+)

interpretation struct_codec: codec writeStruct readStruct fits_struct
  by unfold_locales
    (unfold writeStruct_def readStruct_def, (rule prims field_codec.slice | simp add: fits_struct_def any_def)+)

interpretation alias_codec: codec writeTypeAlias readTypeAlias fits_alias
  by unfold_locales
    (unfold writeTypeAlias_def readTypeAlias_def, (rule prims | simp add: fits_alias_def any_def)+)

interpretation slots_codec: codec "write_slice writeSize" "read_slice 8 readSize" "fits_slice 8 fits_int"
  by unfold_locales (simp add: size_codec.slice)

interpretation aliases_codec: codec writeAliases readAliases fits_aliases
  by unfold_locales (simp add: writeAliases_def readAliases_def fits_aliases_def slots_codec.slice)

interpretation method_codec: codec writeMethod readMethod fits_method
  by unfold_locales
    (unfold writeMethod_def readMethod_def, (rule prims field_codec.slice aliases_codec.codes | simp add: fits_method_def)+)

interpretation iface_codec: codec writeInterface readInterface fits_iface
  by unfold_locales
    (unfold writeInterface_def readInterface_def, (rule prims method_codec.slice | simp add: fits_iface_def any_def)+)

interpretation case_codec: codec writeCase readCase fits_case
  by unfold_locales (unfold writeCase_def readCase_def, (rule prims | simp add: fits_case_def any_def)+)

interpretation proj_codec: codec writeProjection readProjection fits_proj
proof
  fix p assume "fits_proj p"
  then have "codes (wr_cat [writeString (pj_TargetType p)]) readProjection p"
    unfolding readProjection_def
    by (intro codes_cons[OF string_codec.codes codes_done]) (simp_all add: fits_proj_def)
  then show "codes (writeProjection p) readProjection p"
    by (simp add: writeProjection_def wr_cat.simps)
qed

interpretation values_codec: codec writeValuesType readValuesType fits_values
  by unfold_locales
    (unfold writeValuesType_def readValuesType_def, (rule prims case_codec.slice proj_codec.slice | simp add: fits_values_def any_def)+)

section \<open>Functions, read back\<close>

definition resolved :: "Function \<Rightarrow> Function" where
  "resolved f = (case Resolve f of Some g \<Rightarrow> g | None \<Rightarrow> f)"

text \<open>What a reader makes of a function: its resolved form, without the builder's state.\<close>

definition read_back :: "string \<Rightarrow> Function \<Rightarrow> Function" where
  "read_back pkg f = (let g = resolved f in
     g\<lparr>f_Pkgname := pkg, f_bodyBs := Some (body_of g), f_bs := [], f_labels := [], f_jumps := [],
       f_errors := []\<rparr>)"

definition fits_fn :: "Function \<Rightarrow> bool" where
  "fits_fn f \<longleftrightarrow> Resolve f \<noteq> None \<and> f_errors f = [] \<and>
     fits_str (f_Name f) \<and> fits_str (f_Type f) \<and> fits_str (f_SrcFile f) \<and> fits_int (f_SrcLine f) \<and>
     fits_slice 8 fits_var (f_Args f) \<and> fits_slice 24 fits_sym (f_Symbols f) \<and>
     fits_slice 32 fits_rel (f_Relocations (resolved f)) \<and> fits_bytes (body_of (resolved f)) \<and>
     fits_aliases (f_ReturnAliases f)"

lemma Resolve_keeps:
  "Resolve f = Some g \<Longrightarrow> f_Name g = f_Name f \<and> f_IsPub g = f_IsPub f \<and> f_Type g = f_Type f \<and>
     f_SrcFile g = f_SrcFile f \<and> f_SrcLine g = f_SrcLine f \<and> f_Args g = f_Args f \<and>
     f_Symbols g = f_Symbols f \<and> f_ReturnAliases g = f_ReturnAliases f \<and> f_errors g = f_errors f \<and>
     f_Pkgname g = f_Pkgname f"
  by (auto simp: Resolve_def split: if_splits option.splits)

lemma resolved_Name [simp]: "f_Name (resolved f) = f_Name f" "f_Name (read_back pkg f) = f_Name f"
proof -
  show "f_Name (resolved f) = f_Name f"
    using Resolve_keeps[of f] by (cases "Resolve f") (simp_all add: resolved_def)
  then show "f_Name (read_back pkg f) = f_Name f" by (simp add: read_back_def Let_def)
qed

lemma Resolve_read_back [simp]: "Resolve (read_back pkg f) = Some (read_back pkg f)"
  by (simp add: Resolve_def read_back_def Let_def)

lemma resolved_read_back [simp]: "resolved (read_back pkg f) = read_back pkg f"
  by (simp add: resolved_def)

lemma read_back_idem [simp]: "read_back pkg (read_back pkg' f) = (read_back pkg f)"
  by (simp add: read_back_def resolved_def Resolve_def Let_def body_of_def)

lemma writeFunction_read_back:
  assumes "Resolve f \<noteq> None" "f_errors f = []"
  shows "writeFunction (read_back pkg f) = writeFunction f"
proof -
  obtain g where g: "Resolve f = Some g" using assms by auto
  then have "Resolve g = Some g" by (rule Resolve_idem_lemma)
  with g show ?thesis
    using assms(2) Resolve_keeps[OF g]
    by (simp add: writeFunction_def write_body_def Body_def)
      (simp add: read_back_def resolved_def body_of_def Let_def)
qed

lemma fits_fn_read_back: "fits_fn f \<Longrightarrow> fits_fn (read_back pkg f)"
  by (auto simp: fits_fn_def resolved_def read_back_def Let_def Resolve_def body_of_def
      dest!: Resolve_keeps split: option.splits)

interpretation fn_codec: codec writeFunction readFunction "\<lambda>f. fits_fn f \<and> read_back '''' f = f"
proof
  fix f assume f: "fits_fn f \<and> read_back '''' f = f"
  then have r: "Resolve f = Some f" "resolved f = f" by (metis Resolve_read_back, metis resolved_read_back)
  have e: "f_bodyBs f = Some (body_of f)" "f_Pkgname f = ''''" "f_bs f = []" "f_labels f = []"
    "f_jumps f = []" "f_errors f = []"
    using f by (simp_all add: read_back_def Let_def r) (metis (no_types, lifting) Function.select_convs Function.surjective Function.update_convs)+
  have "writeFunction f = wr_cat [writeString (f_Name f), write_bool (f_IsPub f),
       writeString (f_Type f), writeString (f_SrcFile f), writeSize (f_SrcLine f),
       write_slice writeVar (f_Args f), write_slice writeSymbol (f_Symbols f),
       write_slice writeRelocation (f_Relocations f), writeBytes (body_of f),
       writeAliases (f_ReturnAliases f)]"
    by (simp add: writeFunction_def r write_body_def Body_def e)
  also have "codes \<dots> readFunction f"
    unfolding readFunction_def
    by (rule prims var_codec.slice sym_codec.slice rel_codec.slice aliases_codec.codes
        | use f r in \<open>simp add: fits_fn_def any_def e[symmetric]\<close>)+
  finally show "codes (writeFunction f) readFunction f" .
qed

section \<open>Sorted sections\<close>

lemma map_of_map_keys: "map_of (map (\<lambda>n. (n, g n)) ns) n = (if n \<in> set ns then Some (g n) else None)"
  by (induction ns) auto

lemma sorted_entries_map_of:
  "distinct (map fst m) \<Longrightarrow> map_of (sorted_entries m) = map_of m"
proof
  fix n assume d: "distinct (map fst m)"
  have "map_of (sorted_entries m) n = (if n \<in> fst ` set m then Some (the (map_of m n)) else None)"
    by (simp add: sorted_entries_def map_of_map_keys)
  then show "map_of (sorted_entries m) n = map_of m n"
    using map_of_eq_None_iff[of m n] by (cases "map_of m n") (simp_all add: image_iff)
qed

lemma keys_sorted_entries [simp]: "map fst (sorted_entries m) = sort (map fst m)"
  by (simp add: sorted_entries_def comp_def)

lemma length_sorted_entries [simp]: "length (sorted_entries m) = length m"
  by (simp add: sorted_entries_def)

lemma distinct_sorted_entries: "distinct (map fst m) \<Longrightarrow> distinct (map fst (sorted_entries m))"
  by simp

lemma set_sorted_entries: "distinct (map fst m) \<Longrightarrow> set (sorted_entries m) = set m"
  by (metis distinct_sorted_entries map_of_inject_set sorted_entries_map_of)

lemma tab_ok_sorted: "tab_ok nm m \<Longrightarrow> tab_ok nm (sorted_entries m)"
  using set_sorted_entries[of m] by (simp add: tab_ok_def)

lemma list_all_sorted: "tab_ok nm m \<Longrightarrow> list_all v (map snd m) \<Longrightarrow> list_all v (map snd (sorted_entries m))"
  using set_sorted_entries[of m] by (simp add: tab_ok_def list_all_iff)

text \<open>The sorted form of a table is determined by the map it stands for.\<close>

lemma sorted_entries_cong:
  assumes "distinct (map fst m)" "distinct (map fst m')" "map_of m = map_of m'"
  shows "sorted_entries m = sorted_entries m'"
proof -
  have "set (map fst m) = set (map fst m')" using assms(3) by (metis dom_map_of_conv_image_fst list.set_map)
  then have "sort (map fst m) = sort (map fst m')"
    using assms(1,2) by (metis sorted_list_of_set_sort_remdups distinct_remdups_id)
  then show ?thesis using assms(3) by (simp add: sorted_entries_def)
qed

section \<open>Whole files\<close>

definition fits_tab :: "('a \<Rightarrow> bool) \<Rightarrow> (string \<times> 'a) list \<Rightarrow> bool" where
  "fits_tab v m \<longleftrightarrow> list_all v (map snd m) \<and> int (length m) \<le> MaxInt"

definition fits_file :: "OFile \<Rightarrow> bool" where
  "fits_file oo \<longleftrightarrow> fits_str (o_Pkgname oo) \<and> fits_str (o_ExeFormat oo) \<and>
     fits_tab fits_td (o_Types oo) \<and> fits_tab fits_var (o_Data oo) \<and> fits_tab fits_var (o_Vars oo) \<and>
     fits_tab fits_fn (o_Funcs oo) \<and> fits_tab fits_struct (o_Structs oo) \<and>
     fits_tab fits_alias (o_TypeAliases oo) \<and> fits_tab fits_iface (o_Interfaces oo) \<and>
     fits_tab fits_values (o_Values oo)"

text \<open>The file as a reader finds it, its functions stamped with package \<open>pkg\<close>.\<close>

definition as_read :: "string \<Rightarrow> string \<Rightarrow> OFile \<Rightarrow> OFile" where
  "as_read fname pkg oo = oo\<lparr>o_Filename := fname,
     o_Funcs := map (\<lambda>(n, f). (n, read_back pkg f)) (o_Funcs oo),
     o_Structs := sorted_entries (o_Structs oo), o_TypeAliases := sorted_entries (o_TypeAliases oo),
     o_Interfaces := sorted_entries (o_Interfaces oo), o_Values := sorted_entries (o_Values oo)\<rparr>"

context codec
begin

lemma table: "fits_tab valid m \<Longrightarrow> tab_ok key m \<Longrightarrow> codes (write_map enc m) (read_map key dec) m"
  by (rule map_written) (auto simp: fits_tab_def)

lemma sorted_table: "fits_tab valid m \<Longrightarrow> tab_ok key m \<Longrightarrow>
    codes (write_map enc (sorted_entries m)) (read_map key dec) (sorted_entries m)"
  by (rule table) (auto simp: fits_tab_def list_all_sorted tab_ok_sorted)

end

lemma write_all_cong: "list_all2 (\<lambda>x y. enc x = enc y) xs ys \<Longrightarrow> write_all enc xs = write_all enc ys"
  by (induction rule: list_all2_induct) simp_all

lemma funcs_table:
  assumes "fits_tab fits_fn m" "tab_ok f_Name m"
  shows "codes (writeFunctions m) readFunctions (map (\<lambda>(n, f). (n, read_back '''' f)) m)"
proof -
  let ?m = "map (\<lambda>(n, f). (n, read_back '''' f)) m"
  have "write_all writeFunction (map snd m) = write_all writeFunction (map snd ?m)"
    using assms(1) by (intro write_all_cong)
      (auto simp: list_all2_conv_all_nth fits_tab_def list_all_length writeFunction_read_back fits_fn_def
        split: prod.splits)
  then have eq: "writeFunctions m = write_map writeFunction ?m"
    by (simp add: writeFunctions_def write_map_def)
  have "fits_tab (\<lambda>f. fits_fn f \<and> read_back '''' f = f) ?m"
    using assms(1) by (fastforce simp: fits_tab_def list_all_iff intro: fits_fn_read_back)
  moreover have "f_Name (read_back '''' f) = n" if "(n, f) \<in> set m" for n f
    using that assms by (auto simp: tab_ok_def)
  then have "tab_ok f_Name ?m"
    using assms(2) by (auto simp: tab_ok_def comp_def case_prod_unfold)
  ultimately show ?thesis unfolding eq readFunctions_def by (rule fn_codec.table)
qed

lemmas section_defs = writeTypeDescrs_def readTypeDescrs_def writeVars_def readVars_def
  writeStructs_def readStructs_def writeTypeAliases_def readTypeAliases_def writeInterfaces_def
  readInterfaces_def writeValues_def readValues_def

lemma codes_file:
  assumes "ofile_ok oo" "fits_file oo"
  shows "codes (writeOFile oo) readOFile (as_read '''' '''' oo)"
  unfolding writeOFile_def readOFile_def section_defs
  by (rule codes_cons codes_done string_codec.codes td_codec.table var_codec.table funcs_table
      struct_codec.sorted_table alias_codec.sorted_table iface_codec.sorted_table
      values_codec.sorted_table | use assms in \<open>simp add: ofile_ok_def fits_file_def as_read_def\<close>)+

lemma ReadOFile_codes:
  assumes "ofile_ok oo" "fits_file oo"
  shows "\<exists>bs. writeOFile oo = Inr bs \<and>
     ReadOFile fname (bs @ rest) = Inr (as_read fname (o_Pkgname oo) oo)"
proof -
  obtain bs where "writeOFile oo = Inr bs" "readOFile (bs @ rest) = Inr (as_read '''' '''' oo, rest)"
    using codes_roundtrip[OF codes_file[OF assms]] by auto
  moreover have "(read_back '''' f)\<lparr>f_Pkgname := pkg\<rparr> = read_back pkg f" for f pkg
    by (simp add: read_back_def Let_def)
  ultimately show ?thesis
    by (auto simp: ReadOFile_def as_read_def case_prod_unfold)
qed

section \<open>Which writers succeed\<close>

definition succeeds :: "written \<Rightarrow> bool" where
  "succeeds w \<longleftrightarrow> (\<exists>bs. w = Inr bs)"

named_theorems writes \<open>when writers succeed\<close>

lemma succeeds_Inr [writes]: "succeeds (Inr bs)"
  by (simp add: succeeds_def)

lemma succeeds_Inl [writes]: "\<not> succeeds (Inl e)"
  by (simp add: succeeds_def)

lemma succeeds_cat [writes]: "succeeds (wr_cat ws) \<longleftrightarrow> list_all succeeds ws"
  by (induction ws) (auto simp: succeeds_def wr_cat.simps rbind_eq_Inr)

lemma succeeds_size [writes]: "succeeds (writeSize n) \<longleftrightarrow> 0 \<le> n"
  by (simp add: writeSize_def succeeds_def write_u64_def)

lemma succeeds_all [writes]: "succeeds (write_all enc xs) \<longleftrightarrow> (\<forall>x \<in> set xs. succeeds (enc x))"
  by (induction xs) (auto simp: writes)

lemma succeeds_slice [writes]: "succeeds (write_slice enc xs) \<longleftrightarrow> (\<forall>x \<in> set xs. succeeds (enc x))"
  by (simp add: write_slice_def writes)

lemma succeeds_map [writes]: "succeeds (write_map enc m) \<longleftrightarrow> (\<forall>x \<in> set (map snd m). succeeds (enc x))"
  by (simp add: write_map_def writes)

lemma succeeds_prims [writes]:
  "succeeds (writeBytes bs)" "succeeds (writeString s)" "succeeds (write_bool b)"
  "succeeds (write_u32 w)" "succeeds (write_u64 d)"
  by (simp_all add: writeString_def writeBytes_def write_bool_def write_u32_def write_u64_def writes)

lemma succeeds_records [writes]:
  "succeeds (writeTypeDescr t)" "succeeds (writeDataReloc r)" "succeeds (writeVar v)"
  "succeeds (writeSymbol s)" "succeeds (writeRelocation rl)" "succeeds (writeField fl)"
  "succeeds (writeStruct st)" "succeeds (writeTypeAlias a)" "succeeds (writeCase c)"
  "succeeds (writeProjection pj)" "succeeds (writeValuesType vt)"
  by (simp_all add: writeTypeDescr_def writeDataReloc_def writeVar_def writeSymbol_def
      writeRelocation_def writeField_def writeStruct_def writeTypeAlias_def writeCase_def
      writeProjection_def writeValuesType_def writes)

definition nonneg_aliases :: "int list list \<Rightarrow> bool" where
  "nonneg_aliases ra \<longleftrightarrow> (\<forall>slot \<in> set ra. \<forall>i \<in> set slot. 0 \<le> i)"

lemma succeeds_aliases [writes]: "succeeds (writeAliases ra) \<longleftrightarrow> nonneg_aliases ra"
  by (simp add: writeAliases_def nonneg_aliases_def writes)

lemma succeeds_interface [writes]:
  "succeeds (writeInterface i) \<longleftrightarrow> (\<forall>m \<in> set (is_Methods i). nonneg_aliases (im_ReturnAliases m))"
  by (simp add: writeInterface_def writeMethod_def writes)

lemma succeeds_function:
  assumes "Resolve f \<noteq> None"
  shows "succeeds (writeFunction f) \<longleftrightarrow>
    f_errors f = [] \<and> 0 \<le> f_SrcLine f \<and> nonneg_aliases (f_ReturnAliases f)"
proof -
  obtain g where g: "Resolve f = Some g" using assms by auto
  then have "succeeds (write_body g) \<longleftrightarrow> f_errors f = []"
    using Resolve_idem_lemma[OF g] Resolve_keeps[OF g]
    by (simp add: write_body_def Body_def writes)
  with g show ?thesis
    using Resolve_keeps[OF g] by (auto simp: writeFunction_def writes)
qed

definition writable :: "OFile \<Rightarrow> bool" where
  "writable oo \<longleftrightarrow>
     (\<forall>(n, f) \<in> set (o_Funcs oo).
        f_errors f = [] \<and> 0 \<le> f_SrcLine f \<and> nonneg_aliases (f_ReturnAliases f)) \<and>
     (\<forall>(n, i) \<in> set (o_Interfaces oo). \<forall>m \<in> set (is_Methods i). nonneg_aliases (im_ReturnAliases m))"

lemma assembled_resolves: "assembled oo \<Longrightarrow> (n, f) \<in> set (o_Funcs oo) \<Longrightarrow> Resolve f \<noteq> None"
  using assembled_built[of oo] built_ok[of "o_Pkgname oo" n f] Resolve_eq[of f]
  by (auto simp: funcs_built_def)

section \<open>Properties\<close>

text \<open>C33. Object files, round trip: an assembled file within the size bounds is written, and reading
  the bytes (whatever follows them) gives a file with the same package and format, whose tables map
  every name to the same record, and every function to one with the same signature, body,
  relocations and declared aliases, stamped with the package of the file.\<close>

theorem ofile_roundtrip:
  assumes "assembled oo" "fits_file oo"
  shows "\<exists>bs oo'. writeOFile oo = Inr bs \<and> ReadOFile fname (bs @ rest) = Inr oo' \<and>
    o_Pkgname oo' = o_Pkgname oo \<and> o_ExeFormat oo' = o_ExeFormat oo \<and>
    map_of (o_Types oo') = map_of (o_Types oo) \<and> map_of (o_Data oo') = map_of (o_Data oo) \<and>
    map_of (o_Vars oo') = map_of (o_Vars oo) \<and> map_of (o_Structs oo') = map_of (o_Structs oo) \<and>
    map_of (o_TypeAliases oo') = map_of (o_TypeAliases oo) \<and>
    map_of (o_Interfaces oo') = map_of (o_Interfaces oo) \<and>
    map_of (o_Values oo') = map_of (o_Values oo) \<and>
    map_of (o_Funcs oo') = map_option (read_back (o_Pkgname oo)) \<circ> map_of (o_Funcs oo) \<and>
    (\<forall>(n, f) \<in> set (o_Funcs oo). let g = read_back (o_Pkgname oo) f in
       Body g = Body f \<and> f_Pkgname g = f_Pkgname f \<and> f_Relocations g = f_Relocations (resolved f) \<and>
       f_Name g = n \<and> f_IsPub g = f_IsPub f \<and> f_Type g = f_Type f \<and> f_Args g = f_Args f \<and>
       f_Symbols g = f_Symbols f \<and> f_SrcFile g = f_SrcFile f \<and> f_SrcLine g = f_SrcLine f \<and>
       f_ReturnAliases g = f_ReturnAliases f)"
proof -
  let ?oo' = "as_read fname (o_Pkgname oo) oo"
  have ok: "ofile_ok oo" using assms(1) by (rule assembled_tables)
  obtain bs where bs: "writeOFile oo = Inr bs" "ReadOFile fname (bs @ rest) = Inr ?oo'"
    using ReadOFile_codes[OF ok assms(2)] by blast
  have fn: "let g = read_back (o_Pkgname oo) f in
       Body g = Body f \<and> f_Pkgname g = f_Pkgname f \<and> f_Relocations g = f_Relocations (resolved f) \<and>
       f_Name g = n \<and> f_IsPub g = f_IsPub f \<and> f_Type g = f_Type f \<and> f_Args g = f_Args f \<and>
       f_Symbols g = f_Symbols f \<and> f_SrcFile g = f_SrcFile f \<and> f_SrcLine g = f_SrcLine f \<and>
       f_ReturnAliases g = f_ReturnAliases f" if f: "(n, f) \<in> set (o_Funcs oo)" for n f
  proof -
    have b: "built (o_Pkgname oo) n f" using assembled_built[OF assms(1)] f by (auto simp: funcs_built_def)
    obtain g where g: "Resolve f = Some g" using assembled_resolves[OF assms(1) f] by auto
    have "f_errors f = []" using assms(2) f by (auto simp: fits_file_def fits_tab_def list_all_iff fits_fn_def)
    then show ?thesis
      using built_ok[OF b] g Resolve_keeps[OF g]
      by (simp add: read_back_def resolved_def Let_def Body_def Resolve_def[of "_\<lparr>f_errors := _\<rparr>"] body_of_def)
  qed
  have "map_of (o_Funcs ?oo') = map_option (read_back (o_Pkgname oo)) \<circ> map_of (o_Funcs oo)"
    by (simp add: as_read_def map_of_map)
  then show ?thesis
    using bs fn ok by (auto simp: as_read_def ofile_ok_def tab_ok_def sorted_entries_map_of)
qed

lemma sample_ofile_eq:
  "sample_ofile = \<lparr>o_Filename = ''a.bo'', o_Pkgname = ''main'', o_ExeFormat = '''', o_Types = [],
     o_Data = [(''msg'', new_var ''msg'' ''byte[2]'' (ValString ''hi'') False)],
     o_Vars = [(''x'', new_var ''x'' ''i64'' (ValU64 7) True)], o_Funcs = [(''f'', sample_fn)],
     o_Structs = [], o_TypeAliases = [], o_Interfaces = [], o_Values = []\<rparr>"
  by (simp add: sample_ofile_def AddVar_def AddData_def NewFunction_def NewOFile_def Let_def)

lemma sample_fn_resolved:
  "\<exists>g. Resolve sample_fn = Some g \<and> length (body_of g) = 14 \<and>
     f_Relocations g = [\<lparr>r_Offset = 10, r_Symbol = ''main.print'', r_Addend = 0\<rparr>]"
proof -
  have "fn_ok sample_fn" "f_Pkgname sample_fn = ''main''"
    using built_ok[OF sample_fn_built] by auto
  then show ?thesis
    by (simp add: Resolve_eq Let_def)
      (simp add: sample_fn_def Jump_def Label_def emit_def new_function_def Let_def local_jump_def
        qualify_reloc_def)
qed

lemma sample_ofile_fits: "fits_file sample_ofile"
proof -
  obtain g where g: "Resolve sample_fn = Some g" "length (body_of g) = 14"
    "f_Relocations g = [\<lparr>r_Offset = 10, r_Symbol = ''main.print'', r_Addend = 0\<rparr>]"
    using sample_fn_resolved by blast
  have "fits_fn sample_fn"
    using g by (simp add: fits_fn_def resolved_def fits_bytes_def fits_slice_def fits_rel_def
        fits_str_def maxAlloc_def)
      (simp add: sample_fn_def Jump_def Label_def emit_def new_function_def Let_def fits_int_def
        MaxInt_def fits_aliases_def fits_slice_def maxAlloc_def)
  then show ?thesis
    by (simp add: sample_ofile_eq fits_file_def fits_tab_def fits_str_def fits_var_def new_var_def
        fits_bytes_def fits_slice_def maxAlloc_def MaxInt_def)
qed

theorem ofile_roundtrip_witness:
  "\<exists>bs oo'. writeOFile sample_ofile = Inr bs \<and> ReadOFile ''b.bo'' (bs @ [1, 2]) = Inr oo' \<and>
     map_option v_Val (map_of (o_Vars oo') ''x'') = Some (le_bytes 8 7) \<and>
     map_option f_Pkgname (map_of (o_Funcs oo') ''f'') = Some ''main''"
proof -
  obtain bs oo' where "writeOFile sample_ofile = Inr bs" "ReadOFile ''b.bo'' (bs @ [1, 2]) = Inr oo'"
    "map_of (o_Vars oo') = map_of (o_Vars sample_ofile)"
    "map_of (o_Funcs oo') = map_option (read_back (o_Pkgname sample_ofile)) \<circ> map_of (o_Funcs sample_ofile)"
    using ofile_roundtrip[OF sample_ofile_assembled sample_ofile_fits, of "''b.bo''" "[1, 2]"] by blast
  then show ?thesis by (simp add: sample_ofile_eq new_var_def read_back_def Let_def)
qed

text \<open>C37. Object files, truncation: when an assembled file was cut short anywhere, reading it fails
  with an end-of-file error; no part of a truncated file is ever accepted as an object file.\<close>

theorem truncated_ofile_rejected:
  assumes "assembled oo" "fits_file oo" "writeOFile oo = Inr bs" "n < length bs"
  shows "ReadOFile fname (take n bs) = Inl EOF \<or> ReadOFile fname (take n bs) = Inl UnexpectedEOF"
  using codes_prefix[OF codes_file[OF assembled_tables[OF assms(1)] assms(2)] assms(3,4)]
  by (auto simp: ReadOFile_def)

lemma le_bytes_8_1: "le_bytes 8 1 = [1, 0, 0, 0, 0, 0, 0, 0]"
  by code_simp

theorem truncated_ofile_rejected_witness:
  "\<exists>bs. writeOFile (NewOFile ''a.bo'' ''m'') = Inr bs \<and>
     ReadOFile ''a.bo'' (take 3 bs) = Inl UnexpectedEOF"
proof -
  let ?o = "NewOFile ''a.bo'' ''m''"
  have fits: "fits_file ?o"
    by (simp add: NewOFile_def fits_file_def fits_tab_def fits_str_def maxAlloc_def MaxInt_def)
  have size: "writeSize 1 = Inr [1, 0, 0, 0, 0, 0, 0, 0]" "writeSize 0 = Inr (le_bytes 8 0)"
    using le_bytes_8_1 by (simp_all add: writeSize_def write_u64_def)
  obtain rest where w: "writeOFile ?o = Inr (1 # 0 # 0 # 0 # rest)"
    by (simp add: writeOFile_def section_defs writeFunctions_def write_map_def sorted_entries_def
        NewOFile_def wr_cat.simps size writeString_def writeBytes_def str_bytes_def)
  have "ReadOFile ''a.bo'' [1, 0, 0] \<noteq> Inl EOF"
    by (simp add: ReadOFile_def readOFile_def rd_bind_def readString_def readBytes_def readSize_def
        read_u64_def readFull_def)
  then show ?thesis
    using w truncated_ofile_rejected[OF as_new fits w, of 3 "''a.bo''"] by simp
qed

text \<open>Object files, write errors: writing an assembled file fails exactly when a function carries
  errors from its construction, has a negative source line, or when a declared alias index of a
  function or interface method is negative.\<close>

theorem writeOFile_succeeds_iff:
  assumes "assembled oo"
  shows "(\<exists>bs. writeOFile oo = Inr bs) \<longleftrightarrow> writable oo"
proof -
  have t: "tab_ok is_Name (o_Interfaces oo)" using assembled_tables[OF assms] by (simp add: ofile_ok_def)
  then have i: "set (map snd (sorted_entries (o_Interfaces oo))) = set (map snd (o_Interfaces oo))"
    using set_sorted_entries[of "o_Interfaces oo"] by (simp add: tab_ok_def)
  have "succeeds (writeOFile oo) \<longleftrightarrow> (\<forall>f \<in> set (map snd (o_Funcs oo)). succeeds (writeFunction f)) \<and>
      (\<forall>i \<in> set (map snd (o_Interfaces oo)). succeeds (writeInterface i))"
    using i by (simp add: writeOFile_def section_defs writeFunctions_def writes)
  also have "\<dots> \<longleftrightarrow> writable oo"
    using succeeds_function[OF assembled_resolves[OF assms]]
    by (auto simp: writable_def writes)
  finally show ?thesis by (simp add: succeeds_def)
qed

theorem writeOFile_succeeds_iff_witness:
  "\<exists>oo. NewFunction ''a.bs'' (-1) ''f'' [] (NewOFile ''a.bo'' ''m'') = Inr oo \<and>
     \<not> (\<exists>bs. writeOFile oo = Inr bs)"
proof -
  obtain oo where oo: "NewFunction ''a.bs'' (-1) ''f'' [] (NewOFile ''a.bo'' ''m'') = Inr oo"
    by (simp add: NewFunction_def NewOFile_def)
  then have "assembled oo" by (rule as_func[OF as_new])
  moreover have "\<not> writable oo"
    using oo by (auto simp: NewFunction_def NewOFile_def writable_def new_function_def)
  ultimately show ?thesis using oo writeOFile_succeeds_iff[of oo] by auto
qed

text \<open>Object files, determinism: the bytes of the struct, alias, interface and values sections
  depend only on the maps, not on the order in which Go iterates over them.\<close>

theorem sorted_sections_deterministic:
  assumes "assembled oo" "assembled oo'" "map_of (o_Structs oo) = map_of (o_Structs oo')"
    "map_of (o_TypeAliases oo) = map_of (o_TypeAliases oo')"
    "map_of (o_Interfaces oo) = map_of (o_Interfaces oo')" "map_of (o_Values oo) = map_of (o_Values oo')"
  shows "writeStructs (o_Structs oo) = writeStructs (o_Structs oo') \<and>
    writeTypeAliases (o_TypeAliases oo) = writeTypeAliases (o_TypeAliases oo') \<and>
    writeInterfaces (o_Interfaces oo) = writeInterfaces (o_Interfaces oo') \<and>
    writeValues (o_Values oo) = writeValues (o_Values oo')"
  using assms(3-6) assembled_tables[OF assms(1)] assembled_tables[OF assms(2)]
  by (auto simp: ofile_ok_def tab_ok_def writeStructs_def writeTypeAliases_def writeInterfaces_def
      writeValues_def intro!: arg_cong[where f = "write_map _"] sorted_entries_cong)

theorem sorted_sections_deterministic_witness:
  "\<exists>o1 o2 p1 p2. AddStruct ''b'' [] [] True (NewOFile ''x'' ''m'') = Inr o1 \<and>
     AddStruct ''a'' [] [] True o1 = Inr o2 \<and> AddStruct ''a'' [] [] True (NewOFile ''x'' ''m'') = Inr p1 \<and>
     AddStruct ''b'' [] [] True p1 = Inr p2 \<and> o_Structs o2 \<noteq> o_Structs p2 \<and>
     writeStructs (o_Structs o2) = writeStructs (o_Structs p2)"
proof -
  obtain o1 o2 p1 p2 where s: "AddStruct ''b'' [] [] True (NewOFile ''x'' ''m'') = Inr o1"
     "AddStruct ''a'' [] [] True o1 = Inr o2" "AddStruct ''a'' [] [] True (NewOFile ''x'' ''m'') = Inr p1"
     "AddStruct ''b'' [] [] True p1 = Inr p2"
    by (simp add: AddStruct_def NewOFile_def)
  have "assembled o2" "assembled p2"
    by (rule as_struct[OF as_struct[OF as_new s(1)] s(2)], rule as_struct[OF as_struct[OF as_new s(3)] s(4)])
  moreover have "map_of (o_Structs o2) = map_of (o_Structs p2)"
    using s by (auto simp: AddStruct_def NewOFile_def fun_eq_iff)
  moreover have "map_of (o_TypeAliases o2) = map_of (o_TypeAliases p2)"
    "map_of (o_Interfaces o2) = map_of (o_Interfaces p2)" "map_of (o_Values o2) = map_of (o_Values p2)"
    "o_Structs o2 \<noteq> o_Structs p2"
    using s by (auto simp: AddStruct_def NewOFile_def)
  ultimately show ?thesis using s sorted_sections_deterministic[of o2 p2] by blast
qed

end
