(* ===== verification/Linker.thy ===== *)
theory Linker
  imports ObjCodec "HOL-Library.Multiset"
begin

text \<open>
  The linker, \<open>linker.go\<close>: collecting the definitions of all object files under their qualified
  names, placing the functions, variables and data that the entry point needs, laying out the
  sections, and applying the relocations.

  \<open>log.Fatalf\<close> is an \<open>Inl\<close>.  A pointer to a function is the name it is collected under.  The
  recursive closures \<open>addVar\<close>, \<open>addData\<close> and \<open>addNeededDataReloc\<close> are one depth-first traversal with
  an explicit stack, \<open>place\<close>; the loop over the functions still needed is \<open>link_loop\<close>, and both
  terminate because every step places or requests something new.  \<open>Link\<close> has two extra arguments for
  what the Go runtime leaves open: \<open>spare\<close>, the capacity of the text buffer behind its length, and
  \<open>iter\<close>, the order in which a map is iterated over.
\<close>

section \<open>Data\<close>

datatype link_err =
    NoPackage string
  | DupFunction_def string
  | DupData_def string
  | NoStart
  | BodyFailed "string list"
  | NoSymbol string
  | NoDataSymbol string
  | ShouldNeverHappen
  | NotPlaced string
  | SlicePanic

definition F_READ :: nat where "F_READ = 0"
definition F_WRITE :: nat where "F_WRITE = 1"
definition F_EXEC :: nat where "F_EXEC = 2"

definition SYM_FUNC :: nat where "SYM_FUNC = 0"
definition SYM_OBJECT :: nat where "SYM_OBJECT = 1"

record SectSym =
  sm_Name :: string
  sm_Type :: nat
  sm_Address :: "64 word"
  sm_Size :: int

record Section =
  sec_Name :: string
  sec_Offset :: "64 word"
  sec_val :: "byte list"
  sec_permission :: nat
  sec_symbols :: "SectSym list"

record genv =
  g_funcs :: "(string \<times> Function) list"
  g_data :: "(string \<times> Var) list"
  g_vars :: "(string \<times> Var) list"

record lstate =
  l_needfnm :: "string list"
  l_needfn :: "string list"
  l_relocations :: "Relocation list"
  l_funclocs :: "(string \<times> 32 word) list"
  l_varlocs :: "(string \<times> 32 word) list"
  l_datalocs :: "(string \<times> 32 word) list"
  l_funcsyms :: "SectSym list"
  l_varsyms :: "SectSym list"
  l_datasyms :: "SectSym list"
  l_fnbs :: "byte list"
  l_varbs :: "byte list"
  l_databs :: "byte list"

section \<open>Collecting the definitions\<close>

definition qualify :: "string \<Rightarrow> string \<Rightarrow> string" where
  "qualify pkg n = (if pkg = '''' then n else pkg @ ''.'' @ n)"

definition qualifyDataReloc :: "string \<Rightarrow> DataReloc \<Rightarrow> DataReloc" where
  "qualifyDataReloc pkg dr =
     (if CHR ''.'' \<in> set (dr_Symbol dr) then dr else dr\<lparr>dr_Symbol := qualify pkg (dr_Symbol dr)\<rparr>)"

definition qualifyDataRelocs :: "string \<Rightarrow> Var \<Rightarrow> Var" where
  "qualifyDataRelocs pkg v = v\<lparr>v_Relocs := map (qualifyDataReloc pkg) (v_Relocs v)\<rparr>"

fun collect_funcs :: "OFile \<Rightarrow> (string \<times> Function) list \<Rightarrow> (string \<times> Function) list \<Rightarrow>
    link_err + (string \<times> Function) list" where
  "collect_funcs oo [] m = Inr m"
| "collect_funcs oo ((n, f) # fs) m =
     (if o_Pkgname oo = '''' then Inl (NoPackage (o_Filename oo))
      else let q = qualify (o_Pkgname oo) n in
        if has m q then Inl (DupFunction_def q) else collect_funcs oo fs (AList.update q f m))"

fun collect_vars :: "OFile \<Rightarrow> (string \<times> Var) list \<Rightarrow> (string \<times> Var) list \<Rightarrow>
    link_err + (string \<times> Var) list" where
  "collect_vars oo [] m = Inr m"
| "collect_vars oo ((n, v) # vs) m =
     (let q = qualify (o_Pkgname oo) n in
      if has m q then Inl (DupData_def q)
      else collect_vars oo vs (AList.update q (qualifyDataRelocs (o_Pkgname oo) v) m))"

fun collect :: "OFile list \<Rightarrow> genv \<Rightarrow> link_err + genv" where
  "collect [] g = Inr g"
| "collect (oo # os) g =
     rbind (collect_funcs oo (o_Funcs oo) (g_funcs g)) (\<lambda>fs.
     rbind (collect_vars oo (o_Data oo) (g_data g)) (\<lambda>ds.
     rbind (collect_vars oo (o_Vars oo) (g_vars g)) (\<lambda>vs.
     collect os \<lparr>g_funcs = fs, g_data = ds, g_vars = vs\<rparr>)))"

section \<open>Placing what is needed\<close>

definition addNeeded :: "string \<Rightarrow> lstate \<Rightarrow> lstate" where
  "addNeeded k st =
     (if k \<in> set (l_needfnm st) then st
      else st\<lparr>l_needfnm := k # l_needfnm st, l_needfn := l_needfn st @ [k]\<rparr>)"

definition object_sym :: "string \<Rightarrow> byte list \<Rightarrow> Var \<Rightarrow> SectSym" where
  "object_sym n buf v = \<lparr>sm_Name = n, sm_Type = SYM_OBJECT,
     sm_Address = ucast (of_nat (length buf) :: 32 word), sm_Size = int (length (v_Val v))\<rparr>"

definition putVar :: "string \<Rightarrow> Var \<Rightarrow> lstate \<Rightarrow> lstate" where
  "putVar n v st = st\<lparr>
     l_varlocs := AList.update n (of_nat (length (l_varbs st))) (l_varlocs st),
     l_varsyms := l_varsyms st @ [object_sym n (l_varbs st) v],
     l_varbs := l_varbs st @ v_Val v\<rparr>"

definition putData :: "string \<Rightarrow> Var \<Rightarrow> lstate \<Rightarrow> lstate" where
  "putData n v st = st\<lparr>
     l_datalocs := AList.update n (of_nat (length (l_databs st))) (l_datalocs st),
     l_datasyms := l_datasyms st @ [object_sym n (l_databs st) v],
     l_databs := l_databs st @ v_Val v\<rparr>"

definition unplaced :: "(string \<times> Var) list \<Rightarrow> (string \<times> 32 word) list \<Rightarrow> nat" where
  "unplaced defs locs = length (filter (\<lambda>(n, _). \<not> has locs n) defs)"

lemma unplaced_update:
  assumes "map_of defs n = Some v" "\<not> has locs n"
  shows "unplaced defs (AList.update n l locs) < unplaced defs locs"
proof -
  have "length (filter (\<lambda>(k, _). \<not> has (AList.update n l locs) k) xs) \<le>
      length (filter (\<lambda>(k, _). \<not> has locs k) xs)" for xs :: "(string \<times> Var) list"
    by (induction xs) auto
  then show ?thesis using assms
    by (induction defs) (auto simp: unplaced_def less_Suc_eq_le split: if_splits)
qed

text \<open>The stack holds the targets still to be visited: a newly placed variable or data block puts
  the targets of its own relocations in front.\<close>

function place :: "genv \<Rightarrow> string list \<Rightarrow> lstate \<Rightarrow> link_err + lstate" where
  "place g [] st = Inr st"
| "place g (t # ts) st =
     (if has (g_funcs g) t then
        place g ts (if has (l_funclocs st) t then st else addNeeded t st)
      else case map_of (g_vars g) t of
        Some v \<Rightarrow>
          if has (l_varlocs st) t then place g ts st
          else place g (map dr_Symbol (v_Relocs v) @ ts) (putVar t v st)
      | None \<Rightarrow>
         (case map_of (g_data g) t of
            Some v \<Rightarrow>
              if has (l_datalocs st) t then place g ts st
              else place g (map dr_Symbol (v_Relocs v) @ ts) (putData t v st)
          | None \<Rightarrow> Inl (NoDataSymbol t)))"
  by pat_completeness auto

lemma addNeeded_sel [simp]:
  "l_varlocs (addNeeded k st) = l_varlocs st" "l_datalocs (addNeeded k st) = l_datalocs st"
  "l_funclocs (addNeeded k st) = l_funclocs st" "l_fnbs (addNeeded k st) = l_fnbs st"
  "l_varbs (addNeeded k st) = l_varbs st" "l_databs (addNeeded k st) = l_databs st"
  "l_relocations (addNeeded k st) = l_relocations st" "l_funcsyms (addNeeded k st) = l_funcsyms st"
  "l_varsyms (addNeeded k st) = l_varsyms st" "l_datasyms (addNeeded k st) = l_datasyms st"
  by (simp_all add: addNeeded_def)

termination place
  by (relation "measures [\<lambda>(g, ts, st). unplaced (g_vars g) (l_varlocs st) +
      unplaced (g_data g) (l_datalocs st), \<lambda>(g, ts, st). length ts]")
    (auto simp: putVar_def putData_def unplaced_update)

text \<open>A relocation of the function being placed: its target is placed or requested.\<close>

definition reference :: "genv \<Rightarrow> string \<Rightarrow> lstate \<Rightarrow> link_err + lstate" where
  "reference g t st =
     (if has (g_funcs g) t \<or> has (g_vars g) t \<or> has (g_data g) t then place g [t] st
      else Inl (NoSymbol t))"

definition shift_reloc :: "32 word \<Rightarrow> Relocation \<Rightarrow> Relocation" where
  "shift_reloc foffset r = r\<lparr>r_Offset := r_Offset r + foffset\<rparr>"

fun follow :: "genv \<Rightarrow> 32 word \<Rightarrow> Relocation list \<Rightarrow> lstate \<Rightarrow> link_err + lstate" where
  "follow g foffset [] st = Inr st"
| "follow g foffset (r # rs) st =
     rbind (reference g (r_Symbol r) st) (\<lambda>st.
     follow g foffset rs (st\<lparr>l_relocations := l_relocations st @ [shift_reloc foffset r]\<rparr>))"

definition enter_fn :: "Function \<Rightarrow> byte list \<Rightarrow> lstate \<Rightarrow> lstate" where
  "enter_fn f fbs st =
     (let foffset = of_nat (length (l_fnbs st)); q = qualify (f_Pkgname f) (f_Name f) in
      st\<lparr>l_funclocs := AList.update q foffset (l_funclocs st),
         l_funcsyms := l_funcsyms st @ [\<lparr>sm_Name = q, sm_Type = SYM_FUNC,
           sm_Address = ucast foffset, sm_Size = int (length fbs)\<rparr>]\<rparr>)"

definition place_fn :: "genv \<Rightarrow> Function \<Rightarrow> lstate \<Rightarrow> link_err + lstate" where
  "place_fn g f st = (case Body f of
     None \<Rightarrow> Inl SlicePanic
   | Some (Inl es) \<Rightarrow> Inl (BodyFailed es)
   | Some (Inr fbs) \<Rightarrow>
       rbind (follow g (of_nat (length (l_fnbs st))) (f_Relocations (resolved f)) (enter_fn f fbs st))
         (\<lambda>st'. Inr (st'\<lparr>l_fnbs := l_fnbs st' @ fbs\<rparr>)))"

definition pop_fn :: "lstate \<Rightarrow> lstate" where
  "pop_fn st = st\<lparr>l_needfn := tl (l_needfn st)\<rparr>"

section \<open>The loop over the functions needed\<close>

definition todo :: "genv \<Rightarrow> lstate \<Rightarrow> nat" where
  "todo g st = 2 * length (filter (\<lambda>(k, _). k \<notin> set (l_needfnm st)) (g_funcs g)) + length (l_needfn st)"

lemma filter_notin_Cons: "length (filter (\<lambda>(k, _). k \<noteq> n \<and> k \<notin> S) xs) \<le>
    length (filter (\<lambda>(k, _). k \<notin> S) xs)"
  by (induction xs) auto

lemma filter_notin_less: "has xs n \<Longrightarrow> n \<notin> S \<Longrightarrow>
    length (filter (\<lambda>(k, _). k \<noteq> n \<and> k \<notin> S) xs) < length (filter (\<lambda>(k, _). k \<notin> S) xs)"
  using filter_notin_Cons[of n S] by (induction xs) (auto simp: less_Suc_eq_le)

lemma todo_addNeeded: "has (g_funcs g) k \<Longrightarrow> todo g (addNeeded k st) \<le> todo g st"
  using filter_notin_less[of "g_funcs g" k "set (l_needfnm st)"]
  by (auto simp: todo_def addNeeded_def)

lemma todo_put [simp]: "todo g (putVar n v st) = todo g st" "todo g (putData n v st) = todo g st"
  by (simp_all add: todo_def putVar_def putData_def)

lemma todo_place: "place g ts st = Inr st' \<Longrightarrow> todo g st' \<le> todo g st"
  by (induction g ts st rule: place.induct)
    (auto split: if_splits option.splits dest: todo_addNeeded le_trans)

lemma todo_follow: "follow g off rs st = Inr st' \<Longrightarrow> todo g st' \<le> todo g st"
proof (induction g off rs st rule: follow.induct)
  case (2 g off r rs st)
  then obtain st1 where st1: "place g [r_Symbol r] st = Inr st1"
    "follow g off rs (st1\<lparr>l_relocations := l_relocations st1 @ [shift_reloc off r]\<rparr>) = Inr st'"
    by (auto simp: reference_def rbind_eq_Inr split: if_splits)
  then have "todo g st' \<le> todo g (st1\<lparr>l_relocations := l_relocations st1 @ [shift_reloc off r]\<rparr>)"
    using 2 by (auto simp: reference_def split: if_splits)
  then show ?case using todo_place[OF st1(1)] by (simp add: todo_def)
qed simp

lemma todo_place_fn: "place_fn g f st = Inr st' \<Longrightarrow> todo g st' \<le> todo g st"
  by (auto simp: place_fn_def enter_fn_def Let_def rbind_eq_Inr todo_def
      split: option.splits sum.splits dest!: todo_follow)

function link_loop :: "genv \<Rightarrow> lstate \<Rightarrow> link_err + lstate" where
  "link_loop g st = (case l_needfn st of
     [] \<Rightarrow> Inr st
   | k # _ \<Rightarrow>
      (case map_of (g_funcs g) k of
         None \<Rightarrow> Inl NoStart
       | Some f \<Rightarrow>
          (case place_fn g f (pop_fn st) of
             Inl e \<Rightarrow> Inl e
           | Inr st' \<Rightarrow> link_loop g st')))"
  by pat_completeness auto

termination link_loop
  by (relation "measure (\<lambda>(g, st). todo g st)")
    (auto simp: todo_def pop_fn_def dest!: todo_place_fn)

declare link_loop.simps [simp del]

section \<open>Layout and relocation\<close>

definition start_state :: lstate where
  "start_state = \<lparr>l_needfnm = [], l_needfn = [''_init.start''], l_relocations = [],
     l_funclocs = [], l_varlocs = [], l_datalocs = [], l_funcsyms = [], l_varsyms = [],
     l_datasyms = [], l_fnbs = [], l_varbs = [], l_databs = []\<rparr>"

definition page_after :: "64 word \<Rightarrow> nat \<Rightarrow> 64 word" where
  "page_after off n = and (off + of_nat n + 0x1000) 0xFFFFFFFFFFFFF000"

definition at_base :: "64 word \<Rightarrow> SectSym list \<Rightarrow> SectSym list" where
  "at_base base syms = map (\<lambda>s. s\<lparr>sm_Address := sm_Address s + base\<rparr>) syms"

text \<open>The value a code relocation is applied with: an offset from the start of the text.\<close>

definition code_value :: "lstate \<Rightarrow> 64 word \<Rightarrow> 64 word \<Rightarrow> 64 word \<Rightarrow> string \<Rightarrow> 32 word option" where
  "code_value st textoff varoff dataoff t =
     (case map_of (l_funclocs st) t of Some l \<Rightarrow> Some l
      | None \<Rightarrow> (case map_of (l_varlocs st) t of Some l \<Rightarrow> Some (l + ucast (varoff - textoff))
      | None \<Rightarrow> (case map_of (l_datalocs st) t of Some l \<Rightarrow> Some (l + ucast (dataoff - textoff))
      | None \<Rightarrow> None)))"

fun apply_relocs :: "nat \<Rightarrow> (string \<Rightarrow> 32 word option) \<Rightarrow> byte list \<Rightarrow> Relocation list \<Rightarrow>
    link_err + byte list" where
  "apply_relocs spare val text [] = Inr text"
| "apply_relocs spare val text (r # rs) =
     (case val (r_Symbol r) of
        None \<Rightarrow> Inl ShouldNeverHappen
      | Some v \<Rightarrow>
         (case Relocation_Apply spare r text v of
            None \<Rightarrow> Inl SlicePanic
          | Some text' \<Rightarrow> apply_relocs spare val text' rs))"

definition resolveTargetVA :: "lstate \<Rightarrow> 64 word \<Rightarrow> 64 word \<Rightarrow> 64 word \<Rightarrow> string \<Rightarrow> 64 word option" where
  "resolveTargetVA st textoff varoff dataoff t =
     (case map_of (l_funclocs st) t of Some l \<Rightarrow> Some (textoff + ucast l)
      | None \<Rightarrow> (case map_of (l_varlocs st) t of Some l \<Rightarrow> Some (varoff + ucast l)
      | None \<Rightarrow> (case map_of (l_datalocs st) t of Some l \<Rightarrow> Some (dataoff + ucast l)
      | None \<Rightarrow> None)))"

text \<open>One variable's relocations, on the bytes from its location on (\<open>vardat[loc:]\<close>).\<close>

fun apply_data_relocs :: "(string \<Rightarrow> 64 word option) \<Rightarrow> nat \<Rightarrow> DataReloc list \<Rightarrow> byte list \<Rightarrow>
    link_err + byte list" where
  "apply_data_relocs va loc [] dat = Inr dat"
| "apply_data_relocs va loc (dr # drs) dat =
     (case va (dr_Symbol dr) of
        None \<Rightarrow> Inl (NotPlaced (dr_Symbol dr))
      | Some a \<Rightarrow>
         (case DataReloc_Apply dr (drop loc dat) a of
            None \<Rightarrow> Inl SlicePanic
          | Some rest \<Rightarrow> apply_data_relocs va loc drs (take loc dat @ rest)))"

fun fix_data :: "(string \<Rightarrow> 64 word option) \<Rightarrow> (string \<times> Var) list \<Rightarrow> (string \<times> 32 word) list \<Rightarrow>
    byte list \<Rightarrow> link_err + byte list" where
  "fix_data va defs [] dat = Inr dat"
| "fix_data va defs ((n, loc) # locs) dat =
     (case map_of defs n of
        None \<Rightarrow> Inl SlicePanic
      | Some v \<Rightarrow> rbind (apply_data_relocs va (unat loc) (v_Relocs v) dat) (fix_data va defs locs))"

definition finish :: "nat \<Rightarrow> ((string \<times> 32 word) list \<Rightarrow> (string \<times> 32 word) list) \<Rightarrow> genv \<Rightarrow>
    64 word \<Rightarrow> lstate \<Rightarrow> link_err + Section list" where
  "finish spare iter g textoff st =
     (let varoff = page_after textoff (length (l_fnbs st));
          dataoff = page_after varoff (length (l_varbs st));
          va = resolveTargetVA st textoff varoff dataoff
      in rbind (apply_relocs spare (code_value st textoff varoff dataoff) (l_fnbs st) (l_relocations st))
         (\<lambda>text. rbind (fix_data va (g_vars g) (iter (l_varlocs st)) (l_varbs st))
         (\<lambda>vardat. rbind (fix_data va (g_data g) (iter (l_datalocs st)) (l_databs st))
         (\<lambda>datadat. Inr
           [\<lparr>sec_Name = ''.text'', sec_Offset = textoff, sec_val = text,
             sec_permission = F_EXEC, sec_symbols = at_base textoff (l_funcsyms st)\<rparr>,
            \<lparr>sec_Name = ''.data'', sec_Offset = varoff, sec_val = vardat,
             sec_permission = F_WRITE, sec_symbols = at_base varoff (l_varsyms st)\<rparr>,
            \<lparr>sec_Name = ''.bss'', sec_Offset = dataoff, sec_val = datadat,
             sec_permission = F_READ, sec_symbols = at_base dataoff (l_datasyms st)\<rparr>]))))"

definition Link :: "nat \<Rightarrow> ((string \<times> 32 word) list \<Rightarrow> (string \<times> 32 word) list) \<Rightarrow> OFile list \<Rightarrow>
    64 word \<Rightarrow> link_err + Section list" where
  "Link spare iter os textoff =
     rbind (collect os \<lparr>g_funcs = [], g_data = [], g_vars = []\<rparr>) (\<lambda>g.
     if \<not> has (g_funcs g) ''_init.start'' then Inl NoStart
     else rbind (link_loop g start_state) (finish spare iter g textoff))"

section \<open>Linear layout of named blocks\<close>

fun lay :: "(string \<Rightarrow> byte list) \<Rightarrow> nat \<Rightarrow> string list \<Rightarrow> (string \<times> nat) list" where
  "lay b off [] = []"
| "lay b off (n # ns) = (n, off) # lay b (off + length (b n)) ns"

definition cat :: "(string \<Rightarrow> byte list) \<Rightarrow> string list \<Rightarrow> byte list" where
  "cat b ns = concat (map b ns)"

lemma cat_simps [simp]: "cat b [] = []" "cat b (n # ns) = b n @ cat b ns" "cat b (ns @ ms) = cat b ns @ cat b ms"
  by (simp_all add: cat_def)

lemma lay_append: "lay b off (ns @ ms) = lay b off ns @ lay b (off + length (cat b ns)) ms"
  by (induction ns arbitrary: off) (simp_all add: add.assoc)

lemma keys_lay [simp]: "map fst (lay b off ns) = ns"
  by (induction ns arbitrary: off) simp_all

lemma lay_bounds: "(n, o') \<in> set (lay b off ns) \<Longrightarrow> off \<le> o' \<and> o' + length (b n) \<le> off + length (cat b ns)"
  by (induction ns arbitrary: off) fastforce+

lemma lay_slice: "(n, o') \<in> set (lay b (length pre) ns) \<Longrightarrow> slice o' (length (b n)) (pre @ cat b ns) = b n"
proof (induction ns arbitrary: pre)
  case (Cons m ns)
  then show ?case using Cons.IH[of "pre @ b m"] by auto
qed simp

text \<open>Two blocks do not overlap.\<close>

lemma lay_apart:
  "(n, i) \<in> set (lay b off ns) \<Longrightarrow> (m, j) \<in> set (lay b off ns) \<Longrightarrow> distinct ns \<Longrightarrow> n \<noteq> m \<Longrightarrow>
   i + length (b n) \<le> j \<or> j + length (b m) \<le> i"
  by (induction ns arbitrary: off) (auto dest: lay_bounds)

lemma lay_cong: "\<forall>n \<in> set ns. b n = b' n \<Longrightarrow> lay b off ns = lay b' off ns"
  by (induction ns arbitrary: off) auto

text \<open>\<open>locs\<close> and \<open>buf\<close> after placing the blocks named in \<open>locs\<close> one after the other.\<close>

definition placed_buf :: "(string \<Rightarrow> byte list) \<Rightarrow> (string \<times> 32 word) list \<Rightarrow> byte list \<Rightarrow> bool" where
  "placed_buf b locs buf \<longleftrightarrow> distinct (map fst locs) \<and>
     locs = map (\<lambda>(n, i). (n, of_nat i)) (lay b 0 (map fst locs)) \<and> buf = cat b (map fst locs)"

definition placed_syms :: "nat \<Rightarrow> (string \<Rightarrow> byte list) \<Rightarrow> (string \<times> 32 word) list \<Rightarrow> SectSym list" where
  "placed_syms ty b locs = map (\<lambda>(n, i). \<lparr>sm_Name = n, sm_Type = ty,
     sm_Address = ucast i, sm_Size = int (length (b n))\<rparr>) locs"

lemma placed_buf_Nil [simp]: "placed_buf b [] []"
  by (simp add: placed_buf_def)

lemma update_new: "\<not> has m k \<Longrightarrow> AList.update k v m = m @ [(k, v)]"
  by (induction m) auto

lemma has_iff: "has m k \<longleftrightarrow> k \<in> fst ` set m"
  by (simp add: has_def map_of_eq_None_iff)

lemma placed_buf_snoc:
  assumes "placed_buf b locs buf" "\<not> has locs n"
  shows "placed_buf b (AList.update n (of_nat (length buf)) locs) (buf @ b n)"
proof -
  have eq: "locs = map (\<lambda>(n, i). (n, of_nat i)) (lay b 0 (map fst locs))" "buf = cat b (map fst locs)"
    using assms(1) by (simp_all add: placed_buf_def)
  have "locs @ [(n, of_nat (length buf))] =
      map (\<lambda>(n, i). (n, of_nat i)) (lay b 0 (map fst locs @ [n]))"
    by (subst eq(1)) (simp add: lay_append eq(2))
  moreover have keys: "map fst (locs @ [(n, of_nat (length buf))]) = map fst locs @ [n]" by simp
  ultimately show ?thesis
    unfolding update_new[OF assms(2)] placed_buf_def keys
    using assms eq(2) by (auto simp: placed_buf_def has_iff)
qed

lemma placed_buf_locs:
  assumes "placed_buf b locs buf" "map_of locs n = Some l"
  shows "\<exists>i. l = of_nat i \<and> (n, i) \<in> set (lay b 0 (map fst locs)) \<and> i + length (b n) \<le> length buf \<and>
    slice i (length (b n)) buf = b n"
proof -
  have eq: "locs = map (\<lambda>(n, i). (n, of_nat i)) (lay b 0 (map fst locs))" "buf = cat b (map fst locs)"
    using assms(1) by (simp_all add: placed_buf_def)
  have "(n, l) \<in> set (map (\<lambda>(n, i). (n, of_nat i)) (lay b 0 (map fst locs)))"
    using eq(1) map_of_SomeD[OF assms(2)] by metis
  then obtain i where "l = of_nat i" "(n, i) \<in> set (lay b 0 (map fst locs))" by auto
  then show ?thesis
    using lay_bounds[of n i b 0] lay_slice[of n i b "[]"] eq(2) by fastforce
qed

section \<open>The state while linking\<close>

definition fbody :: "genv \<Rightarrow> string \<Rightarrow> byte list" where
  "fbody g k = (case map_of (g_funcs g) k of Some f \<Rightarrow> body_of (resolved f) | None \<Rightarrow> [])"

definition frelocs :: "genv \<Rightarrow> string \<Rightarrow> Relocation list" where
  "frelocs g k = (case map_of (g_funcs g) k of Some f \<Rightarrow> f_Relocations (resolved f) | None \<Rightarrow> [])"

definition vval :: "(string \<times> Var) list \<Rightarrow> string \<Rightarrow> byte list" where
  "vval defs n = (case map_of defs n of Some v \<Rightarrow> v_Val v | None \<Rightarrow> [])"

definition vrelocs :: "(string \<times> Var) list \<Rightarrow> string \<Rightarrow> DataReloc list" where
  "vrelocs defs n = (case map_of defs n of Some v \<Rightarrow> v_Relocs v | None \<Rightarrow> [])"

text \<open>Variables and data placed so far.\<close>

definition objs_ok :: "genv \<Rightarrow> lstate \<Rightarrow> bool" where
  "objs_ok g st \<longleftrightarrow>
     placed_buf (vval (g_vars g)) (l_varlocs st) (l_varbs st) \<and>
     l_varsyms st = placed_syms SYM_OBJECT (vval (g_vars g)) (l_varlocs st) \<and>
     placed_buf (vval (g_data g)) (l_datalocs st) (l_databs st) \<and>
     l_datasyms st = placed_syms SYM_OBJECT (vval (g_data g)) (l_datalocs st) \<and>
     (\<forall>n. has (l_varlocs st) n \<longrightarrow> has (g_vars g) n \<and> \<not> has (g_funcs g) n) \<and>
     (\<forall>n. has (l_datalocs st) n \<longrightarrow> has (g_data g) n \<and> \<not> has (g_vars g) n \<and> \<not> has (g_funcs g) n)"

definition body_fine :: "genv \<Rightarrow> string \<Rightarrow> bool" where
  "body_fine g k \<longleftrightarrow> (\<exists>f bs. map_of (g_funcs g) k = Some f \<and> Body f = Some (Inr bs))"

text \<open>Functions placed so far.\<close>

definition code_ok :: "genv \<Rightarrow> lstate \<Rightarrow> bool" where
  "code_ok g st \<longleftrightarrow>
     placed_buf (fbody g) (l_funclocs st) (l_fnbs st) \<and>
     l_funcsyms st = placed_syms SYM_FUNC (fbody g) (l_funclocs st) \<and>
     l_relocations st = concat (map (\<lambda>(k, i). map (shift_reloc i) (frelocs g k)) (l_funclocs st)) \<and>
     (\<forall>k. has (l_funclocs st) k \<longrightarrow> has (g_funcs g) k) \<and>
     (\<forall>k. has (l_funclocs st) k \<longrightarrow> body_fine g k)"

lemma objs_ok_addNeeded [simp]: "objs_ok g (addNeeded k st) = objs_ok g st"
  by (simp add: objs_ok_def)

lemma placed_syms_snoc: "\<not> has locs n \<Longrightarrow> placed_syms ty b (AList.update n l locs) =
    placed_syms ty b locs @ [\<lparr>sm_Name = n, sm_Type = ty, sm_Address = ucast l, sm_Size = int (length (b n))\<rparr>]"
  by (simp add: update_new placed_syms_def)

lemma objs_ok_putVar:
  assumes "objs_ok g st" "\<not> has (g_funcs g) n" "map_of (g_vars g) n = Some v" "\<not> has (l_varlocs st) n"
  shows "objs_ok g (putVar n v st)"
proof -
  have v: "vval (g_vars g) n = v_Val v" using assms(3) by (simp add: vval_def)
  show ?thesis
    using assms placed_buf_snoc[of "vval (g_vars g)" "l_varlocs st" "l_varbs st" n]
    by (simp add: objs_ok_def putVar_def placed_syms_snoc object_sym_def v has_lookup)
qed

lemma objs_ok_putData:
  assumes "objs_ok g st" "\<not> has (g_funcs g) n" "map_of (g_vars g) n = None"
    "map_of (g_data g) n = Some v" "\<not> has (l_datalocs st) n"
  shows "objs_ok g (putData n v st)"
proof -
  have v: "vval (g_data g) n = v_Val v" using assms(4) by (simp add: vval_def)
  show ?thesis
    using assms placed_buf_snoc[of "vval (g_data g)" "l_datalocs st" "l_databs st" n]
    by (simp add: objs_ok_def putData_def placed_syms_snoc object_sym_def v has_lookup has_None)
qed

lemma place_objs: "place g ts st = Inr st' \<Longrightarrow> objs_ok g st \<Longrightarrow> objs_ok g st'"
  by (induction g ts st rule: place.induct)
    (auto split: if_splits option.splits intro: objs_ok_putVar objs_ok_putData)

lemma put_sel [simp]:
  "l_funclocs (putVar n v st) = l_funclocs st" "l_funclocs (putData n v st) = l_funclocs st"
  "l_fnbs (putVar n v st) = l_fnbs st" "l_fnbs (putData n v st) = l_fnbs st"
  "l_funcsyms (putVar n v st) = l_funcsyms st" "l_funcsyms (putData n v st) = l_funcsyms st"
  "l_relocations (putVar n v st) = l_relocations st" "l_relocations (putData n v st) = l_relocations st"
  "l_needfn (putVar n v st) = l_needfn st" "l_needfn (putData n v st) = l_needfn st"
  "l_needfnm (putVar n v st) = l_needfnm st" "l_needfnm (putData n v st) = l_needfnm st"
  by (simp_all add: putVar_def putData_def)

lemma place_code: "place g ts st = Inr st' \<Longrightarrow>
    l_funclocs st' = l_funclocs st \<and> l_fnbs st' = l_fnbs st \<and> l_funcsyms st' = l_funcsyms st \<and>
    l_relocations st' = l_relocations st"
  by (induction g ts st rule: place.induct) (auto split: if_splits option.splits)

text \<open>The variable or data block a name that is not a function stands for.\<close>

definition object :: "genv \<Rightarrow> string \<Rightarrow> Var option" where
  "object g n = (if has (g_funcs g) n then None
     else case map_of (g_vars g) n of Some v \<Rightarrow> Some v | None \<Rightarrow> map_of (g_data g) n)"

definition placed_obj :: "genv \<Rightarrow> lstate \<Rightarrow> string \<Rightarrow> bool" where
  "placed_obj g st n \<longleftrightarrow> (if has (g_vars g) n then has (l_varlocs st) n else has (l_datalocs st) n)"

text \<open>A target is taken care of: placed, or a function placed or queued.\<close>

definition known :: "genv \<Rightarrow> lstate \<Rightarrow> string \<Rightarrow> bool" where
  "known g st t \<longleftrightarrow> (if has (g_funcs g) t then has (l_funclocs st) t \<or> t \<in> set (l_needfn st)
     else placed_obj g st t)"

text \<open>Every relocation target of a placed variable or data block is known or on the stack.\<close>

definition pending :: "genv \<Rightarrow> lstate \<Rightarrow> string set \<Rightarrow> bool" where
  "pending g st T \<longleftrightarrow> (\<forall>n v dr. object g n = Some v \<and> placed_obj g st n \<and> dr \<in> set (v_Relocs v) \<longrightarrow>
     known g st (dr_Symbol dr) \<or> dr_Symbol dr \<in> T)"

definition queue_ok :: "genv \<Rightarrow> lstate \<Rightarrow> bool" where
  "queue_ok g st \<longleftrightarrow> distinct (l_needfn st) \<and> (\<forall>k \<in> set (l_needfn st). has (g_funcs g) k \<and> \<not> has (l_funclocs st) k) \<and>
     (\<forall>k \<in> set (l_needfnm st). k \<in> set (l_needfn st) \<or> has (l_funclocs st) k) \<and>
     (\<forall>k \<in> set (l_needfn st). k \<in> set (l_needfnm st) \<or> k = ''_init.start'')"

lemma queue_ok_addNeeded:
  assumes "queue_ok g st" "has (l_funclocs st) ''_init.start''" "has (g_funcs g) k" "\<not> has (l_funclocs st) k"
  shows "queue_ok g (addNeeded k st)"
proof (cases "k \<in> set (l_needfnm st)")
  case False
  then have "k \<notin> set (l_needfn st)" using assms by (auto simp: queue_ok_def)
  with False assms show ?thesis by (auto simp: queue_ok_def addNeeded_def)
qed (use assms in \<open>simp add: addNeeded_def\<close>)

lemma queue_ok_put [simp]: "queue_ok g (putVar n v st) = queue_ok g st" "queue_ok g (putData n v st) = queue_ok g st"
  by (simp_all add: queue_ok_def)

lemma place_queue: "place g ts st = Inr st' \<Longrightarrow> queue_ok g st \<Longrightarrow> has (l_funclocs st) ''_init.start'' \<Longrightarrow>
    queue_ok g st'"
  by (induction g ts st rule: place.induct)
    (auto split: if_splits option.splits intro: queue_ok_addNeeded)

text \<open>Nothing known is forgotten.\<close>

lemma known_addNeeded: "known g st t \<Longrightarrow> known g (addNeeded k st) t"
  by (auto simp: known_def placed_obj_def addNeeded_def)

lemma known_putVar: "known g st t \<Longrightarrow> known g (putVar n v st) t"
  by (auto simp: known_def placed_obj_def putVar_def)

lemma known_putData: "known g st t \<Longrightarrow> known g (putData n v st) t"
  by (auto simp: known_def placed_obj_def putData_def)

lemma known_new:
  "queue_ok g st \<Longrightarrow> has (g_funcs g) k \<Longrightarrow> known g (addNeeded k st) k"
  "\<not> has (g_funcs g) k \<Longrightarrow> has (g_vars g) k \<Longrightarrow> known g (putVar k v st) k"
  "\<not> has (g_funcs g) k \<Longrightarrow> \<not> has (g_vars g) k \<Longrightarrow> known g (putData k v st) k"
  by (auto simp: known_def placed_obj_def addNeeded_def putVar_def putData_def queue_ok_def)

lemma placed_obj_addNeeded [simp]: "placed_obj g (addNeeded k st) n = placed_obj g st n"
  by (simp add: placed_obj_def)

lemma pending_addNeeded: "pending g st T \<Longrightarrow> pending g (addNeeded k st) T"
  using known_addNeeded unfolding pending_def placed_obj_addNeeded by blast

lemma pending_drop: "pending g st (insert t T) \<Longrightarrow> known g st t \<Longrightarrow> pending g st T"
  by (auto simp: pending_def)

lemma pending_putVar:
  assumes "pending g st T" "\<not> has (g_funcs g) n" "map_of (g_vars g) n = Some v"
  shows "pending g (putVar n v st) (dr_Symbol ` set (v_Relocs v) \<union> T)"
proof -
  have "object g m = Some w \<Longrightarrow> placed_obj g (putVar n v st) m \<Longrightarrow> placed_obj g st m \<or> (m = n \<and> w = v)" for m w
    using assms by (auto simp: object_def placed_obj_def putVar_def split: if_splits option.splits)
  then show ?thesis using assms(1) known_putVar unfolding pending_def by blast
qed

lemma pending_putData:
  assumes "pending g st T" "\<not> has (g_funcs g) n" "map_of (g_vars g) n = None" "map_of (g_data g) n = Some v"
  shows "pending g (putData n v st) (dr_Symbol ` set (v_Relocs v) \<union> T)"
proof -
  have "object g m = Some w \<Longrightarrow> placed_obj g (putData n v st) m \<Longrightarrow> placed_obj g st m \<or> (m = n \<and> w = v)" for m w
    using assms by (cases "m = n") (auto simp: object_def placed_obj_def putData_def)
  then show ?thesis using assms(1) known_putData unfolding pending_def by blast
qed

lemma place_mono: "place g ts st = Inr st' \<Longrightarrow> known g st t \<Longrightarrow> known g st' t"
  by (induction g ts st rule: place.induct)
    (auto split: if_splits option.splits intro: known_addNeeded known_putVar known_putData)

lemma place_known:
  "place g ts st = Inr st' \<Longrightarrow> queue_ok g st \<Longrightarrow> has (l_funclocs st) ''_init.start'' \<Longrightarrow>
   t \<in> set ts \<Longrightarrow> known g st' t"
proof (induction g ts st rule: place.induct)
  case (2 g u ts st)
  show ?case
  proof (cases "has (g_funcs g) u")
    case True
    let ?st = "if has (l_funclocs st) u then st else addNeeded u st"
    have "known g ?st u" using True known_new(1)[OF 2(7) True]
      by (cases "has (l_funclocs st) u") (simp_all add: known_def)
    moreover have "queue_ok g ?st" using 2 True by (simp add: queue_ok_addNeeded)
    ultimately show ?thesis
      using 2 True place_mono[of g ts ?st st' u] by (auto split: if_splits)
  next
    case False
    consider (var) v where "map_of (g_vars g) u = Some v"
      | (data) v where "map_of (g_vars g) u = None" "map_of (g_data g) u = Some v"
      | (none) "map_of (g_vars g) u = None" "map_of (g_data g) u = None" by fastforce
    then show ?thesis
    proof cases
      case var
      have "known g (putVar u v st) u" using False var by (simp add: known_new has_lookup)
      moreover have "has (l_varlocs st) u \<Longrightarrow> known g st u"
        using False var by (simp add: known_def placed_obj_def has_lookup)
      ultimately show ?thesis
        using 2 False var place_mono[of g _ _ st' u] by (cases "t = u") (auto split: if_splits)
    next
      case data
      have "known g (putData u v st) u" using False data by (simp add: known_new has_None)
      moreover have "has (l_datalocs st) u \<Longrightarrow> known g st u"
        using False data by (simp add: known_def placed_obj_def has_None)
      ultimately show ?thesis
        using 2 False data place_mono[of g _ _ st' u] by (cases "t = u") (auto split: if_splits)
    next
      case none
      with 2 False show ?thesis by simp
    qed
  qed
qed simp

lemma place_pending:
  "place g ts st = Inr st' \<Longrightarrow> queue_ok g st \<Longrightarrow> has (l_funclocs st) ''_init.start'' \<Longrightarrow>
   pending g st (set ts \<union> T) \<Longrightarrow> pending g st' T"
proof (induction g ts st rule: place.induct)
  case (2 g u ts st)
  show ?case
  proof (cases "has (g_funcs g) u")
    case True
    let ?st = "if has (l_funclocs st) u then st else addNeeded u st"
    have "known g ?st u" using True known_new(1)[OF 2(7) True]
      by (cases "has (l_funclocs st) u") (simp_all add: known_def)
    moreover have "queue_ok g ?st" using 2 True by (simp add: queue_ok_addNeeded)
    moreover have "pending g ?st (insert u (set ts \<union> T))"
      using 2 pending_addNeeded by simp
    ultimately show ?thesis
      using 2 True pending_drop by (auto split: if_splits)
  next
    case False
    consider (var) v where "map_of (g_vars g) u = Some v"
      | (data) v where "map_of (g_vars g) u = None" "map_of (g_data g) u = Some v"
      | (none) "map_of (g_vars g) u = None" "map_of (g_data g) u = None" by fastforce
    then show ?thesis
    proof cases
      case var
      have "has (l_varlocs st) u \<Longrightarrow> known g st u"
        using False var by (simp add: known_def placed_obj_def has_lookup)
      moreover have "known g (putVar u v st) u" using False var by (simp add: known_new has_lookup)
      moreover have "pending g (putVar u v st) (insert u (set (map dr_Symbol (v_Relocs v) @ ts) \<union> T))"
        using pending_putVar[of g st "insert u (set ts \<union> T)" u v] 2 False var
        by (simp add: Un_commute Un_left_commute insert_commute Un_assoc)
      ultimately show ?thesis using 2 False var pending_drop by (auto split: if_splits)
    next
      case data
      have "has (l_datalocs st) u \<Longrightarrow> known g st u"
        using False data by (simp add: known_def placed_obj_def has_None)
      moreover have "known g (putData u v st) u" using False data by (simp add: known_new has_None)
      moreover have "pending g (putData u v st) (insert u (set (map dr_Symbol (v_Relocs v) @ ts) \<union> T))"
        using pending_putData[of g st "insert u (set ts \<union> T)" u v] 2 False data
        by (simp add: Un_commute Un_left_commute insert_commute Un_assoc)
      ultimately show ?thesis using 2 False data pending_drop by (auto split: if_splits)
    next
      case none
      with 2 False show ?thesis by simp
    qed
  qed
qed simp

text \<open>What the entry point needs, directly or through others.\<close>

inductive linked :: "genv \<Rightarrow> string \<Rightarrow> bool" for g where
  linked_start: "linked g ''_init.start''"
| linked_fn: "linked g k \<Longrightarrow> has (g_funcs g) k \<Longrightarrow> r \<in> set (frelocs g k) \<Longrightarrow> linked g (r_Symbol r)"
| linked_obj: "linked g n \<Longrightarrow> object g n = Some v \<Longrightarrow> dr \<in> set (v_Relocs v) \<Longrightarrow> linked g (dr_Symbol dr)"

definition in_image :: "lstate \<Rightarrow> string \<Rightarrow> bool" where
  "in_image st n \<longleftrightarrow> has (l_funclocs st) n \<or> has (l_varlocs st) n \<or> has (l_datalocs st) n"

definition all_linked :: "genv \<Rightarrow> lstate \<Rightarrow> bool" where
  "all_linked g st \<longleftrightarrow> (\<forall>n. in_image st n \<or> n \<in> set (l_needfn st) \<longrightarrow> linked g n)"

lemma all_linked_steps:
  "all_linked g st \<Longrightarrow> linked g k \<Longrightarrow> all_linked g (addNeeded k st)"
  "all_linked g st \<Longrightarrow> linked g k \<Longrightarrow> all_linked g (putVar k v st)"
  "all_linked g st \<Longrightarrow> linked g k \<Longrightarrow> all_linked g (putData k v st)"
  by (auto simp: all_linked_def in_image_def addNeeded_def putVar_def putData_def)

lemma place_linked:
  "place g ts st = Inr st' \<Longrightarrow> all_linked g st \<Longrightarrow> \<forall>t \<in> set ts. linked g t \<Longrightarrow> all_linked g st'"
proof (induction g ts st rule: place.induct)
  case (2 g u ts st)
  have "linked g (dr_Symbol dr)" if "object g u = Some v" "dr \<in> set (v_Relocs v)" for v dr
    using 2(8) that linked_obj by auto
  with 2 show ?case
    by (auto split: if_splits option.splits intro: all_linked_steps simp: object_def)
qed simp

section \<open>Placing a function\<close>

lemma known_shift [simp]: "known g (st\<lparr>l_relocations := rs\<rparr>) t = known g st t"
  by (simp add: known_def placed_obj_def)

lemma shift_sel [simp]:
  "queue_ok g (st\<lparr>l_relocations := rs\<rparr>) = queue_ok g st" "objs_ok g (st\<lparr>l_relocations := rs\<rparr>) = objs_ok g st"
  "pending g (st\<lparr>l_relocations := rs\<rparr>) T = pending g st T"
  "all_linked g (st\<lparr>l_relocations := rs\<rparr>) = all_linked g st"
  by (simp_all add: queue_ok_def objs_ok_def pending_def placed_obj_def all_linked_def in_image_def)

text \<open>What placing targets keeps, and what it achieves.\<close>

definition work_ok :: "genv \<Rightarrow> lstate \<Rightarrow> bool" where
  "work_ok g st \<longleftrightarrow> objs_ok g st \<and> queue_ok g st \<and> pending g st {} \<and> all_linked g st \<and>
     has (l_funclocs st) ''_init.start''"

lemma reference_ok:
  assumes "reference g t st = Inr st'" "work_ok g st" "linked g t"
  shows "work_ok g st' \<and> known g st' t \<and> l_funclocs st' = l_funclocs st \<and> l_fnbs st' = l_fnbs st \<and>
    l_funcsyms st' = l_funcsyms st \<and> l_relocations st' = l_relocations st \<and>
    (\<forall>u. known g st u \<longrightarrow> known g st' u)"
proof -
  have p: "place g [t] st = Inr st'" using assms(1) by (auto simp: reference_def split: if_splits)
  have w: "objs_ok g st" "queue_ok g st" "pending g st {}" "all_linked g st"
    "has (l_funclocs st) ''_init.start''"
    using assms(2) by (simp_all add: work_ok_def)
  have "pending g st (set [t] \<union> {})" using w(3) by (auto simp: pending_def)
  then show ?thesis
    using place_objs[OF p w(1)] place_queue[OF p w(2,5)] place_pending[OF p w(2,5)]
      place_linked[OF p w(4)] place_known[OF p w(2,5), of t] place_code[OF p] place_mono[OF p] assms(3) w(5)
    by (simp add: work_ok_def)
qed

lemma follow_ok:
  "follow g off rs st = Inr st' \<Longrightarrow> work_ok g st \<Longrightarrow> \<forall>r \<in> set rs. linked g (r_Symbol r) \<Longrightarrow>
   work_ok g st' \<and> (\<forall>r \<in> set rs. known g st' (r_Symbol r)) \<and> l_funclocs st' = l_funclocs st \<and>
   l_fnbs st' = l_fnbs st \<and> l_funcsyms st' = l_funcsyms st \<and>
   l_relocations st' = l_relocations st @ map (shift_reloc off) rs \<and>
   (\<forall>u. known g st u \<longrightarrow> known g st' u)"
proof (induction g off rs st rule: follow.induct)
  case (2 g off r rs st)
  obtain st1 where st1: "reference g (r_Symbol r) st = Inr st1"
    "follow g off rs (st1\<lparr>l_relocations := l_relocations st1 @ [shift_reloc off r]\<rparr>) = Inr st'"
    using 2(2) by (auto simp: rbind_eq_Inr)
  have r: "work_ok g st1" "known g st1 (r_Symbol r)" "l_funclocs st1 = l_funclocs st"
    "l_fnbs st1 = l_fnbs st" "l_funcsyms st1 = l_funcsyms st" "l_relocations st1 = l_relocations st"
    "\<And>u. known g st u \<Longrightarrow> known g st1 u"
    using reference_ok[OF st1(1) 2(3)] 2(4) by auto
  have "work_ok g (st1\<lparr>l_relocations := l_relocations st1 @ [shift_reloc off r]\<rparr>)"
    using r(1) by (simp add: work_ok_def)
  then show ?case using 2(1)[of st1] st1(2) 2(4) r by auto
qed simp

section \<open>The loop invariant\<close>

definition env_ok :: "genv \<Rightarrow> bool" where
  "env_ok g \<longleftrightarrow> (\<forall>k f. map_of (g_funcs g) k = Some f \<longrightarrow> qualify (f_Pkgname f) (f_Name f) = k)"

definition codes_known :: "genv \<Rightarrow> lstate \<Rightarrow> bool" where
  "codes_known g st \<longleftrightarrow> (\<forall>k. has (l_funclocs st) k \<longrightarrow> (\<forall>r \<in> set (frelocs g k). known g st (r_Symbol r)))"

definition linv :: "genv \<Rightarrow> lstate \<Rightarrow> bool" where
  "linv g st \<longleftrightarrow> code_ok g st \<and> objs_ok g st \<and> queue_ok g st \<and> pending g st {} \<and> all_linked g st \<and>
     codes_known g st \<and> (has (l_funclocs st) ''_init.start'' \<or> l_needfn st = [''_init.start''])"

lemma enter_known:
  "known g st t \<Longrightarrow> l_needfn st = k # ks \<Longrightarrow> qualify (f_Pkgname f) (f_Name f) = k \<Longrightarrow>
   known g (enter_fn f fbs (pop_fn st)) t"
  by (auto simp: known_def placed_obj_def enter_fn_def pop_fn_def Let_def)

lemma enter_work_ok:
  assumes "linv g st" "l_needfn st = k # ks" "qualify (f_Pkgname f) (f_Name f) = k"
  shows "work_ok g (enter_fn f fbs (pop_fn st))"
proof -
  let ?st = "enter_fn f fbs (pop_fn st)"
  have i: "objs_ok g st" "queue_ok g st" "pending g st {}" "all_linked g st"
    "has (l_funclocs st) ''_init.start'' \<or> l_needfn st = [''_init.start'']"
    using assms(1) by (simp_all add: linv_def)
  have sel: "l_varlocs ?st = l_varlocs st" "l_datalocs ?st = l_datalocs st" "l_needfn ?st = ks"
    "l_needfnm ?st = l_needfnm st" "has (l_funclocs ?st) n \<longleftrightarrow> n = k \<or> has (l_funclocs st) n"
    "objs_ok g ?st = objs_ok g st" for n
    using assms(2,3) by (simp_all add: enter_fn_def pop_fn_def Let_def objs_ok_def)
  have "queue_ok g ?st" using i(2) assms(2) by (auto simp: queue_ok_def sel)
  moreover have "placed_obj g ?st n = placed_obj g st n" for n by (simp add: placed_obj_def sel)
  then have "pending g ?st {}"
    using i(3) enter_known[OF _ assms(2,3)] unfolding pending_def by simp
  moreover have "all_linked g ?st"
    using i(4) assms(2) unfolding all_linked_def in_image_def sel by auto
  ultimately show ?thesis using i(1,5) assms(2) by (auto simp: work_ok_def sel)
qed

lemma Body_resolved: "Body f = Some (Inr fbs) \<Longrightarrow> fbs = body_of (resolved f)"
  by (auto simp: Body_def resolved_def split: if_splits option.splits)

lemma fnbs_sel [simp]:
  "queue_ok g (st\<lparr>l_fnbs := bs\<rparr>) = queue_ok g st" "objs_ok g (st\<lparr>l_fnbs := bs\<rparr>) = objs_ok g st"
  "pending g (st\<lparr>l_fnbs := bs\<rparr>) T = pending g st T"
  "all_linked g (st\<lparr>l_fnbs := bs\<rparr>) = all_linked g st"
  by (simp_all add: queue_ok_def objs_ok_def pending_def known_def placed_obj_def all_linked_def in_image_def)

lemma code_ok_snoc:
  assumes "code_ok g st" "\<not> has (l_funclocs st) k" "has (g_funcs g) k" "body_fine g k"
    and locs: "l_funclocs st' = AList.update k (of_nat (length (l_fnbs st))) (l_funclocs st)"
    and bs: "l_fnbs st' = l_fnbs st @ fbody g k"
    and syms: "l_funcsyms st' = l_funcsyms st @ [\<lparr>sm_Name = k, sm_Type = SYM_FUNC,
      sm_Address = ucast (of_nat (length (l_fnbs st)) :: 32 word), sm_Size = int (length (fbody g k))\<rparr>]"
    and rels: "l_relocations st' = l_relocations st @
      map (shift_reloc (of_nat (length (l_fnbs st)))) (frelocs g k)"
  shows "code_ok g st'"
  unfolding code_ok_def
proof (intro conjI allI impI)
  have o: "placed_buf (fbody g) (l_funclocs st) (l_fnbs st)"
    "l_funcsyms st = placed_syms SYM_FUNC (fbody g) (l_funclocs st)"
    "l_relocations st = concat (map (\<lambda>(k, i). map (shift_reloc i) (frelocs g k)) (l_funclocs st))"
    "\<And>k. has (l_funclocs st) k \<Longrightarrow> has (g_funcs g) k" "\<And>k. has (l_funclocs st) k \<Longrightarrow> body_fine g k"
    using assms(1) by (simp_all add: code_ok_def)
  show "placed_buf (fbody g) (l_funclocs st') (l_fnbs st')"
    unfolding locs bs by (rule placed_buf_snoc[OF o(1) assms(2)])
  show "l_funcsyms st' = placed_syms SYM_FUNC (fbody g) (l_funclocs st')"
    unfolding locs syms by (simp add: placed_syms_snoc[OF assms(2)] o(2))
  show "l_relocations st' = concat (map (\<lambda>(k, i). map (shift_reloc i) (frelocs g k)) (l_funclocs st'))"
    unfolding locs rels by (simp add: update_new[OF assms(2)] o(3))
  show "has (l_funclocs st') m \<Longrightarrow> has (g_funcs g) m" for m
    using o(4) assms(3) by (auto simp: locs)
  show "has (l_funclocs st') m \<Longrightarrow> body_fine g m" for m
    using o(5) assms(4) by (auto simp: locs)
qed

lemma place_fn_inv:
  assumes inv: "linv g st" and k: "l_needfn st = k # ks" and f: "map_of (g_funcs g) k = Some f"
    and env: "env_ok g" and step: "place_fn g f (pop_fn st) = Inr st'"
  shows "linv g st'"
proof -
  have q: "qualify (f_Pkgname f) (f_Name f) = k" using env f by (simp add: env_ok_def)
  obtain fbs st1 where fbs: "Body f = Some (Inr fbs)"
    and st1: "follow g (of_nat (length (l_fnbs st))) (f_Relocations (resolved f)) (enter_fn f fbs (pop_fn st)) = Inr st1"
    and st': "st' = st1\<lparr>l_fnbs := l_fnbs st1 @ fbs\<rparr>"
    using step by (auto simp: place_fn_def pop_fn_def rbind_eq_Inr split: option.splits sum.splits)
  let ?e = "enter_fn f fbs (pop_fn st)" and ?off = "of_nat (length (l_fnbs st)) :: 32 word"
  have body: "fbs = fbody g k" and rel: "f_Relocations (resolved f) = frelocs g k"
    using Body_resolved[OF fbs] f by (simp_all add: fbody_def frelocs_def)
  have i: "code_ok g st" "all_linked g st" "codes_known g st" "\<not> has (l_funclocs st) k"
    using inv k by (auto simp: linv_def queue_ok_def)
  have "linked g k" using i(2) k by (simp add: all_linked_def)
  then have lk: "\<forall>r \<in> set (f_Relocations (resolved f)). linked g (r_Symbol r)"
    using linked_fn[of g k] f unfolding rel by (auto simp: has_lookup)
  note w = follow_ok[OF st1 enter_work_ok[OF inv k q] lk]
  have e: "l_fnbs ?e = l_fnbs st" "l_relocations ?e = l_relocations st"
    "l_funclocs ?e = AList.update k ?off (l_funclocs st)"
    "l_funcsyms ?e = l_funcsyms st @ [\<lparr>sm_Name = k, sm_Type = SYM_FUNC, sm_Address = ucast ?off, sm_Size = int (length fbs)\<rparr>]"
    by (simp_all add: enter_fn_def pop_fn_def Let_def q)
  have kn: "known g st' t = known g st1 t" for t by (simp add: st' known_def placed_obj_def)
  have "code_ok g st'"
    by (rule code_ok_snoc[OF i(1,4), of st']) (use w e f fbs in \<open>simp_all add: st' body rel has_lookup body_fine_def\<close>)
  moreover have "codes_known g st'"
    using i(3) w e enter_known[OF _ k q] unfolding codes_known_def kn
    by (auto simp: st' rel)
  moreover have "objs_ok g st'" "queue_ok g st'" "pending g st' {}" "all_linked g st'" "has (l_funclocs st') ''_init.start''"
    using w by (auto simp: work_ok_def st')
  ultimately show ?thesis by (simp add: linv_def)
qed

lemma link_loop_inv:
  "link_loop g st = Inr st' \<Longrightarrow> env_ok g \<Longrightarrow> linv g st \<Longrightarrow> linv g st' \<and> l_needfn st' = []"
proof (induction g st rule: link_loop.induct)
  case (1 g st)
  show ?case
  proof (cases "l_needfn st")
    case Nil
    with 1 show ?thesis by (simp add: link_loop.simps)
  next
    case (Cons k ks)
    then obtain f st1 where s: "map_of (g_funcs g) k = Some f" "place_fn g f (pop_fn st) = Inr st1"
      "link_loop g st1 = Inr st'"
      using 1(2) by (subst (asm) link_loop.simps) (auto split: option.splits sum.splits)
    have "linv g st1" by (rule place_fn_inv[OF 1(4) Cons s(1) 1(3) s(2)])
    with 1(1)[OF Cons s(1,2,3) 1(3)] show ?thesis by simp
  qed
qed

lemma start_linv: "has (g_funcs g) ''_init.start'' \<Longrightarrow> linv g start_state"
  by (simp add: linv_def start_state_def code_ok_def objs_ok_def placed_syms_def queue_ok_def pending_def
      placed_obj_def all_linked_def in_image_def codes_known_def linked_start)

lemma linked_known:
  assumes "linv g st" "l_needfn st = []" "linked g n"
  shows "known g st n"
  using assms(3)
proof (induction rule: linked.induct)
  case linked_start
  have "has (l_funclocs st) ''_init.start''" using assms(1,2) by (simp add: linv_def)
  then show ?case using assms(1) by (simp add: known_def linv_def code_ok_def)
next
  case (linked_fn k r)
  then have "has (l_funclocs st) k" using assms(2) by (simp add: known_def)
  with linked_fn assms(1) show ?case by (simp add: linv_def codes_known_def)
next
  case (linked_obj n v dr)
  then have "placed_obj g st n" by (auto simp: known_def object_def split: if_splits)
  with linked_obj assms(1) show ?case unfolding linv_def pending_def by blast
qed

lemma known_in_image: "known g st n \<Longrightarrow> l_needfn st = [] \<Longrightarrow> in_image st n"
  by (auto simp: known_def placed_obj_def in_image_def split: if_splits)

section \<open>Patching placed blocks\<close>

definition shift_patch :: "nat \<Rightarrow> patch \<Rightarrow> patch" where
  "shift_patch i p = (i + fst p, snd p)"

lemma slot_shift: "slot (shift_patch i p) = (\<lambda>x. i + x) ` slot p"
  by (auto simp: slot_def shift_patch_def image_iff)

lemma apart_shift: "apart (map (shift_patch i) ps) = apart ps"
proof -
  have "slot (shift_patch i p) \<inter> slot (shift_patch i q) = {} \<longleftrightarrow> slot p \<inter> slot q = {}" for p q
    by (auto simp: slot_shift)
  then show ?thesis by (simp add: apart_def sorted_wrt_map)
qed

lemma apart_concat:
  "distinct xs \<Longrightarrow> \<forall>x \<in> set xs. apart (ps x) \<Longrightarrow>
   \<forall>x \<in> set xs. \<forall>y \<in> set xs. x \<noteq> y \<longrightarrow> (\<forall>p \<in> set (ps x). \<forall>q \<in> set (ps y). slot p \<inter> slot q = {}) \<Longrightarrow>
   apart (concat (map ps xs))"
proof (induction xs)
  case (Cons a xs)
  have "slot p \<inter> slot q = {}" if "p \<in> set (ps a)" "y \<in> set xs" "q \<in> set (ps y)" for p y q
  proof -
    have "a \<noteq> y" using Cons.prems(1) that(2) by auto
    with Cons.prems(3) that show ?thesis by simp
  qed
  then have "\<forall>p \<in> set (ps a). \<forall>q \<in> set (concat (map ps xs)). slot p \<inter> slot q = {}" by auto
  with Cons show ?case by simp
qed simp

text \<open>The patches of every block, moved to where the block was placed.\<close>

definition block_patches :: "(string \<Rightarrow> 32 word \<Rightarrow> patch list) \<Rightarrow> (string \<times> 32 word) list \<Rightarrow> patch list" where
  "block_patches ps locs = concat (map (\<lambda>(n, l). map (shift_patch (unat l)) (ps n l)) locs)"

lemma placed_buf_mem:
  assumes "placed_buf b locs buf" "length buf < 2 ^ 32" "(n, l) \<in> set locs"
  shows "(n, unat l) \<in> set (lay b 0 (map fst locs)) \<and> unat l + length (b n) \<le> length buf \<and>
    slice (unat l) (length (b n)) buf = b n"
proof -
  have "map_of locs n = Some l" using assms(1,3) by (simp add: placed_buf_def)
  then obtain i where i: "l = of_nat i" "(n, i) \<in> set (lay b 0 (map fst locs))"
    "i + length (b n) \<le> length buf" "slice i (length (b n)) buf = b n"
    using placed_buf_locs[OF assms(1)] by blast
  moreover have "unat l = i" using i(1,3) assms(2) by (simp add: unat_of_nat)
  ultimately show ?thesis by simp
qed

lemma slot_in_block: "p \<in> set ps \<Longrightarrow> fits n ps \<Longrightarrow> x \<in> slot (shift_patch i p) \<Longrightarrow> i \<le> x \<and> x < i + n"
  by (auto simp: fits_def slot_def shift_patch_def)

lemma slot_in_placed:
  "p \<in> set (map (shift_patch i) ps) \<Longrightarrow> fits n ps \<Longrightarrow> x \<in> slot p \<Longrightarrow> i \<le> x \<and> x < i + n"
  by (auto dest: slot_in_block)

lemma slice_slice: "a + n \<le> m \<Longrightarrow> slice a n (slice l m bs) = slice (l + a) n bs"
  by (simp add: slice_def drop_take add.commute)

lemma block_patches_ok:
  assumes pb: "placed_buf b locs buf" "length buf < 2 ^ 32" and iter: "mset locs' = mset locs"
    and ok: "\<forall>(n, l) \<in> set locs. apart (ps n l) \<and> fits (length (b n)) (ps n l)"
  shows "apart (block_patches ps locs') \<and> fits (length buf) (block_patches ps locs')"
proof
  have set: "set locs' = set locs" using iter by (metis set_mset_mset)
  have d: "distinct (map fst locs)" using pb(1) by (simp add: placed_buf_def)
  then have d': "distinct locs'" using iter by (metis distinct_map mset_eq_imp_distinct_iff)
  show "fits (length buf) (block_patches ps locs')"
    unfolding fits_def
  proof
    fix p assume "p \<in> set (block_patches ps locs')"
    then obtain n l q where q: "(n, l) \<in> set locs" "q \<in> set (ps n l)" "p = shift_patch (unat l) q"
      using set by (auto simp: block_patches_def)
    then show "fst p + length (snd p) \<le> length buf"
      using placed_buf_mem[OF pb q(1)] ok by (fastforce simp: fits_def shift_patch_def)
  qed
  show "apart (block_patches ps locs')"
    unfolding block_patches_def
  proof (rule apart_concat[OF d'], goal_cases)
    case 1
    show ?case using ok set by (auto simp: apart_shift)
  next
    case 2
    show ?case
    proof (intro ballI impI)
      fix x y p q assume x: "x \<in> set locs'" and y: "y \<in> set locs'" and "x \<noteq> y"
        and p: "p \<in> set (case x of (n, l) \<Rightarrow> map (shift_patch (unat l)) (ps n l))"
        and q: "q \<in> set (case y of (n, l) \<Rightarrow> map (shift_patch (unat l)) (ps n l))"
      obtain n l m k where xy: "x = (n, l)" "y = (m, k)" by fastforce
      then have "n \<noteq> m" using d x y set \<open>x \<noteq> y\<close> by (auto dest: eq_key_imp_eq_value)
      then have "unat l + length (b n) \<le> unat k \<or> unat k + length (b m) \<le> unat l"
        using placed_buf_mem[OF pb, of n l] placed_buf_mem[OF pb, of m k] x y set xy d
        by (intro lay_apart[of n "unat l" b 0 "map fst locs" m "unat k"]) auto
      moreover have "fits (length (b n)) (ps n l)" "fits (length (b m)) (ps m k)"
        using ok x y set xy by auto
      then have "\<forall>z \<in> slot p. unat l \<le> z \<and> z < unat l + length (b n)"
        "\<forall>z \<in> slot q. unat k \<le> z \<and> z < unat k + length (b m)"
        using p q xy slot_in_placed[of p "unat l" "ps n l"] slot_in_placed[of q "unat k" "ps m k"]
        by simp_all
      ultimately show "slot p \<inter> slot q = {}" by fastforce
    qed
  qed
qed

text \<open>After patching, a patch of a block is found at its place in the block, and the bytes of the
  block outside its own patches are as before.\<close>

lemma block_patched:
  assumes pb: "placed_buf b locs buf" "length buf < 2 ^ 32" and iter: "mset locs' = mset locs"
    and ok: "\<forall>(n, l) \<in> set locs. apart (ps n l) \<and> fits (length (b n)) (ps n l)"
    and n: "(n, l) \<in> set locs"
  defines "res \<equiv> slice (unat l) (length (b n)) (patch_all buf (block_patches ps locs'))"
  shows "length res = length (b n) \<and>
    (\<forall>p \<in> set (ps n l). slice (fst p) (length (snd p)) res = snd p) \<and>
    (\<forall>i < length (b n). (\<forall>p \<in> set (ps n l). i \<notin> slot p) \<longrightarrow> res ! i = b n ! i)"
proof -
  let ?qs = "block_patches ps locs'" and ?dat = "patch_all buf (block_patches ps locs')"
  have set: "set locs' = set locs" using iter by (metis set_mset_mset)
  have qs: "apart ?qs" "fits (length buf) ?qs" using block_patches_ok[OF pb iter ok] by auto
  have m: "(n, unat l) \<in> set (lay b 0 (map fst locs))" "unat l + length (b n) \<le> length buf"
    "slice (unat l) (length (b n)) buf = b n"
    using placed_buf_mem[OF pb n] by auto
  have d: "distinct (map fst locs)" using pb(1) by (simp add: placed_buf_def)
  have "slice (fst p) (length (snd p)) res = snd p" if p: "p \<in> set (ps n l)" for p
  proof -
    have "shift_patch (unat l) p \<in> set ?qs" using p n set by (force simp: block_patches_def)
    then have "slice (unat l + fst p) (length (snd p)) ?dat = snd p"
      using patch_all_slice[OF _ qs] by (fastforce simp: shift_patch_def)
    moreover have "fst p + length (snd p) \<le> length (b n)" using ok n p by (fastforce simp: fits_def)
    ultimately show ?thesis by (simp add: res_def slice_slice)
  qed
  moreover have "res ! i = b n ! i" if i: "i < length (b n)" "\<forall>p \<in> set (ps n l). i \<notin> slot p" for i
  proof -
    have "unat l + i \<notin> slot q" if q: "q \<in> set ?qs" for q
    proof
      assume in_q: "unat l + i \<in> slot q"
      obtain k j p where p: "(k, j) \<in> set locs" "p \<in> set (ps k j)" "q = shift_patch (unat j) p"
        using q set by (auto simp: block_patches_def)
      then have b: "unat j \<le> unat l + i" "unat l + i < unat j + length (b k)"
        using in_q ok slot_in_block[of p "ps k j" "length (b k)"] by auto
      show False
      proof (cases "k = n")
        case True
        then have "j = l" using p(1) n d by (auto dest: eq_key_imp_eq_value)
        then show False using i(2) in_q p True by (auto simp: slot_shift)
      next
        case False
        with b i(1) show False
          using lay_apart[OF m(1) _ d, of k "unat j"] placed_buf_mem[OF pb p(1)] by auto
      qed
    qed
    then have "?dat ! (unat l + i) = buf ! (unat l + i)" using i(1) m(2) by (intro patch_all_outside) auto
    moreover have "buf ! (unat l + i) = b n ! i" using m(2) i(1) by (subst m(3)[symmetric]) (simp add: slice_def)
    ultimately show ?thesis using i(1) m(2) by (simp add: res_def slice_def)
  qed
  ultimately show ?thesis using m(2) by (simp add: res_def)
qed

section \<open>Relocation as patching\<close>

lemma apply_relocs_eq:
  "\<forall>r \<in> set rs. unat (r_Offset r) + 4 \<le> length bs \<and> val (r_Symbol r) \<noteq> None \<Longrightarrow>
   apply_relocs spare val bs rs =
     Inr (patch_all bs (map (reloc_patch (\<lambda>r. the (val (r_Symbol r)))) rs))"
  by (induction rs arbitrary: bs) (auto simp: Relocation_Apply_ok reloc_patch_def)

definition dr_patch :: "(string \<Rightarrow> 64 word option) \<Rightarrow> DataReloc \<Rightarrow> patch" where
  "dr_patch va dr = (unat (dr_Offset dr), le_bytes 8 (unat (the (va (dr_Symbol dr)) + dr_Addend dr)))"

lemma overwrite_drop:
  "loc + off + length new \<le> length bs \<Longrightarrow>
   take loc bs @ overwrite (drop loc bs) off new = overwrite bs (loc + off) new"
  by (simp add: overwrite_def take_add add.assoc add.commute add.left_commute)

lemma apply_data_relocs_eq:
  "\<forall>dr \<in> set drs. loc + unat (dr_Offset dr) + 8 \<le> length dat \<and> va (dr_Symbol dr) \<noteq> None \<Longrightarrow>
   apply_data_relocs va loc drs dat = Inr (patch_all dat (map (shift_patch loc) (map (dr_patch va) drs)))"
proof (induction drs arbitrary: dat)
  case (Cons dr drs)
  then obtain a where a: "va (dr_Symbol dr) = Some a" by auto
  let ?p = "shift_patch loc (dr_patch va dr)"
  have "DataReloc_Apply dr (drop loc dat) a = Some (overwrite (drop loc dat) (unat (dr_Offset dr)) (snd ?p))"
    using Cons.prems a by (auto simp: DataReloc_Apply_def Let_def dr_patch_def shift_patch_def)
  moreover have "take loc dat @ overwrite (drop loc dat) (unat (dr_Offset dr)) (snd ?p) = overwrite dat (fst ?p) (snd ?p)"
    using Cons.prems a by (subst overwrite_drop) (simp_all add: dr_patch_def shift_patch_def)
  ultimately show ?case using Cons a by simp
qed simp

lemma fix_data_eq:
  "\<forall>(n, l) \<in> set locs. has defs n \<and> (\<forall>dr \<in> set (vrelocs defs n).
     unat l + unat (dr_Offset dr) + 8 \<le> length dat \<and> va (dr_Symbol dr) \<noteq> None) \<Longrightarrow>
   fix_data va defs locs dat =
     Inr (patch_all dat (block_patches (\<lambda>n l. map (dr_patch va) (vrelocs defs n)) locs))"
proof (induction locs arbitrary: dat)
  case (Cons nl locs)
  obtain n l v where n: "nl = (n, l)" "map_of defs n = Some v"
    using Cons.prems by (cases nl) (auto simp: has_def)
  then have "apply_data_relocs va (unat l) (v_Relocs v) dat =
      Inr (patch_all dat (map (shift_patch (unat l)) (map (dr_patch va) (vrelocs defs n))))"
    using Cons.prems by (subst apply_data_relocs_eq) (auto simp: vrelocs_def)
  then show ?case
    using Cons n by (simp add: block_patches_def patch_all_append)
qed (simp add: block_patches_def)

section \<open>The linked image\<close>

text \<open>Data relocation slots lie within their variable and are apart.\<close>

definition drs_ok :: "nat \<Rightarrow> DataReloc list \<Rightarrow> bool" where
  "drs_ok n drs \<longleftrightarrow> (\<forall>dr \<in> set drs. unat (dr_Offset dr) + 8 \<le> n) \<and>
     sorted_wrt (\<lambda>a b. {unat (dr_Offset a) ..< unat (dr_Offset a) + 8} \<inter>
       {unat (dr_Offset b) ..< unat (dr_Offset b) + 8} = {}) drs"

lemma drs_patches_ok: "drs_ok n drs \<Longrightarrow> apart (map (dr_patch va) drs) \<and> fits n (map (dr_patch va) drs)"
proof -
  have "slot (dr_patch va dr) = {unat (dr_Offset dr) ..< unat (dr_Offset dr) + 8}" for dr
    by (simp add: slot_def dr_patch_def)
  then show "drs_ok n drs \<Longrightarrow> apart (map (dr_patch va) drs) \<and> fits n (map (dr_patch va) drs)"
    by (simp add: drs_ok_def apart_def fits_def sorted_wrt_map) (simp add: dr_patch_def)
qed

definition genv_ok :: "genv \<Rightarrow> bool" where
  "genv_ok g \<longleftrightarrow> env_ok g \<and>
     (\<forall>k. has (g_funcs g) k \<longrightarrow> relocs_ok (length (fbody g k)) (frelocs g k)) \<and>
     (\<forall>n. has (g_vars g) n \<longrightarrow> drs_ok (length (vval (g_vars g) n)) (vrelocs (g_vars g) n)) \<and>
     (\<forall>n. has (g_data g) n \<longrightarrow> drs_ok (length (vval (g_data g) n)) (vrelocs (g_data g) n))"

text \<open>The sections stay below 4 GB, the range of the linker's 32-bit offsets.\<close>

definition small :: "lstate \<Rightarrow> bool" where
  "small st \<longleftrightarrow> length (l_fnbs st) < 2 ^ 32 \<and> length (l_varbs st) < 2 ^ 32 \<and> length (l_databs st) < 2 ^ 32"

definition perm_iter :: "((string \<times> 32 word) list \<Rightarrow> (string \<times> 32 word) list) \<Rightarrow> bool" where
  "perm_iter iter \<longleftrightarrow> (\<forall>m. mset (iter m) = mset m)"

text \<open>The patches of a placed function, relative to its start.\<close>

definition code_patches :: "(string \<Rightarrow> 32 word option) \<Rightarrow> genv \<Rightarrow> string \<Rightarrow> 32 word \<Rightarrow> patch list" where
  "code_patches val g n l = map (\<lambda>r. (unat (r_Offset r),
     le_bytes 4 (unat (reloc_target (shift_reloc l r) (the (val (r_Symbol r))))))) (frelocs g n)"

lemma code_patches_ok:
  "relocs_ok m (frelocs g n) \<Longrightarrow> apart (code_patches val g n l) \<and> fits m (code_patches val g n l)"
proof -
  have "slot (unat (r_Offset r), le_bytes 4 x) = rslot r" for r x
    by (simp add: slot_def rslot_def)
  then show "relocs_ok m (frelocs g n) \<Longrightarrow> apart (code_patches val g n l) \<and> fits m (code_patches val g n l)"
    by (simp add: code_patches_def relocs_ok_def apart_def fits_def sorted_wrt_map)
qed

lemma unat_shifted:
  assumes "unat (r_Offset r) + 4 \<le> m" "unat l + m < 2 ^ 32"
  shows "unat (r_Offset (shift_reloc l r)) = unat l + unat (r_Offset r)"
  using assms by (simp add: shift_reloc_def unat_word_ariths)

lemma shifted_patch:
  assumes "unat (r_Offset r) + 4 \<le> m" "unat l + m < 2 ^ 32"
  shows "reloc_patch (\<lambda>r. the (val (r_Symbol r))) (shift_reloc l r) =
    shift_patch (unat l) (unat (r_Offset r),
      le_bytes 4 (unat (reloc_target (shift_reloc l r) (the (val (r_Symbol r))))))"
  using unat_shifted[OF assms] by (simp add: reloc_patch_def shift_patch_def) (simp add: shift_reloc_def)

lemma text_patches:
  assumes "linv g st" "genv_ok g" "length (l_fnbs st) < 2 ^ 32"
  shows "map (reloc_patch (\<lambda>r. the (val (r_Symbol r)))) (l_relocations st) =
    block_patches (code_patches val g) (l_funclocs st)"
proof -
  have c: "placed_buf (fbody g) (l_funclocs st) (l_fnbs st)"
    "l_relocations st = concat (map (\<lambda>(k, i). map (shift_reloc i) (frelocs g k)) (l_funclocs st))"
    "\<And>k. has (l_funclocs st) k \<Longrightarrow> has (g_funcs g) k"
    using assms(1) by (simp_all add: linv_def code_ok_def)
  have eq: "map (reloc_patch (\<lambda>r. the (val (r_Symbol r)))) (map (shift_reloc l) (frelocs g k)) =
      map (shift_patch (unat l)) (code_patches val g k l)" if kl: "(k, l) \<in> set (l_funclocs st)" for k l
  proof -
    have "has (l_funclocs st) k" using kl by (force simp: has_iff)
    then have "relocs_ok (length (fbody g k)) (frelocs g k)" using assms(2) c(3) by (simp add: genv_ok_def)
    moreover have "unat l + length (fbody g k) < 2 ^ 32"
      using placed_buf_mem[OF c(1) assms(3) kl] assms(3) by simp
    ultimately show ?thesis
      by (auto simp: code_patches_def relocs_ok_def shifted_patch)
  qed
  then have "concat (map (\<lambda>(k, l). map (reloc_patch (\<lambda>r. the (val (r_Symbol r)))) (map (shift_reloc l) (frelocs g k))) locs) =
      block_patches (code_patches val g) locs" if "set locs \<subseteq> set (l_funclocs st)" for locs
    using that by (induction locs) (auto simp: block_patches_def)
  from this[of "l_funclocs st"] show ?thesis
    by (simp add: c(2) map_concat comp_def case_prod_unfold)
qed

lemma text_offsets:
  assumes "linv g st" "genv_ok g" "length (l_fnbs st) < 2 ^ 32" "r \<in> set (l_relocations st)"
  shows "unat (r_Offset r) + 4 \<le> length (l_fnbs st)"
proof -
  have c: "placed_buf (fbody g) (l_funclocs st) (l_fnbs st)"
    "\<And>k. has (l_funclocs st) k \<Longrightarrow> has (g_funcs g) k"
    using assms(1) by (simp_all add: linv_def code_ok_def)
  obtain k l s where s: "(k, l) \<in> set (l_funclocs st)" "s \<in> set (frelocs g k)" "r = shift_reloc l s"
    using assms(1,4) by (auto simp: linv_def code_ok_def)
  have "has (l_funclocs st) k" using s(1) by (force simp: has_iff)
  then have "unat (r_Offset s) + 4 \<le> length (fbody g k)"
    using assms(2) c(2) s(2) by (auto simp: genv_ok_def relocs_ok_def)
  moreover have "unat l + length (fbody g k) \<le> length (l_fnbs st)"
    using placed_buf_mem[OF c(1) assms(3) s(1)] by simp
  ultimately show ?thesis
    using unat_shifted[of s "length (fbody g k)" l] s(3) assms(3) by simp
qed

lemma known_values:
  assumes "known g st t" "l_needfn st = []"
  shows "code_value st a b c t \<noteq> None \<and> resolveTargetVA st a b c t \<noteq> None"
  using known_in_image[OF assms]
  by (auto simp: in_image_def code_value_def resolveTargetVA_def has_def split: option.splits)

definition link_image :: "((string \<times> 32 word) list \<Rightarrow> (string \<times> 32 word) list) \<Rightarrow> genv \<Rightarrow> 64 word \<Rightarrow> lstate \<Rightarrow>
    Section list" where
  "link_image iter g textoff st =
     (let varoff = page_after textoff (length (l_fnbs st));
          dataoff = page_after varoff (length (l_varbs st));
          va = resolveTargetVA st textoff varoff dataoff;
          val = code_value st textoff varoff dataoff
      in [\<lparr>sec_Name = ''.text'', sec_Offset = textoff,
           sec_val = patch_all (l_fnbs st) (block_patches (code_patches val g) (l_funclocs st)),
           sec_permission = F_EXEC, sec_symbols = at_base textoff (l_funcsyms st)\<rparr>,
          \<lparr>sec_Name = ''.data'', sec_Offset = varoff,
           sec_val = patch_all (l_varbs st)
             (block_patches (\<lambda>n l. map (dr_patch va) (vrelocs (g_vars g) n)) (iter (l_varlocs st))),
           sec_permission = F_WRITE, sec_symbols = at_base varoff (l_varsyms st)\<rparr>,
          \<lparr>sec_Name = ''.bss'', sec_Offset = dataoff,
           sec_val = patch_all (l_databs st)
             (block_patches (\<lambda>n l. map (dr_patch va) (vrelocs (g_data g) n)) (iter (l_datalocs st))),
           sec_permission = F_READ, sec_symbols = at_base dataoff (l_datasyms st)\<rparr>])"

lemma fix_placed:
  assumes pb: "placed_buf (vval defs) locs buf" "length buf < 2 ^ 32" and iter: "mset locs' = mset locs"
    and ok: "\<forall>n. has locs n \<longrightarrow> has defs n \<and> drs_ok (length (vval defs n)) (vrelocs defs n)"
    and va: "\<forall>n. has locs n \<longrightarrow> (\<forall>dr \<in> set (vrelocs defs n). va (dr_Symbol dr) \<noteq> None)"
  shows "fix_data va defs locs' buf =
    Inr (patch_all buf (block_patches (\<lambda>n l. map (dr_patch va) (vrelocs defs n)) locs'))"
proof (rule fix_data_eq, intro ballI)
  fix nl assume "nl \<in> set locs'"
  moreover obtain n l where nl_eq: "nl = (n, l)" by fastforce
  ultimately have nl: "(n, l) \<in> set locs" using iter by (metis set_mset_mset)
  then have h: "has locs n" by (force simp: has_iff)
  have "unat l + unat (dr_Offset dr) + 8 \<le> length buf \<and> va (dr_Symbol dr) \<noteq> None"
    if dr: "dr \<in> set (vrelocs defs n)" for dr
    using placed_buf_mem[OF pb nl] ok h dr va[rule_format, OF h dr] by (fastforce simp: drs_ok_def)
  then show "case nl of (n, l) \<Rightarrow> has defs n \<and> (\<forall>dr \<in> set (vrelocs defs n).
      unat l + unat (dr_Offset dr) + 8 \<le> length buf \<and> va (dr_Symbol dr) \<noteq> None)"
    using ok h nl_eq by simp
qed

lemma finish_image:
  assumes inv: "linv g st" "l_needfn st = []" and ok: "genv_ok g" and small: "small st" and iter: "perm_iter iter"
  shows "finish spare iter g textoff st = Inr (link_image iter g textoff st)"
proof -
  let ?varoff = "page_after textoff (length (l_fnbs st))"
  let ?dataoff = "page_after ?varoff (length (l_varbs st))"
  let ?va = "resolveTargetVA st textoff ?varoff ?dataoff" and ?val = "code_value st textoff ?varoff ?dataoff"
  have o: "objs_ok g st" "code_ok g st" "pending g st {}" "codes_known g st"
    using inv(1) by (simp_all add: linv_def)
  have sm: "length (l_fnbs st) < 2 ^ 32" "length (l_varbs st) < 2 ^ 32" "length (l_databs st) < 2 ^ 32"
    using small by (simp_all add: small_def)
  have rel: "unat (r_Offset r) + 4 \<le> length (l_fnbs st) \<and> ?val (r_Symbol r) \<noteq> None"
    if r: "r \<in> set (l_relocations st)" for r
  proof -
    obtain k l s where s: "(k, l) \<in> set (l_funclocs st)" "s \<in> set (frelocs g k)" "r = shift_reloc l s"
      using o(2) r by (auto simp: code_ok_def)
    then have "has (l_funclocs st) k" by (force simp: has_iff)
    then have "known g st (r_Symbol r)" using o(4) s by (auto simp: codes_known_def shift_reloc_def)
    then show ?thesis
      using text_offsets[OF inv(1) ok sm(1) r] known_values[OF _ inv(2)] by blast
  qed
  have t: "apply_relocs spare ?val (l_fnbs st) (l_relocations st) =
      Inr (patch_all (l_fnbs st) (block_patches (code_patches ?val g) (l_funclocs st)))"
    using apply_relocs_eq[of "l_relocations st" "l_fnbs st" ?val spare] rel
    by (simp add: text_patches[OF inv(1) ok sm(1)])
  have var: "object g n = map_of (g_vars g) n \<and> placed_obj g st n" if "has (l_varlocs st) n" for n
    using o(1) that by (auto simp: objs_ok_def object_def placed_obj_def has_def split: option.splits)
  have dat: "object g n = map_of (g_data g) n \<and> placed_obj g st n" if "has (l_datalocs st) n" for n
    using o(1) that by (simp add: objs_ok_def object_def placed_obj_def)
      (metis has_None option.simps(4))
  have tgt: "?va (dr_Symbol dr) \<noteq> None"
    if "object g n = Some v" "placed_obj g st n" "dr \<in> set (v_Relocs v)" for n v dr
    using o(3) that known_values[OF _ inv(2)] unfolding pending_def by blast
  have tv: "?va (dr_Symbol dr) \<noteq> None"
    if "object g n = map_of defs n" "placed_obj g st n" "dr \<in> set (vrelocs defs n)" for n defs dr
    using that tgt[of n] by (cases "map_of defs n") (simp_all add: vrelocs_def)
  have v: "fix_data ?va (g_vars g) (iter (l_varlocs st)) (l_varbs st) = Inr (patch_all (l_varbs st)
      (block_patches (\<lambda>n l. map (dr_patch ?va) (vrelocs (g_vars g) n)) (iter (l_varlocs st))))"
  proof (rule fix_placed[OF _ sm(2)])
    show "\<forall>n. has (l_varlocs st) n \<longrightarrow> (\<forall>dr \<in> set (vrelocs (g_vars g) n). ?va (dr_Symbol dr) \<noteq> None)"
      using var tv by blast
  qed (use o(1) ok iter in \<open>auto simp: objs_ok_def genv_ok_def perm_iter_def\<close>)
  have d: "fix_data ?va (g_data g) (iter (l_datalocs st)) (l_databs st) = Inr (patch_all (l_databs st)
      (block_patches (\<lambda>n l. map (dr_patch ?va) (vrelocs (g_data g) n)) (iter (l_datalocs st))))"
  proof (rule fix_placed[OF _ sm(3)])
    show "\<forall>n. has (l_datalocs st) n \<longrightarrow> (\<forall>dr \<in> set (vrelocs (g_data g) n). ?va (dr_Symbol dr) \<noteq> None)"
      using dat tv by blast
  qed (use o(1) ok iter in \<open>auto simp: objs_ok_def genv_ok_def perm_iter_def\<close>)
  show ?thesis by (simp add: finish_def link_image_def Let_def t v d)
qed

end
