(* ===== verification/LinkProps.thy ===== *)
theory LinkProps
  imports Linker
begin

text \<open>
  What the linker guarantees, for object files as the assembler makes them or the reader returns
  them: when linking succeeds, that exactly the definitions the entry point needs are placed, where
  the sections lie, what is found in memory at the address of a function or variable, and that the
  result depends on neither the iteration order of maps nor the capacity of buffers.

  The bounds: each section below 4 GB (\<open>fits_4gb\<close>; the offsets of \<open>linker.go\<close> are \<open>uint32\<close>) and a text
  address below 2^63, so that no address wraps around.
\<close>

section \<open>Files the linker accepts\<close>

definition linkable :: "OFile \<Rightarrow> bool" where
  "linkable oo \<longleftrightarrow> tab_ok f_Name (o_Funcs oo) \<and>
     (\<forall>(n, f) \<in> set (o_Funcs oo). f_Pkgname f = o_Pkgname oo \<and> Resolve f \<noteq> None \<and>
        relocs_ok (length (body_of (resolved f))) (f_Relocations (resolved f))) \<and>
     (\<forall>(n, v) \<in> set (o_Vars oo). drs_ok (length (v_Val v)) (v_Relocs v)) \<and>
     (\<forall>(n, v) \<in> set (o_Data oo). drs_ok (length (v_Val v)) (v_Relocs v))"

lemma built_resolved:
  assumes "built pkg n f"
  shows "Resolve f \<noteq> None \<and> relocs_ok (length (body_of (resolved f))) (f_Relocations (resolved f))"
proof -
  have ok: "fn_ok f" "f_Pkgname f = pkg" using built_ok[OF assms] by auto
  let ?rs = "f_Relocations f @ filter (\<lambda>j. \<not> local_jump (f_labels f) j) (f_jumps f)"
  have "relocs_ok (length (f_bs f)) ?rs"
    using ok(1) unfolding fn_ok_def relocs_ok_append by (auto simp: relocs_ok_filter Int_commute)
  moreover from this have "relocs_ok (length (f_bs f)) (map (qualify_reloc pkg) ?rs)"
    by (simp only: relocs_ok_qualify)
  ultimately show ?thesis using ok by (simp add: Resolve_eq resolved_def Let_def)
qed

text \<open>Files just assembled are accepted as soon as their data relocations lie within their
  variables, and reading a written file back keeps it acceptable.\<close>

lemma assembled_linkable:
  assumes "assembled oo"
    "\<forall>(n, v) \<in> set (o_Vars oo) \<union> set (o_Data oo). drs_ok (length (v_Val v)) (v_Relocs v)"
  shows "linkable oo"
proof -
  have "f_Pkgname f = o_Pkgname oo \<and> Resolve f \<noteq> None \<and>
      relocs_ok (length (body_of (resolved f))) (f_Relocations (resolved f))" if "(n, f) \<in> set (o_Funcs oo)" for n f
  proof -
    have b: "built (o_Pkgname oo) n f" using assembled_built[OF assms(1)] that by (auto simp: funcs_built_def)
    then show ?thesis using built_ok[OF b] built_resolved[OF b] by simp
  qed
  moreover have "tab_ok f_Name (o_Funcs oo)" using assembled_tables[OF assms(1)] by (simp add: ofile_ok_def)
  ultimately show ?thesis using assms(2) by (auto simp: linkable_def)
qed

lemma body_of_read_back [simp]: "body_of (read_back pkg f) = body_of (resolved f)"
  "f_Relocations (read_back pkg f) = f_Relocations (resolved f)" "f_Pkgname (read_back pkg f) = pkg"
  by (simp_all add: read_back_def Let_def body_of_def)

lemma as_read_linkable: "linkable oo \<Longrightarrow> linkable (as_read fname (o_Pkgname oo) oo)"
  by (auto simp: linkable_def as_read_def tab_ok_def comp_def case_prod_unfold)

section \<open>Collecting\<close>

definition genv_keys :: "genv \<Rightarrow> bool" where
  "genv_keys g \<longleftrightarrow> distinct (map fst (g_funcs g)) \<and> distinct (map fst (g_vars g)) \<and> distinct (map fst (g_data g))"

definition fns_ok :: "(string \<times> Function) list \<Rightarrow> bool" where
  "fns_ok m \<longleftrightarrow> distinct (map fst m) \<and> (\<forall>(k, f) \<in> set m. qualify (f_Pkgname f) (f_Name f) = k \<and>
     Resolve f \<noteq> None \<and> relocs_ok (length (body_of (resolved f))) (f_Relocations (resolved f)))"

definition vars_ok :: "(string \<times> Var) list \<Rightarrow> bool" where
  "vars_ok m \<longleftrightarrow> distinct (map fst m) \<and> (\<forall>(k, v) \<in> set m. drs_ok (length (v_Val v)) (v_Relocs v))"

lemma drs_ok_qualify [simp]: "drs_ok n (map (qualifyDataReloc pkg) drs) = drs_ok n drs"
proof -
  have "dr_Offset (qualifyDataReloc pkg dr) = dr_Offset dr" for dr by (simp add: qualifyDataReloc_def)
  then show ?thesis by (simp add: drs_ok_def sorted_wrt_map)
qed

lemma collect_funcs_ok:
  "collect_funcs oo fs m = Inr m' \<Longrightarrow> fns_ok m \<Longrightarrow>
   \<forall>(n, f) \<in> set fs. f_Name f = n \<and> f_Pkgname f = o_Pkgname oo \<and> Resolve f \<noteq> None \<and>
     relocs_ok (length (body_of (resolved f))) (f_Relocations (resolved f)) \<Longrightarrow> fns_ok m'"
proof (induction oo fs m rule: collect_funcs.induct)
  case (2 oo n f fs m)
  let ?q = "qualify (o_Pkgname oo) n"
  have "fns_ok (AList.update ?q f m)"
    using 2(3,4) set_update_subset[of ?q f m] by (auto simp: fns_ok_def distinct_update)
  with 2 show ?case by (auto simp: Let_def split: if_splits)
qed simp

lemma collect_vars_ok:
  "collect_vars oo vs m = Inr m' \<Longrightarrow> vars_ok m \<Longrightarrow>
   \<forall>(n, v) \<in> set vs. drs_ok (length (v_Val v)) (v_Relocs v) \<Longrightarrow> vars_ok m'"
proof (induction oo vs m rule: collect_vars.induct)
  case (2 oo n v vs m)
  let ?q = "qualify (o_Pkgname oo) n"
  have "vars_ok (AList.update ?q (qualifyDataRelocs (o_Pkgname oo) v) m)"
    using 2(3,4) set_update_subset[of ?q "qualifyDataRelocs (o_Pkgname oo) v" m]
    by (auto simp: vars_ok_def distinct_update qualifyDataRelocs_def)
  with 2 show ?case by (auto simp: Let_def split: if_splits)
qed simp

lemma collect_ok:
  "collect os g = Inr g' \<Longrightarrow> \<forall>oo \<in> set os. linkable oo \<Longrightarrow>
   fns_ok (g_funcs g) \<and> vars_ok (g_vars g) \<and> vars_ok (g_data g) \<Longrightarrow>
   fns_ok (g_funcs g') \<and> vars_ok (g_vars g') \<and> vars_ok (g_data g')"
proof (induction os g rule: collect.induct)
  case (2 oo os g)
  obtain fs ds vs where s: "collect_funcs oo (o_Funcs oo) (g_funcs g) = Inr fs"
    "collect_vars oo (o_Data oo) (g_data g) = Inr ds" "collect_vars oo (o_Vars oo) (g_vars g) = Inr vs"
    "collect os \<lparr>g_funcs = fs, g_data = ds, g_vars = vs\<rparr> = Inr g'"
    using 2(2) by (auto simp: rbind_eq_Inr)
  have l: "linkable oo" using 2(3) by simp
  have "fns_ok fs" using collect_funcs_ok[OF s(1)] 2(4) l by (fastforce simp: linkable_def tab_ok_def)
  moreover have "vars_ok ds" using collect_vars_ok[OF s(2)] 2(4) l by (simp add: linkable_def)
  moreover have "vars_ok vs" using collect_vars_ok[OF s(3)] 2(4) l by (simp add: linkable_def)
  ultimately show ?case using 2(1)[OF s(4)] 2(3) by simp
qed simp

lemma fns_genv_ok:
  assumes "fns_ok (g_funcs g)" "vars_ok (g_vars g)" "vars_ok (g_data g)"
  shows "genv_ok g"
  using assms
  by (auto simp: genv_ok_def env_ok_def fns_ok_def vars_ok_def fbody_def frelocs_def vval_def vrelocs_def
      has_def split: option.splits dest!: map_of_SomeD)

section \<open>Sizes\<close>

definition fits_4gb :: "genv \<Rightarrow> bool" where
  "fits_4gb g \<longleftrightarrow> (\<Sum>k \<leftarrow> map fst (g_funcs g). length (fbody g k)) < 2 ^ 32 \<and>
     (\<Sum>n \<leftarrow> map fst (g_vars g). length (vval (g_vars g) n)) < 2 ^ 32 \<and>
     (\<Sum>n \<leftarrow> map fst (g_data g). length (vval (g_data g) n)) < 2 ^ 32"

lemma length_cat: "length (cat b ns) = (\<Sum>n \<leftarrow> ns. length (b n))"
  by (induction ns) simp_all

lemma length_cat_le:
  assumes "distinct ns" "set ns \<subseteq> set ks"
  shows "length (cat b ns) \<le> (\<Sum>k \<leftarrow> ks. length (b k))"
proof -
  have "length (cat b ns) = (\<Sum>n \<in> set ns. length (b n))"
    using assms(1) by (simp add: length_cat sum_list_distinct_conv_sum_set)
  also have "\<dots> \<le> (\<Sum>n \<in> set (remdups ks). length (b n))"
    using assms(2) by (intro sum_mono2) auto
  also have "\<dots> \<le> (\<Sum>k \<leftarrow> ks. length (b k))"
    by (induction ks) (auto simp: insert_absorb)
  finally show ?thesis .
qed

lemma linv_small:
  assumes "linv g st" "fits_4gb g"
  shows "small st"
proof -
  have k: "set (map fst (l_funclocs st)) \<subseteq> set (map fst (g_funcs g))"
    "set (map fst (l_varlocs st)) \<subseteq> set (map fst (g_vars g))"
    "set (map fst (l_datalocs st)) \<subseteq> set (map fst (g_data g))"
    using assms(1) by (auto simp: linv_def code_ok_def objs_ok_def has_iff)
  have b: "placed_buf (fbody g) (l_funclocs st) (l_fnbs st)"
    "placed_buf (vval (g_vars g)) (l_varlocs st) (l_varbs st)"
    "placed_buf (vval (g_data g)) (l_datalocs st) (l_databs st)"
    using assms(1) by (simp_all add: linv_def code_ok_def objs_ok_def)
  have "length (l_fnbs st) \<le> (\<Sum>k \<leftarrow> map fst (g_funcs g). length (fbody g k))"
    using b(1) length_cat_le[OF _ k(1)] by (simp add: placed_buf_def)
  moreover have "length (l_varbs st) \<le> (\<Sum>k \<leftarrow> map fst (g_vars g). length (vval (g_vars g) k))"
    using b(2) length_cat_le[OF _ k(2)] by (simp add: placed_buf_def)
  moreover have "length (l_databs st) \<le> (\<Sum>k \<leftarrow> map fst (g_data g). length (vval (g_data g) k))"
    using b(3) length_cat_le[OF _ k(3)] by (simp add: placed_buf_def)
  ultimately show ?thesis using assms(2) by (simp add: small_def fits_4gb_def)
qed

section \<open>Linking, in one piece\<close>

text \<open>The input of a run of the linker: the files and what they define.\<close>

definition link_input :: "OFile list \<Rightarrow> genv \<Rightarrow> bool" where
  "link_input os g \<longleftrightarrow> (\<forall>oo \<in> set os. linkable oo) \<and>
     collect os \<lparr>g_funcs = [], g_data = [], g_vars = []\<rparr> = Inr g \<and> fits_4gb g"

lemma link_input_ok: "link_input os g \<Longrightarrow> genv_ok g"
  using collect_ok[of os "\<lparr>g_funcs = [], g_data = [], g_vars = []\<rparr>" g]
  by (intro fns_genv_ok) (auto simp: link_input_def fns_ok_def vars_ok_def)


lemma Link_eq:
  assumes "link_input os g" "perm_iter iter"
  shows "Link spare iter os textoff =
    (if has (g_funcs g) ''_init.start'' then rbind (link_loop g start_state) (\<lambda>st. Inr (link_image iter g textoff st))
     else Inl NoStart)"
proof (cases "has (g_funcs g) ''_init.start'' \<and> (\<exists>st. link_loop g start_state = Inr st)")
  case True
  then obtain st where st: "link_loop g start_state = Inr st" by auto
  have ok: "genv_ok g" using link_input_ok[OF assms(1)] .
  have "linv g st \<and> l_needfn st = []"
    using link_loop_inv[OF st] ok start_linv True by (simp add: genv_ok_def)
  then have "finish spare iter g textoff st = Inr (link_image iter g textoff st)"
    using finish_image[OF _ _ ok _ assms(2)] linv_small assms(1) by (simp add: link_input_def)
  with st True assms(1) show ?thesis by (simp add: Link_def link_input_def)
next
  case False
  then show ?thesis using assms(1) by (cases "link_loop g start_state") (auto simp: Link_def link_input_def)
qed

lemma Link_state:
  assumes "link_input os g" "perm_iter iter" "Link spare iter os textoff = Inr secs"
  obtains st where "linv g st" "l_needfn st = []" "small st" "secs = link_image iter g textoff st"
proof -
  obtain st where st: "has (g_funcs g) ''_init.start''" "link_loop g start_state = Inr st"
    "secs = link_image iter g textoff st"
    using assms(3) unfolding Link_eq[OF assms(1,2)] by (auto simp: rbind_eq_Inr split: if_splits)
  have "linv g st \<and> l_needfn st = []"
    using link_loop_inv[OF st(2)] link_input_ok[OF assms(1)] start_linv[OF st(1)] by (simp add: genv_ok_def)
  then show ?thesis using that st(3) linv_small assms(1) by (auto simp: link_input_def)
qed

section \<open>What a loader sees\<close>

definition sym_table :: "Section list \<Rightarrow> (string \<times> 64 word) list" where
  "sym_table secs = concat (map (\<lambda>s. map (\<lambda>y. (sm_Name y, sm_Address y)) (sec_symbols s)) secs)"

definition sym_addr :: "Section list \<Rightarrow> string \<Rightarrow> 64 word option" where
  "sym_addr secs n = map_of (sym_table secs) n"

text \<open>The \<open>n\<close> bytes at virtual address \<open>a\<close>.\<close>

fun mem :: "Section list \<Rightarrow> 64 word \<Rightarrow> nat \<Rightarrow> byte list option" where
  "mem [] a n = None"
| "mem (s # ss) a n =
     (if sec_Offset s \<le> a \<and> unat a + n \<le> unat (sec_Offset s) + length (sec_val s)
      then Some (slice (unat (a - sec_Offset s)) n (sec_val s)) else mem ss a n)"

section \<open>Page arithmetic\<close>

lemma unat_page_mask: "unat (and a 0xFFFFFFFFFFFFF000) = unat a div 4096 * 4096" for a :: "64 word"
proof -
  have "(0xFFFFFFFFFFFFF000 :: 64 word) = not (mask 12)" by (simp add: mask_eq_exp_minus_1)
  moreover have "and a (not (mask 12)) = push_bit 12 (drop_bit 12 a)"
    by (rule bit_word_eqI) (auto simp: bit_simps)
  ultimately have "unat (and a 0xFFFFFFFFFFFFF000) = take_bit 64 (push_bit 12 (drop_bit 12 (unat a)))"
    by (simp add: unsigned_push_bit_eq unat_drop_bit_eq)
  also have "\<dots> = take_bit 64 (unat a div 4096 * 4096)"
    by (simp add: push_bit_eq_mult drop_bit_eq_div)
  also have "\<dots> = unat a div 4096 * 4096"
    using le_less_trans[OF div_times_less_eq_dividend[of "unat a" 4096] unsigned_less[of a]]
    by (simp only: take_bit_nat_eq_self_iff) simp
  finally show ?thesis .
qed

lemma page_after_props:
  assumes "unat off + n + 0x1000 < 2 ^ 64"
  shows "unat off + n < unat (page_after off n) \<and> unat (page_after off n) \<le> unat off + n + 0x1000 \<and>
    unat (page_after off n) mod 0x1000 = 0"
proof -
  have "unat (of_nat n :: 64 word) = n" using assms by (simp add: unat_of_nat)
  then have "unat (off + of_nat n + 0x1000) = unat off + n + 4096"
    using assms by (simp add: unat_word_ariths)
  then have "unat (page_after off n) = (unat off + n + 4096) div 4096 * 4096"
    by (simp add: page_after_def unat_page_mask)
  moreover have "(unat off + n + 4096) div 4096 * 4096 + (unat off + n + 4096) mod 4096 = unat off + n + 4096"
    "(unat off + n + 4096) mod 4096 < 4096" by (rule div_mult_mod_eq, simp)
  ultimately show ?thesis by auto
qed

section \<open>Symbols and addresses\<close>

lemma sym_table_image:
  assumes "linv g st"
  shows "sym_table (link_image iter g textoff st) =
    (let varoff = page_after textoff (length (l_fnbs st)); dataoff = page_after varoff (length (l_varbs st))
     in map (\<lambda>(n, l). (n, ucast l + textoff)) (l_funclocs st) @
        map (\<lambda>(n, l). (n, ucast l + varoff)) (l_varlocs st) @
        map (\<lambda>(n, l). (n, ucast l + dataoff)) (l_datalocs st))"
  using assms
  by (simp add: linv_def code_ok_def objs_ok_def sym_table_def link_image_def Let_def at_base_def placed_syms_def
      comp_def case_prod_unfold)

lemma map_of_map_value: "map_of (map (\<lambda>(n, l). (n, f l)) m) n = map_option f (map_of m n)"
  by (induction m) auto

lemma sym_addr_image:
  fixes textoff :: "64 word"
  assumes "linv g st"
  defines "varoff \<equiv> page_after textoff (length (l_fnbs st))"
  shows "sym_addr (link_image iter g textoff st) t =
    resolveTargetVA st textoff varoff (page_after varoff (length (l_varbs st))) t"
  by (auto simp: sym_addr_def sym_table_image[OF assms(1)] Let_def map_add_def map_of_map_value varoff_def
      resolveTargetVA_def add.commute split: option.splits)

lemma image_names:
  assumes "linv g st"
  shows "distinct (map fst (sym_table (link_image iter g textoff st))) \<and>
    set (map fst (sym_table (link_image iter g textoff st))) = {n. in_image st n}"
proof -
  have o: "objs_ok g st" "code_ok g st" using assms by (simp_all add: linv_def)
  have d: "distinct (map fst (l_funclocs st))" "distinct (map fst (l_varlocs st))"
    "distinct (map fst (l_datalocs st))"
    using o by (simp_all add: objs_ok_def code_ok_def placed_buf_def)
  have keys: "map fst (sym_table (link_image iter g textoff st)) =
      map fst (l_funclocs st) @ map fst (l_varlocs st) @ map fst (l_datalocs st)"
    by (simp add: sym_table_image[OF assms] Let_def comp_def case_prod_unfold)
  have "\<not> (has (l_funclocs st) n \<and> (has (l_varlocs st) n \<or> has (l_datalocs st) n))"
    "\<not> (has (l_varlocs st) n \<and> has (l_datalocs st) n)" for n
    using o unfolding objs_ok_def code_ok_def by blast+
  then have "set (map fst (l_funclocs st)) \<inter> (set (map fst (l_varlocs st)) \<union> set (map fst (l_datalocs st))) = {}"
    "set (map fst (l_varlocs st)) \<inter> set (map fst (l_datalocs st)) = {}"
    unfolding has_iff set_map by blast+
  then show ?thesis using d unfolding keys by (auto simp: in_image_def has_iff)
qed

lemma unat_ucast_up [simp]: "unat (ucast l :: 64 word) = unat l" for l :: "32 word"
  by (simp add: unsigned_ucast_eq take_bit_nat_eq_self_iff less_trans[OF unsigned_less])

lemma ucast_mem:
  fixes base :: "64 word"
  assumes "placed_buf b locs buf" "length buf < 2 ^ 32" "(n, l) \<in> set locs" "unat base + length buf < 2 ^ 64"
  shows "base \<le> ucast l + base \<and> unat (ucast l + base - base) = unat l \<and>
    unat (ucast l + base) = unat base + unat l \<and> unat l + length (b n) \<le> length buf"
proof -
  have l: "unat l + length (b n) \<le> length buf" using placed_buf_mem[OF assms(1-3)] by simp
  have "unat (ucast l + base) = unat base + unat l"
    using l assms(4) by (simp add: unat_word_ariths)
  with l show ?thesis by (simp add: word_le_nat_alt)
qed

text \<open>The sections follow one another, on fresh pages.\<close>

lemma image_layout:
  assumes "small st" "unat textoff < 2 ^ 63"
  defines "varoff \<equiv> page_after textoff (length (l_fnbs st))"
  defines "dataoff \<equiv> page_after varoff (length (l_varbs st))"
  shows "unat textoff + length (l_fnbs st) < unat varoff \<and> unat varoff \<le> unat textoff + length (l_fnbs st) + 0x1000 \<and>
    unat varoff mod 0x1000 = 0 \<and> unat varoff + length (l_varbs st) < unat dataoff \<and>
    unat dataoff \<le> unat varoff + length (l_varbs st) + 0x1000 \<and> unat dataoff mod 0x1000 = 0 \<and>
    unat dataoff + length (l_databs st) < 2 ^ 64"
proof -
  have s: "length (l_fnbs st) < 2 ^ 32" "length (l_varbs st) < 2 ^ 32" "length (l_databs st) < 2 ^ 32"
    using assms(1) by (simp_all add: small_def)
  have v: "unat textoff + length (l_fnbs st) < unat varoff \<and> unat varoff \<le> unat textoff + length (l_fnbs st) + 0x1000 \<and>
    unat varoff mod 0x1000 = 0"
    unfolding varoff_def by (rule page_after_props) (use s assms(2) in simp)
  moreover have "unat varoff + length (l_varbs st) < unat dataoff \<and>
    unat dataoff \<le> unat varoff + length (l_varbs st) + 0x1000 \<and> unat dataoff mod 0x1000 = 0"
    unfolding dataoff_def by (rule page_after_props) (use v s assms(2) in simp)
  ultimately show ?thesis using s assms(2) by auto
qed

section \<open>Displacements\<close>

lemma take_bit_down: "take_bit 32 (take_bit 64 a + take_bit 64 b) = take_bit 32 (a + b)"
  "take_bit 32 (take_bit 64 a - take_bit 64 b) = take_bit 32 (a - b)" for a b :: int
  using take_bit_add[of 32 "take_bit 64 a" "take_bit 64 b"] take_bit_add[of 32 a b]
    take_bit_diff[of 32 "take_bit 64 a" "take_bit 64 b"] take_bit_diff[of 32 a b] by simp_all

lemma ucast_down: "ucast (a + b) = (ucast a + ucast b :: 32 word)" "ucast (a - b) = (ucast a - ucast b :: 32 word)"
  for a b :: "64 word"
  by (transfer, simp add: take_bit_down)+

lemma ucast_up_down [simp]: "ucast (ucast l :: 64 word) = l" for l :: "32 word"
  by transfer simp

text \<open>The value of a code relocation is the distance of its target from the text.\<close>

lemma code_value_addr:
  assumes "resolveTargetVA st textoff varoff dataoff t = Some B"
  shows "code_value st textoff varoff dataoff t = Some (ucast (B - textoff))"
  using assms by (auto simp: resolveTargetVA_def code_value_def ucast_down split: option.splits)

lemma displacement_eq:
  fixes A B textoff :: "64 word"
  assumes "unat A = unat textoff + unat l"
  shows "reloc_target (shift_reloc l r) (ucast (B - textoff)) =
    word_of_int (int (unat B) + sint (r_Addend r) - (int (unat A) + int (unat (r_Offset r)) + 4))"
  unfolding assms by (simp add: reloc_target_def shift_reloc_def ucast_down algebra_simps)

lemma mem_text:
  assumes "linv g st" "small st" "unat textoff < 2 ^ 63" "(k, l) \<in> set (l_funclocs st)"
  shows "mem (link_image iter g textoff st) (ucast l + textoff) (length (fbody g k)) =
    Some (slice (unat l) (length (fbody g k)) (sec_val (link_image iter g textoff st ! 0)))"
proof -
  have "placed_buf (fbody g) (l_funclocs st) (l_fnbs st)" using assms(1) by (simp add: linv_def code_ok_def)
  from ucast_mem[OF this _ assms(4), of textoff] assms(2,3)
  show ?thesis by (simp add: small_def link_image_def Let_def)
qed

lemma mem_vars:
  fixes textoff :: "64 word"
  assumes "linv g st" "small st" "unat textoff < 2 ^ 63" "(n, l) \<in> set (l_varlocs st)"
  defines "varoff \<equiv> page_after textoff (length (l_fnbs st))"
  shows "mem (link_image iter g textoff st) (ucast l + varoff) (length (vval (g_vars g) n)) =
    Some (slice (unat l) (length (vval (g_vars g) n)) (sec_val (link_image iter g textoff st ! 1)))"
proof -
  have pb: "placed_buf (vval (g_vars g)) (l_varlocs st) (l_varbs st)"
    using assms(1) by (simp add: linv_def objs_ok_def)
  note lay = image_layout[OF assms(2,3), folded varoff_def]
  have "unat varoff + length (l_varbs st) < 2 ^ 64"
    using lay by auto
  with ucast_mem[OF pb _ assms(4), of varoff] assms(2) lay
  show ?thesis by (simp add: small_def link_image_def Let_def varoff_def[symmetric])
qed

lemma mem_data:
  fixes textoff :: "64 word"
  assumes "linv g st" "small st" "unat textoff < 2 ^ 63" "(n, l) \<in> set (l_datalocs st)"
  defines "varoff \<equiv> page_after textoff (length (l_fnbs st))"
  defines "dataoff \<equiv> page_after varoff (length (l_varbs st))"
  shows "mem (link_image iter g textoff st) (ucast l + dataoff) (length (vval (g_data g) n)) =
    Some (slice (unat l) (length (vval (g_data g) n)) (sec_val (link_image iter g textoff st ! 2)))"
proof -
  have pb: "placed_buf (vval (g_data g)) (l_datalocs st) (l_databs st)"
    using assms(1) by (simp add: linv_def objs_ok_def)
  note lay = image_layout[OF assms(2,3), folded varoff_def, folded dataoff_def]
  from ucast_mem[OF pb _ assms(4), of dataoff] assms(2) lay
  show ?thesis
    by (simp add: small_def link_image_def Let_def varoff_def[symmetric] dataoff_def[symmetric])
qed

section \<open>Placed functions and data\<close>

lemma linked_placed:
  assumes "linv g st" "l_needfn st = []" "linked g n"
  shows "(has (g_funcs g) n \<longrightarrow> (\<exists>l. (n, l) \<in> set (l_funclocs st))) \<and>
    (object g n \<noteq> None \<longrightarrow> placed_obj g st n)"
  using linked_known[OF assms] assms(2)
  by (auto simp: known_def has_def object_def dest: map_of_SomeD split: if_splits)

lemma word_le_bytes [simp]:
  "of_nat (le_nat (le_bytes 4 (unat w))) = w" "of_nat (le_nat (le_bytes 8 (unat x))) = x"
  for w :: "32 word" and x :: "64 word"
proof -
  have "unat w mod 256 ^ 4 = unat w" using unsigned_less[of w] by (intro mod_less) simp
  then show "of_nat (le_nat (le_bytes 4 (unat w))) = w" by (simp add: le_nat_le_bytes)
  have "unat x mod 256 ^ 8 = unat x" using unsigned_less[of x] by (intro mod_less) simp
  then show "of_nat (le_nat (le_bytes 8 (unat x))) = x" by (simp add: le_nat_le_bytes)
qed

text \<open>Memory at the address of a linked function.\<close>

lemma function_image:
  assumes inv: "linv g st" "l_needfn st = []" and ok: "genv_ok g" and small: "small st"
    and base: "unat textoff < 2 ^ 63" and k: "(k, l) \<in> set (l_funclocs st)"
    and secs: "secs = link_image iter g textoff st"
  shows "\<exists>A bytes. sym_addr secs k = Some A \<and> mem secs A (length (fbody g k)) = Some bytes \<and>
    length bytes = length (fbody g k) \<and>
    (\<forall>i < length (fbody g k). (\<forall>r \<in> set (frelocs g k). i \<notin> rslot r) \<longrightarrow> bytes ! i = fbody g k ! i) \<and>
    (\<forall>r \<in> set (frelocs g k). \<exists>B. sym_addr secs (r_Symbol r) = Some B \<and>
       disp_at (unat (r_Offset r)) bytes =
         word_of_int (int (unat B) + sint (r_Addend r) - (int (unat A) + int (unat (r_Offset r)) + 4)))"
proof -
  let ?v = "page_after textoff (length (l_fnbs st))"
  let ?d = "page_after ?v (length (l_varbs st))"
  let ?val = "code_value st textoff ?v ?d"
  let ?bytes = "slice (unat l) (length (fbody g k)) (sec_val (secs ! 0))"
  have pb: "placed_buf (fbody g) (l_funclocs st) (l_fnbs st)" "length (l_fnbs st) < 2 ^ 32"
    using inv small by (simp_all add: linv_def code_ok_def small_def)
  have hk: "has (l_funclocs st) m" if "(m, j) \<in> set (l_funclocs st)" for m j using that by (force simp: has_iff)
  have rok: "relocs_ok (length (fbody g m)) (frelocs g m)" if "(m, j) \<in> set (l_funclocs st)" for m j
    using ok hk[OF that] inv(1) by (simp add: genv_ok_def linv_def code_ok_def)
  have tx: "sec_val (secs ! 0) = patch_all (l_fnbs st) (block_patches (code_patches ?val g) (l_funclocs st))"
    by (simp add: secs link_image_def Let_def)
  have bp: "length ?bytes = length (fbody g k) \<and>
      (\<forall>p \<in> set (code_patches ?val g k l). slice (fst p) (length (snd p)) ?bytes = snd p) \<and>
      (\<forall>i < length (fbody g k). (\<forall>p \<in> set (code_patches ?val g k l). i \<notin> slot p) \<longrightarrow> ?bytes ! i = fbody g k ! i)"
    unfolding tx using code_patches_ok[OF rok] by (intro block_patched[OF pb refl _ k]) auto
  have "map_of (l_funclocs st) k = Some l" using pb(1) k by (simp add: placed_buf_def)
  then have A: "sym_addr secs k = Some (ucast l + textoff)"
    by (simp add: secs sym_addr_image[OF inv(1)] resolveTargetVA_def add.commute)
  have uA: "unat (ucast l + textoff) = unat textoff + unat l"
    using ucast_mem[OF pb k, of textoff] pb(2) base by simp
  have m: "mem secs (ucast l + textoff) (length (fbody g k)) = Some ?bytes"
    unfolding secs by (rule mem_text[OF inv(1) small base k])
  have r: "\<exists>B. sym_addr secs (r_Symbol r) = Some B \<and> disp_at (unat (r_Offset r)) ?bytes =
      word_of_int (int (unat B) + sint (r_Addend r) - (int (unat (ucast l + textoff)) + int (unat (r_Offset r)) + 4))"
    if r: "r \<in> set (frelocs g k)" for r
  proof -
    have "known g st (r_Symbol r)" using inv(1) hk[OF k] r by (auto simp: linv_def codes_known_def)
    then obtain B where B: "resolveTargetVA st textoff ?v ?d (r_Symbol r) = Some B"
      using known_values[OF _ inv(2)] by blast
    have "(unat (r_Offset r), le_bytes 4 (unat (reloc_target (shift_reloc l r) (ucast (B - textoff)))))
        \<in> set (code_patches ?val g k l)"
      using r code_value_addr[OF B] by (auto simp: code_patches_def)
    then have "slice (unat (r_Offset r)) 4 ?bytes = le_bytes 4 (unat (reloc_target (shift_reloc l r) (ucast (B - textoff))))"
      using bp by fastforce
    then have "disp_at (unat (r_Offset r)) ?bytes = reloc_target (shift_reloc l r) (ucast (B - textoff))"
      by (simp add: disp_at_def)
    then show ?thesis using B displacement_eq[OF uA] by (simp add: secs sym_addr_image[OF inv(1)])
  qed
  have "i \<notin> slot p" if "p \<in> set (code_patches ?val g k l)" "\<forall>r \<in> set (frelocs g k). i \<notin> rslot r" for i p
    using that by (auto simp: code_patches_def slot_def rslot_def)
  then show ?thesis using A m bp r by blast
qed

text \<open>A pointer in memory, and its slot.\<close>

definition ptr_at :: "nat \<Rightarrow> byte list \<Rightarrow> 64 word" where
  "ptr_at off bs = of_nat (le_nat (slice off 8 bs))"

definition dslot :: "DataReloc \<Rightarrow> nat set" where
  "dslot dr = {unat (dr_Offset dr) ..< unat (dr_Offset dr) + 8}"

lemma object_bytes:
  assumes pb: "placed_buf (vval defs) locs buf" "length buf < 2 ^ 32" and iter: "mset locs' = mset locs"
    and ok: "\<forall>n. has locs n \<longrightarrow> drs_ok (length (vval defs n)) (vrelocs defs n)" and n: "(n, l) \<in> set locs"
    and bytes: "bytes = slice (unat l) (length (vval defs n))
      (patch_all buf (block_patches (\<lambda>n l. map (dr_patch va) (vrelocs defs n)) locs'))"
  shows "length bytes = length (vval defs n) \<and>
    (\<forall>i < length (vval defs n). (\<forall>dr \<in> set (vrelocs defs n). i \<notin> dslot dr) \<longrightarrow> bytes ! i = vval defs n ! i) \<and>
    (\<forall>dr \<in> set (vrelocs defs n). ptr_at (unat (dr_Offset dr)) bytes = the (va (dr_Symbol dr)) + dr_Addend dr)"
proof -
  let ?ps = "\<lambda>n (l :: 32 word). map (dr_patch va) (vrelocs defs n)"
  have "has locs m" if "(m, j) \<in> set locs" for m j using that by (force simp: has_iff)
  then have "\<forall>(n, l) \<in> set locs. apart (?ps n l) \<and> fits (length (vval defs n)) (?ps n l)"
    using ok drs_patches_ok by fastforce
  note bp = block_patched[OF pb iter this n, folded bytes]
  have "ptr_at (unat (dr_Offset dr)) bytes = the (va (dr_Symbol dr)) + dr_Addend dr"
    if "dr \<in> set (vrelocs defs n)" for dr
  proof -
    have "dr_patch va dr \<in> set (?ps n l)" using that by simp
    then have "slice (unat (dr_Offset dr)) 8 bytes = le_bytes 8 (unat (the (va (dr_Symbol dr)) + dr_Addend dr))"
      using bp by (fastforce simp: dr_patch_def)
    then show ?thesis by (simp add: ptr_at_def)
  qed
  moreover have "i \<notin> slot p" if "p \<in> set (?ps n l)" "\<forall>dr \<in> set (vrelocs defs n). i \<notin> dslot dr" for i p
    using that by (auto simp: dr_patch_def slot_def dslot_def)
  ultimately show ?thesis using bp by blast
qed

lemma object_image:
  assumes inv: "linv g st" "l_needfn st = []" and ok: "genv_ok g" and small: "small st"
    and base: "unat textoff < 2 ^ 63" and iter: "perm_iter iter"
    and v: "object g n = Some v" "placed_obj g st n"
    and secs: "secs = link_image iter g textoff st"
  shows "\<exists>A bytes. sym_addr secs n = Some A \<and> mem secs A (length (v_Val v)) = Some bytes \<and>
    length bytes = length (v_Val v) \<and>
    (\<forall>i < length (v_Val v). (\<forall>dr \<in> set (v_Relocs v). i \<notin> dslot dr) \<longrightarrow> bytes ! i = v_Val v ! i) \<and>
    (\<forall>dr \<in> set (v_Relocs v). \<exists>B. sym_addr secs (dr_Symbol dr) = Some B \<and>
       ptr_at (unat (dr_Offset dr)) bytes = B + dr_Addend dr)"
proof -
  let ?v = "page_after textoff (length (l_fnbs st))"
  let ?d = "page_after ?v (length (l_varbs st))"
  let ?va = "resolveTargetVA st textoff ?v ?d"
  have sa: "sym_addr secs t = ?va t" for t by (simp add: secs sym_addr_image[OF inv(1)])
  have tgt: "\<exists>B. sym_addr secs (dr_Symbol dr) = Some B" if "dr \<in> set (v_Relocs v)" for dr
  proof -
    have "known g st (dr_Symbol dr)" using inv(1) v that unfolding linv_def pending_def by blast
    then show ?thesis using known_values[OF _ inv(2)] unfolding sa by blast
  qed
  have o: "objs_ok g st" "code_ok g st" using inv(1) by (simp_all add: linv_def)
  have sm: "length (l_varbs st) < 2 ^ 32" "length (l_databs st) < 2 ^ 32" using small by (simp_all add: small_def)
  have nf: "\<not> has (g_funcs g) n" using v(1) by (auto simp: object_def split: if_splits)
  then have nl: "map_of (l_funclocs st) n = None" using o(2) by (auto simp: code_ok_def has_None)
  show ?thesis
  proof (cases "has (g_vars g) n")
    case True
    then obtain l where l: "map_of (l_varlocs st) n = Some l" using v(2) by (auto simp: placed_obj_def has_def)
    have vv: "vval (g_vars g) n = v_Val v" "vrelocs (g_vars g) n = v_Relocs v"
      using v(1) True nf by (auto simp: object_def vval_def vrelocs_def has_def)
    let ?bytes = "slice (unat l) (length (v_Val v)) (sec_val (secs ! 1))"
    have "mem secs (ucast l + ?v) (length (v_Val v)) = Some ?bytes"
      using mem_vars[OF inv(1) small base map_of_SomeD[OF l], of iter] by (simp add: secs vv)
    moreover have "sym_addr secs n = Some (ucast l + ?v)"
      using l nl by (simp add: sa resolveTargetVA_def add.commute)
    moreover have "mset (iter (l_varlocs st)) = mset (l_varlocs st)" using iter by (simp add: perm_iter_def)
    then have b: "length ?bytes = length (v_Val v) \<and>
      (\<forall>i < length (v_Val v). (\<forall>dr \<in> set (v_Relocs v). i \<notin> dslot dr) \<longrightarrow> ?bytes ! i = v_Val v ! i) \<and>
      (\<forall>dr \<in> set (v_Relocs v). ptr_at (unat (dr_Offset dr)) ?bytes = the (?va (dr_Symbol dr)) + dr_Addend dr)"
      using object_bytes[of "g_vars g" "l_varlocs st" "l_varbs st" "iter (l_varlocs st)" n l ?bytes ?va]
        o(1) ok sm(1) map_of_SomeD[OF l]
      by (simp add: vv objs_ok_def genv_ok_def secs link_image_def Let_def)
    then have "\<forall>dr \<in> set (v_Relocs v). \<exists>B. sym_addr secs (dr_Symbol dr) = Some B \<and>
        ptr_at (unat (dr_Offset dr)) ?bytes = B + dr_Addend dr"
      using tgt sa by (metis option.sel)
    ultimately show ?thesis using b by blast
  next
    case False
    then obtain l where l: "map_of (l_datalocs st) n = Some l" using v(2) by (auto simp: placed_obj_def has_def)
    have vn: "map_of (l_varlocs st) n = None" using o(1) False by (auto simp: objs_ok_def has_None)
    have vv: "vval (g_data g) n = v_Val v" "vrelocs (g_data g) n = v_Relocs v"
      using v(1) False nf by (auto simp: object_def vval_def vrelocs_def has_def)
    let ?bytes = "slice (unat l) (length (v_Val v)) (sec_val (secs ! 2))"
    have "mem secs (ucast l + ?d) (length (v_Val v)) = Some ?bytes"
      using mem_data[OF inv(1) small base map_of_SomeD[OF l], of iter] by (simp add: secs vv)
    moreover have "sym_addr secs n = Some (ucast l + ?d)"
      using l nl vn by (simp add: sa resolveTargetVA_def add.commute)
    moreover have "mset (iter (l_datalocs st)) = mset (l_datalocs st)" using iter by (simp add: perm_iter_def)
    then have b: "length ?bytes = length (v_Val v) \<and>
      (\<forall>i < length (v_Val v). (\<forall>dr \<in> set (v_Relocs v). i \<notin> dslot dr) \<longrightarrow> ?bytes ! i = v_Val v ! i) \<and>
      (\<forall>dr \<in> set (v_Relocs v). ptr_at (unat (dr_Offset dr)) ?bytes = the (?va (dr_Symbol dr)) + dr_Addend dr)"
      using object_bytes[of "g_data g" "l_datalocs st" "l_databs st" "iter (l_datalocs st)" n l ?bytes ?va]
        o(1) ok sm(2) map_of_SomeD[OF l]
      by (simp add: vv objs_ok_def genv_ok_def secs link_image_def Let_def)
    then have "\<forall>dr \<in> set (v_Relocs v). \<exists>B. sym_addr secs (dr_Symbol dr) = Some B \<and>
        ptr_at (unat (dr_Offset dr)) ?bytes = B + dr_Addend dr"
      using tgt sa by (metis option.sel)
    ultimately show ?thesis using b by blast
  qed
qed

section \<open>When linking succeeds\<close>

definition defined :: "genv \<Rightarrow> string \<Rightarrow> bool" where
  "defined g n \<longleftrightarrow> has (g_funcs g) n \<or> has (g_vars g) n \<or> has (g_data g) n"

lemma place_total:
  "\<forall>n. linked g n \<longrightarrow> defined g n \<Longrightarrow> \<forall>t \<in> set ts. linked g t \<Longrightarrow> \<exists>st'. place g ts st = Inr st'"
proof (induction g ts st rule: place.induct)
  case (2 g t ts st)
  have t: "linked g t" "defined g t" using 2 by auto
  have obj: "linked g (dr_Symbol dr)" if "object g t = Some v" "dr \<in> set (v_Relocs v)" for v dr
    using linked_obj[OF t(1) that] .
  show ?case
  proof (cases "has (g_funcs g) t")
    case False
    then consider (var) v where "map_of (g_vars g) t = Some v"
      | (dat) v where "map_of (g_vars g) t = None" "map_of (g_data g) t = Some v"
      using t(2) by (auto simp: defined_def has_def)
    then show ?thesis
    proof cases
      case var
      then have "\<forall>u \<in> set (map dr_Symbol (v_Relocs v) @ ts). linked g u"
        using obj[of v] 2(7) False by (auto simp: object_def)
      then show ?thesis using 2 False var by simp
    next
      case dat
      then have "\<forall>u \<in> set (map dr_Symbol (v_Relocs v) @ ts). linked g u"
        using obj[of v] 2(7) False by (auto simp: object_def)
      then show ?thesis using 2 False dat by simp
    qed
  qed (use 2 in auto)
qed simp

lemma follow_total:
  "\<forall>n. linked g n \<longrightarrow> defined g n \<Longrightarrow> \<forall>r \<in> set rs. linked g (r_Symbol r) \<Longrightarrow>
   \<exists>st'. follow g off rs st = Inr st'"
proof (induction rs arbitrary: st)
  case (Cons r rs)
  then obtain st1 where "place g [r_Symbol r] st = Inr st1" using place_total[of g "[r_Symbol r]" st] by auto
  moreover have "defined g (r_Symbol r)" using Cons by auto
  ultimately have "reference g (r_Symbol r) st = Inr st1" by (simp add: reference_def defined_def)
  then show ?case using Cons by simp
qed simp

definition bodies_fine :: "genv \<Rightarrow> bool" where
  "bodies_fine g \<longleftrightarrow> (\<forall>k f. linked g k \<and> map_of (g_funcs g) k = Some f \<longrightarrow> body_fine g k)"

lemma place_fn_total:
  assumes "\<forall>n. linked g n \<longrightarrow> defined g n" "bodies_fine g" "linked g k" "map_of (g_funcs g) k = Some f"
  shows "\<exists>st'. place_fn g f st = Inr st'"
proof -
  obtain bs where bs: "Body f = Some (Inr bs)" using assms(2-4) by (auto simp: bodies_fine_def body_fine_def)
  have "\<forall>r \<in> set (f_Relocations (resolved f)). linked g (r_Symbol r)"
    using linked_fn[OF assms(3)] assms(4) by (auto simp: frelocs_def has_def)
  then obtain st' where "follow g (of_nat (length (l_fnbs st))) (f_Relocations (resolved f)) (enter_fn f bs st) = Inr st'"
    using follow_total[OF assms(1)] by blast
  then show ?thesis by (simp add: place_fn_def bs)
qed

lemma link_loop_total:
  "linv g st \<Longrightarrow> env_ok g \<Longrightarrow> \<forall>n. linked g n \<longrightarrow> defined g n \<Longrightarrow> bodies_fine g \<Longrightarrow>
   \<exists>st'. link_loop g st = Inr st'"
proof (induction g st rule: link_loop.induct)
  case (1 g st)
  show ?case
  proof (cases "l_needfn st")
    case Nil
    then show ?thesis by (simp add: link_loop.simps)
  next
    case (Cons k ks)
    have k: "linked g k" "has (g_funcs g) k"
      using 1(2) Cons by (auto simp: linv_def all_linked_def queue_ok_def)
    then obtain f where f: "map_of (g_funcs g) k = Some f" by (auto simp: has_def)
    obtain st1 where st1: "place_fn g f (pop_fn st) = Inr st1" using place_fn_total[OF 1(4,5) k(1) f] by auto
    have "linv g st1" by (rule place_fn_inv[OF 1(2) Cons f 1(3) st1])
    then obtain st' where "link_loop g st1 = Inr st'" using 1(1)[OF Cons f st1] 1(3,4,5) by auto
    then show ?thesis using Cons f st1 by (subst link_loop.simps) simp
  qed
qed



section \<open>The errors of the linker\<close>






section \<open>Independence of the iteration order\<close>

lemma patch_all_perm:
  assumes "apart ps" "apart qs" "fits (length bs) ps" "fits (length bs) qs" "set ps = set qs"
  shows "patch_all bs ps = patch_all bs qs"
proof (rule nth_equalityI)
  fix i assume i: "i < length (patch_all bs ps)"
  show "patch_all bs ps ! i = patch_all bs qs ! i"
  proof (cases "\<exists>p \<in> set ps. i \<in> slot p")
    case True
    then obtain p where p: "p \<in> set ps" "i \<in> slot p" by auto
    then obtain j where j: "i = fst p + j" "j < length (snd p)" by (auto simp: slot_def le_iff_add)
    then show ?thesis
      using patch_all_nth_slot[of p ps bs j] patch_all_nth_slot[of p qs bs j] assms p(1) by simp
  next
    case False
    then show ?thesis using patch_all_outside[of i bs ps] patch_all_outside[of i bs qs] assms(5) i by auto
  qed
qed simp

lemma fix_perm:
  assumes "placed_buf (vval defs) locs buf" "length buf < 2 ^ 32" "mset l1 = mset locs" "mset l2 = mset locs"
    "\<forall>n. has locs n \<longrightarrow> drs_ok (length (vval defs n)) (vrelocs defs n)"
  shows "patch_all buf (block_patches (\<lambda>n l. map (dr_patch va) (vrelocs defs n)) l1) =
    patch_all buf (block_patches (\<lambda>n l. map (dr_patch va) (vrelocs defs n)) l2)"
proof -
  let ?ps = "\<lambda>n (l :: 32 word). map (dr_patch va) (vrelocs defs n)"
  have "has locs m" if "(m, j) \<in> set locs" for m j using that by (force simp: has_iff)
  then have ok: "\<forall>(n, l) \<in> set locs. apart (?ps n l) \<and> fits (length (vval defs n)) (?ps n l)"
    using assms(5) drs_patches_ok by fastforce
  have "set l1 = set l2" using assms(3,4) by (metis set_mset_mset)
  then have "set (block_patches ?ps l1) = set (block_patches ?ps l2)" by (simp add: block_patches_def)
  then show ?thesis
    using block_patches_ok[OF assms(1,2,3) ok] block_patches_ok[OF assms(1,2,4) ok]
    by (intro patch_all_perm) auto
qed

lemma image_iter:
  assumes "linv g st" "genv_ok g" "small st" "perm_iter i1" "perm_iter i2"
  shows "link_image i1 g textoff st = link_image i2 g textoff st"
proof -
  have o: "objs_ok g st" using assms(1) by (simp add: linv_def)
  show ?thesis
    unfolding link_image_def Let_def
    using o assms(2-5)
    by (auto simp: objs_ok_def genv_ok_def small_def perm_iter_def intro!: fix_perm)
qed

section \<open>A small program\<close>

definition sample_start :: Function where
  "sample_start = Jump [] [0xE8, 0, 0, 0, 0] ''main.f'' (new_function ''_init'' ''i.bs'' 1 ''start'' [])"

definition sample_main :: Function where
  "sample_main = emit [0x48, 0x8B, 0x05, 0, 0, 0, 0, 0xC3]
     [\<lparr>r_Offset = 3, r_Symbol = ''main.x'', r_Addend = 0\<rparr>] (new_function ''main'' ''a.bs'' 3 ''f'' [])"

definition sample_var :: Var where
  "sample_var = (new_var ''x'' ''*fn'' (ValU64 0) True)
     \<lparr>v_Relocs := [\<lparr>dr_Offset = 0, dr_Symbol = ''f'', dr_Addend = 0\<rparr>]\<rparr>"

definition sample_files :: "OFile list" where
  "sample_files =
     [(NewOFile ''i.bo'' ''_init'')\<lparr>o_Funcs := [(''start'', sample_start)]\<rparr>,
      (NewOFile ''a.bo'' ''main'')\<lparr>o_Funcs := [(''f'', sample_main)], o_Vars := [(''x'', sample_var)]\<rparr>]"

definition sample_env :: genv where
  "sample_env = \<lparr>g_funcs = [(''_init.start'', sample_start), (''main.f'', sample_main)], g_data = [],
     g_vars = [(''main.x'', qualifyDataRelocs ''main'' sample_var)]\<rparr>"

lemma sample_built: "built ''_init'' ''start'' sample_start" "built ''main'' ''f'' sample_main"
  unfolding sample_start_def sample_main_def
  by (intro built.intros; simp add: relocs_ok_def new_function_def)+

lemma sample_resolved:
  "Resolve sample_start = Some (sample_start\<lparr>f_bodyBs := Some [0xE8, 0, 0, 0, 0], f_jumps := [],
     f_Relocations := [\<lparr>r_Offset = 1, r_Symbol = ''main.f'', r_Addend = 0\<rparr>]\<rparr>)"
  "Resolve sample_main = Some (sample_main\<lparr>f_bodyBs := Some [0x48, 0x8B, 0x05, 0, 0, 0, 0, 0xC3]\<rparr>)"
  by (simp_all add: Resolve_def sample_start_def sample_main_def Jump_def emit_def new_function_def Let_def
      qualify_reloc_def)

lemma sample_collect: "collect sample_files \<lparr>g_funcs = [], g_data = [], g_vars = []\<rparr> = Inr sample_env"
  by (simp add: sample_files_def sample_env_def NewOFile_def qualify_def Let_def)

lemma sample_link_input: "link_input sample_files sample_env"
proof -
  have "f_Name sample_start = ''start''" "f_Pkgname sample_start = ''_init''"
    "f_Name sample_main = ''f''" "f_Pkgname sample_main = ''main''"
    using built_ok[OF sample_built(1)] built_ok[OF sample_built(2)] by auto
  then have "\<forall>oo \<in> set sample_files. linkable oo"
    using built_resolved[OF sample_built(1)] built_resolved[OF sample_built(2)]
    by (simp add: sample_files_def linkable_def NewOFile_def tab_ok_def sample_var_def new_var_def drs_ok_def)
  then show ?thesis
    using sample_collect
    by (simp add: link_input_def fits_4gb_def sample_env_def fbody_def resolved_def sample_resolved vval_def
        body_of_def qualifyDataRelocs_def sample_var_def new_var_def)
qed

lemma sample_frelocs:
  "frelocs sample_env k =
     (if k = ''_init.start'' then [\<lparr>r_Offset = 1, r_Symbol = ''main.f'', r_Addend = 0\<rparr>]
      else if k = ''main.f'' then [\<lparr>r_Offset = 3, r_Symbol = ''main.x'', r_Addend = 0\<rparr>] else [])"
proof -
  have "f_Relocations sample_main = [\<lparr>r_Offset = 3, r_Symbol = ''main.x'', r_Addend = 0\<rparr>]"
    by (simp add: sample_main_def emit_def new_function_def)
  then show ?thesis by (simp add: frelocs_def sample_env_def resolved_def sample_resolved)
qed

lemma sample_object:
  "object sample_env n = (if n = ''main.x''
     then Some (sample_var\<lparr>v_Relocs := [\<lparr>dr_Offset = 0, dr_Symbol = ''main.f'', dr_Addend = 0\<rparr>]\<rparr>) else None)"
proof -
  have "qualifyDataRelocs ''main'' sample_var =
      sample_var\<lparr>v_Relocs := [\<lparr>dr_Offset = 0, dr_Symbol = ''main.f'', dr_Addend = 0\<rparr>]\<rparr>"
    by (simp add: qualifyDataRelocs_def qualifyDataReloc_def qualify_def sample_var_def)
  then show ?thesis by (simp add: object_def sample_env_def)
qed

lemma sample_errors: "f_errors sample_start = []" "f_errors sample_main = []"
  by (simp_all add: sample_start_def sample_main_def Jump_def emit_def new_function_def Let_def)

lemma sample_linked: "linked sample_env n \<longleftrightarrow> n \<in> {''_init.start'', ''main.f'', ''main.x''}"
proof
  show "linked sample_env n \<Longrightarrow> n \<in> {''_init.start'', ''main.f'', ''main.x''}"
    by (induction rule: linked.induct) (auto simp: sample_frelocs sample_object split: if_splits)
  have h: "has (g_funcs sample_env) ''_init.start''" "has (g_funcs sample_env) ''main.f''"
    by (simp_all add: sample_env_def)
  have f: "linked sample_env ''main.f''"
    using linked_fn[OF linked_start h(1)] by (simp add: sample_frelocs)
  moreover have "linked sample_env ''main.x''"
    using linked_fn[OF f h(2)] by (simp add: sample_frelocs)
  ultimately show "n \<in> {''_init.start'', ''main.f'', ''main.x''} \<Longrightarrow> linked sample_env n"
    using linked_start by auto
qed

lemma sample_links: "\<exists>secs. Link 0 id sample_files 0x30000 = Inr secs"
proof -
  have "body_fine sample_env ''_init.start''" "body_fine sample_env ''main.f''"
    by (simp_all add: body_fine_def sample_env_def Body_def sample_resolved sample_errors)
  moreover have "map_of (g_funcs sample_env) ''main.x'' = None" by (simp add: sample_env_def)
  ultimately have "bodies_fine sample_env" unfolding bodies_fine_def sample_linked by auto
  moreover have "defined sample_env n \<longleftrightarrow> n \<in> {''_init.start'', ''main.f'', ''main.x''}" for n
    by (auto simp: defined_def sample_env_def)
  then have "\<forall>n. linked sample_env n \<longrightarrow> defined sample_env n" by (simp add: sample_linked)
  moreover have s: "has (g_funcs sample_env) ''_init.start''" by (simp add: sample_env_def)
  ultimately obtain st where "link_loop sample_env start_state = Inr st"
    using link_loop_total[OF start_linv[OF s]] link_input_ok[OF sample_link_input] by (auto simp: genv_ok_def)
  then show ?thesis
    using Link_eq[OF sample_link_input, of id 0 "0x30000"] s by (simp add: perm_iter_def)
qed

lemma perm_iter_id [simp]: "perm_iter id"
  by (simp add: perm_iter_def)

lemma perm_iter_rev [simp]: "perm_iter rev"
  by (simp add: perm_iter_def)

section \<open>Properties\<close>





text \<open>C8. Linker, what is linked: the symbols of the image have distinct names, and they are exactly
  the names the entry point needs, directly or through the relocations of others.\<close>

theorem Link_symbols:
  assumes "link_input os g" "perm_iter iter" "Link spare iter os textoff = Inr secs"
  shows "distinct (map fst (sym_table secs)) \<and> set (map fst (sym_table secs)) = {n. linked g n}"
proof -
  obtain st where st: "linv g st" "l_needfn st = []" "secs = link_image iter g textoff st"
    using Link_state[OF assms] by blast
  have "in_image st n \<longleftrightarrow> linked g n" for n
    using st(1,2) known_in_image[OF linked_known[OF st(1,2)]] by (auto simp: linv_def all_linked_def)
  then show ?thesis using image_names[OF st(1)] unfolding st(3) by simp
qed

theorem Link_symbols_witness:
  "\<exists>secs. Link 0 id sample_files 0x30000 = Inr secs \<and>
     set (map fst (sym_table secs)) = {''_init.start'', ''main.f'', ''main.x''}"
proof -
  obtain secs where s: "Link 0 id sample_files 0x30000 = Inr secs" using sample_links by blast
  show ?thesis using s Link_symbols[OF sample_link_input perm_iter_id s] by (auto simp: sample_linked)
qed



text \<open>C9. Linker, code: at the address of every function that is linked lies its body, changed at
  most in its relocation slots, and every relocation slot holds the displacement that takes the
  processor from the end of the slot to the address of the target plus the addend, whenever it is
  within the range of 32 bits.\<close>

theorem Link_code:
  assumes "link_input os g" "perm_iter iter" "unat textoff < 2 ^ 63" "Link spare iter os textoff = Inr secs"
    and "linked g k" "has (g_funcs g) k"
  shows "\<exists>A bytes. sym_addr secs k = Some A \<and> mem secs A (length (fbody g k)) = Some bytes \<and>
    length bytes = length (fbody g k) \<and>
    (\<forall>i < length (fbody g k). (\<forall>r \<in> set (frelocs g k). i \<notin> rslot r) \<longrightarrow> bytes ! i = fbody g k ! i) \<and>
    (\<forall>r \<in> set (frelocs g k). \<exists>B. sym_addr secs (r_Symbol r) = Some B \<and>
       (let disp = int (unat B) + sint (r_Addend r) - (int (unat A) + int (unat (r_Offset r)) + 4)
        in - (2 ^ 31) \<le> disp \<and> disp < 2 ^ 31 \<longrightarrow> sint (disp_at (unat (r_Offset r)) bytes) = disp))"
proof -
  obtain st where st: "linv g st" "l_needfn st = []" "small st" "secs = link_image iter g textoff st"
    using Link_state[OF assms(1,2,4)] by blast
  obtain l where l: "(k, l) \<in> set (l_funclocs st)" using linked_placed[OF st(1,2) assms(5)] assms(6) by auto
  obtain A bytes where b: "sym_addr secs k = Some A" "mem secs A (length (fbody g k)) = Some bytes"
    "length bytes = length (fbody g k)"
    "\<forall>i < length (fbody g k). (\<forall>r \<in> set (frelocs g k). i \<notin> rslot r) \<longrightarrow> bytes ! i = fbody g k ! i"
    "\<forall>r \<in> set (frelocs g k). \<exists>B. sym_addr secs (r_Symbol r) = Some B \<and> disp_at (unat (r_Offset r)) bytes =
       word_of_int (int (unat B) + sint (r_Addend r) - (int (unat A) + int (unat (r_Offset r)) + 4))"
    using function_image[OF st(1,2) link_input_ok[OF assms(1)] st(3) assms(3) l st(4)] by blast
  have "\<exists>B. sym_addr secs (r_Symbol r) = Some B \<and>
       (let disp = int (unat B) + sint (r_Addend r) - (int (unat A) + int (unat (r_Offset r)) + 4)
        in - (2 ^ 31) \<le> disp \<and> disp < 2 ^ 31 \<longrightarrow> sint (disp_at (unat (r_Offset r)) bytes) = disp)"
    if r: "r \<in> set (frelocs g k)" for r
  proof -
    obtain B where B: "sym_addr secs (r_Symbol r) = Some B" "disp_at (unat (r_Offset r)) bytes =
       word_of_int (int (unat B) + sint (r_Addend r) - (int (unat A) + int (unat (r_Offset r)) + 4))"
      using b(5) r by blast
    show ?thesis unfolding Let_def B(2) using B(1) sint_word_of_int_32 by blast
  qed
  with b(1-4) show ?thesis by blast
qed

theorem Link_code_witness:
  "\<exists>secs A B bytes. Link 0 id sample_files 0x30000 = Inr secs \<and> sym_addr secs ''_init.start'' = Some A \<and>
     sym_addr secs ''main.f'' = Some B \<and> mem secs A 5 = Some bytes \<and> bytes ! 0 = 0xE8"
proof -
  obtain secs where s: "Link 0 id sample_files 0x30000 = Inr secs" using sample_links by blast
  have f: "fbody sample_env ''_init.start'' = [0xE8, 0, 0, 0, 0]" "has (g_funcs sample_env) ''_init.start''"
    by (simp_all add: fbody_def sample_env_def resolved_def sample_resolved body_of_def)
  have base: "unat (0x30000 :: 64 word) < 2 ^ 63" by simp
  let ?k = "''_init.start''"
  obtain A bytes where b: "sym_addr secs ?k = Some A" "mem secs A (length (fbody sample_env ?k)) = Some bytes"
    "\<forall>i < length (fbody sample_env ?k). (\<forall>r \<in> set (frelocs sample_env ?k). i \<notin> rslot r) \<longrightarrow>
       bytes ! i = fbody sample_env ?k ! i"
    "\<forall>r \<in> set (frelocs sample_env ?k). \<exists>B. sym_addr secs (r_Symbol r) = Some B"
    using Link_code[OF sample_link_input perm_iter_id base s linked_start f(2)] by blast
  have "bytes ! 0 = 0xE8" using b(3) by (simp add: f(1) sample_frelocs rslot_def)
  moreover have "mem secs A 5 = Some bytes" using b(2) by (simp add: f(1) eval_nat_numeral)
  ultimately show ?thesis using s b(1,4) by (auto simp: sample_frelocs)
qed

text \<open>C17. Linker, data: at the address of every variable or data block that is linked lies its
  initial value, changed at most in its relocation slots, and every relocation slot holds the address
  of its target plus the addend.\<close>

theorem Link_data:
  assumes "link_input os g" "perm_iter iter" "unat textoff < 2 ^ 63" "Link spare iter os textoff = Inr secs"
    and "linked g n" "object g n = Some v"
  shows "\<exists>A bytes. sym_addr secs n = Some A \<and> mem secs A (length (v_Val v)) = Some bytes \<and>
    length bytes = length (v_Val v) \<and>
    (\<forall>i < length (v_Val v). (\<forall>dr \<in> set (v_Relocs v). i \<notin> dslot dr) \<longrightarrow> bytes ! i = v_Val v ! i) \<and>
    (\<forall>dr \<in> set (v_Relocs v). \<exists>B. sym_addr secs (dr_Symbol dr) = Some B \<and>
       ptr_at (unat (dr_Offset dr)) bytes = B + dr_Addend dr)"
proof -
  obtain st where st: "linv g st" "l_needfn st = []" "small st" "secs = link_image iter g textoff st"
    using Link_state[OF assms(1,2,4)] by blast
  have "placed_obj g st n" using linked_placed[OF st(1,2) assms(5)] assms(6) by simp
  from object_image[OF st(1,2) link_input_ok[OF assms(1)] st(3) assms(3,2,6) this st(4)]
  show ?thesis .
qed

theorem Link_data_witness:
  "\<exists>secs A B bytes. Link 0 rev sample_files 0x30000 = Inr secs \<and> sym_addr secs ''main.x'' = Some A \<and>
     mem secs A 8 = Some bytes \<and> sym_addr secs ''main.f'' = Some B \<and> ptr_at 0 bytes = B"
proof -
  obtain secs where s: "Link 0 rev sample_files 0x30000 = Inr secs"
    using sample_links Link_eq[OF sample_link_input perm_iter_id] Link_eq[OF sample_link_input perm_iter_rev]
    by (cases "link_loop sample_env start_state") (auto split: if_splits)
  let ?v = "sample_var\<lparr>v_Relocs := [\<lparr>dr_Offset = 0, dr_Symbol = ''main.f'', dr_Addend = 0\<rparr>]\<rparr>"
  have "linked sample_env ''main.x''" "object sample_env ''main.x'' = Some ?v"
    by (simp_all add: sample_linked sample_object)
  moreover have "length (v_Val ?v) = 8" by (simp add: sample_var_def new_var_def)
  ultimately show ?thesis using s Link_data[OF sample_link_input perm_iter_rev _ s, of "''main.x''" ?v] by auto
qed

text \<open>C31. Linker, determinism: the result does not depend on the order in which maps are iterated
  over nor on the capacity of the text buffer.\<close>

theorem Link_deterministic:
  assumes "link_input os g" "perm_iter i1" "perm_iter i2"
  shows "Link spare1 i1 os textoff = Link spare2 i2 os textoff"
proof (cases "link_loop g start_state")
  case (Inr st)
  show ?thesis
  proof (cases "has (g_funcs g) ''_init.start''")
    case True
    have ok: "genv_ok g" by (rule link_input_ok[OF assms(1)])
    then have "linv g st" using link_loop_inv[OF Inr _ start_linv[OF True]] by (simp add: genv_ok_def)
    then have "link_image i1 g textoff st = link_image i2 g textoff st"
      using linv_small assms ok by (intro image_iter) (auto simp: link_input_def)
    then show ?thesis unfolding Link_eq[OF assms(1,2)] Link_eq[OF assms(1,3)] Inr by simp
  qed (simp add: Link_eq[OF assms(1,2)] Link_eq[OF assms(1,3)])
qed (simp add: Link_eq[OF assms(1,2)] Link_eq[OF assms(1,3)])

theorem Link_deterministic_witness:
  "Link 0 id sample_files 0x30000 = Link 64 rev sample_files 0x30000"
  by (rule Link_deterministic[OF sample_link_input perm_iter_id perm_iter_rev])

end
