(* ===== verification/Toolchain.thy ===== *)
theory Toolchain
  imports LinkProps
begin

text \<open>
  From the assembler through object files to the linker: linking files that were written and read
  back is linking the files in memory.  The lemmas say that every step of the linker depends on a
  function only through its name, package, body and relocations, which the format keeps.
\<close>

definition reread :: "OFile \<Rightarrow> OFile" where
  "reread oo = as_read (o_Filename oo) (o_Pkgname oo) oo"

definition rb_all :: "(string \<times> Function) list \<Rightarrow> (string \<times> Function) list" where
  "rb_all m = map (\<lambda>(k, f). (k, read_back (f_Pkgname f) f)) m"

definition rg :: "genv \<Rightarrow> genv" where
  "rg g = g\<lparr>g_funcs := rb_all (g_funcs g)\<rparr>"

definition sound_fn :: "Function \<Rightarrow> bool" where
  "sound_fn f \<longleftrightarrow> Resolve f \<noteq> None \<and> f_errors f = []"

lemma update_rb_all: "AList.update k (read_back (f_Pkgname f) f) (rb_all m) = rb_all (AList.update k f m)"
  by (induction m) (auto simp: rb_all_def)

lemma has_rb_all [simp]: "has (rb_all m) k = has m k"
  by (simp add: has_def rb_all_def map_of_map_value[where f = "\<lambda>f. read_back (f_Pkgname f) f"])

lemma rg_sel [simp]: "g_vars (rg g) = g_vars g" "g_data (rg g) = g_data g" "g_funcs (rg g) = rb_all (g_funcs g)"
  by (simp_all add: rg_def)

lemma collect_funcs_reread:
  "\<forall>(n, f) \<in> set fs. f_Pkgname f = o_Pkgname oo \<Longrightarrow>
   collect_funcs (reread oo) (map (\<lambda>(n, f). (n, read_back (o_Pkgname oo) f)) fs) (rb_all m) =
   map_sum id rb_all (collect_funcs oo fs m)"
proof (induction oo fs m rule: collect_funcs.induct)
  case (2 oo n f fs m)
  have "AList.update k (read_back (o_Pkgname oo) f) (rb_all m) = rb_all (AList.update k f m)" for k
    using 2(2) update_rb_all[of k f m] by simp
  with 2 show ?case by (simp add: Let_def reread_def as_read_def)
qed simp

lemma collect_vars_pkg:
  "o_Pkgname oo' = o_Pkgname oo \<Longrightarrow> collect_vars oo' vs m = collect_vars oo vs m"
  by (induction oo vs m rule: collect_vars.induct) (simp_all add: Let_def)

lemma collect_reread:
  "\<forall>oo \<in> set os. linkable oo \<Longrightarrow> collect (map reread os) (rg g) = map_sum id rg (collect os g)"
proof (induction os arbitrary: g)
  case (Cons oo os)
  have sel: "o_Funcs (reread oo) = map (\<lambda>(n, f). (n, read_back (o_Pkgname oo) f)) (o_Funcs oo)"
    "o_Data (reread oo) = o_Data oo" "o_Vars (reread oo) = o_Vars oo" "o_Pkgname (reread oo) = o_Pkgname oo"
    by (simp_all add: reread_def as_read_def)
  have "\<forall>(n, f) \<in> set (o_Funcs oo). f_Pkgname f = o_Pkgname oo" using Cons.prems by (auto simp: linkable_def)
  note fs = collect_funcs_reread[OF this, of "g_funcs g"]
  have g: "\<lparr>g_funcs = rb_all fs, g_data = ds, g_vars = vs\<rparr> = rg \<lparr>g_funcs = fs, g_data = ds, g_vars = vs\<rparr>" for fs ds vs
    by (simp add: rg_def)
  show ?case
    using Cons
    by (cases "collect_funcs oo (o_Funcs oo) (g_funcs g)"; cases "collect_vars oo (o_Data oo) (g_data g)";
        cases "collect_vars oo (o_Vars oo) (g_vars g)")
      (simp_all add: sel fs collect_vars_pkg[of "reread oo" oo] g)
qed (simp add: rg_def)

lemma Body_read_back:
  assumes "sound_fn f"
  shows "Body (read_back pkg f) = Body f"
proof -
  obtain h where h: "Resolve f = Some h" "f_errors f = []" using assms by (auto simp: sound_fn_def)
  then show ?thesis
    using Resolve_keeps[OF h(1)] by (simp add: Body_def) (simp add: read_back_def resolved_def body_of_def Let_def)
qed

lemma place_rg: "place (rg g) ts st = place g ts st"
  by (induction g ts st rule: place.induct) (auto split: option.split)

lemma reference_rg: "reference (rg g) t st = reference g t st"
  unfolding reference_def place_rg by simp

lemma follow_rg: "follow (rg g) off rs st = follow g off rs st"
  by (induction rs arbitrary: st) (simp_all add: reference_rg)

lemma place_fn_rg:
  assumes "sound_fn f"
  shows "place_fn (rg g) (read_back (f_Pkgname f) f) st = place_fn g f st"
proof -
  have "enter_fn (read_back (f_Pkgname f) f) bs st = enter_fn f bs st" for bs st
    by (simp add: enter_fn_def)
  then show ?thesis by (simp add: place_fn_def Body_read_back[OF assms] follow_rg split: option.split sum.split)
qed

lemma link_loop_rg:
  "\<forall>k f. map_of (g_funcs g) k = Some f \<longrightarrow> sound_fn f \<Longrightarrow> link_loop (rg g) st = link_loop g st"
proof (induction g st rule: link_loop.induct)
  case (1 g st)
  have m: "map_of (g_funcs (rg g)) k = map_option (\<lambda>f. read_back (f_Pkgname f) f) (map_of (g_funcs g) k)" for k
    by (simp add: rb_all_def map_of_map_value[where f = "\<lambda>f. read_back (f_Pkgname f) f"])
  show ?case
  proof (cases "l_needfn st")
    case Nil
    then show ?thesis by (simp add: link_loop.simps)
  next
    case (Cons k ks)
    show ?thesis
    proof (cases "map_of (g_funcs g) k")
      case None
      then show ?thesis using Cons m[of k] by (subst (1 2) link_loop.simps) simp
    next
      case (Some f)
      then have s: "place_fn (rg g) (read_back (f_Pkgname f) f) (pop_fn st) = place_fn g f (pop_fn st)"
        using 1(2) by (intro place_fn_rg) blast
      show ?thesis
      proof (cases "place_fn g f (pop_fn st)")
        case (Inl e)
        then show ?thesis using Cons m[of k] Some s by (subst (1 2) link_loop.simps) simp
      next
        case (Inr st1)
        then show ?thesis
          using Cons m[of k] Some s 1(1)[OF Cons Some Inr 1(2)] by (subst (1 2) link_loop.simps) simp
      qed
    qed
  qed
qed

lemma finish_rg: "finish spare iter (rg g) textoff = finish spare iter g textoff"
  by (rule ext) (simp add: finish_def)

lemma Link_reread:
  assumes "\<forall>oo \<in> set os. linkable oo"
    and "\<forall>g. collect os \<lparr>g_funcs = [], g_data = [], g_vars = []\<rparr> = Inr g \<longrightarrow>
      (\<forall>k f. map_of (g_funcs g) k = Some f \<longrightarrow> sound_fn f)"
  shows "Link spare iter (map reread os) textoff = Link spare iter os textoff"
proof -
  let ?g0 = "\<lparr>g_funcs = [], g_data = [], g_vars = []\<rparr>"
  have "rg ?g0 = ?g0" by (simp add: rg_def rb_all_def)
  then have c: "collect (map reread os) ?g0 = map_sum id rg (collect os ?g0)"
    using collect_reread[OF assms(1), of ?g0] by simp
  show ?thesis
  proof (cases "collect os ?g0")
    case (Inr g)
    then show ?thesis
      using assms(2) link_loop_rg[of g start_state] by (simp add: Link_def c finish_rg)
  qed (simp add: Link_def c)
qed

lemma collect_funcs_sound:
  "collect_funcs oo fs m = Inr m' \<Longrightarrow> \<forall>(n, f) \<in> set fs. sound_fn f \<Longrightarrow> \<forall>(k, f) \<in> set m. sound_fn f \<Longrightarrow>
   \<forall>(k, f) \<in> set m'. sound_fn f"
proof (induction oo fs m rule: collect_funcs.induct)
  case (2 oo n f fs m)
  let ?q = "qualify (o_Pkgname oo) n"
  have "\<forall>(k, f) \<in> set (AList.update ?q f m). sound_fn f"
    using 2(3,4) set_update_subset[of ?q f m] by auto
  with 2 show ?case by (auto simp: Let_def split: if_splits)
qed simp

lemma collect_sound:
  "collect os g = Inr g' \<Longrightarrow> \<forall>oo \<in> set os. \<forall>(n, f) \<in> set (o_Funcs oo). sound_fn f \<Longrightarrow>
   \<forall>(k, f) \<in> set (g_funcs g). sound_fn f \<Longrightarrow> \<forall>(k, f) \<in> set (g_funcs g'). sound_fn f"
proof (induction os arbitrary: g)
  case (Cons oo os)
  obtain fs ds vs where s: "collect_funcs oo (o_Funcs oo) (g_funcs g) = Inr fs"
    "collect os \<lparr>g_funcs = fs, g_data = ds, g_vars = vs\<rparr> = Inr g'"
    using Cons(2) by (auto simp: rbind_eq_Inr)
  have "\<forall>(k, f) \<in> set fs. sound_fn f" using collect_funcs_sound[OF s(1)] Cons(3,4) by simp
  then show ?case using Cons(1)[OF s(2)] Cons(3) by simp
qed simp

text \<open>The files the assembler hands over: assembled, within the bounds of the format, their data
  relocations within their variables.\<close>

definition ready :: "OFile \<Rightarrow> bool" where
  "ready oo \<longleftrightarrow> assembled oo \<and> fits_file oo \<and>
     (\<forall>(n, v) \<in> set (o_Vars oo) \<union> set (o_Data oo). drs_ok (length (v_Val v)) (v_Relocs v))"

lemma ready_sound: "ready oo \<Longrightarrow> (n, f) \<in> set (o_Funcs oo) \<Longrightarrow> sound_fn f"
  by (force simp: ready_def fits_file_def fits_tab_def list_all_iff fits_fn_def sound_fn_def)

lemma ready_linkable: "ready oo \<Longrightarrow> linkable oo"
  by (simp add: ready_def assembled_linkable)

lemma ready_reread:
  assumes "ready oo" "writeOFile oo = Inr bs" "ReadOFile (o_Filename oo) bs = Inr oo'"
  shows "oo' = reread oo"
proof -
  have "ofile_ok oo" using assms(1) by (simp add: ready_def assembled_tables)
  then show ?thesis
    using ReadOFile_codes[of oo "o_Filename oo" "[]"] assms by (auto simp: ready_def reread_def)
qed

lemma ready_writes:
  assumes "ready oo"
  shows "\<exists>bs. writeOFile oo = Inr bs \<and> ReadOFile (o_Filename oo) bs = Inr (reread oo)"
  using assms ReadOFile_codes[of oo "o_Filename oo" "[]"] by (auto simp: ready_def reread_def assembled_tables)

lemma Link_ready:
  assumes "\<forall>oo \<in> set os. ready oo"
  shows "Link spare iter (map reread os) textoff = Link spare iter os textoff"
proof (rule Link_reread)
  show "\<forall>oo \<in> set os. linkable oo" using assms ready_linkable by blast
  show "\<forall>g. collect os \<lparr>g_funcs = [], g_data = [], g_vars = []\<rparr> = Inr g \<longrightarrow>
      (\<forall>k f. map_of (g_funcs g) k = Some f \<longrightarrow> sound_fn f)"
  proof (intro allI impI)
    fix g k f assume g: "collect os \<lparr>g_funcs = [], g_data = [], g_vars = []\<rparr> = Inr g"
      and f: "map_of (g_funcs g) k = Some f"
    have "\<forall>oo \<in> set os. \<forall>(n, f) \<in> set (o_Funcs oo). sound_fn f" using assms ready_sound by blast
    from collect_sound[OF g this] f show "sound_fn f" by (auto dest: map_of_SomeD)
  qed
qed

end
