(* ===== verification/Elf.thy ===== *)
theory Elf
  imports LinkProps
begin

text \<open>
  Executable files, \<open>elf64.go\<close>: the ELF-64 structures, the string tables, the layout of the file
  and its bytes, and what \<open>linker.go\<close> hands over (\<open>LinkedBinToElfSections\<close>).

  \<open>binary.Write\<close> of a structure in little-endian order is \<open>struct_bytes\<close> of its fields.  A file being
  written is the list of its bytes so far; creating it and writing to it do not fail.  \<open>WriteElf\<close>
  gives \<open>None\<close> where \<open>make([]byte, target_off-current_off)\<close> in \<open>WriteSection\<close> panics.
\<close>

section \<open>Structures\<close>

type_synonym Elf64_Addr = "64 word"
type_synonym Elf64_Off = "64 word"
type_synonym Elf64_Half = "16 word"
type_synonym Elf64_Word = "32 word"
type_synonym Elf64_Xword = "64 word"

record Elf64_Ehdr_Ident =
  i_magic :: "byte list"
  i_bitsize :: byte
  i_endian :: byte
  i_hVersion :: byte
  i_abi :: byte
  i_padding :: "64 word"

record Elf64_Ehdr =
  e_ident :: Elf64_Ehdr_Ident
  e_type :: Elf64_Half
  e_machine :: Elf64_Half
  e_version :: Elf64_Word
  e_entry :: Elf64_Addr
  e_phoff :: Elf64_Off
  e_shoff :: Elf64_Off
  e_flags :: Elf64_Word
  e_ehsize :: Elf64_Half
  e_phentsize :: Elf64_Half
  e_phnum :: Elf64_Half
  e_shentsize :: Elf64_Half
  e_shnum :: Elf64_Half
  e_shstrndx :: Elf64_Half

record Elf64_Shdr =
  sh_name :: Elf64_Word
  sh_type :: Elf64_Word
  sh_flags :: Elf64_Xword
  sh_addr :: Elf64_Addr
  sh_offset :: Elf64_Off
  sh_size :: Elf64_Xword
  sh_link :: Elf64_Word
  sh_info :: Elf64_Word
  sh_addralign :: Elf64_Xword
  sh_entsize :: Elf64_Xword

record Elf64_Sym =
  st_name :: Elf64_Word
  st_info :: byte
  st_other :: byte
  st_shndx :: Elf64_Half
  st_value :: Elf64_Addr
  st_size :: Elf64_Xword

record Elf64_Phdr =
  p_type :: Elf64_Word
  p_flags :: Elf64_Word
  p_offset :: Elf64_Off
  p_vaddr :: Elf64_Addr
  p_paddr :: Elf64_Addr
  p_filesz :: Elf64_Xword
  p_memsz :: Elf64_Xword
  p_align :: Elf64_Xword

record Elf64_Symbol =
  ey_Name :: string
  ey_Type :: nat
  ey_Address :: "64 word"
  ey_Size :: int

record Elf64_Section =
  es_name :: string
  es_s_type :: Elf64_Word
  es_flags :: Elf64_Xword
  es_addr :: Elf64_Addr
  es_data :: "byte list"
  es_loadable :: bool
  es_syms :: "Elf64_Symbol list"

definition ET_EXEC :: Elf64_Half where "ET_EXEC = 2"
definition EM_AMD64 :: Elf64_Half where "EM_AMD64 = 0x3E"
definition BITSIZE_64 :: byte where "BITSIZE_64 = 2"
definition ENDIAN_LITTLE :: byte where "ENDIAN_LITTLE = 1"
definition EV_CURRENT :: nat where "EV_CURRENT = 1"
definition ABI_SYSV :: byte where "ABI_SYSV = 0"
definition Elf64_EhdrSize :: nat where "Elf64_EhdrSize = 64"
definition Elf64_ShdrSize :: nat where "Elf64_ShdrSize = 64"
definition Elf64_SymSize :: nat where "Elf64_SymSize = 24"
definition Elf64_PhdrSize :: nat where "Elf64_PhdrSize = 56"
definition SHT_PROGBITS :: Elf64_Word where "SHT_PROGBITS = 1"
definition SHT_SYMTAB :: Elf64_Word where "SHT_SYMTAB = 2"
definition SHT_STRTAB :: Elf64_Word where "SHT_STRTAB = 3"
definition SHF_WRITE :: Elf64_Xword where "SHF_WRITE = 0x1"
definition SHF_ALLOC :: Elf64_Xword where "SHF_ALLOC = 0x2"
definition SHF_EXECINSTR :: Elf64_Xword where "SHF_EXECINSTR = 0x4"
definition STT_OBJECT :: byte where "STT_OBJECT = 1"
definition STT_FUNC :: byte where "STT_FUNC = 2"
definition PT_LOAD :: Elf64_Word where "PT_LOAD = 1"
definition PF_X :: Elf64_Word where "PF_X = 0x1"
definition PF_W :: Elf64_Word where "PF_W = 0x2"
definition PF_R :: Elf64_Word where "PF_R = 0x4"
definition ENTRY_ADDR :: "64 word" where "ENTRY_ADDR = 0x30000"

lemmas elf_consts =
  ET_EXEC_def EM_AMD64_def BITSIZE_64_def ENDIAN_LITTLE_def EV_CURRENT_def ABI_SYSV_def
  Elf64_EhdrSize_def Elf64_ShdrSize_def Elf64_SymSize_def Elf64_PhdrSize_def SHT_PROGBITS_def
  SHT_SYMTAB_def SHT_STRTAB_def SHF_WRITE_def SHF_ALLOC_def SHF_EXECINSTR_def STT_OBJECT_def
  STT_FUNC_def PT_LOAD_def PF_X_def PF_W_def PF_R_def ENTRY_ADDR_def

definition makeHeaderIdent :: Elf64_Ehdr_Ident where
  "makeHeaderIdent = \<lparr>i_magic = [0x7F, 0x45, 0x4C, 0x46], i_bitsize = BITSIZE_64, i_endian = ENDIAN_LITTLE,
     i_hVersion = of_nat EV_CURRENT, i_abi = ABI_SYSV, i_padding = 0\<rparr>"

section \<open>Bytes of a structure\<close>

text \<open>The fields of a structure with their widths in bytes.\<close>

definition struct_bytes :: "(nat \<times> nat) list \<Rightarrow> byte list" where
  "struct_bytes fs = concat (map (\<lambda>(n, x). le_bytes n x) fs)"

definition ehdr_bytes :: "Elf64_Ehdr \<Rightarrow> byte list" where
  "ehdr_bytes h = i_magic (e_ident h) @
     struct_bytes [(1, unat (i_bitsize (e_ident h))), (1, unat (i_endian (e_ident h))),
       (1, unat (i_hVersion (e_ident h))), (1, unat (i_abi (e_ident h))), (8, unat (i_padding (e_ident h))),
       (2, unat (e_type h)), (2, unat (e_machine h)), (4, unat (e_version h)), (8, unat (e_entry h)),
       (8, unat (e_phoff h)), (8, unat (e_shoff h)), (4, unat (e_flags h)), (2, unat (e_ehsize h)),
       (2, unat (e_phentsize h)), (2, unat (e_phnum h)), (2, unat (e_shentsize h)), (2, unat (e_shnum h)),
       (2, unat (e_shstrndx h))]"

definition shdr_bytes :: "Elf64_Shdr \<Rightarrow> byte list" where
  "shdr_bytes s = struct_bytes [(4, unat (sh_name s)), (4, unat (sh_type s)), (8, unat (sh_flags s)),
     (8, unat (sh_addr s)), (8, unat (sh_offset s)), (8, unat (sh_size s)), (4, unat (sh_link s)),
     (4, unat (sh_info s)), (8, unat (sh_addralign s)), (8, unat (sh_entsize s))]"

definition phdr_bytes :: "Elf64_Phdr \<Rightarrow> byte list" where
  "phdr_bytes p = struct_bytes [(4, unat (p_type p)), (4, unat (p_flags p)), (8, unat (p_offset p)),
     (8, unat (p_vaddr p)), (8, unat (p_paddr p)), (8, unat (p_filesz p)), (8, unat (p_memsz p)),
     (8, unat (p_align p))]"

definition sym_bytes :: "Elf64_Sym \<Rightarrow> byte list" where
  "sym_bytes y = struct_bytes [(4, unat (st_name y)), (1, unat (st_info y)), (1, unat (st_other y)),
     (2, unat (st_shndx y)), (8, unat (st_value y)), (8, unat (st_size y))]"

definition null_shdr :: Elf64_Shdr where
  "null_shdr = \<lparr>sh_name = 0, sh_type = 0, sh_flags = 0, sh_addr = 0, sh_offset = 0, sh_size = 0,
     sh_link = 0, sh_info = 0, sh_addralign = 0, sh_entsize = 0\<rparr>"

definition null_sym :: Elf64_Sym where
  "null_sym = \<lparr>st_name = 0, st_info = 0, st_other = 0, st_shndx = 0, st_value = 0, st_size = 0\<rparr>"

section \<open>String tables\<close>

record strtab =
  t_m :: "(string \<times> 32 word) list"
  t_bs :: "byte list"

definition newstrtab :: strtab where
  "newstrtab = \<lparr>t_m = [], t_bs = [0]\<rparr>"

definition StrOff :: "string \<Rightarrow> strtab \<Rightarrow> Elf64_Word \<times> strtab" where
  "StrOff s t = (case map_of (t_m t) s of
      Some off \<Rightarrow> (off, t)
    | None \<Rightarrow> (of_nat (length (t_bs t)),
        \<lparr>t_m = AList.update s (of_nat (length (t_bs t))) (t_m t), t_bs = t_bs t @ str_bytes s @ [0]\<rparr>))"

section \<open>Writing an executable\<close>

text \<open>Clearing the offset within a page.\<close>

definition page_mask :: "64 word \<Rightarrow> 64 word" where
  "page_mask a = and a (not 0xFFF)"

text \<open>The local variables of the loop over the sections.\<close>

record estate =
  w_dataOff :: Elf64_Off
  w_shdrs :: "Elf64_Shdr list"
  w_phdrs :: "Elf64_Phdr list"
  w_symbs :: "byte list"
  w_symcount :: nat
  w_shst :: strtab
  w_st :: strtab

definition sym_info :: "nat \<Rightarrow> byte" where
  "sym_info ty = (if ty = SYM_FUNC then STT_FUNC else if ty = SYM_OBJECT then STT_OBJECT else 0)"

definition put_symbol :: "nat \<Rightarrow> Elf64_Symbol \<Rightarrow> estate \<Rightarrow> estate" where
  "put_symbol secti y w =
     (let (off, st) = StrOff (ey_Name y) (w_st w) in
      w\<lparr>w_symbs := w_symbs w @ sym_bytes \<lparr>st_name = off, st_info = sym_info (ey_Type y), st_other = 0,
           st_shndx = of_nat (secti + 1), st_value = ey_Address y, st_size = of_int (ey_Size y)\<rparr>,
        w_symcount := w_symcount w + 1, w_st := st\<rparr>)"

definition section_phdr :: "Elf64_Off \<Rightarrow> Elf64_Section \<Rightarrow> Elf64_Phdr" where
  "section_phdr dataOff s =
     \<lparr>p_type = PT_LOAD,
      p_flags = (if and (es_flags s) SHF_EXECINSTR \<noteq> 0 then or PF_R PF_X
        else if and (es_flags s) SHF_WRITE \<noteq> 0 then or PF_R PF_W else PF_R),
      p_offset = dataOff, p_vaddr = es_addr s, p_paddr = es_addr s,
      p_filesz = of_nat (length (es_data s)), p_memsz = of_nat (length (es_data s)),
      p_align = (if and (es_flags s) SHF_EXECINSTR \<noteq> 0 then 0x1000 else 0x8)\<rparr>"

definition section_shdr :: "Elf64_Word \<Rightarrow> Elf64_Off \<Rightarrow> Elf64_Section \<Rightarrow> Elf64_Shdr" where
  "section_shdr off dataOff s =
     \<lparr>sh_name = off, sh_type = es_s_type s, sh_flags = es_flags s, sh_addr = es_addr s,
      sh_offset = dataOff, sh_size = of_nat (length (es_data s)), sh_link = 0, sh_info = 0,
      sh_addralign = (if es_loadable s \<and> and (es_flags s) SHF_EXECINSTR \<noteq> 0 then 0x1000 else 0x8),
      sh_entsize = 0\<rparr>"

definition put_section :: "nat \<Rightarrow> Elf64_Section \<Rightarrow> estate \<Rightarrow> estate" where
  "put_section secti s w =
     (let (off, shst) = StrOff (es_name s) (w_shst w);
          w = w\<lparr>w_shst := shst\<rparr>;
          w = (if es_loadable s
               then fold (put_symbol secti) (es_syms s) (w\<lparr>w_phdrs := w_phdrs w @ [section_phdr (w_dataOff w) s]\<rparr>)
               else w)
      in w\<lparr>w_dataOff := w_dataOff w + page_mask (of_nat (length (es_data s) + 0x1000)),
           w_shdrs := w_shdrs w @ [section_shdr off (w_dataOff w) s]\<rparr>)"

fun put_sections :: "nat \<Rightarrow> Elf64_Section list \<Rightarrow> estate \<Rightarrow> estate" where
  "put_sections secti [] w = w"
| "put_sections secti (s # ss) w = put_sections (secti + 1) ss (put_section secti s w)"

definition nphdrs :: "Elf64_Section list \<Rightarrow> nat" where
  "nphdrs sections = length (filter es_loadable sections)"

definition elf_header :: "Elf64_Section list \<Rightarrow> Elf64_Ehdr" where
  "elf_header sections =
     \<lparr>e_ident = makeHeaderIdent, e_type = ET_EXEC, e_machine = EM_AMD64, e_version = of_nat EV_CURRENT,
      e_entry = ENTRY_ADDR, e_phoff = of_nat Elf64_EhdrSize,
      e_shoff = of_nat Elf64_EhdrSize + of_nat Elf64_PhdrSize * of_nat (nphdrs sections),
      e_flags = 0, e_ehsize = of_nat Elf64_EhdrSize, e_phentsize = of_nat Elf64_PhdrSize,
      e_phnum = of_nat (nphdrs sections), e_shentsize = of_nat Elf64_ShdrSize,
      e_shnum = of_nat (length sections + 4), e_shstrndx = of_nat (length sections + 3)\<rparr>"

definition first_dataOff :: "Elf64_Section list \<Rightarrow> Elf64_Off" where
  "first_dataOff sections = page_mask (of_nat Elf64_EhdrSize + of_nat Elf64_PhdrSize * of_nat (nphdrs sections) +
     of_nat Elf64_ShdrSize * ucast (e_shnum (elf_header sections)) + 0x1000)"

definition start_estate :: "Elf64_Section list \<Rightarrow> estate" where
  "start_estate sections = \<lparr>w_dataOff = first_dataOff sections, w_shdrs = [], w_phdrs = [],
     w_symbs = sym_bytes null_sym, w_symcount = 1, w_shst = newstrtab, w_st = newstrtab\<rparr>"

text \<open>The symbol table and the two string tables, with the bytes of each, in the order they are written.\<close>

definition table_shdrs :: "Elf64_Ehdr \<Rightarrow> estate \<Rightarrow> (Elf64_Shdr \<times> byte list) list" where
  "table_shdrs elfHdr w =
     (let (off, shst) = StrOff ''.symtab'' (w_shst w);
          symSect = \<lparr>sh_name = off, sh_type = SHT_SYMTAB, sh_flags = 0, sh_addr = 0, sh_offset = w_dataOff w,
            sh_size = of_nat (length (w_symbs w)), sh_link = ucast (e_shstrndx elfHdr - 1),
            sh_info = of_nat (w_symcount w), sh_addralign = 0x8, sh_entsize = of_nat Elf64_SymSize\<rparr>;
          dataOff = w_dataOff w + page_mask (of_nat (length (w_symbs w) + 0x1000));
          (off, shst) = StrOff ''.strtab'' shst;
          strSect = \<lparr>sh_name = off, sh_type = SHT_STRTAB, sh_flags = 0, sh_addr = 0, sh_offset = dataOff,
            sh_size = of_nat (length (t_bs (w_st w))), sh_link = 0, sh_info = 0, sh_addralign = 0x1,
            sh_entsize = 0\<rparr>;
          dataOff = dataOff + page_mask (of_nat (length (t_bs (w_st w)) + 0x1000));
          (off, shst) = StrOff ''.shstrtab'' shst;
          shStrSect = \<lparr>sh_name = off, sh_type = SHT_STRTAB, sh_flags = 0, sh_addr = 0, sh_offset = dataOff,
            sh_size = of_nat (length (t_bs shst)), sh_link = 0, sh_info = 0, sh_addralign = 0x1,
            sh_entsize = 0\<rparr>
      in [(symSect, w_symbs w), (strSect, t_bs (w_st w)), (shStrSect, t_bs shst)])"

text \<open>\<open>WriteSection\<close> pads the file with zeros up to the target offset.\<close>

definition WriteSection :: "byte list \<Rightarrow> byte list \<Rightarrow> 64 word \<Rightarrow> byte list option" where
  "WriteSection f dat target_off =
     (let n = sint (target_off - of_nat (length f)) in
      if n < 0 \<or> n > maxAlloc then None else Some (f @ replicate (nat n) 0 @ dat))"

fun write_sections :: "(byte list \<times> Elf64_Off) list \<Rightarrow> byte list \<Rightarrow> byte list option" where
  "write_sections [] f = Some f"
| "write_sections ((dat, off) # ss) f = Option.bind (WriteSection f dat off) (write_sections ss)"

definition WriteElf :: "Elf64_Section list \<Rightarrow> byte list option" where
  "WriteElf sections =
     (let elfHdr = elf_header sections;
          w = put_sections 0 sections (start_estate sections);
          tables = table_shdrs elfHdr w;
          f = ehdr_bytes elfHdr @ concat (map phdr_bytes (w_phdrs w)) @
              shdr_bytes null_shdr @ concat (map shdr_bytes (w_shdrs w)) @
              concat (map (\<lambda>(s, _). shdr_bytes s) tables)
      in write_sections
           (zip (map es_data sections) (map sh_offset (w_shdrs w)) @ map (\<lambda>(s, dat). (dat, sh_offset s)) tables) f)"

section \<open>From the linker\<close>

definition SectSymsToElf64_Symbols :: "SectSym list \<Rightarrow> Elf64_Symbol list" where
  "SectSymsToElf64_Symbols syms = map (\<lambda>s.
     \<lparr>ey_Name = sm_Name s, ey_Type = sm_Type s, ey_Address = sm_Address s, ey_Size = sm_Size s\<rparr>) syms"

definition LinkedBinToElfSection :: "Section \<Rightarrow> Elf64_Section" where
  "LinkedBinToElfSection s =
     \<lparr>es_name = sec_Name s, es_s_type = SHT_PROGBITS,
      es_flags = (if sec_permission s = F_WRITE then or SHF_ALLOC SHF_WRITE
        else if sec_permission s = F_EXEC then or SHF_ALLOC SHF_EXECINSTR else SHF_ALLOC),
      es_addr = sec_Offset s, es_data = sec_val s, es_loadable = True,
      es_syms = SectSymsToElf64_Symbols (sec_symbols s)\<rparr>"

definition LinkedBinToElfSections :: "Section list \<Rightarrow> Elf64_Section list" where
  "LinkedBinToElfSections secs = map LinkedBinToElfSection secs"

definition MACHO :: int where "MACHO = 0"
definition ELF :: int where "ELF = 1"

definition platform_String :: "int \<Rightarrow> string" where
  "platform_String p = (if p = MACHO then ''MACH-O'' else ''UNKNOWN'')"

datatype exe_err = LinkFailed link_err | MachNotImplemented | WriteElfPanic | CannotWrite string

text \<open>\<open>LinkExe\<close> gives the bytes of the file written.\<close>

definition LinkExe :: "nat \<Rightarrow> ((string \<times> 32 word) list \<Rightarrow> (string \<times> 32 word) list) \<Rightarrow> int \<Rightarrow>
    OFile list \<Rightarrow> exe_err + byte list" where
  "LinkExe spare iter p os =
     (if p = MACHO then Inl MachNotImplemented
      else if p = ELF then (case Link spare iter os ENTRY_ADDR of
          Inl e \<Rightarrow> Inl (LinkFailed e)
        | Inr bin \<Rightarrow> (case WriteElf (LinkedBinToElfSections bin) of
            None \<Rightarrow> Inl WriteElfPanic | Some bs \<Rightarrow> Inr bs))
      else Inl (CannotWrite (platform_String p)))"

end
