(* ===== verification/ElfProps.thy ===== *)
theory ElfProps
  imports Elf
begin

text \<open>
  What is in an executable file: a reader of ELF-64 files, written from the format's documentation
  and not from \<open>elf64.go\<close>, finds in the bytes that \<open>WriteElf\<close> writes the sections, segments and
  symbols it was given, and what it loads into memory is what the linker laid out.
\<close>

section \<open>A reader of ELF files\<close>

fun read_fields :: "nat list \<Rightarrow> byte list \<Rightarrow> nat list" where
  "read_fields [] bs = []"
| "read_fields (n # ns) bs = le_nat (take n bs) # read_fields ns (drop n bs)"

text \<open>Fields of the file header behind the 16 bytes of identification.\<close>

definition hdr :: "byte list \<Rightarrow> nat list" where
  "hdr bs = read_fields [2, 2, 4, 8, 8, 8, 4, 2, 2, 2, 2, 2, 2] (drop 16 bs)"

definition x_entry :: "byte list \<Rightarrow> nat" where "x_entry bs = hdr bs ! 3"

definition well_marked :: "byte list \<Rightarrow> bool" where
  "well_marked bs \<longleftrightarrow> take 7 bs = [0x7F, 0x45, 0x4C, 0x46, 2, 1, 1] \<and> take 3 (hdr bs) = [2, 0x3E, 1]"

text \<open>The entries of a table of \<open>n\<close> records of \<open>esz\<close> bytes at \<open>off\<close>.\<close>

definition entries :: "nat list \<Rightarrow> nat \<Rightarrow> nat \<Rightarrow> nat \<Rightarrow> byte list \<Rightarrow> nat list list" where
  "entries ws off esz n bs = map (\<lambda>i. read_fields ws (drop (off + i * esz) bs)) [0..<n]"

text \<open>Program headers: type, flags, offset, vaddr, paddr, filesz, memsz, align.\<close>

definition x_phdrs :: "byte list \<Rightarrow> nat list list" where
  "x_phdrs bs = entries [4, 4, 8, 8, 8, 8, 8, 8] (hdr bs ! 4) (hdr bs ! 8) (hdr bs ! 9) bs"

text \<open>Section headers: name, type, flags, addr, offset, size, link, info, align, entsize.\<close>

definition x_shdrs :: "byte list \<Rightarrow> nat list list" where
  "x_shdrs bs = entries [4, 4, 8, 8, 8, 8, 4, 4, 8, 8] (hdr bs ! 5) (hdr bs ! 10) (hdr bs ! 11) bs"

text \<open>A name in a string table ends at the first zero.\<close>

definition cstr :: "byte list \<Rightarrow> nat \<Rightarrow> string" where
  "cstr tab off = bytes_str (takeWhile (\<lambda>b. b \<noteq> 0) (drop off tab))"

definition content :: "nat list \<Rightarrow> byte list \<Rightarrow> byte list" where
  "content sh bs = slice (sh ! 4) (sh ! 5) bs"

text \<open>Name, type, flags, address and contents of the sections.\<close>

definition x_sections :: "byte list \<Rightarrow> (string \<times> nat \<times> nat \<times> nat \<times> byte list) list" where
  "x_sections bs = (let names = content (x_shdrs bs ! (hdr bs ! 12)) bs in
     map (\<lambda>sh. (cstr names (sh ! 0), sh ! 1, sh ! 2, sh ! 3, content sh bs)) (x_shdrs bs))"

text \<open>The symbols of a symbol table: name, type, section index, value and size.\<close>

definition table_symbols :: "nat list \<Rightarrow> byte list \<Rightarrow> (string \<times> nat \<times> nat \<times> nat \<times> nat) list" where
  "table_symbols sh bs = (let names = content (x_shdrs bs ! (sh ! 6)) bs in
     map (\<lambda>y. (cstr names (y ! 0), y ! 1, y ! 3, y ! 4, y ! 5))
       (entries [4, 1, 1, 2, 8, 8] (sh ! 4) (sh ! 9) (sh ! 5 div sh ! 9) bs))"

text \<open>All symbols but the null symbol that every symbol table starts with.\<close>

definition x_symbols :: "byte list \<Rightarrow> (string \<times> nat \<times> nat \<times> nat \<times> nat) list" where
  "x_symbols bs = concat (map (\<lambda>sh. drop 1 (table_symbols sh bs)) (filter (\<lambda>sh. sh ! 1 = 2) (x_shdrs bs)))"

text \<open>What is loaded: address and bytes of each loadable segment.\<close>

definition x_segments :: "byte list \<Rightarrow> (nat \<times> byte list) list" where
  "x_segments bs = map (\<lambda>ph. (ph ! 3, slice (ph ! 2) (ph ! 5) bs)) (filter (\<lambda>ph. ph ! 0 = 1) (x_phdrs bs))"

fun loaded :: "(nat \<times> byte list) list \<Rightarrow> nat \<Rightarrow> nat \<Rightarrow> byte list option" where
  "loaded [] a n = None"
| "loaded ((v, bs) # segs) a n =
     (if v \<le> a \<and> a + n \<le> v + length bs then Some (slice (a - v) n bs) else loaded segs a n)"

section \<open>Structures read back\<close>

lemma struct_bytes_simps [simp]:
  "struct_bytes [] = []"
  "struct_bytes ((n, x) # fs) = le_bytes n x @ struct_bytes fs"
  by (simp_all add: struct_bytes_def)

lemma unat_width [simp]:
  "unat (a :: 8 word) mod 256 = unat a" "unat (b :: 16 word) mod 65536 = unat b"
  "unat (c :: 32 word) mod 4294967296 = unat c"
  "unat (d :: 64 word) mod 18446744073709551616 = unat d"
  using unsigned_less[of a, where ?'a = nat] unsigned_less[of b, where ?'a = nat]
    unsigned_less[of c, where ?'a = nat] unsigned_less[of d, where ?'a = nat] by simp_all

definition shdr_fields :: "Elf64_Shdr \<Rightarrow> nat list" where
  "shdr_fields s = [unat (sh_name s), unat (sh_type s), unat (sh_flags s), unat (sh_addr s), unat (sh_offset s),
     unat (sh_size s), unat (sh_link s), unat (sh_info s), unat (sh_addralign s), unat (sh_entsize s)]"

definition phdr_fields :: "Elf64_Phdr \<Rightarrow> nat list" where
  "phdr_fields p = [unat (p_type p), unat (p_flags p), unat (p_offset p), unat (p_vaddr p), unat (p_paddr p),
     unat (p_filesz p), unat (p_memsz p), unat (p_align p)]"

definition sym_fields :: "Elf64_Sym \<Rightarrow> nat list" where
  "sym_fields y = [unat (st_name y), unat (st_info y), unat (st_other y), unat (st_shndx y),
     unat (st_value y), unat (st_size y)]"

lemma read_shdr: "read_fields [4, 4, 8, 8, 8, 8, 4, 4, 8, 8] (shdr_bytes s @ rest) = shdr_fields s"
  by (simp add: shdr_bytes_def shdr_fields_def le_nat_le_bytes del: le_bytes.simps)

lemma read_phdr: "read_fields [4, 4, 8, 8, 8, 8, 8, 8] (phdr_bytes p @ rest) = phdr_fields p"
  by (simp add: phdr_bytes_def phdr_fields_def le_nat_le_bytes del: le_bytes.simps)

lemma read_sym: "read_fields [4, 1, 1, 2, 8, 8] (sym_bytes y @ rest) = sym_fields y"
  by (simp add: sym_bytes_def sym_fields_def le_nat_le_bytes del: le_bytes.simps)

lemma length_structs [simp]:
  "length (shdr_bytes s) = 64" "length (phdr_bytes p) = 56" "length (sym_bytes y) = 24"
  by (simp_all add: shdr_bytes_def phdr_bytes_def sym_bytes_def)

text \<open>The entries of a table written by concatenation.\<close>

lemma read_entries:
  assumes "\<And>x rest. read_fields ws (enc x @ rest) = dec x" and "\<And>x. length (enc x) = esz"
    and "length pre = off" "n = length xs"
  shows "entries ws off esz n (pre @ concat (map enc xs) @ rest) = map dec xs"
proof -
  have "read_fields ws (drop (off + i * esz) (pre @ concat (map enc xs) @ rest)) = dec (xs ! i)"
    if "i < length xs" for i
  proof -
    have l: "length (concat (map enc ys)) = length ys * esz" for ys
      using assms(2) by (induction ys) simp_all
    have split: "xs = take i xs @ xs ! i # drop (Suc i) xs" using that by (simp add: id_take_nth_drop)
    have "concat (map enc xs) = concat (map enc (take i xs)) @ enc (xs ! i) @ concat (map enc (drop (Suc i) xs))"
      by (subst split) simp
    moreover have "length (concat (map enc (take i xs))) = i * esz" using l that by simp
    ultimately show ?thesis using assms(1,3) by simp
  qed
  then show ?thesis using assms(4) by (auto simp: entries_def intro!: nth_equalityI)
qed

section \<open>String tables\<close>

text \<open>A name lies at an offset, with its terminating zero.\<close>

definition lies :: "byte list \<Rightarrow> 32 word \<Rightarrow> string \<Rightarrow> bool" where
  "lies bs off s \<longleftrightarrow> unat off + length s + 1 \<le> length bs \<and> slice (unat off) (length s + 1) bs = str_bytes s @ [0]"

definition strtab_ok :: "strtab \<Rightarrow> bool" where
  "strtab_ok t \<longleftrightarrow> (\<forall>s off. map_of (t_m t) s = Some off \<longrightarrow> lies (t_bs t) off s)"

lemma lies_append: "lies bs off s \<Longrightarrow> lies (bs @ ext) off s"
  by (auto simp: lies_def slice_def)

lemma strtab_ok_new [simp]: "strtab_ok newstrtab"
  by (simp add: strtab_ok_def newstrtab_def)

text \<open>What \<open>StrOff\<close> gives lies in the table, nothing moves, and the table grows by the name at most.\<close>

lemma StrOff_ok:
  assumes "strtab_ok t" "length (t_bs t) < 2 ^ 32" "StrOff s t = (off, t')"
  shows "strtab_ok t' \<and> lies (t_bs t') off s \<and> (\<exists>ext. t_bs t' = t_bs t @ ext \<and> length ext \<le> length s + 1)"
proof (cases "map_of (t_m t) s")
  case None
  let ?bs = "t_bs t @ str_bytes s @ [0]"
  have t': "t' = \<lparr>t_m = AList.update s off (t_m t), t_bs = ?bs\<rparr>" "off = of_nat (length (t_bs t))"
    using assms(3) None by (auto simp: StrOff_def)
  have "unat off = length (t_bs t)" using t'(2) assms(2) by (simp add: unat_of_nat)
  then have l: "lies ?bs off s" by (simp add: lies_def slice_def)
  moreover have "lies ?bs o' s'" if "map_of (t_m t) s' = Some o'" for s' o'
    using that assms(1) lies_append by (simp add: strtab_ok_def)
  ultimately show ?thesis using t' by (auto simp: strtab_ok_def update_conv' split: if_splits)
qed (use assms in \<open>auto simp: StrOff_def strtab_ok_def\<close>)

lemma str_bytes_nonzero: "CHR 0x00 \<notin> set s \<Longrightarrow> b \<in> set (str_bytes s) \<Longrightarrow> b \<noteq> 0"
proof
  assume a: "CHR 0x00 \<notin> set s" "b \<in> set (str_bytes s)" "b = 0"
  then obtain c where c: "c \<in> set s" "(word_of_nat (of_char c) :: byte) = 0" by (auto simp: str_bytes_def)
  then have "256 dvd (of_char c :: nat)" by (simp add: word_of_nat_eq_0_iff)
  moreover have "(of_char c :: nat) < 256" by (rule nat_of_char_less_256)
  ultimately have "(of_char c :: nat) = 0" using nat_dvd_not_less by blast
  then have "(of_char c :: nat) = of_char CHR 0x00" by simp
  then have "c = CHR 0x00" by (simp only: of_char_eq_iff)
  with a c show False by simp
qed

lemma cstr_lies:
  assumes "lies bs off s" "CHR 0x00 \<notin> set s"
  shows "cstr bs (unat off) = s"
proof -
  have "drop (unat off) bs = slice (unat off) (length s + 1) bs @ drop (unat off + length s + 1) bs"
    by (simp add: slice_def) (metis add.commute append_take_drop_id drop_drop plus_1_eq_Suc)
  then have d: "drop (unat off) bs = str_bytes s @ 0 # drop (unat off + length s + 1) bs"
    using assms(1) by (simp add: lies_def)
  have "takeWhile (\<lambda>b. b \<noteq> 0) (drop (unat off) bs) = str_bytes s"
    unfolding d using str_bytes_nonzero[OF assms(2)] by (subst takeWhile_append2) auto
  then show ?thesis by (simp add: cstr_def)
qed

section \<open>The loop over the sections\<close>

text \<open>The entry made for a symbol of the section with index \<open>i\<close>, its name in the table \<open>tab\<close>.\<close>

definition sym_entry :: "Elf64_Word \<Rightarrow> nat \<Rightarrow> Elf64_Symbol \<Rightarrow> Elf64_Sym" where
  "sym_entry off i y = \<lparr>st_name = off, st_info = sym_info (ey_Type y), st_other = 0,
     st_shndx = of_nat (i + 1), st_value = ey_Address y, st_size = of_int (ey_Size y)\<rparr>"

definition sym_made :: "byte list \<Rightarrow> nat \<times> Elf64_Symbol \<Rightarrow> Elf64_Sym \<Rightarrow> bool" where
  "sym_made tab iy z \<longleftrightarrow> (\<exists>off. z = sym_entry off (fst iy) (snd iy) \<and> lies tab off (ey_Name (snd iy)))"

definition shdr_made :: "byte list \<Rightarrow> Elf64_Off \<times> Elf64_Section \<Rightarrow> Elf64_Shdr \<Rightarrow> bool" where
  "shdr_made tab ds z \<longleftrightarrow> (\<exists>off. z = section_shdr off (fst ds) (snd ds) \<and> lies tab off (es_name (snd ds)))"

definition names_need :: "string list \<Rightarrow> nat" where
  "names_need ns = (\<Sum>n \<leftarrow> ns. length n + 1)"

lemma names_need_simps [simp]:
  "names_need [] = 0" "names_need (n # ns) = length n + 1 + names_need ns"
  "names_need (ns @ ms) = names_need ns + names_need ms"
  by (simp_all add: names_need_def)

text \<open>A string table that has grown from \<open>t\<close> to \<open>t'\<close> by at most \<open>n\<close> bytes.\<close>

definition grown :: "nat \<Rightarrow> strtab \<Rightarrow> strtab \<Rightarrow> bool" where
  "grown n t t' \<longleftrightarrow> strtab_ok t' \<and> (\<exists>ext. t_bs t' = t_bs t @ ext \<and> length ext \<le> n)"

lemma grown_refl: "strtab_ok t \<Longrightarrow> grown 0 t t"
  by (simp add: grown_def)

lemma grown_trans: "grown n t t' \<Longrightarrow> grown m t' t'' \<Longrightarrow> grown (n + m) t t''"
  by (fastforce simp: grown_def)

lemma grown_length: "grown n t t' \<Longrightarrow> length (t_bs t') \<le> length (t_bs t) + n"
  by (auto simp: grown_def)

lemma grown_ok: "grown n t t' \<Longrightarrow> strtab_ok t'"
  by (simp add: grown_def)

lemma grown_lies: "grown n t t' \<Longrightarrow> lies (t_bs t) off s \<Longrightarrow> lies (t_bs t') off s"
  by (auto simp: grown_def intro: lies_append)

lemma StrOff_grown:
  assumes "strtab_ok t" "length (t_bs t) < 2 ^ 32" "StrOff s t = (off, t')"
  shows "grown (length s + 1) t t' \<and> lies (t_bs t') off s"
  using StrOff_ok[OF assms] by (auto simp: grown_def)

lemma grown_syms: "grown n t t' \<Longrightarrow> sym_made (t_bs t) iy z \<Longrightarrow> sym_made (t_bs t') iy z"
  by (auto simp: sym_made_def intro: grown_lies)

lemma grown_shdrs: "grown n t t' \<Longrightarrow> shdr_made (t_bs t) ds z \<Longrightarrow> shdr_made (t_bs t') ds z"
  by (auto simp: shdr_made_def intro: grown_lies)

text \<open>The parts of the state that a symbol does not touch.\<close>

definition same_layout :: "estate \<Rightarrow> estate \<Rightarrow> bool" where
  "same_layout w w' \<longleftrightarrow> w_dataOff w' = w_dataOff w \<and> w_shdrs w' = w_shdrs w \<and> w_phdrs w' = w_phdrs w \<and>
     w_shst w' = w_shst w"

lemma put_symbols:
  fixes i :: nat and ys :: "Elf64_Symbol list" and w :: estate
  assumes "strtab_ok (w_st w)" "length (t_bs (w_st w)) + names_need (map ey_Name ys) \<le> 2 ^ 32"
  defines "w' \<equiv> fold (put_symbol i) ys w"
  shows "same_layout w w' \<and> grown (names_need (map ey_Name ys)) (w_st w) (w_st w') \<and>
    w_symcount w' = w_symcount w + length ys \<and>
    (\<exists>zs. w_symbs w' = w_symbs w @ concat (map sym_bytes zs) \<and>
      list_all2 (sym_made (t_bs (w_st w'))) (map (Pair i) ys) zs)"
  using assms(1,2) unfolding w'_def
proof (induction ys arbitrary: w)
  case (Cons y ys)
  obtain off st where so: "StrOff (ey_Name y) (w_st w) = (off, st)" by fastforce
  let ?w = "put_symbol i y w" and ?w' = "fold (put_symbol i) (y # ys) w"
  have w: "same_layout w ?w" "w_st ?w = st" "w_symcount ?w = w_symcount w + 1"
    "w_symbs ?w = w_symbs w @ sym_bytes (sym_entry off i y)"
    by (simp_all add: put_symbol_def so same_layout_def sym_entry_def)
  have g: "grown (length (ey_Name y) + 1) (w_st w) st" "lies (t_bs st) off (ey_Name y)"
    using StrOff_grown[OF Cons.prems(1) _ so] Cons.prems(2) by simp_all
  have "length (t_bs st) + names_need (map ey_Name ys) \<le> 2 ^ 32"
    using grown_length[OF g(1)] Cons.prems(2) by simp
  then obtain zs where
    IH: "same_layout ?w ?w'" "grown (names_need (map ey_Name ys)) st (w_st ?w')"
      "w_symcount ?w' = w_symcount w + 1 + length ys"
      "w_symbs ?w' = w_symbs ?w @ concat (map sym_bytes zs)"
      "list_all2 (sym_made (t_bs (w_st ?w'))) (map (Pair i) ys) zs"
    using Cons.IH[of ?w] grown_ok[OF g(1)] w(2,3) by auto
  have "sym_made (t_bs (w_st ?w')) (i, y) (sym_entry off i y)"
    using grown_lies[OF IH(2) g(2)] by (auto simp: sym_made_def)
  then have l: "list_all2 (sym_made (t_bs (w_st ?w'))) (map (Pair i) (y # ys)) (sym_entry off i y # zs)"
    using IH(5) by simp
  have b: "w_symbs ?w' = w_symbs w @ concat (map sym_bytes (sym_entry off i y # zs))"
    using IH(4) w(4) by simp
  have "same_layout w ?w'" using w(1) IH(1) by (simp add: same_layout_def)
  moreover have "grown (names_need (map ey_Name (y # ys))) (w_st w) (w_st ?w')"
    using grown_trans[OF g(1) IH(2)] by simp
  ultimately show ?case using IH(3) by (intro conjI exI[of _ "sym_entry off i y # zs"] l b) simp_all
qed (simp add: same_layout_def grown_refl)

text \<open>The file offsets the sections get, and the offset behind the last one.\<close>

definition next_off :: "Elf64_Off \<Rightarrow> byte list \<Rightarrow> Elf64_Off" where
  "next_off d dat = d + page_mask (of_nat (length dat + 0x1000))"

fun offs :: "Elf64_Off \<Rightarrow> byte list list \<Rightarrow> (byte list \<times> Elf64_Off) list" where
  "offs d [] = []"
| "offs d (dat # ds) = (dat, d) # offs (next_off d dat) ds"

definition end_off :: "Elf64_Off \<Rightarrow> byte list list \<Rightarrow> Elf64_Off" where
  "end_off d ds = fold (\<lambda>dat d. next_off d dat) ds d"

lemma end_off_simps [simp]: "end_off d [] = d" "end_off d (dat # ds) = end_off (next_off d dat) ds"
  by (simp_all add: end_off_def)

lemma offs_append: "offs d (ds @ es) = offs d ds @ offs (end_off d ds) es"
  by (induction ds arbitrary: d) simp_all

lemma offs_fst [simp]: "map fst (offs d ds) = ds" "length (offs d ds) = length ds"
  by (induction ds arbitrary: d) simp_all

text \<open>The sections with their offsets, and the symbols with the index of their section.\<close>

definition placed_sections :: "Elf64_Off \<Rightarrow> Elf64_Section list \<Rightarrow> (Elf64_Off \<times> Elf64_Section) list" where
  "placed_sections d ss = zip (map snd (offs d (map es_data ss))) ss"

fun loaded_syms :: "nat \<Rightarrow> Elf64_Section list \<Rightarrow> (nat \<times> Elf64_Symbol) list" where
  "loaded_syms i [] = []"
| "loaded_syms i (s # ss) = (if es_loadable s then map (Pair i) (es_syms s) else []) @ loaded_syms (i + 1) ss"

lemma placed_sections_simps [simp]:
  "placed_sections d [] = []"
  "placed_sections d (s # ss) = (d, s) # placed_sections (next_off d (es_data s)) ss"
  by (simp_all add: placed_sections_def)

text \<open>What the loop over the sections \<open>ss\<close>, the first having index \<open>i\<close>, does to the state.\<close>

definition sections_put :: "nat \<Rightarrow> Elf64_Section list \<Rightarrow> estate \<Rightarrow> estate \<Rightarrow> bool" where
  "sections_put i ss w w' \<longleftrightarrow>
     w_dataOff w' = end_off (w_dataOff w) (map es_data ss) \<and>
     w_phdrs w' = w_phdrs w @
       map (\<lambda>(d, s). section_phdr d s) (filter (es_loadable \<circ> snd) (placed_sections (w_dataOff w) ss)) \<and>
     w_symcount w' = w_symcount w + length (loaded_syms i ss) \<and>
     grown (names_need (map es_name ss)) (w_shst w) (w_shst w') \<and>
     grown (names_need (map (ey_Name \<circ> snd) (loaded_syms i ss))) (w_st w) (w_st w') \<and>
     (\<exists>zs. w_shdrs w' = w_shdrs w @ zs \<and>
       list_all2 (shdr_made (t_bs (w_shst w'))) (placed_sections (w_dataOff w) ss) zs) \<and>
     (\<exists>zs. w_symbs w' = w_symbs w @ concat (map sym_bytes zs) \<and>
       list_all2 (sym_made (t_bs (w_st w'))) (loaded_syms i ss) zs)"

lemma sections_put_trans:
  assumes a: "sections_put i [s] w w1" and b: "sections_put (i + 1) ss w1 w2"
  shows "sections_put i (s # ss) w w2"
proof -
  note a = a[unfolded sections_put_def] and b = b[unfolded sections_put_def]
  obtain zs zs' where z: "w_shdrs w1 = w_shdrs w @ zs" "w_shdrs w2 = w_shdrs w1 @ zs'"
    "list_all2 (shdr_made (t_bs (w_shst w1))) (placed_sections (w_dataOff w) [s]) zs"
    "list_all2 (shdr_made (t_bs (w_shst w2))) (placed_sections (w_dataOff w1) ss) zs'" using a b by blast
  obtain ys ys' where y: "w_symbs w1 = w_symbs w @ concat (map sym_bytes ys)"
    "w_symbs w2 = w_symbs w1 @ concat (map sym_bytes ys')"
    "list_all2 (sym_made (t_bs (w_st w1))) (loaded_syms i [s]) ys"
    "list_all2 (sym_made (t_bs (w_st w2))) (loaded_syms (i + 1) ss) ys'" using a b by blast
  have g: "grown (names_need (map es_name ss)) (w_shst w1) (w_shst w2)"
    "grown (names_need (map (ey_Name \<circ> snd) (loaded_syms (i + 1) ss))) (w_st w1) (w_st w2)" using b by simp_all
  have "list_all2 (shdr_made (t_bs (w_shst w2))) (placed_sections (w_dataOff w) [s]) zs"
    using list_all2_mono[OF z(3)] grown_shdrs[OF g(1)] by blast
  then have zz: "list_all2 (shdr_made (t_bs (w_shst w2))) (placed_sections (w_dataOff w) (s # ss)) (zs @ zs')"
    using list_all2_appendI[OF _ z(4)] a by fastforce
  have "list_all2 (sym_made (t_bs (w_st w2))) (loaded_syms i [s]) ys"
    using list_all2_mono[OF y(3)] grown_syms[OF g(2)] by blast
  then have yy: "list_all2 (sym_made (t_bs (w_st w2))) (loaded_syms i (s # ss)) (ys @ ys')"
    using list_all2_appendI[OF _ y(4)] by fastforce
  have "grown (names_need (map es_name (s # ss))) (w_shst w) (w_shst w2)"
    using a b grown_trans[of "names_need (map es_name [s])" "w_shst w"] by fastforce
  moreover have "grown (names_need (map (ey_Name \<circ> snd) (loaded_syms i (s # ss)))) (w_st w) (w_st w2)"
    using a b grown_trans[of "names_need (map (ey_Name \<circ> snd) (loaded_syms i [s]))" "w_st w"] by fastforce
  ultimately show ?thesis
    unfolding sections_put_def using a b z(1,2) y(1,2)
    by (intro conjI exI[of _ "zs @ zs'"] exI[of _ "ys @ ys'"] zz yy) simp_all
qed

lemma put_section:
  assumes st: "strtab_ok (w_shst w)" "strtab_ok (w_st w)"
    and n: "length (t_bs (w_shst w)) + names_need (map es_name [s]) \<le> 2 ^ 32"
      "length (t_bs (w_st w)) + names_need (map (ey_Name \<circ> snd) (loaded_syms i [s])) \<le> 2 ^ 32"
  shows "sections_put i [s] w (put_section i s w)"
proof -
  obtain off shst where so: "StrOff (es_name s) (w_shst w) = (off, shst)" by fastforce
  have g: "grown (length (es_name s) + 1) (w_shst w) shst" "lies (t_bs shst) off (es_name s)"
    using StrOff_grown[OF st(1) _ so] n(1) by simp_all
  let ?w = "if es_loadable s then w\<lparr>w_shst := shst, w_phdrs := w_phdrs w @ [section_phdr (w_dataOff w) s]\<rparr>
    else w\<lparr>w_shst := shst\<rparr>"
  let ?ys = "if es_loadable s then es_syms s else []"
  let ?w' = "fold (put_symbol i) ?ys ?w"
  have "loaded_syms i [s] = map (Pair i) ?ys" by simp
  then have nn: "names_need (map (ey_Name \<circ> snd) (loaded_syms i [s])) = names_need (map ey_Name ?ys)"
    by (simp only: map_map) (simp add: comp_def)
  obtain zs where f: "same_layout ?w ?w'" "grown (names_need (map ey_Name ?ys)) (w_st w) (w_st ?w')"
    "w_symcount ?w' = w_symcount w + length ?ys" "w_symbs ?w' = w_symbs w @ concat (map sym_bytes zs)"
    "list_all2 (sym_made (t_bs (w_st ?w'))) (loaded_syms i [s]) zs"
    using put_symbols[of ?w ?ys i] st(2) n(2) nn by (auto split: if_splits)
  have p: "put_section i s w = ?w'\<lparr>w_dataOff := next_off (w_dataOff ?w') (es_data s),
      w_shdrs := w_shdrs ?w' @ [section_shdr off (w_dataOff ?w') s]\<rparr>"
    by (simp add: put_section_def so next_off_def Let_def)
  have z: "list_all2 (shdr_made (t_bs shst)) (placed_sections (w_dataOff w) [s]) [section_shdr off (w_dataOff w) s]"
    using g(2) by (auto simp: shdr_made_def)
  show ?thesis
    unfolding sections_put_def nn
    using f(1-4) g(1) unfolding same_layout_def p
    by (intro conjI exI[of _ "[section_shdr off (w_dataOff w) s]"] exI[of _ zs])
      (use z f(5) in \<open>simp_all split: if_splits\<close>)
qed

lemma put_sections:
  assumes "strtab_ok (w_shst w)" "strtab_ok (w_st w)"
    "length (t_bs (w_shst w)) + names_need (map es_name ss) \<le> 2 ^ 32"
    "length (t_bs (w_st w)) + names_need (map (ey_Name \<circ> snd) (loaded_syms i ss)) \<le> 2 ^ 32"
  shows "sections_put i ss w (put_sections i ss w)"
  using assms
proof (induction i ss w rule: put_sections.induct)
  case (1 i w)
  then show ?case by (simp add: sections_put_def grown_refl)
next
  case (2 i s ss w)
  have one: "sections_put i [s] w (put_section i s w)"
    using 2(2-) by (intro put_section) (auto simp: comp_def split: if_splits)
  then have g: "grown (names_need (map es_name [s])) (w_shst w) (w_shst (put_section i s w))"
    "grown (names_need (map (ey_Name \<circ> snd) (loaded_syms i [s]))) (w_st w) (w_st (put_section i s w))"
    by (simp_all add: sections_put_def)
  have "sections_put (i + 1) ss (put_section i s w) (put_sections (i + 1) ss (put_section i s w))"
    using 2(4,5) grown_length[OF g(1)] grown_length[OF g(2)]
    by (intro 2(1) grown_ok[OF g(1)] grown_ok[OF g(2)]) (simp_all add: comp_def)
  then show ?case using sections_put_trans[OF one] by simp
qed

section \<open>Pages and padding\<close>

lemma unat_page_mask': "unat (page_mask a) = unat a div 4096 * 4096"
proof -
  have "(not 0xFFF :: 64 word) = not (mask 12)" "(0xFFFFFFFFFFFFF000 :: 64 word) = not (mask 12)"
    by (simp_all add: mask_eq_exp_minus_1)
  then show ?thesis unfolding page_mask_def using unat_page_mask by metis
qed

lemma unat_small: "n < 2 ^ 64 \<Longrightarrow> unat (of_nat n :: 64 word) = n"
  by (simp add: unat_of_nat)

lemma unat_small32: "n < 2 ^ 32 \<Longrightarrow> unat (of_nat n :: 32 word) = n"
  by (simp add: unat_of_nat)

lemma next_off_props:
  assumes "unat d mod 4096 = 0" "unat d + length dat + 4096 < 2 ^ 64"
  shows "unat d + length dat < unat (next_off d dat) \<and> unat (next_off d dat) \<le> unat d + length dat + 4096 \<and>
    unat (next_off d dat) mod 4096 = 0"
proof -
  let ?n = "length dat + 4096"
  have "unat (of_nat ?n :: 64 word) = ?n" by (rule unat_small) (use assms(2) in simp)
  then have m: "unat (page_mask (of_nat ?n)) = ?n div 4096 * 4096" by (simp only: unat_page_mask')
  have le: "?n div 4096 * 4096 \<le> ?n" by simp
  then have "unat d + unat (page_mask (of_nat ?n)) < 2 ^ 64" using m assms(2) by linarith
  then have "unat (next_off d dat) = unat d + ?n div 4096 * 4096"
    unfolding next_off_def m[symmetric] by (subst unat_add_lem[THEN iffD1]) simp_all
  moreover have "?n < ?n div 4096 * 4096 + 4096"
    using div_mult_mod_eq[of ?n 4096] mod_less_divisor[of 4096 ?n] by linarith
  ultimately show ?thesis using le assms(1) by (auto simp: mod_add_eq[symmetric])
qed

text \<open>Contents to be written at offsets that ascend without overlap, less than a page apart.\<close>

fun ascending :: "nat \<Rightarrow> (byte list \<times> Elf64_Off) list \<Rightarrow> bool" where
  "ascending pos [] = True"
| "ascending pos ((dat, off) # ds) \<longleftrightarrow> pos \<le> unat off \<and> unat off \<le> pos + 0x1000 \<and>
     unat off < 2 ^ 63 \<and> ascending (unat off + length dat) ds"

definition total_pages :: "byte list list \<Rightarrow> nat" where
  "total_pages ds = (\<Sum>dat \<leftarrow> ds. length dat + 0x1000)"

lemma total_pages_simps [simp]:
  "total_pages [] = 0" "total_pages (dat # ds) = length dat + 0x1000 + total_pages ds"
  "total_pages (ds @ es) = total_pages ds + total_pages es"
  by (simp_all add: total_pages_def)

lemma offs_ascending:
  assumes "unat d mod 4096 = 0" "pos \<le> unat d" "unat d \<le> pos + 0x1000" "unat d + total_pages ds < 2 ^ 63"
  shows "ascending pos (offs d ds)"
  using assms
proof (induction ds arbitrary: d pos)
  case (Cons dat ds)
  then show ?case using next_off_props[of d dat] by (auto intro!: Cons.IH)
qed simp

lemma offs_aligned:
  assumes "unat d mod 4096 = 0" "unat d + total_pages ds < 2 ^ 63" "(dat, off) \<in> set (offs d ds)"
  shows "unat off mod 4096 = 0"
  using assms
proof (induction ds arbitrary: d)
  case (Cons dat' ds)
  then show ?case using next_off_props[of d dat'] by (auto intro!: Cons.IH[of "next_off d dat'"])
qed simp

lemma WriteSection_pads:
  assumes "length f \<le> unat off" "unat off \<le> length f + 0x1000" "unat off < 2 ^ 63"
  shows "WriteSection f dat off = Some (f @ replicate (unat off - length f) 0 @ dat)"
proof -
  have "of_nat (length f) \<le> off" using assms(1,3) by (simp add: word_le_nat_alt unat_small)
  then have u: "unat (off - of_nat (length f)) = unat off - length f"
    using assms(1,3) by (simp add: unat_sub unat_small)
  have hi: "uint (off - of_nat (length f)) < 2 ^ 63" using u assms(3) by (simp add: uint_nat)
  have "- (2 ^ 63) \<le> uint (off - of_nat (length f))" by (rule order_trans[OF _ uint_ge_0]) simp
  from signed_take_bit_int_eq_self[OF this hi]
  have "sint (off - of_nat (length f)) = uint (off - of_nat (length f))" by (simp add: sint_uint)
  then have n: "sint (off - of_nat (length f)) = int (unat off - length f)" using u by (simp add: uint_nat)
  obtain k where "unat off - length f = k" "k \<le> 0x1000" using assms(2) by simp
  then show ?thesis unfolding WriteSection_def n by (simp add: maxAlloc_def)
qed

lemma write_sections_ok:
  assumes "ascending (length f) ds"
  shows "\<exists>tail. write_sections ds f = Some (f @ tail) \<and>
    (\<forall>(dat, off) \<in> set ds. length f \<le> unat off \<and> unat off + length dat \<le> length (f @ tail) \<and>
      slice (unat off) (length dat) (f @ tail) = dat)"
  using assms
proof (induction ds arbitrary: f)
  case (Cons d ds)
  obtain dat off where d: "d = (dat, off)" by fastforce
  let ?pad = "replicate (unat off - length f) (0 :: byte)"
  have a: "length f \<le> unat off" "unat off \<le> length f + 0x1000" "unat off < 2 ^ 63"
    "ascending (length (f @ ?pad @ dat)) ds"
    using Cons.prems d by auto
  obtain tail where t: "write_sections ds (f @ ?pad @ dat) = Some ((f @ ?pad @ dat) @ tail)"
    "\<forall>(dat', off') \<in> set ds. length (f @ ?pad @ dat) \<le> unat off' \<and>
       unat off' + length dat' \<le> length ((f @ ?pad @ dat) @ tail) \<and>
       slice (unat off') (length dat') ((f @ ?pad @ dat) @ tail) = dat'"
    using Cons.IH[OF a(4)] by blast
  have "length (f @ ?pad) = unat off" using a(1) by simp
  then have s: "slice (unat off) (length dat) (f @ ?pad @ dat @ tail) = dat"
    using slice_mid[of "f @ ?pad" dat tail] by (simp del: slice_mid)
  show ?case
    using t s a(1) WriteSection_pads[OF a(1-3)] unfolding d
    by (intro exI[of _ "?pad @ dat @ tail"]) fastforce
qed simp

section \<open>The file as a whole\<close>

definition elf_fits :: "Elf64_Section list \<Rightarrow> bool" where
  "elf_fits ss \<longleftrightarrow> length ss < 2 ^ 16 - 4 \<and> (\<Sum>s \<leftarrow> ss. length (es_data s)) < 2 ^ 62 \<and>
     names_need (map es_name ss) < 2 ^ 31 \<and>
     names_need (map (ey_Name \<circ> snd) (loaded_syms 0 ss)) < 2 ^ 31 \<and> length (loaded_syms 0 ss) < 2 ^ 31"

definition final_state :: "Elf64_Section list \<Rightarrow> estate" where
  "final_state ss = put_sections 0 ss (start_estate ss)"

definition final_tables :: "Elf64_Section list \<Rightarrow> (Elf64_Shdr \<times> byte list) list" where
  "final_tables ss = table_shdrs (elf_header ss) (final_state ss)"

definition file_contents :: "Elf64_Section list \<Rightarrow> byte list list" where
  "file_contents ss = map es_data ss @ map snd (final_tables ss)"

definition file_shdrs :: "Elf64_Section list \<Rightarrow> Elf64_Shdr list" where
  "file_shdrs ss = null_shdr # w_shdrs (final_state ss) @ map fst (final_tables ss)"

definition table_shdr :: "Elf64_Word \<Rightarrow> Elf64_Word \<Rightarrow> Elf64_Off \<Rightarrow> byte list \<Rightarrow> Elf64_Word \<Rightarrow> Elf64_Word \<Rightarrow>
    Elf64_Xword \<Rightarrow> Elf64_Xword \<Rightarrow> Elf64_Shdr" where
  "table_shdr off ty d dat lnk info al esz = \<lparr>sh_name = off, sh_type = ty, sh_flags = 0, sh_addr = 0,
     sh_offset = d, sh_size = of_nat (length dat), sh_link = lnk, sh_info = info, sh_addralign = al,
     sh_entsize = esz\<rparr>"

lemma StrOff_grows:
  assumes "StrOff s t = (off, t')" "strtab_ok t" "length (t_bs t) < 2 ^ 32" "length s + 1 = n"
  shows "grown n t t'" "lies (t_bs t') off s"
  using StrOff_grown[OF assms(2,3,1)] assms(4) by simp_all

lemma ucast_16_32: "n < 2 ^ 16 \<Longrightarrow> (ucast (of_nat n :: 16 word) :: 32 word) = of_nat n"
  by (rule word_unat_eq_iff[THEN iffD2]) (simp add: unsigned_ucast_eq unsigned_of_nat take_bit_nat_eq_self)

lemma ucast_16_64: "n < 2 ^ 16 \<Longrightarrow> (ucast (of_nat n :: 16 word) :: 64 word) = of_nat n"
  by (rule word_unat_eq_iff[THEN iffD2]) (simp add: unsigned_ucast_eq unsigned_of_nat take_bit_nat_eq_self)

lemma tables_made:
  assumes "strtab_ok (w_shst w)" "length (t_bs (w_shst w)) + 26 \<le> 2 ^ 32"
  defines "d \<equiv> w_dataOff w"
  defines "d1 \<equiv> next_off d (w_symbs w)"
  defines "d2 \<equiv> next_off d1 (t_bs (w_st w))"
  shows "\<exists>o1 o2 o3 shst. grown 26 (w_shst w) shst \<and>
    lies (t_bs shst) o1 ''.symtab'' \<and> lies (t_bs shst) o2 ''.strtab'' \<and> lies (t_bs shst) o3 ''.shstrtab'' \<and>
    table_shdrs h w =
      [(table_shdr o1 SHT_SYMTAB d (w_symbs w) (ucast (e_shstrndx h - 1)) (of_nat (w_symcount w)) 8 24, w_symbs w),
       (table_shdr o2 SHT_STRTAB d1 (t_bs (w_st w)) 0 0 1 0, t_bs (w_st w)),
       (table_shdr o3 SHT_STRTAB d2 (t_bs shst) 0 0 1 0, t_bs shst)]"
proof -
  obtain o1 t1 where t1: "StrOff ''.symtab'' (w_shst w) = (o1, t1)" by fastforce
  obtain o2 t2 where t2: "StrOff ''.strtab'' t1 = (o2, t2)" by fastforce
  obtain o3 t3 where t3: "StrOff ''.shstrtab'' t2 = (o3, t3)" by fastforce
  have g1: "grown 8 (w_shst w) t1" "lies (t_bs t1) o1 ''.symtab''"
    by (rule StrOff_grows[OF t1 assms(1), where n = 8]; use assms(2) in simp)+
  have g2: "grown 8 t1 t2" "lies (t_bs t2) o2 ''.strtab''"
    by (rule StrOff_grows[OF t2 grown_ok[OF g1(1)], where n = 8];
      use grown_length[OF g1(1)] assms(2) in simp)+
  have g3: "grown 10 t2 t3" "lies (t_bs t3) o3 ''.shstrtab''"
    by (rule StrOff_grows[OF t3 grown_ok[OF g2(1)], where n = 10];
      use grown_length[OF g1(1)] grown_length[OF g2(1)] assms(2) in simp)+
  have "grown 26 (w_shst w) t3" using grown_trans[OF grown_trans[OF g1(1) g2(1)] g3(1)] by simp
  moreover have "lies (t_bs t3) o1 ''.symtab''" "lies (t_bs t3) o2 ''.strtab''"
    using grown_lies[OF g3(1)] grown_lies[OF g2(1) g1(2)] g2(2) by simp_all
  moreover have "table_shdrs h w =
      [(table_shdr o1 SHT_SYMTAB d (w_symbs w) (ucast (e_shstrndx h - 1)) (of_nat (w_symcount w)) 8 24, w_symbs w),
       (table_shdr o2 SHT_STRTAB d1 (t_bs (w_st w)) 0 0 1 0, t_bs (w_st w)),
       (table_shdr o3 SHT_STRTAB d2 (t_bs t3) 0 0 1 0, t_bs t3)]"
    by (simp add: table_shdrs_def t1 t2 t3 table_shdr_def Elf64_SymSize_def d_def d1_def d2_def next_off_def Let_def)
  ultimately show ?thesis using g3(2) by blast
qed

lemma start_tables [simp]: "w_shst (start_estate ss) = newstrtab" "w_st (start_estate ss) = newstrtab"
  "w_shdrs (start_estate ss) = []" "w_phdrs (start_estate ss) = []" "w_symcount (start_estate ss) = 1"
  "w_symbs (start_estate ss) = sym_bytes null_sym" "w_dataOff (start_estate ss) = first_dataOff ss"
  "length (t_bs newstrtab) = 1"
  by (simp_all add: start_estate_def newstrtab_def)

lemma final_put: "elf_fits ss \<Longrightarrow> sections_put 0 ss (start_estate ss) (final_state ss)"
  unfolding final_state_def by (rule put_sections) (simp_all add: elf_fits_def)

text \<open>The tables behind the user's sections.\<close>

lemma final_tables_made:
  assumes "elf_fits ss"
  defines "w \<equiv> final_state ss"
  defines "d \<equiv> w_dataOff w"
  defines "d1 \<equiv> next_off d (w_symbs w)"
  defines "d2 \<equiv> next_off d1 (t_bs (w_st w))"
  shows "\<exists>o1 o2 o3 shst. grown 26 (w_shst w) shst \<and>
    lies (t_bs shst) o1 ''.symtab'' \<and> lies (t_bs shst) o2 ''.strtab'' \<and> lies (t_bs shst) o3 ''.shstrtab'' \<and>
    final_tables ss =
      [(table_shdr o1 SHT_SYMTAB d (w_symbs w) (of_nat (length ss + 2)) (of_nat (w_symcount w)) 8 24, w_symbs w),
       (table_shdr o2 SHT_STRTAB d1 (t_bs (w_st w)) 0 0 1 0, t_bs (w_st w)),
       (table_shdr o3 SHT_STRTAB d2 (t_bs shst) 0 0 1 0, t_bs shst)]"
proof -
  have g: "grown (names_need (map es_name ss)) newstrtab (w_shst w)"
    using final_put[OF assms(1)] by (simp add: w_def sections_put_def)
  have "length ss + 3 < 2 ^ 16" using assms(1) by (simp add: elf_fits_def)
  then have "e_shstrndx (elf_header ss) - 1 = of_nat (length ss + 2)" by (simp add: elf_header_def)
  moreover have "(ucast (of_nat (length ss + 2) :: 16 word) :: 32 word) = of_nat (length ss + 2)"
    by (rule ucast_16_32) (use \<open>length ss + 3 < 2 ^ 16\<close> in simp)
  moreover have "strtab_ok (w_shst w)" "length (t_bs (w_shst w)) + 26 \<le> 2 ^ 32"
    using grown_ok[OF g] grown_length[OF g] assms(1) by (simp_all add: elf_fits_def)
  ultimately show ?thesis
    using tables_made[of w "elf_header ss"] unfolding final_tables_def d_def d1_def d2_def w_def by metis
qed

text \<open>The length of the headers, and the offset of the first section.\<close>

definition head_length :: "Elf64_Section list \<Rightarrow> nat" where
  "head_length ss = 64 + 56 * nphdrs ss + 64 * (length ss + 4)"

lemma nphdrs_le: "nphdrs ss \<le> length ss"
  by (simp add: nphdrs_def)

lemma first_dataOff_props:
  assumes "length ss < 2 ^ 16 - 4"
  shows "head_length ss \<le> unat (first_dataOff ss) \<and> unat (first_dataOff ss) \<le> head_length ss + 4096 \<and>
    unat (first_dataOff ss) mod 4096 = 0 \<and> unat (first_dataOff ss) < 2 ^ 24"
proof -
  have "(ucast (of_nat (length ss + 4) :: 16 word) :: 64 word) = of_nat (length ss + 4)"
    by (rule ucast_16_64) (use assms in simp)
  then have "first_dataOff ss = page_mask (of_nat (head_length ss + 4096))"
    by (simp add: first_dataOff_def elf_header_def Elf64_EhdrSize_def Elf64_PhdrSize_def Elf64_ShdrSize_def
        head_length_def algebra_simps)
  moreover have b: "head_length ss + 4096 < 2 ^ 24"
    using assms nphdrs_le[of ss] by (simp add: head_length_def)
  ultimately have u: "unat (first_dataOff ss) = (head_length ss + 4096) div 4096 * 4096"
    by (simp add: unat_page_mask' unat_small del: of_nat_add)
  have "(head_length ss + 4096) div 4096 * 4096 \<le> head_length ss + 4096" by (rule div_times_less_eq_dividend)
  moreover have "head_length ss + 4096 < (head_length ss + 4096) div 4096 * 4096 + 4096"
    using div_mult_mod_eq[of "head_length ss + 4096" 4096] mod_less_divisor[of 4096 "head_length ss + 4096"]
    by linarith
  moreover have "unat (first_dataOff ss) mod 4096 = 0" unfolding u by (rule mod_mult_self2_is_0)
  ultimately show ?thesis using u b by (intro conjI) linarith+
qed

lemma placed_sections_fst: "map fst (placed_sections d ss) = map snd (offs d (map es_data ss))"
  by (simp add: placed_sections_def)

lemma shdr_made_offsets:
  assumes "list_all2 (shdr_made tab) (placed_sections d ss) zs"
  shows "map sh_offset zs = map snd (offs d (map es_data ss))"
proof -
  have "map sh_offset zs = map fst (placed_sections d ss)"
    using assms by (induction rule: list_all2_induct) (auto simp: shdr_made_def section_shdr_def)
  then show ?thesis by (simp add: placed_sections_fst)
qed

lemma zip_offs: "zip ds (map snd (offs d ds)) = offs d ds"
  by (induction ds arbitrary: d) simp_all

lemma loaded_syms_append_length: "length (concat (map sym_bytes zs)) = 24 * length zs"
  by (induction zs) simp_all

text \<open>What was set up for writing: the headers, and the contents with their offsets.\<close>

definition elf_head :: "Elf64_Section list \<Rightarrow> byte list" where
  "elf_head ss = ehdr_bytes (elf_header ss) @ concat (map phdr_bytes (w_phdrs (final_state ss))) @
     concat (map shdr_bytes (file_shdrs ss))"

lemma WriteElf_contents:
  assumes "elf_fits ss"
  shows "WriteElf ss = write_sections (offs (first_dataOff ss) (file_contents ss)) (elf_head ss)"
proof -
  let ?w = "final_state ss"
  have p: "sections_put 0 ss (start_estate ss) ?w" by (rule final_put[OF assms])
  then obtain zs where zs: "w_shdrs ?w = zs"
    "list_all2 (shdr_made (t_bs (w_shst ?w))) (placed_sections (first_dataOff ss) ss) zs"
    by (auto simp: sections_put_def)
  have "zip (map es_data ss) (map sh_offset (w_shdrs ?w)) = offs (first_dataOff ss) (map es_data ss)"
    unfolding zs(1) shdr_made_offsets[OF zs(2)] by (rule zip_offs)
  moreover have "end_off (first_dataOff ss) (map es_data ss) = w_dataOff ?w"
    using p by (simp add: sections_put_def)
  moreover obtain o1 o2 o3 and shst :: strtab where "final_tables ss =
      [(table_shdr o1 SHT_SYMTAB (w_dataOff ?w) (w_symbs ?w) (of_nat (length ss + 2)) (of_nat (w_symcount ?w)) 8 24, w_symbs ?w),
       (table_shdr o2 SHT_STRTAB (next_off (w_dataOff ?w) (w_symbs ?w)) (t_bs (w_st ?w)) 0 0 1 0, t_bs (w_st ?w)),
       (table_shdr o3 SHT_STRTAB (next_off (next_off (w_dataOff ?w) (w_symbs ?w)) (t_bs (w_st ?w))) (t_bs shst) 0 0 1 0, t_bs shst)]"
    using final_tables_made[OF assms] by blast
  then have "map (\<lambda>(s, dat). (dat, sh_offset s)) (final_tables ss) =
      offs (w_dataOff ?w) (map snd (final_tables ss))"
    by (simp add: table_shdr_def)
  ultimately have ct: "zip (map es_data ss) (map sh_offset (w_shdrs ?w)) @
      map (\<lambda>(s, dat). (dat, sh_offset s)) (final_tables ss) = offs (first_dataOff ss) (file_contents ss)"
    by (simp add: file_contents_def offs_append)
  have "concat (map (\<lambda>(s, _). shdr_bytes s) xs) = concat (map shdr_bytes (map fst xs))"
    for xs :: "(Elf64_Shdr \<times> byte list) list"
    by (simp add: comp_def case_prod_unfold)
  then have h: "ehdr_bytes (elf_header ss) @ concat (map phdr_bytes (w_phdrs ?w)) @ shdr_bytes null_shdr @
      concat (map shdr_bytes (w_shdrs ?w)) @ concat (map (\<lambda>(s, _). shdr_bytes s) (final_tables ss)) = elf_head ss"
    by (simp add: elf_head_def file_shdrs_def)
  show ?thesis
    unfolding WriteElf_def Let_def final_state_def[symmetric] final_tables_def[symmetric] ct h ..
qed

lemma placed_sections_snd [simp]: "map snd (placed_sections d ss) = ss" "length (placed_sections d ss) = length ss"
  by (simp_all add: placed_sections_def)

lemma length_phdrs:
  assumes "elf_fits ss"
  shows "length (w_phdrs (final_state ss)) = nphdrs ss"
proof -
  have "length (filter (es_loadable \<circ> snd) xs) = length (filter es_loadable (map snd xs))"
    for xs :: "(Elf64_Off \<times> Elf64_Section) list"
    by (simp add: filter_map)
  from this[of "placed_sections _ ss"]
  have "length (filter (es_loadable \<circ> snd) (placed_sections d ss)) = nphdrs ss" for d
    by (simp only: nphdrs_def placed_sections_snd)
  then show ?thesis using final_put[OF assms] by (simp add: sections_put_def)
qed

lemma length_shdrs:
  assumes "elf_fits ss"
  shows "length (file_shdrs ss) = length ss + 4"
proof -
  have "length (w_shdrs (final_state ss)) = length ss"
    using final_put[OF assms] by (auto simp: sections_put_def dest: list_all2_lengthD)
  moreover have "length (final_tables ss) = 3" using final_tables_made[OF assms] by auto
  ultimately show ?thesis by (simp add: file_shdrs_def)
qed

lemma length_concat_const: "(\<And>x. length (f x) = k) \<Longrightarrow> length (concat (map f xs)) = k * length xs"
  by (induction xs) simp_all

lemma length_ehdr: "length (ehdr_bytes (elf_header ss)) = 64"
  by (simp add: ehdr_bytes_def elf_header_def makeHeaderIdent_def del: le_bytes.simps)

lemma length_head: "elf_fits ss \<Longrightarrow> length (elf_head ss) = head_length ss"
  by (simp add: elf_head_def length_ehdr length_concat_const length_phdrs length_shdrs head_length_def)

text \<open>Nothing comes near the limits of 64-bit offsets.\<close>

lemma contents_bound:
  assumes "elf_fits ss"
  shows "2 ^ 24 + total_pages (file_contents ss) < 2 ^ 63"
proof -
  let ?w = "final_state ss"
  have p: "sections_put 0 ss (start_estate ss) ?w" by (rule final_put[OF assms])
  have d: "total_pages (map es_data xs) = (\<Sum>s \<leftarrow> xs. length (es_data s)) + 4096 * length xs" for xs
    by (induction xs) simp_all
  obtain zs where zs: "w_symbs ?w = sym_bytes null_sym @ concat (map sym_bytes zs)"
      "list_all2 (sym_made (t_bs (w_st ?w))) (loaded_syms 0 ss) zs"
    using p by (auto simp: sections_put_def)
  then have y: "length (w_symbs ?w) = 24 + 24 * length (loaded_syms 0 ss)"
    by (simp add: length_concat_const list_all2_lengthD)
  obtain shst :: strtab where sh: "grown 26 (w_shst ?w) shst"
    "map snd (final_tables ss) = [w_symbs ?w, t_bs (w_st ?w), t_bs shst]"
    using final_tables_made[OF assms] by auto
  have g: "grown (names_need (map es_name ss)) newstrtab (w_shst ?w)"
    "grown (names_need (map (ey_Name \<circ> snd) (loaded_syms 0 ss))) newstrtab (w_st ?w)"
    using p by (simp_all add: sections_put_def)
  have "length (t_bs shst) < 2 ^ 32" "length (t_bs (w_st ?w)) < 2 ^ 32"
    using grown_length[OF g(1)] grown_length[OF g(2)] grown_length[OF sh(1)] assms
    by (simp_all add: elf_fits_def)
  moreover have "length (w_symbs ?w) < 2 ^ 37" using y assms by (simp add: elf_fits_def)
  ultimately show ?thesis
    using assms by (simp add: file_contents_def sh(2) d elf_fits_def)
qed

lemma file_written:
  assumes "elf_fits ss"
  shows "\<exists>tail. WriteElf ss = Some (elf_head ss @ tail) \<and>
    (\<forall>(dat, off) \<in> set (offs (first_dataOff ss) (file_contents ss)).
      length (elf_head ss) \<le> unat off \<and> unat off + length dat \<le> length (elf_head ss @ tail) \<and>
      slice (unat off) (length dat) (elf_head ss @ tail) = dat)"
  unfolding WriteElf_contents[OF assms]
proof (rule write_sections_ok)
  have "length ss < 2 ^ 16 - 4" using assms by (simp add: elf_fits_def)
  from first_dataOff_props[OF this]
  show "ascending (length (elf_head ss)) (offs (first_dataOff ss) (file_contents ss))"
    using length_head[OF assms] contents_bound[OF assms] by (intro offs_ascending) simp_all
qed

section \<open>Reading the headers back\<close>

lemma read_ehdr:
  assumes "i_magic (e_ident h) = [0x7F, 0x45, 0x4C, 0x46]"
  shows "hdr (ehdr_bytes h @ rest) = [unat (e_type h), unat (e_machine h), unat (e_version h), unat (e_entry h),
      unat (e_phoff h), unat (e_shoff h), unat (e_flags h), unat (e_ehsize h), unat (e_phentsize h),
      unat (e_phnum h), unat (e_shentsize h), unat (e_shnum h), unat (e_shstrndx h)]"
proof -
  let ?id = "i_magic (e_ident h) @ struct_bytes [(1, unat (i_bitsize (e_ident h))), (1, unat (i_endian (e_ident h))),
       (1, unat (i_hVersion (e_ident h))), (1, unat (i_abi (e_ident h))), (8, unat (i_padding (e_ident h)))]"
  let ?fs = "[(2, unat (e_type h)), (2, unat (e_machine h)), (4, unat (e_version h)), (8, unat (e_entry h)),
       (8, unat (e_phoff h)), (8, unat (e_shoff h)), (4, unat (e_flags h)), (2, unat (e_ehsize h)),
       (2, unat (e_phentsize h)), (2, unat (e_phnum h)), (2, unat (e_shentsize h)), (2, unat (e_shnum h)),
       (2, unat (e_shstrndx h))]"
  have "ehdr_bytes h @ rest = ?id @ struct_bytes ?fs @ rest" by (simp add: ehdr_bytes_def)
  moreover have "length ?id = 16" using assms by (simp del: le_bytes.simps)
  ultimately have "drop 16 (ehdr_bytes h @ rest) = struct_bytes ?fs @ rest"
    by (simp del: struct_bytes_simps)
  then show ?thesis
    unfolding hdr_def by (simp add: le_nat_le_bytes del: le_bytes.simps)
qed

lemma hdr_written:
  assumes "elf_fits ss"
  shows "hdr (elf_head ss @ tail) = [2, 0x3E, 1, 0x30000, 64, 64 + 56 * nphdrs ss, 0, 64, 56, nphdrs ss, 64,
    length ss + 4, length ss + 3]"
proof -
  have b: "length ss + 4 < 65536" "nphdrs ss < 65536" using assms nphdrs_le[of ss] by (simp_all add: elf_fits_def)
  have w: "unat (of_nat n :: 16 word) = n" if "n < 65536" for n
    using that by (simp add: unsigned_of_nat take_bit_nat_eq_self)
  have "of_nat Elf64_EhdrSize + of_nat Elf64_PhdrSize * of_nat (nphdrs ss) = (of_nat (64 + 56 * nphdrs ss) :: 64 word)"
    by (simp add: Elf64_EhdrSize_def Elf64_PhdrSize_def)
  moreover have "unat (of_nat (64 + 56 * nphdrs ss) :: 64 word) = 64 + 56 * nphdrs ss"
    by (rule unat_small) (use b in simp)
  ultimately have off: "unat (e_shoff (elf_header ss)) = 64 + 56 * nphdrs ss" by (simp add: elf_header_def)
  have "i_magic (e_ident (elf_header ss)) = [0x7F, 0x45, 0x4C, 0x46]"
    by (simp add: elf_header_def makeHeaderIdent_def)
  from read_ehdr[OF this] show ?thesis
    using off w[of "length ss + 4"] w[of "length ss + 3"] w[of "nphdrs ss"] b
    by (simp add: elf_head_def elf_header_def elf_consts del: of_nat_add)
qed

lemma phdrs_written:
  assumes "elf_fits ss"
  shows "x_phdrs (elf_head ss @ tail) = map phdr_fields (w_phdrs (final_state ss))"
proof -
  have "entries [4, 4, 8, 8, 8, 8, 8, 8] 64 56 (nphdrs ss)
      (ehdr_bytes (elf_header ss) @ concat (map phdr_bytes (w_phdrs (final_state ss))) @
       concat (map shdr_bytes (file_shdrs ss)) @ tail) = map phdr_fields (w_phdrs (final_state ss))"
    by (rule read_entries[of _ phdr_bytes phdr_fields, OF read_phdr]) (simp_all add: length_ehdr length_phdrs[OF assms])
  then show ?thesis using hdr_written[OF assms, of tail] by (simp add: x_phdrs_def elf_head_def)
qed

lemma shdrs_written:
  assumes "elf_fits ss"
  shows "x_shdrs (elf_head ss @ tail) = map shdr_fields (file_shdrs ss)"
proof -
  have "entries [4, 4, 8, 8, 8, 8, 4, 4, 8, 8] (64 + 56 * nphdrs ss) 64 (length ss + 4)
      ((ehdr_bytes (elf_header ss) @ concat (map phdr_bytes (w_phdrs (final_state ss)))) @
       concat (map shdr_bytes (file_shdrs ss)) @ tail) = map shdr_fields (file_shdrs ss)"
    by (rule read_entries[of _ shdr_bytes shdr_fields, OF read_shdr])
      (simp_all add: length_ehdr length_phdrs[OF assms] length_shdrs[OF assms] length_concat_const)
  then show ?thesis using hdr_written[OF assms, of tail] by (simp add: x_shdrs_def elf_head_def)
qed

section \<open>Reading the contents back\<close>

lemma list_all2_map_eq:
  "list_all2 R xs zs \<Longrightarrow> (\<And>x z. x \<in> set xs \<Longrightarrow> R x z \<Longrightarrow> f z = g x) \<Longrightarrow> map f zs = map g xs"
  by (induction rule: list_all2_induct) auto

lemma placed_sections_offs: "(d, s) \<in> set (placed_sections d0 ss) \<Longrightarrow> (es_data s, d) \<in> set (offs d0 (map es_data ss))"
  by (induction ss arbitrary: d0) auto

lemma placed_sections_mem: "(d, s) \<in> set (placed_sections d0 ss) \<Longrightarrow> s \<in> set ss"
  by (metis image_eqI list.set_map placed_sections_snd(1) snd_conv)

lemma data_bound:
  assumes "elf_fits ss" "s \<in> set ss"
  shows "unat (of_nat (length (es_data s)) :: 64 word) = length (es_data s)"
proof (rule unat_small)
  have "length (es_data s) \<le> (\<Sum>s \<leftarrow> ss. length (es_data s))"
    using assms(2) by (intro member_le_sum_list) auto
  then show "length (es_data s) < 2 ^ 64" using assms(1) by (simp add: elf_fits_def)
qed

text \<open>A file that holds the contents at their offsets, behind the headers.\<close>

definition holds_elf :: "Elf64_Section list \<Rightarrow> byte list \<Rightarrow> bool" where
  "holds_elf ss bs \<longleftrightarrow> elf_fits ss \<and> (\<exists>tail. bs = elf_head ss @ tail) \<and>
    (\<forall>(dat, off) \<in> set (offs (first_dataOff ss) (file_contents ss)).
      unat off + length dat \<le> length bs \<and> slice (unat off) (length dat) bs = dat)"

lemma WriteElf_holds: "elf_fits ss \<Longrightarrow> \<exists>bs. WriteElf ss = Some bs \<and> holds_elf ss bs"
  using file_written[of ss] by (fastforce simp: holds_elf_def)

lemma holds_headers:
  assumes "holds_elf ss bs"
  shows "hdr bs = [2, 0x3E, 1, 0x30000, 64, 64 + 56 * nphdrs ss, 0, 64, 56, nphdrs ss, 64, length ss + 4, length ss + 3]"
    "x_phdrs bs = map phdr_fields (w_phdrs (final_state ss))"
    "x_shdrs bs = map shdr_fields (file_shdrs ss)"
  using assms hdr_written phdrs_written shdrs_written by (auto simp: holds_elf_def)

lemma holds_marked:
  assumes "holds_elf ss bs"
  shows "well_marked bs"
proof -
  obtain tail where "bs = elf_head ss @ tail" using assms by (auto simp: holds_elf_def)
  then have "take 7 bs = [0x7F, 0x45, 0x4C, 0x46, 2, 1, 1]"
    by (simp add: elf_head_def ehdr_bytes_def elf_header_def makeHeaderIdent_def elf_consts)
  then show ?thesis by (simp add: well_marked_def holds_headers[OF assms])
qed

lemma holds_section:
  assumes "holds_elf ss bs" "(d, s) \<in> set (placed_sections (first_dataOff ss) ss)"
  shows "unat d + length (es_data s) \<le> length bs" "slice (unat d) (length (es_data s)) bs = es_data s"
  using assms placed_sections_offs[OF assms(2)] by (fastforce simp: holds_elf_def file_contents_def offs_append)+

definition table_at :: "byte list \<Rightarrow> Elf64_Off \<Rightarrow> byte list \<Rightarrow> bool" where
  "table_at bs d dat \<longleftrightarrow> unat (of_nat (length dat) :: 64 word) = length dat \<and>
     unat d + length dat \<le> length bs \<and> slice (unat d) (length dat) bs = dat"

text \<open>The three tables of a file, with the names they hold.\<close>

lemma holds_tables:
  assumes "holds_elf ss bs"
  shows "\<exists>o1 o2 o3 d1 d2 d3 shst n. grown n (w_shst (final_state ss)) shst \<and>
    lies (t_bs shst) o1 ''.symtab'' \<and> lies (t_bs shst) o2 ''.strtab'' \<and> lies (t_bs shst) o3 ''.shstrtab'' \<and>
    map fst (final_tables ss) =
      [table_shdr o1 SHT_SYMTAB d1 (w_symbs (final_state ss)) (of_nat (length ss + 2))
         (of_nat (w_symcount (final_state ss))) 8 24,
       table_shdr o2 SHT_STRTAB d2 (t_bs (w_st (final_state ss))) 0 0 1 0,
       table_shdr o3 SHT_STRTAB d3 (t_bs shst) 0 0 1 0] \<and>
    table_at bs d1 (w_symbs (final_state ss)) \<and> table_at bs d2 (t_bs (w_st (final_state ss))) \<and>
    table_at bs d3 (t_bs shst)"
proof -
  have e: "elf_fits ss" using assms by (simp add: holds_elf_def)
  let ?w = "final_state ss"
  let ?d1 = "next_off (w_dataOff ?w) (w_symbs ?w)"
  let ?d2 = "next_off ?d1 (t_bs (w_st ?w))"
  obtain o1 o2 o3 and shst :: strtab where t: "grown 26 (w_shst ?w) shst"
    "lies (t_bs shst) o1 ''.symtab''" "lies (t_bs shst) o2 ''.strtab''" "lies (t_bs shst) o3 ''.shstrtab''"
    "final_tables ss =
      [(table_shdr o1 SHT_SYMTAB (w_dataOff ?w) (w_symbs ?w) (of_nat (length ss + 2)) (of_nat (w_symcount ?w)) 8 24, w_symbs ?w),
       (table_shdr o2 SHT_STRTAB ?d1 (t_bs (w_st ?w)) 0 0 1 0, t_bs (w_st ?w)),
       (table_shdr o3 SHT_STRTAB ?d2 (t_bs shst) 0 0 1 0, t_bs shst)]"
    using final_tables_made[OF e] by blast
  have "end_off (first_dataOff ss) (map es_data ss) = w_dataOff ?w"
    using final_put[OF e] by (simp add: sections_put_def)
  then have "offs (first_dataOff ss) (file_contents ss) = offs (first_dataOff ss) (map es_data ss) @
      [(w_symbs ?w, w_dataOff ?w), (t_bs (w_st ?w), ?d1), (t_bs shst, ?d2)]"
    by (simp add: file_contents_def offs_append t(5))
  then have s: "unat d + length dat \<le> length bs \<and> slice (unat d) (length dat) bs = dat"
    if "(dat, d) \<in> {(w_symbs ?w, w_dataOff ?w), (t_bs (w_st ?w), ?d1), (t_bs shst, ?d2)}" for d dat
    using that assms by (fastforce simp: holds_elf_def)
  have "total_pages (map snd (final_tables ss)) < 2 ^ 63"
    using contents_bound[OF e] by (simp add: file_contents_def)
  then have u: "unat (of_nat (length dat) :: 64 word) = length dat"
    if "dat \<in> {w_symbs ?w, t_bs (w_st ?w), t_bs shst}" for dat
    using that t(5) by (intro unat_small) auto
  have "table_at bs (w_dataOff ?w) (w_symbs ?w)" "table_at bs ?d1 (t_bs (w_st ?w))" "table_at bs ?d2 (t_bs shst)"
    using s[of "w_symbs ?w"] s[of "t_bs (w_st ?w)"] s[of "t_bs shst"] by (simp_all add: u table_at_def)
  moreover have "map fst (final_tables ss) =
      [table_shdr o1 SHT_SYMTAB (w_dataOff ?w) (w_symbs ?w) (of_nat (length ss + 2)) (of_nat (w_symcount ?w)) 8 24,
       table_shdr o2 SHT_STRTAB ?d1 (t_bs (w_st ?w)) 0 0 1 0, table_shdr o3 SHT_STRTAB ?d2 (t_bs shst) 0 0 1 0]"
    by (simp add: t(5))
  ultimately show ?thesis using t(1-4)
    by - (rule exI[of _ o1], rule exI[of _ o2], rule exI[of _ o3], rule exI[of _ "w_dataOff ?w"],
        rule exI[of _ ?d1], rule exI[of _ ?d2], rule exI[of _ shst], rule exI[of _ 26], intro conjI; assumption)
qed

lemma slice_0 [simp]: "slice off 0 bs = []"
  by (simp add: slice_def)

lemma shdr_fields_sel [simp]:
  "shdr_fields s ! 0 = unat (sh_name s)" "shdr_fields s ! Suc 0 = unat (sh_type s)"
  "shdr_fields s ! 2 = unat (sh_flags s)" "shdr_fields s ! 3 = unat (sh_addr s)"
  "shdr_fields s ! 4 = unat (sh_offset s)" "shdr_fields s ! 5 = unat (sh_size s)"
  "shdr_fields s ! 6 = unat (sh_link s)" "shdr_fields s ! 9 = unat (sh_entsize s)"
  by (simp_all add: shdr_fields_def)

lemma content_fields: "content (shdr_fields s) bs = slice (unat (sh_offset s)) (unat (sh_size s)) bs"
  by (simp add: content_def)

lemma table_shdr_sel [simp]:
  "sh_name (table_shdr off ty d dat lnk info al esz) = off" "sh_type (table_shdr off ty d dat lnk info al esz) = ty"
  "sh_offset (table_shdr off ty d dat lnk info al esz) = d"
  "sh_size (table_shdr off ty d dat lnk info al esz) = of_nat (length dat)"
  "sh_link (table_shdr off ty d dat lnk info al esz) = lnk"
  "sh_entsize (table_shdr off ty d dat lnk info al esz) = esz"
  by (simp_all add: table_shdr_def)

lemma cstr_start: "grown n newstrtab t \<Longrightarrow> cstr (t_bs t) 0 = ''''"
  by (auto simp: grown_def newstrtab_def cstr_def bytes_str_def)

lemma section_read:
  assumes h: "holds_elf ss bs" and n: "\<forall>s \<in> set ss. CHR 0x00 \<notin> set (es_name s)"
    and z: "shdr_made names (d, s) z" and m: "(d, s) \<in> set (placed_sections (first_dataOff ss) ss)"
  shows "(cstr names (unat (sh_name z)), unat (sh_type z), unat (sh_flags z), unat (sh_addr z), content (shdr_fields z) bs) =
    (es_name s, unat (es_s_type s), unat (es_flags s), unat (es_addr s), es_data s)"
proof -
  obtain off where off: "z = section_shdr off d s" "lies names off (es_name s)"
    using z by (auto simp: shdr_made_def)
  have s: "s \<in> set ss" by (rule placed_sections_mem[OF m])
  have "elf_fits ss" using h by (simp add: holds_elf_def)
  from data_bound[OF this s] show ?thesis
    using cstr_lies[OF off(2)] n s holds_section(2)[OF h m] by (simp add: off(1) section_shdr_def content_fields)
qed

definition section_view :: "Elf64_Section \<Rightarrow> string \<times> nat \<times> nat \<times> nat \<times> byte list" where
  "section_view s = (es_name s, unat (es_s_type s), unat (es_flags s), unat (es_addr s), es_data s)"

lemma holds_sections:
  assumes h: "holds_elf ss bs" and n: "\<forall>s \<in> set ss. CHR 0x00 \<notin> set (es_name s)"
  shows "\<exists>tabs. x_sections bs = ('''', 0, 0, 0, []) # map section_view ss @ tabs \<and>
    map fst tabs = [''.symtab'', ''.strtab'', ''.shstrtab'']"
proof -
  let ?w = "final_state ss"
  have e: "elf_fits ss" using h by (simp add: holds_elf_def)
  obtain o1 o2 o3 d1 d2 d3 shst k where t: "grown k (w_shst ?w) shst"
    "lies (t_bs shst) o1 ''.symtab''" "lies (t_bs shst) o2 ''.strtab''" "lies (t_bs shst) o3 ''.shstrtab''"
    "map fst (final_tables ss) =
      [table_shdr o1 SHT_SYMTAB d1 (w_symbs ?w) (of_nat (length ss + 2)) (of_nat (w_symcount ?w)) 8 24,
       table_shdr o2 SHT_STRTAB d2 (t_bs (w_st ?w)) 0 0 1 0, table_shdr o3 SHT_STRTAB d3 (t_bs shst) 0 0 1 0]"
    "table_at bs d3 (t_bs shst)"
    using holds_tables[OF h] by (elim exE conjE) (rule that)
  have p: "sections_put 0 ss (start_estate ss) ?w" by (rule final_put[OF e])
  obtain zs where zs: "w_shdrs ?w = zs"
    "list_all2 (shdr_made (t_bs (w_shst ?w))) (placed_sections (first_dataOff ss) ss) zs"
    using p by (auto simp: sections_put_def)
  have lz: "length zs = length ss" using list_all2_lengthD[OF zs(2)] by simp
  let ?names = "t_bs shst"
  let ?view = "\<lambda>z. (cstr ?names (unat (sh_name z)), unat (sh_type z), unat (sh_flags z), unat (sh_addr z),
    content (shdr_fields z) bs)"
  have "list_all2 (shdr_made ?names) (placed_sections (first_dataOff ss) ss) zs"
    using list_all2_mono[OF zs(2)] grown_shdrs[OF t(1)] by blast
  then have "map ?view zs = map (section_view \<circ> snd) (placed_sections (first_dataOff ss) ss)"
    by (rule list_all2_map_eq) (use section_read[OF h n] in \<open>auto simp: section_view_def\<close>)
  also have "\<dots> = map section_view ss" by (simp flip: map_map)
  finally have v: "map ?view zs = map section_view ss" .
  have sh: "x_shdrs bs = map shdr_fields (null_shdr # zs @ map fst (final_tables ss))"
    by (simp add: holds_headers(3)[OF h] file_shdrs_def zs(1))
  have "x_shdrs bs ! (length ss + 3) = shdr_fields (table_shdr o3 SHT_STRTAB d3 ?names 0 0 1 0)"
    using lz by (simp add: sh t(5) nth_append)
  then have names: "content (x_shdrs bs ! (hdr bs ! 12)) bs = ?names"
    using t(6) by (simp add: holds_headers(1)[OF h] content_fields table_at_def)
  have "grown (names_need (map es_name ss) + k) newstrtab shst"
    using grown_trans[OF _ t(1)] p by (simp add: sections_put_def)
  then have "?view null_shdr = ('''', 0, 0, 0, [])" by (simp add: null_shdr_def cstr_start content_fields)
  moreover have "x_sections bs = map (\<lambda>sh. (cstr ?names (sh ! 0), sh ! 1, sh ! 2, sh ! 3, content sh bs)) (x_shdrs bs)"
    by (simp only: x_sections_def Let_def names)
  then have "x_sections bs = map ?view (null_shdr # zs @ map fst (final_tables ss))"
    unfolding sh map_map by simp
  ultimately have "x_sections bs = ('''', 0, 0, 0, []) # map section_view ss @ map ?view (map fst (final_tables ss))"
    using v by simp
  moreover have "map fst (map ?view (map fst (final_tables ss))) = [''.symtab'', ''.strtab'', ''.shstrtab'']"
    using cstr_lies[OF t(2)] cstr_lies[OF t(3)] cstr_lies[OF t(4)] by (simp add: t(5))
  ultimately show ?thesis by (intro exI[of _ "map ?view (map fst (final_tables ss))"] conjI)
qed

text \<open>Symbols.\<close>

definition sym_view :: "nat \<times> Elf64_Symbol \<Rightarrow> string \<times> nat \<times> nat \<times> nat \<times> nat" where
  "sym_view iy = (case iy of (i, y) \<Rightarrow>
     (ey_Name y, unat (sym_info (ey_Type y)), i + 1, unat (ey_Address y), unat (of_int (ey_Size y) :: 64 word)))"

lemma loaded_syms_index: "(i, y) \<in> set (loaded_syms i0 ss) \<Longrightarrow> i < i0 + length ss"
  by (induction i0 ss rule: loaded_syms.induct) (auto split: if_splits)

lemma symbol_read:
  assumes "sym_made names (i, y) z" "CHR 0x00 \<notin> set (ey_Name y)" "i + 1 < 2 ^ 16"
  shows "(cstr names (sym_fields z ! 0), sym_fields z ! 1, sym_fields z ! 3, sym_fields z ! 4, sym_fields z ! 5) =
    sym_view (i, y)"
proof -
  obtain off where off: "z = sym_entry off i y" "lies names off (ey_Name y)"
    using assms(1) by (auto simp: sym_made_def)
  have "unat (of_nat (i + 1) :: 16 word) = i + 1"
    using assms(3) by (simp add: unsigned_of_nat take_bit_nat_eq_self del: of_nat_Suc of_nat_add)
  then show ?thesis
    using cstr_lies[OF off(2) assms(2)] by (simp add: off(1) sym_entry_def sym_fields_def sym_view_def)
qed

lemma entries_at:
  assumes "unat d + length (concat (map enc xs)) \<le> length bs" "slice (unat d) (length (concat (map enc xs))) bs = concat (map enc xs)"
    and "\<And>x rest. read_fields ws (enc x @ rest) = dec x" and "\<And>x. length (enc x) = esz" and "n = length xs"
  shows "entries ws (unat d) esz n bs = map dec xs"
proof -
  let ?c = "concat (map enc xs)"
  have "drop (unat d) bs = take (length ?c) (drop (unat d) bs) @ drop (length ?c) (drop (unat d) bs)"
    by (simp only: append_take_drop_id)
  then have "bs = take (unat d) bs @ ?c @ drop (length ?c) (drop (unat d) bs)"
    using assms(2) by (metis append_take_drop_id slice_def)
  moreover have "entries ws (unat d) esz n (take (unat d) bs @ ?c @ drop (length ?c) (drop (unat d) bs)) = map dec xs"
    by (rule read_entries[of ws enc dec, OF assms(3,4) _ assms(5)]) (use assms(1) in simp)
  ultimately show ?thesis by simp
qed

lemma holds_symbols:
  assumes h: "holds_elf ss bs" and ty: "\<forall>s \<in> set ss. es_s_type s \<noteq> SHT_SYMTAB"
    and n: "\<forall>(i, y) \<in> set (loaded_syms 0 ss). CHR 0x00 \<notin> set (ey_Name y)"
  shows "x_symbols bs = map sym_view (loaded_syms 0 ss)"
proof -
  let ?w = "final_state ss"
  have e: "elf_fits ss" using h by (simp add: holds_elf_def)
  obtain o1 o2 o3 d1 d2 d3 shst k where t: "grown k (w_shst ?w) shst"
    "lies (t_bs shst) o1 ''.symtab''" "lies (t_bs shst) o2 ''.strtab''" "lies (t_bs shst) o3 ''.shstrtab''"
    "map fst (final_tables ss) =
      [table_shdr o1 SHT_SYMTAB d1 (w_symbs ?w) (of_nat (length ss + 2)) (of_nat (w_symcount ?w)) 8 24,
       table_shdr o2 SHT_STRTAB d2 (t_bs (w_st ?w)) 0 0 1 0, table_shdr o3 SHT_STRTAB d3 (t_bs shst) 0 0 1 0]"
    "table_at bs d1 (w_symbs ?w)" "table_at bs d2 (t_bs (w_st ?w))"
    using holds_tables[OF h] by (elim exE conjE) (rule that)
  let ?names = "t_bs (w_st ?w)"
  let ?T = "table_shdr o1 SHT_SYMTAB d1 (w_symbs ?w) (of_nat (length ss + 2)) (of_nat (w_symcount ?w)) 8 24"
  have p: "sections_put 0 ss (start_estate ss) ?w" by (rule final_put[OF e])
  obtain zs where zs: "w_shdrs ?w = zs"
    "list_all2 (shdr_made (t_bs (w_shst ?w))) (placed_sections (first_dataOff ss) ss) zs"
    using p by (auto simp: sections_put_def)
  obtain ys where ys: "w_symbs ?w = concat (map sym_bytes (null_sym # ys))"
    "list_all2 (sym_made ?names) (loaded_syms 0 ss) ys"
    using p by (auto simp: sections_put_def)
  have sh: "x_shdrs bs = map shdr_fields (null_shdr # zs @ map fst (final_tables ss))"
    by (simp add: holds_headers(3)[OF h] file_shdrs_def zs(1))
  have lnk: "unat (of_nat (length ss + 2) :: 32 word) = length ss + 2"
    by (rule unat_small32) (use e in \<open>simp add: elf_fits_def\<close>)
  have "x_shdrs bs ! (length ss + 2) = shdr_fields (table_shdr o2 SHT_STRTAB d2 ?names 0 0 1 0)"
    using list_all2_lengthD[OF zs(2)] by (simp add: sh t(5) nth_append)
  then have names: "content (x_shdrs bs ! (shdr_fields ?T ! 6)) bs = ?names"
    using t(7) lnk by (simp add: content_fields table_at_def)
  have "map sh_type zs = map (es_s_type \<circ> snd) (placed_sections (first_dataOff ss) ss)"
    by (rule list_all2_map_eq[OF zs(2)]) (auto simp: shdr_made_def section_shdr_def)
  then have "set (map sh_type zs) = es_s_type ` set ss" by (simp flip: map_map)
  then have "\<forall>z \<in> set zs. sh_type z \<noteq> SHT_SYMTAB" using ty by (metis (no_types, lifting) image_iff list.set_map)
  then have "filter (\<lambda>sh. sh ! 1 = 2) (map shdr_fields zs) = []"
    by (auto simp: filter_empty_conv SHT_SYMTAB_def word_unat_eq_iff)
  then have one: "filter (\<lambda>sh. sh ! 1 = 2) (x_shdrs bs) = [shdr_fields ?T]"
    by (simp add: sh t(5) null_shdr_def SHT_SYMTAB_def SHT_STRTAB_def)
  have "entries [4, 1, 1, 2, 8, 8] (unat d1) 24 (Suc (length ys)) bs = map sym_fields (null_sym # ys)"
    by (rule entries_at[of d1 sym_bytes _ bs _ sym_fields, OF _ _ read_sym])
      (use t(6) in \<open>simp_all add: table_at_def ys(1)\<close>)
  moreover have "shdr_fields ?T ! 5 div shdr_fields ?T ! 9 = Suc (length ys)"
    using t(6) by (simp add: table_at_def ys(1) length_concat_const)
  ultimately have es: "entries [4, 1, 1, 2, 8, 8] (shdr_fields ?T ! 4) (shdr_fields ?T ! 9)
      (shdr_fields ?T ! 5 div shdr_fields ?T ! 9) bs = map sym_fields (null_sym # ys)" by simp
  let ?f = "\<lambda>y. (cstr ?names (y ! 0), y ! 1, y ! 3, y ! 4, y ! 5)"
  have "x_symbols bs = drop 1 (table_symbols (shdr_fields ?T) bs)" unfolding x_symbols_def one by simp
  also have "table_symbols (shdr_fields ?T) bs = map ?f (map sym_fields (null_sym # ys))"
    by (simp only: table_symbols_def Let_def names es)
  finally have "x_symbols bs = map (\<lambda>z. ?f (sym_fields z)) ys" by (simp add: comp_def)
  also have "\<dots> = map sym_view (loaded_syms 0 ss)"
  proof (rule list_all2_map_eq[OF ys(2)])
    fix iy z assume iy: "iy \<in> set (loaded_syms 0 ss)" "sym_made ?names iy z"
    obtain i y where "iy = (i, y)" by fastforce
    moreover from this have "i + 1 < 2 ^ 16" using iy(1) loaded_syms_index[of i y 0 ss] e by (simp add: elf_fits_def)
    ultimately show "(cstr ?names (sym_fields z ! 0), sym_fields z ! 1, sym_fields z ! 3,
      sym_fields z ! 4, sym_fields z ! 5) = sym_view iy" using symbol_read iy n by auto
  qed
  finally show ?thesis .
qed

text \<open>Segments.\<close>

lemma holds_segments:
  assumes h: "holds_elf ss bs"
  shows "x_segments bs = map (\<lambda>s. (unat (es_addr s), es_data s)) (filter es_loadable ss)"
    "\<forall>ph \<in> set (x_phdrs bs). ph ! 2 mod 0x1000 = 0"
proof -
  have e: "elf_fits ss" using h by (simp add: holds_elf_def)
  let ?ps = "placed_sections (first_dataOff ss) ss"
  have ph: "x_phdrs bs = map (\<lambda>(d, s). phdr_fields (section_phdr d s)) (filter (es_loadable \<circ> snd) ?ps)"
    using final_put[OF e] by (simp add: holds_headers(2)[OF h] sections_put_def comp_def case_prod_unfold)
  have "x_segments bs = map (\<lambda>(d, s). (unat (es_addr s), es_data s)) (filter (es_loadable \<circ> snd) ?ps)"
  proof -
    have "(\<lambda>ph. (ph ! 3, slice (ph ! 2) (ph ! 5) bs)) (phdr_fields (section_phdr d s)) = (unat (es_addr s), es_data s)"
      if "(d, s) \<in> set ?ps" for d s
      using holds_section[OF h that] data_bound[OF e placed_sections_mem[OF that]]
      by (simp add: phdr_fields_def section_phdr_def)
    moreover have "phdr_fields (section_phdr d s) ! 0 = 1" for d s
      by (simp add: phdr_fields_def section_phdr_def PT_LOAD_def)
    ultimately show ?thesis unfolding x_segments_def ph by (auto simp: filter_map comp_def case_prod_unfold)
  qed
  also have "\<dots> = map (\<lambda>s. (unat (es_addr s), es_data s)) (filter es_loadable (map snd ?ps))"
    by (simp add: filter_map comp_def case_prod_unfold del: placed_sections_snd)
  finally show "x_segments bs = map (\<lambda>s. (unat (es_addr s), es_data s)) (filter es_loadable ss)" by simp
  have "unat d mod 0x1000 = 0" if "(d, s) \<in> set ?ps" for d s
  proof -
    have "(es_data s, d) \<in> set (offs (first_dataOff ss) (file_contents ss))"
      using placed_sections_offs[OF that] by (simp add: file_contents_def offs_append)
    then show ?thesis
      using offs_aligned[of "first_dataOff ss" "file_contents ss" "es_data s" d] first_dataOff_props[of ss] contents_bound[OF e] e
      by (simp add: elf_fits_def)
  qed
  then show "\<forall>ph \<in> set (x_phdrs bs). ph ! 2 mod 0x1000 = 0"
    unfolding ph by (auto simp: phdr_fields_def section_phdr_def)
qed

section \<open>Properties\<close>

definition sample_sections :: "Elf64_Section list" where
  "sample_sections =
     [\<lparr>es_name = ''.text'', es_s_type = SHT_PROGBITS, es_flags = or SHF_ALLOC SHF_EXECINSTR, es_addr = 0x30000,
        es_data = [0x90, 0xC3], es_loadable = True,
        es_syms = [\<lparr>ey_Name = ''_init.start'', ey_Type = SYM_FUNC, ey_Address = 0x30000, ey_Size = 2\<rparr>]\<rparr>,
      \<lparr>es_name = ''.note'', es_s_type = 7, es_flags = 0, es_addr = 0, es_data = [1], es_loadable = False, es_syms = []\<rparr>,
      \<lparr>es_name = ''.data'', es_s_type = SHT_PROGBITS, es_flags = or SHF_ALLOC SHF_WRITE, es_addr = 0x31000,
        es_data = [], es_loadable = True,
        es_syms = [\<lparr>ey_Name = ''main.x'', ey_Type = SYM_OBJECT, ey_Address = 0x31000, ey_Size = 0\<rparr>]\<rparr>]"

lemma sample_elf_fits: "elf_fits sample_sections"
  by (simp add: elf_fits_def sample_sections_def)

text \<open>C35. ELF writer, sections: writing sections that fit the format's fields does not panic; in the
  file a reader finds the magic number, the entry address 0x30000, and, behind the null section, every
  section with its name, type, flags, address and contents, followed by the three tables.\<close>

theorem WriteElf_sections:
  assumes "elf_fits ss" "\<forall>s \<in> set ss. CHR 0x00 \<notin> set (es_name s)"
  shows "\<exists>bs tabs. WriteElf ss = Some bs \<and> well_marked bs \<and> x_entry bs = 0x30000 \<and>
    x_sections bs = ('''', 0, 0, 0, []) # map section_view ss @ tabs \<and>
    map fst tabs = [''.symtab'', ''.strtab'', ''.shstrtab'']"
proof -
  obtain bs where bs: "WriteElf ss = Some bs" "holds_elf ss bs" using WriteElf_holds[OF assms(1)] by blast
  obtain tabs where "x_sections bs = ('''', 0, 0, 0, []) # map section_view ss @ tabs"
    "map fst tabs = [''.symtab'', ''.strtab'', ''.shstrtab'']"
    using holds_sections[OF bs(2) assms(2)] by (elim exE conjE) (rule that)
  moreover have "x_entry bs = 0x30000" by (simp add: x_entry_def holds_headers(1)[OF bs(2)])
  ultimately show ?thesis using bs(1) holds_marked[OF bs(2)] by (intro exI[of _ bs] exI[of _ tabs] conjI)
qed

theorem WriteElf_sections_witness:
  "\<exists>bs tabs. WriteElf sample_sections = Some bs \<and> x_entry bs = 0x30000 \<and>
    x_sections bs = [('''', 0, 0, 0, []), (''.text'', 1, 6, 0x30000, [0x90, 0xC3]), (''.note'', 7, 0, 0, [1]),
      (''.data'', 1, 3, 0x31000, [])] @ tabs \<and> length tabs = 3"
proof -
  have "\<forall>s \<in> set sample_sections. CHR 0x00 \<notin> set (es_name s)" by (simp add: sample_sections_def)
  from WriteElf_sections[OF sample_elf_fits this] obtain bs tabs where t: "WriteElf sample_sections = Some bs"
    "x_entry bs = 0x30000" "x_sections bs = ('''', 0, 0, 0, []) # map section_view sample_sections @ tabs"
    "map fst tabs = [''.symtab'', ''.strtab'', ''.shstrtab'']" by (elim exE conjE) (rule that)
  from arg_cong[OF t(4), of length] have "length tabs = 3" by simp
  moreover have "('''', 0, 0, 0, []) # map section_view sample_sections =
      [('''', 0, 0, 0, []), (''.text'', 1, 6, 0x30000, [0x90, 0xC3]), (''.note'', 7, 0, 0, [1]),
      (''.data'', 1, 3, 0x31000, [])]"
    by (simp add: sample_sections_def section_view_def elf_consts)
  ultimately show ?thesis using t(1-3) by (metis append_Cons)
qed

text \<open>ELF writer, symbols: the symbol table of the file lists the symbols of the loadable sections
  in order, each with its name, type, the index of its section, address and size.\<close>

theorem WriteElf_symbols:
  assumes "elf_fits ss" "\<forall>s \<in> set ss. es_s_type s \<noteq> SHT_SYMTAB"
    and "\<forall>(i, y) \<in> set (loaded_syms 0 ss). CHR 0x00 \<notin> set (ey_Name y)" and "WriteElf ss = Some bs"
  shows "x_symbols bs = map sym_view (loaded_syms 0 ss)"
  using WriteElf_holds[OF assms(1)] holds_symbols[OF _ assms(2,3)] assms(4) by auto

theorem WriteElf_symbols_witness:
  "\<exists>bs. WriteElf sample_sections = Some bs \<and>
    x_symbols bs = [(''_init.start'', 2, 1, 0x30000, 2), (''main.x'', 1, 3, 0x31000, 0)]"
proof -
  obtain bs where bs: "WriteElf sample_sections = Some bs" using WriteElf_holds[OF sample_elf_fits] by blast
  have "\<forall>s \<in> set sample_sections. es_s_type s \<noteq> SHT_SYMTAB"
    "\<forall>(i, y) \<in> set (loaded_syms 0 sample_sections). CHR 0x00 \<notin> set (ey_Name y)"
    by (simp_all add: sample_sections_def SHT_SYMTAB_def SHT_PROGBITS_def)
  from WriteElf_symbols[OF sample_elf_fits this bs] show ?thesis
    using bs by (simp add: sample_sections_def sym_view_def sym_info_def SYM_FUNC_def SYM_OBJECT_def elf_consts)
qed

text \<open>C36. ELF writer, segments: each loadable section is a segment that loads exactly its contents at
  its address, from a file offset on a page boundary.\<close>

theorem WriteElf_segments:
  assumes "elf_fits ss" "WriteElf ss = Some bs"
  shows "x_segments bs = map (\<lambda>s. (unat (es_addr s), es_data s)) (filter es_loadable ss) \<and>
    (\<forall>ph \<in> set (x_phdrs bs). ph ! 2 mod 0x1000 = 0)"
  using WriteElf_holds[OF assms(1)] holds_segments[of ss bs] assms(2) by auto

theorem WriteElf_segments_witness:
  "\<exists>bs. WriteElf sample_sections = Some bs \<and>
    x_segments bs = [(0x30000, [0x90, 0xC3]), (0x31000, [])]"
proof -
  obtain bs where bs: "WriteElf sample_sections = Some bs" using WriteElf_holds[OF sample_elf_fits] by blast
  from WriteElf_segments[OF sample_elf_fits this] show ?thesis
    using bs by (simp add: sample_sections_def)
qed

end
