(* ===== verification/Exe.thy ===== *)
theory Exe
  imports ElfProps
begin

text \<open>
  \<open>LinkExe\<close>, from object files to the executable: the file written by \<open>WriteElf\<close> for what \<open>Link\<close>
  returns loads the linker's image and starts at the entry function.

  Bounds: besides those of the linker, the names of all definitions take less than 2 GB and hold no
  NUL character (\<open>exe_names\<close>), because string tables have 32-bit offsets and NUL-terminated names.
\<close>

section \<open>The entry function comes first\<close>

lemma follow_funclocs: "follow g off rs st = Inr st' \<Longrightarrow> l_funclocs st' = l_funclocs st"
proof (induction g off rs st rule: follow.induct)
  case (2 g off r rs st)
  then obtain st1 where st1: "place g [r_Symbol r] st = Inr st1"
    "follow g off rs (st1\<lparr>l_relocations := l_relocations st1 @ [shift_reloc off r]\<rparr>) = Inr st'"
    by (auto simp: reference_def rbind_eq_Inr split: if_splits)
  then have "l_funclocs st' = l_funclocs (st1\<lparr>l_relocations := l_relocations st1 @ [shift_reloc off r]\<rparr>)"
    using 2 by (auto simp: reference_def split: if_splits)
  then show ?case using place_code[OF st1(1)] by simp
qed simp

lemma place_fn_funclocs:
  "place_fn g f st = Inr st' \<Longrightarrow>
   l_funclocs st' = AList.update (qualify (f_Pkgname f) (f_Name f)) (of_nat (length (l_fnbs st))) (l_funclocs st)"
  by (auto simp: place_fn_def enter_fn_def Let_def rbind_eq_Inr split: option.splits sum.splits dest!: follow_funclocs)

lemma hd_update: "xs \<noteq> [] \<Longrightarrow> fst (hd (AList.update k v xs)) = fst (hd xs)"
  by (cases xs) auto

lemma update_nonempty [simp]: "AList.update k v xs \<noteq> []"
  by (cases xs) auto

lemma link_loop_hd:
  "link_loop g st = Inr st' \<Longrightarrow> l_funclocs st \<noteq> [] \<Longrightarrow>
   l_funclocs st' \<noteq> [] \<and> fst (hd (l_funclocs st')) = fst (hd (l_funclocs st))"
proof (induction g st rule: link_loop.induct)
  case (1 g st)
  show ?case
  proof (cases "l_needfn st")
    case Nil
    with 1 show ?thesis by (simp add: link_loop.simps)
  next
    case (Cons k ks)
    then obtain f st1 where s: "map_of (g_funcs g) k = Some f" "place_fn g f (pop_fn st) = Inr st1"
      "link_loop g st1 = Inr st'"
      using 1(2) by (subst (asm) link_loop.simps) (auto split: option.splits sum.splits)
    with 1(1)[OF Cons s(1,2,3)] 1(3) place_fn_funclocs[OF s(2)] show ?thesis
      by (simp add: hd_update pop_fn_def)
  qed
qed

lemma start_first:
  assumes "link_loop g start_state = Inr st" "env_ok g"
  shows "\<exists>l locs. l_funclocs st = (''_init.start'', l) # locs"
proof -
  obtain f st1 where s: "map_of (g_funcs g) ''_init.start'' = Some f" "place_fn g f (pop_fn start_state) = Inr st1"
    "link_loop g st1 = Inr st"
    using assms(1) by (subst (asm) link_loop.simps) (auto simp: start_state_def split: option.splits sum.splits)
  have "qualify (f_Pkgname f) (f_Name f) = ''_init.start''" using assms(2) s(1) by (simp add: env_ok_def)
  then have "l_funclocs st1 = [(''_init.start'', 0)]"
    using place_fn_funclocs[OF s(2)] by (simp add: pop_fn_def start_state_def)
  from link_loop_hd[OF s(3)] this have "l_funclocs st \<noteq> []" "fst (hd (l_funclocs st)) = ''_init.start''" by auto
  then show ?thesis by (cases "l_funclocs st") auto
qed

lemma start_at_0:
  assumes "l_funclocs st = (''_init.start'', l) # locs" "linv g st"
  shows "l = 0"
proof -
  have "placed_buf (fbody g) (l_funclocs st) (l_fnbs st)" using assms(2) by (simp add: linv_def code_ok_def)
  then show ?thesis by (simp add: placed_buf_def assms(1))
qed

lemma entry_symbol:
  assumes "link_input os g" "perm_iter iter" "Link spare iter os textoff = Inr secs"
  shows "sym_addr secs ''_init.start'' = Some textoff"
proof -
  have ok: "genv_ok g" using link_input_ok[OF assms(1)] .
  obtain st where st: "has (g_funcs g) ''_init.start''" "link_loop g start_state = Inr st"
    "secs = link_image iter g textoff st"
    using assms(3) unfolding Link_eq[OF assms(1,2)] by (auto simp: rbind_eq_Inr split: if_splits)
  have inv: "linv g st" using link_loop_inv[OF st(2)] ok start_linv[OF st(1)] by (simp add: genv_ok_def)
  obtain l locs where l: "l_funclocs st = (''_init.start'', l) # locs"
    using start_first[OF st(2)] ok by (auto simp: genv_ok_def)
  have "map_of (l_funclocs st) ''_init.start'' = Some 0" using l start_at_0[OF l inv] by simp
  then show ?thesis unfolding st(3) sym_addr_image[OF inv] by (simp add: resolveTargetVA_def)
qed

section \<open>What the linker returns fits the format\<close>

definition genv_names :: "genv \<Rightarrow> string list" where
  "genv_names g = map fst (g_funcs g) @ map fst (g_vars g) @ map fst (g_data g)"

definition exe_names :: "genv \<Rightarrow> bool" where
  "exe_names g \<longleftrightarrow> names_need (genv_names g) < 2 ^ 31 \<and> (\<forall>n \<in> set (genv_names g). CHR 0x00 \<notin> set n)"

lemma names_need_le:
  assumes "distinct ns" "set ns \<subseteq> set ks"
  shows "names_need ns \<le> names_need ks"
  using length_cat_le[OF assms, of "\<lambda>n. replicate (length n + 1) 0"] by (simp add: names_need_def length_cat)

lemma length_le_names: "length ns \<le> names_need ns"
  by (induction ns) simp_all

lemma loaded_names:
  "map (ey_Name \<circ> snd) (loaded_syms i (LinkedBinToElfSections secs)) = map fst (sym_table secs)"
  by (induction secs arbitrary: i)
    (simp_all add: LinkedBinToElfSections_def LinkedBinToElfSection_def SectSymsToElf64_Symbols_def sym_table_def
      comp_def)

lemma in_image_names: "linv g st \<Longrightarrow> in_image st n \<Longrightarrow> n \<in> set (genv_names g)"
  by (auto simp: in_image_def linv_def code_ok_def objs_ok_def genv_names_def has_iff)

lemma image_fits:
  assumes "linv g st" "small st" "exe_names g"
  shows "elf_fits (LinkedBinToElfSections (link_image iter g textoff st))"
    "\<forall>(i, y) \<in> set (loaded_syms 0 (LinkedBinToElfSections (link_image iter g textoff st))). CHR 0x00 \<notin> set (ey_Name y)"
proof -
  let ?secs = "link_image iter g textoff st"
  let ?ss = "LinkedBinToElfSections ?secs"
  have d: "distinct (map fst (sym_table ?secs))" "set (map fst (sym_table ?secs)) \<subseteq> set (genv_names g)"
    using image_names[OF assms(1)] in_image_names[OF assms(1)] by auto
  have n: "names_need (map (ey_Name \<circ> snd) (loaded_syms 0 ?ss)) < 2 ^ 31"
    unfolding loaded_names using names_need_le[OF d] assms(3) by (simp add: exe_names_def)
  moreover have "length (loaded_syms 0 ?ss) < 2 ^ 31"
    using n length_le_names[of "map (ey_Name \<circ> snd) (loaded_syms 0 ?ss)"] by simp
  moreover have "(\<Sum>s \<leftarrow> ?ss. length (es_data s)) = length (l_fnbs st) + (length (l_varbs st) + length (l_databs st))"
    "names_need (map es_name ?ss) = 17" "length ?ss = 3"
    by (simp_all add: LinkedBinToElfSections_def LinkedBinToElfSection_def link_image_def Let_def)
  ultimately show "elf_fits ?ss"
    using assms(2) by (simp add: elf_fits_def small_def)
  have "ey_Name y \<in> set (genv_names g)" if "(i, y) \<in> set (loaded_syms 0 ?ss)" for i y
  proof -
    have "ey_Name y \<in> set (map (ey_Name \<circ> snd) (loaded_syms 0 ?ss))" using that by force
    then show ?thesis unfolding loaded_names using d(2) by blast
  qed
  then show "\<forall>(i, y) \<in> set (loaded_syms 0 ?ss). CHR 0x00 \<notin> set (ey_Name y)"
    using assms(3) by (auto simp: exe_names_def)
qed

section \<open>What is loaded\<close>

lemma loaded_mem:
  "loaded (map (\<lambda>s. (unat (es_addr s), es_data s)) (filter es_loadable (LinkedBinToElfSections secs))) (unat a) n =
   mem secs a n"
proof (induction secs)
  case (Cons s secs)
  have "unat (a - sec_Offset s) = unat a - unat (sec_Offset s)" if "sec_Offset s \<le> a"
    using that by (simp add: unat_sub)
  with Cons show ?case
    by (simp add: LinkedBinToElfSections_def LinkedBinToElfSection_def word_le_nat_alt)
qed (simp add: LinkedBinToElfSections_def)

lemma LinkExe_file:
  assumes "link_input os g" "perm_iter iter" "exe_names g" "Link spare iter os ENTRY_ADDR = Inr secs"
  shows "\<exists>bs. LinkExe spare iter ELF os = Inr bs \<and> holds_elf (LinkedBinToElfSections secs) bs \<and>
    (\<forall>(i, y) \<in> set (loaded_syms 0 (LinkedBinToElfSections secs)). CHR 0x00 \<notin> set (ey_Name y))"
proof -
  obtain st where st: "linv g st" "small st" "secs = link_image iter g ENTRY_ADDR st"
    using Link_state[OF assms(1,2,4)] by blast
  note f = image_fits[OF st(1,2) assms(3), of iter ENTRY_ADDR, folded st(3)]
  obtain bs where "WriteElf (LinkedBinToElfSections secs) = Some bs" "holds_elf (LinkedBinToElfSections secs) bs"
    using WriteElf_holds[OF f(1)] by blast
  then show ?thesis using assms(4) f(2) by (simp add: LinkExe_def ELF_def MACHO_def)
qed

text \<open>Name, type and value of the symbols the linker made.\<close>

definition sym_list :: "Section list \<Rightarrow> (string \<times> nat \<times> nat) list" where
  "sym_list secs = concat (map (\<lambda>s. map (\<lambda>y. (sm_Name y, unat (sym_info (sm_Type y)), unat (sm_Address y)))
     (sec_symbols s)) secs)"

lemma loaded_sym_list:
  "map (\<lambda>(n, ty, i, v, sz). (n, ty, v)) (map sym_view (loaded_syms i (LinkedBinToElfSections secs))) = sym_list secs"
  by (induction secs arbitrary: i)
    (simp_all add: LinkedBinToElfSections_def LinkedBinToElfSection_def SectSymsToElf64_Symbols_def sym_list_def
      sym_view_def comp_def)

section \<open>Properties\<close>

text \<open>C32. Executables: whenever the linker accepts files, \<open>LinkExe\<close> writes an ELF file, and loading its
  segments puts into memory exactly the image the linker laid out.\<close>

theorem LinkExe_loads:
  assumes "link_input os g" "perm_iter iter" "exe_names g" "Link spare iter os ENTRY_ADDR = Inr secs"
  shows "\<exists>bs. LinkExe spare iter ELF os = Inr bs \<and> well_marked bs \<and>
    (\<forall>a n. loaded (x_segments bs) (unat a) n = mem secs a n)"
proof -
  obtain bs where bs: "LinkExe spare iter ELF os = Inr bs" "holds_elf (LinkedBinToElfSections secs) bs"
    using LinkExe_file[OF assms] by blast
  then show ?thesis
    using holds_marked[OF bs(2)] loaded_mem[of secs] by (auto simp: holds_segments(1)[OF bs(2)])
qed

text \<open>C34. Executables, entry point: the address at which the processor starts an executable is the one
  the linker gave to the function \<open>start\<close> of package \<open>_init\<close>, and the symbol table of the file lists
  exactly the linker's symbols.\<close>

theorem LinkExe_entry:
  assumes "link_input os g" "perm_iter iter" "exe_names g" "Link spare iter os ENTRY_ADDR = Inr secs"
    and "LinkExe spare iter ELF os = Inr bs"
  shows "map_option unat (sym_addr secs ''_init.start'') = Some (x_entry bs) \<and>
    map (\<lambda>(n, ty, i, v, sz). (n, ty, v)) (x_symbols bs) = sym_list secs"
proof -
  let ?ss = "LinkedBinToElfSections secs"
  have bs: "holds_elf ?ss bs" "\<forall>(i, y) \<in> set (loaded_syms 0 ?ss). CHR 0x00 \<notin> set (ey_Name y)"
    using LinkExe_file[OF assms(1-4)] assms(5) by auto
  have "\<forall>s \<in> set ?ss. es_s_type s \<noteq> SHT_SYMTAB"
    by (simp add: LinkedBinToElfSections_def LinkedBinToElfSection_def SHT_PROGBITS_def SHT_SYMTAB_def)
  from holds_symbols[OF bs(1) this bs(2)]
  have "map (\<lambda>(n, ty, i, v, sz). (n, ty, v)) (x_symbols bs) = sym_list secs" by (simp only: loaded_sym_list)
  moreover have "x_entry bs = unat ENTRY_ADDR" by (simp add: x_entry_def holds_headers(1)[OF bs(1)] ENTRY_ADDR_def)
  ultimately show ?thesis using entry_symbol[OF assms(1,2,4)] by simp
qed

lemma sample_exe_names: "exe_names sample_env"
  by (simp add: exe_names_def genv_names_def sample_env_def)

theorem LinkExe_loads_witness:
  "\<exists>secs bs. Link 0 id sample_files ENTRY_ADDR = Inr secs \<and> LinkExe 0 id ELF sample_files = Inr bs \<and>
    loaded (x_segments bs) 0x30000 5 = mem secs 0x30000 5"
proof -
  obtain secs where s: "Link 0 id sample_files ENTRY_ADDR = Inr secs"
    using sample_links by (auto simp: ENTRY_ADDR_def)
  obtain bs where bs: "LinkExe 0 id ELF sample_files = Inr bs"
    "\<forall>a n. loaded (x_segments bs) (unat a) n = mem secs a n"
    using LinkExe_loads[OF sample_link_input perm_iter_id sample_exe_names s] by blast
  from bs(2) have "loaded (x_segments bs) (unat (0x30000 :: 64 word)) 5 = mem secs 0x30000 5" by blast
  then show ?thesis using s bs(1) by auto
qed

theorem LinkExe_entry_witness:
  "\<exists>secs bs. Link 0 id sample_files ENTRY_ADDR = Inr secs \<and> LinkExe 0 id ELF sample_files = Inr bs \<and>
    x_entry bs = 0x30000 \<and> sym_addr secs ''_init.start'' = Some 0x30000"
proof -
  obtain secs where s: "Link 0 id sample_files ENTRY_ADDR = Inr secs"
    using sample_links by (auto simp: ENTRY_ADDR_def)
  obtain bs where bs: "LinkExe 0 id ELF sample_files = Inr bs"
    using LinkExe_file[OF sample_link_input perm_iter_id sample_exe_names s] by blast
  have e: "sym_addr secs ''_init.start'' = Some 0x30000"
    using entry_symbol[OF sample_link_input perm_iter_id s] by (simp add: ENTRY_ADDR_def)
  then have "x_entry bs = 0x30000"
    using LinkExe_entry[OF sample_link_input perm_iter_id sample_exe_names s bs] by simp
  then show ?thesis using s bs e by simp
qed

end
