(* ===== verification/Encoder.thy ===== *)
theory Encoder
  imports Register ObjFile
begin

text \<open>
  The instruction encoder, \<open>encoder.go\<close>: operands, the operand types an instruction form accepts
  (\<open>Op.Match\<close>), the parts of an encoding (prefix, REX, opcode, ModRM with SIB and displacement,
  immediates and offsets), the choice of a form and the bytes and relocations it produces.

  A Go value passed as \<open>interface{}\<close> is an \<open>operand\<close>; the integer types keep their widths and signs.
  A part of an encoding returns the bytes it wrote together with its error or its relocations; the
  outer \<open>None\<close> is a panic.  \<open>w.Len()\<close> is the argument \<open>len\<close>.  A pointer to a \<open>Ralloc\<close> is an \<open>ORa\<close>;
  \<open>IForm.Encode\<close> replaces those before anything is encoded (theory \<open>Rallocs\<close>), and no part of an
  encoding sees one.
\<close>

unbundle bit_operations_syntax

section \<open>Operands\<close>

record Indirect =
  in_Reg :: Register
  in_Off :: "32 word"
  in_Size :: int
  in_Symbol :: string

record IndirectBaseIndexScale =
  bis_Base :: Register
  bis_Index :: Register
  bis_Scale :: int

text \<open>A local variable of the function being assembled (\<open>function.go\<close>), without its back pointer.\<close>

record Ralloc =
  a_sym :: string
  a_size :: int
  a_inreg :: bool
  a_inmem :: bool
  a_reg :: Register
  a_regable :: bool
  a_offset :: "32 word"
  a_volatile :: bool

datatype operand =
    OReg Register
  | OInd Indirect
  | OBis IndirectBaseIndexScale
  | ORa nat
  | OVar string
  | OU8 "8 word" | OI8 "8 word" | OU16 "16 word" | OI16 "16 word"
  | OU32 "32 word" | OI32 "32 word" | OU64 "64 word" | OI64 "64 word"
  | OOther

datatype enc_err =
    NotEnoughArgs
  | NotARegister
  | BadImmediate
  | BadOffset
  | BadSize
  | NotAddressable
  | NoForm
  | NoInstruction string

text \<open>The zero value of \<open>Register\<close>.\<close>

definition reg0 :: Register where
  "reg0 = R_AL"

type_synonym encoded = "byte list \<times> (enc_err + Relocation list)"

definition wrote :: "byte list \<Rightarrow> encoded" where
  "wrote bs = (bs, Inr [])"

definition failed :: "enc_err \<Rightarrow> encoded" where
  "failed e = ([], Inl e)"

section \<open>Registers of operands\<close>

definition getRegister :: "byte \<Rightarrow> operand list \<Rightarrow> (enc_err + Register) option" where
  "getRegister i os =
     (if unat i \<ge> length os then None
      else case os ! unat i of
          OReg r \<Rightarrow> Some (Inr r)
        | OInd ind \<Rightarrow> Some (Inr (in_Reg ind))
        | OBis b \<Rightarrow> Some (Inr (bis_Base b))
        | _ \<Rightarrow> Some (Inl NotARegister))"

definition REX_X :: "byte \<Rightarrow> operand list \<Rightarrow> (enc_err + Register) option" where
  "REX_X i os =
     (if unat i \<ge> length os then None
      else case os ! unat i of
          OReg r \<Rightarrow> Some (Inr r)
        | OInd ind \<Rightarrow> Some (Inr (if in_Reg ind = R12 then R_RBP else in_Reg ind))
        | OBis b \<Rightarrow> Some (Inr (bis_Index b))
        | _ \<Rightarrow> Some (Inl NotARegister))"

text \<open>\<open>x, _ := f()\<close> keeps the zero value when there is an error.\<close>

definition or_reg0 :: "enc_err + Register \<Rightarrow> Register" where
  "or_reg0 res = (case res of Inl _ \<Rightarrow> reg0 | Inr r \<Rightarrow> r)"

section \<open>The parts of an encoding\<close>

record rex =
  x_mandatory :: bool
  x_w :: byte
  x_r :: byte
  x_x :: byte
  x_b :: byte

record modrm =
  mr_mod :: byte
  mr_reg :: byte
  mr_rm :: byte

datatype encoder =
    Eprefix byte
  | Erex rex
  | Eopcode byte bool byte
  | Emodrm modrm
  | Eimmediate int byte
  | EcodeOffset int byte
  | EdataOffset int byte

definition MODE_LITERAL :: byte where
  "MODE_LITERAL = 0x80"

definition bit3 :: "byte \<Rightarrow> byte" where
  "bit3 b = drop_bit 3 b AND 1"

definition rex_byte :: "byte \<Rightarrow> byte \<Rightarrow> byte \<Rightarrow> byte \<Rightarrow> byte" where
  "rex_byte w r x b = 0x40 OR push_bit 3 (w AND 1) OR push_bit 2 (bit3 r) OR push_bit 1 (bit3 x) OR bit3 b"

definition rex_Encode :: "rex \<Rightarrow> operand list \<Rightarrow> encoded option" where
  "rex_Encode x os =
     (if os = [] then Some (wrote [0x40 OR push_bit 3 (x_w x AND 1)])
      else do {
        xr \<leftarrow> map_option or_reg0 (getRegister (x_r x) os);
        nr \<leftarrow> (if x_mandatory x then Some True else needREX xr);
        xx \<leftarrow> map_option or_reg0 (REX_X (x_x x) os);
        nx \<leftarrow> (if nr then Some True else needREX xx);
        xb \<leftarrow> map_option or_reg0 (getRegister (x_b x) os);
        needed \<leftarrow> (if nx then Some True else needREX xb);
        br \<leftarrow> reg_byte xr;
        bx \<leftarrow> reg_byte xx;
        bb \<leftarrow> reg_byte xb;
        Some (if needed then wrote [rex_byte (x_w x) br bx bb] else wrote [])
      })"

definition opcode_Encode :: "byte \<Rightarrow> bool \<Rightarrow> byte \<Rightarrow> operand list \<Rightarrow> encoded option" where
  "opcode_Encode b hasAddend addend os = do {
     add \<leftarrow> (if hasAddend then getRegister addend os else Some (Inr reg0));
     case add of
       Inl e \<Rightarrow> Some (failed e)
     | Inr r \<Rightarrow> do { rb \<leftarrow> reg_byte r; Some (wrote [b + (rb AND 7)]) }
   }"

text \<open>The conversions \<open>uint16(b)\<close>, \<open>int32(b)\<close>, ... extend with zeros or with the sign.\<close>

definition immediate_Encode :: "int \<Rightarrow> byte \<Rightarrow> operand list \<Rightarrow> encoded" where
  "immediate_Encode sz v os =
     (if unat v \<ge> length os then failed NotEnoughArgs
      else if sz = 1 then (case os ! unat v of
          OU8 b \<Rightarrow> wrote (le_bytes 1 (unat b))
        | OI8 b \<Rightarrow> wrote (le_bytes 1 (unat b))
        | _ \<Rightarrow> failed BadImmediate)
      else if sz = 2 then (case os ! unat v of
          OU8 b \<Rightarrow> wrote (le_bytes 2 (unat (ucast b :: 16 word)))
        | OI8 b \<Rightarrow> wrote (le_bytes 2 (unat (scast b :: 16 word)))
        | OU16 b \<Rightarrow> wrote (le_bytes 2 (unat b))
        | OI16 b \<Rightarrow> wrote (le_bytes 2 (unat b))
        | _ \<Rightarrow> failed BadImmediate)
      else if sz = 4 then (case os ! unat v of
          OU8 b \<Rightarrow> wrote (le_bytes 4 (unat (ucast b :: 32 word)))
        | OI8 b \<Rightarrow> wrote (le_bytes 4 (unat (scast b :: 32 word)))
        | OU16 b \<Rightarrow> wrote (le_bytes 4 (unat (ucast b :: 32 word)))
        | OI16 b \<Rightarrow> wrote (le_bytes 4 (unat (scast b :: 32 word)))
        | OU32 b \<Rightarrow> wrote (le_bytes 4 (unat b))
        | OI32 b \<Rightarrow> wrote (le_bytes 4 (unat b))
        | _ \<Rightarrow> failed BadImmediate)
      else if sz = 8 then (case os ! unat v of
          OU8 b \<Rightarrow> wrote (le_bytes 8 (unat (ucast b :: 64 word)))
        | OI8 b \<Rightarrow> wrote (le_bytes 8 (unat (scast b :: 64 word)))
        | OU16 b \<Rightarrow> wrote (le_bytes 8 (unat (ucast b :: 64 word)))
        | OI16 b \<Rightarrow> wrote (le_bytes 8 (unat (scast b :: 64 word)))
        | OU32 b \<Rightarrow> wrote (le_bytes 8 (unat (ucast b :: 64 word)))
        | OI32 b \<Rightarrow> wrote (le_bytes 8 (unat (scast b :: 64 word)))
        | OU64 b \<Rightarrow> wrote (le_bytes 8 (unat b))
        | OI64 b \<Rightarrow> wrote (le_bytes 8 (unat b))
        | _ \<Rightarrow> failed BadImmediate)
      else failed BadSize)"

definition codeOffset_Encode :: "int \<Rightarrow> byte \<Rightarrow> operand list \<Rightarrow> encoded" where
  "codeOffset_Encode sz v os =
     (if unat v \<ge> length os then failed NotEnoughArgs
      else if sz = 1 then (case os ! unat v of OI8 b \<Rightarrow> wrote (le_bytes 1 (unat b)) | _ \<Rightarrow> failed BadOffset)
      else if sz = 2 then (case os ! unat v of OI16 b \<Rightarrow> wrote (le_bytes 2 (unat b)) | _ \<Rightarrow> failed BadOffset)
      else if sz = 4 then (case os ! unat v of OI32 b \<Rightarrow> wrote (le_bytes 4 (unat b)) | _ \<Rightarrow> failed BadOffset)
      else if sz = 8 then (case os ! unat v of OI64 b \<Rightarrow> wrote (le_bytes 8 (unat b)) | _ \<Rightarrow> failed BadOffset)
      else failed BadSize)"

definition dataOffset_Encode :: "int \<Rightarrow> byte \<Rightarrow> operand list \<Rightarrow> encoded" where
  "dataOffset_Encode sz v os =
     (if unat v \<ge> length os then failed NotEnoughArgs
      else if sz = 1 then (case os ! unat v of OU8 b \<Rightarrow> wrote (le_bytes 1 (unat b)) | _ \<Rightarrow> failed BadOffset)
      else if sz = 2 then (case os ! unat v of OU16 b \<Rightarrow> wrote (le_bytes 2 (unat b)) | _ \<Rightarrow> failed BadOffset)
      else if sz = 4 then (case os ! unat v of OU32 b \<Rightarrow> wrote (le_bytes 4 (unat b)) | _ \<Rightarrow> failed BadOffset)
      else if sz = 8 then (case os ! unat v of OU64 b \<Rightarrow> wrote (le_bytes 8 (unat b)) | _ \<Rightarrow> failed BadOffset)
      else failed BadSize)"

text \<open>\<open>(mod & 3) << 6 | (reg & 7) << 3 | rm & 7\<close>.\<close>

definition modrm_byte :: "byte \<Rightarrow> byte \<Rightarrow> byte \<Rightarrow> byte" where
  "modrm_byte xmod xreg xrm = push_bit 6 (xmod AND 3) OR push_bit 3 (xreg AND 7) OR (xrm AND 7)"

definition sib_scale :: "int \<Rightarrow> byte" where
  "sib_scale s = (if s = 2 then 0x40 else if s = 4 then 0x80 else if s = 8 then 0xC0 else 0)"

text \<open>What the mode operand of a ModRM selects: the mode bits, whether a SIB byte follows, the memory
  operand and the relocation, as the local variables of \<open>modrm.Encode\<close>.\<close>

record mode =
  m_xmod :: byte
  m_doSib :: bool
  m_indirect :: "Indirect option"
  m_bis :: "IndirectBaseIndexScale option"
  m_relocations :: "Relocation list"

definition plain_mode :: "byte \<Rightarrow> mode" where
  "plain_mode b = \<lparr>m_xmod = b, m_doSib = False, m_indirect = None, m_bis = None, m_relocations = []\<rparr>"

definition modrm_mode :: "nat \<Rightarrow> modrm \<Rightarrow> operand list \<Rightarrow> (enc_err + mode) option" where
  "modrm_mode len x os =
     (if mr_mod x AND MODE_LITERAL \<noteq> 0 then Some (Inr (plain_mode (mr_mod x AND NOT MODE_LITERAL)))
      else if unat (mr_mod x) \<ge> length os then None
      else case os ! unat (mr_mod x) of
          OU8 b \<Rightarrow> Some (Inr (plain_mode b))
        | OInd ind \<Rightarrow>
            if in_Symbol ind \<noteq> '''' then
              Some (Inr \<lparr>m_xmod = 0, m_doSib = False, m_indirect = Some (ind\<lparr>in_Reg := R_RIP\<rparr>), m_bis = None,
                m_relocations = [\<lparr>r_Offset = of_nat (len + 1), r_Symbol = in_Symbol ind, r_Addend = in_Off ind\<rparr>]\<rparr>)
            else
              Some (Inr \<lparr>m_xmod = (if in_Off ind \<noteq> 0 then 2 else 0), m_doSib = in_Reg ind = R_RSP \<or> in_Reg ind = R12,
                m_indirect = Some ind, m_bis = None, m_relocations = []\<rparr>)
        | OBis b \<Rightarrow> Some (Inr \<lparr>m_xmod = 0, m_doSib = True, m_indirect = None, m_bis = Some b, m_relocations = []\<rparr>)
        | OVar n \<Rightarrow>
            Some (Inr \<lparr>m_xmod = 0, m_doSib = False,
              m_indirect = Some \<lparr>in_Reg = R_RIP, in_Off = 0, in_Size = 64, in_Symbol = ''''\<rparr>, m_bis = None,
              m_relocations = [\<lparr>r_Offset = of_nat (len + 1), r_Symbol = n, r_Addend = 0\<rparr>]\<rparr>)
        | _ \<Rightarrow> Some (Inl NotAddressable))"

definition modrm_reg :: "modrm \<Rightarrow> operand list \<Rightarrow> (enc_err + byte) option" where
  "modrm_reg x os =
     (if mr_reg x AND MODE_LITERAL \<noteq> 0 then Some (Inr (mr_reg x AND NOT MODE_LITERAL))
      else do {
        r \<leftarrow> getRegister (mr_reg x) os;
        case r of Inl e \<Rightarrow> Some (Inl e) | Inr r \<Rightarrow> map_option Inr (reg_byte r)
      })"

text \<open>Without a SIB byte.\<close>

definition modrm_plain :: "mode \<Rightarrow> byte \<Rightarrow> modrm \<Rightarrow> operand list \<Rightarrow> encoded option" where
  "modrm_plain md xreg x os = (case m_indirect md of
      Some ind \<Rightarrow> do {
        rb \<leftarrow> reg_byte (in_Reg ind);
        Some (if m_xmod md \<noteq> 0 \<or> rb = 5 \<or> rb = 0xD then
            (modrm_byte (if in_Reg ind = R_RBP \<or> in_Reg ind = R13 then 2 else m_xmod md) xreg rb #
               le_bytes 4 (unat (in_Off ind)), Inr (m_relocations md))
          else ([modrm_byte (m_xmod md) xreg rb], Inr (m_relocations md)))
      }
    | None \<Rightarrow> do {
        r \<leftarrow> getRegister (mr_rm x) os;
        case r of
          Inl e \<Rightarrow> Some (failed e)
        | Inr r \<Rightarrow> do { rb \<leftarrow> reg_byte r; Some ([modrm_byte (m_xmod md) xreg rb], Inr (m_relocations md)) }
      })"

text \<open>With a SIB byte: base and index registers, or the encoding of a base that needs one.\<close>

definition modrm_sib :: "mode \<Rightarrow> byte \<Rightarrow> encoded option" where
  "modrm_sib md xreg = (case m_bis md of
      Some b \<Rightarrow> do {
        ib \<leftarrow> reg_byte (bis_Index b);
        bb \<leftarrow> reg_byte (bis_Base b);
        let disp8 = bis_Base b = R_RBP \<or> bis_Base b = R13 in
        Some (modrm_byte (if disp8 then 1 else m_xmod md) xreg 4 #
          (sib_scale (bis_Scale b) OR push_bit 3 (ib AND 7) OR (bb AND 7)) # (if disp8 then [0] else []),
          Inr (m_relocations md))
      }
    | None \<Rightarrow> (case m_indirect md of
        None \<Rightarrow> None
      | Some ind \<Rightarrow>
          Some (modrm_byte (m_xmod md) xreg 4 # 0x24 # (if m_xmod md \<noteq> 0 then le_bytes 4 (unat (in_Off ind)) else []),
            Inr (m_relocations md))))"

definition modrm_Encode :: "nat \<Rightarrow> modrm \<Rightarrow> operand list \<Rightarrow> encoded option" where
  "modrm_Encode len x os = do {
     md \<leftarrow> modrm_mode len x os;
     case md of
       Inl e \<Rightarrow> Some (failed e)
     | Inr md \<Rightarrow> do {
         xreg \<leftarrow> modrm_reg x os;
         case xreg of
           Inl e \<Rightarrow> Some (failed e)
         | Inr xreg \<Rightarrow> if m_doSib md then modrm_sib md xreg else modrm_plain md xreg x os
       }
   }"

primrec Encode :: "nat \<Rightarrow> encoder \<Rightarrow> operand list \<Rightarrow> encoded option" where
  "Encode len (Eprefix b) os = Some (wrote [b])"
| "Encode len (Erex x) os = rex_Encode x os"
| "Encode len (Eopcode b has_addend addend) os = opcode_Encode b has_addend addend os"
| "Encode len (Emodrm x) os = modrm_Encode len x os"
| "Encode len (Eimmediate sz v) os = Some (immediate_Encode sz v os)"
| "Encode len (EcodeOffset sz v) os = Some (codeOffset_Encode sz v os)"
| "Encode len (EdataOffset sz v) os = Some (dataOffset_Encode sz v os)"

section \<open>Instruction forms\<close>

record Op =
  op_TN :: string
  op_Output :: bool
  op_Implicit :: bool

record IForm =
  form_name :: string
  form_opcount :: nat
  form_ops :: "Op list"
  form_enc :: "encoder list list"

record Instruction =
  ins_Summary :: string
  ins_Forms :: "IForm list"

section \<open>Matching operands with an instruction form\<close>

text \<open>\<open>None\<close> is the panic of \<open>Width\<close> on \<open>R_RIP\<close>.\<close>

definition wide :: "int \<Rightarrow> Register \<Rightarrow> (bool \<times> int) option" where
  "wide n r = map_option (\<lambda>w. (w = n, n)) (Width r)"

definition RegSize :: "Ralloc \<Rightarrow> int option" where
  "RegSize r = (if a_inreg r then Width (a_reg r) else if a_regable r then Some (a_size r) else Some 64)"

definition match_reg :: "int \<Rightarrow> (nat \<Rightarrow> Ralloc) \<Rightarrow> operand \<Rightarrow> (bool \<times> int) option" where
  "match_reg n h o' = (case o' of
      ORa p \<Rightarrow> if a_volatile (h p) then Some (False, n) else map_option (\<lambda>w. (w = n, n)) (RegSize (h p))
    | OReg r \<Rightarrow> wide n r
    | _ \<Rightarrow> Some (False, 0))"

definition base_wide :: "int \<Rightarrow> Register \<Rightarrow> (bool \<times> int) option" where
  "base_wide n r = map_option (\<lambda>w. (w = 64, n)) (Width r)"

definition match_mem :: "int \<Rightarrow> (nat \<Rightarrow> Ralloc) \<Rightarrow> operand \<Rightarrow> (bool \<times> int) option" where
  "match_mem n h o' = (case o' of
      ORa p \<Rightarrow> Some (a_size (h p) = n, n)
    | OInd i \<Rightarrow> if in_Size i > 0 \<and> in_Size i \<noteq> n then Some (False, n)
               else if in_Symbol i \<noteq> '''' then Some (True, n) else base_wide n (in_Reg i)
    | OBis b \<Rightarrow> base_wide n (bis_Base b)
    | OVar _ \<Rightarrow> Some (True, n)
    | _ \<Rightarrow> Some (False, 0))"

definition match_m :: "operand \<Rightarrow> (bool \<times> int) option" where
  "match_m o' = (case o' of
      ORa p \<Rightarrow> Some (True, 64)
    | OInd i \<Rightarrow> if in_Symbol i \<noteq> '''' then Some (True, 64) else base_wide 64 (in_Reg i)
    | OBis b \<Rightarrow> base_wide 64 (bis_Base b)
    | OVar _ \<Rightarrow> Some (True, 64)
    | _ \<Rightarrow> Some (False, 0))"

definition match_moffs :: "int \<Rightarrow> operand \<Rightarrow> (bool \<times> int) option" where
  "match_moffs n o' = (case o' of
      OInd i \<Rightarrow> if in_Size i > 0 \<and> in_Size i \<noteq> n then Some (False, n) else base_wide n (in_Reg i)
    | _ \<Rightarrow> Some (False, 0))"

text \<open>An unsigned immediate is refused when it would be extended with its sign.\<close>

definition match_imm8 :: "operand \<Rightarrow> int \<Rightarrow> bool \<times> int" where
  "match_imm8 o' largest = (case o' of
      OU8 u \<Rightarrow> if largest > 8 \<and> 0x80 AND u > 0 then (False, 0) else (True, 8)
    | OI8 _ \<Rightarrow> (True, 8)
    | _ \<Rightarrow> (False, 0))"

definition match_imm16 :: "operand \<Rightarrow> int \<Rightarrow> bool \<times> int" where
  "match_imm16 o' largest = (case o' of
      OU8 _ \<Rightarrow> (True, 16)
    | OU16 u \<Rightarrow> if largest > 16 \<and> 0x8000 AND u > 0 then (False, 0) else (True, 16)
    | OI8 _ \<Rightarrow> (True, 16) | OI16 _ \<Rightarrow> (True, 16)
    | _ \<Rightarrow> (False, 0))"

definition match_imm32 :: "operand \<Rightarrow> int \<Rightarrow> bool \<times> int" where
  "match_imm32 o' largest = (case o' of
      OU8 _ \<Rightarrow> (True, 32) | OU16 _ \<Rightarrow> (True, 32)
    | OU32 u \<Rightarrow> if largest > 32 \<and> 0x80000000 AND u > 0 then (False, 0) else (True, 32)
    | OI8 _ \<Rightarrow> (True, 32) | OI16 _ \<Rightarrow> (True, 32) | OI32 _ \<Rightarrow> (True, 32)
    | _ \<Rightarrow> (False, 0))"

definition match_imm64 :: "operand \<Rightarrow> bool \<times> int" where
  "match_imm64 o' = (case o' of
      OU8 _ \<Rightarrow> (True, 64) | OU16 _ \<Rightarrow> (True, 64) | OU32 _ \<Rightarrow> (True, 64) | OU64 _ \<Rightarrow> (True, 64)
    | OI8 _ \<Rightarrow> (True, 64) | OI16 _ \<Rightarrow> (True, 64) | OI32 _ \<Rightarrow> (True, 64) | OI64 _ \<Rightarrow> (True, 64)
    | _ \<Rightarrow> (False, 0))"

definition Match :: "(nat \<Rightarrow> Ralloc) \<Rightarrow> Op \<Rightarrow> operand \<Rightarrow> int \<Rightarrow> (bool \<times> int) option" where
  "Match h op o' largest =
     (let tn = op_TN op in
      if op_Implicit op then Some (False, 0)
      else if tn = ''imm8'' then Some (match_imm8 o' largest)
      else if tn = ''imm16'' then Some (match_imm16 o' largest)
      else if tn = ''imm32'' then Some (match_imm32 o' largest)
      else if tn = ''imm64'' then Some (match_imm64 o')
      else if tn = ''r8'' then match_reg 8 h o'
      else if tn = ''r16'' then match_reg 16 h o'
      else if tn = ''r32'' then match_reg 32 h o'
      else if tn = ''r64'' then match_reg 64 h o'
      else if tn = ''moffs32'' then match_moffs 32 o'
      else if tn = ''moffs64'' then match_moffs 64 o'
      else if tn = ''m'' then match_m o'
      else if tn = ''m8'' then match_mem 8 h o'
      else if tn = ''m16'' then match_mem 16 h o'
      else if tn = ''m32'' then match_mem 32 h o'
      else if tn = ''m64'' then match_mem 64 h o'
      else if tn = ''rel8'' then Some (case o' of OI8 _ \<Rightarrow> (True, 8) | _ \<Rightarrow> (False, 8))
      else if tn = ''rel32'' then Some (case o' of OI32 _ \<Rightarrow> (True, 32) | _ \<Rightarrow> (False, 32))
      else Some (False, 0))"

text \<open>The operands are matched from left to right with the explicit operands of the form; \<open>opBits\<close> is
  the largest size matched so far.  Running out of operands is the panic of \<open>os[idx]\<close>.\<close>

fun match_ops :: "(nat \<Rightarrow> Ralloc) \<Rightarrow> Op list \<Rightarrow> operand list \<Rightarrow> int \<Rightarrow> bool option" where
  "match_ops h [] os opBits = Some True"
| "match_ops h (fop # fops) os opBits =
     (if op_Implicit fop then match_ops h fops os opBits
      else case os of
          [] \<Rightarrow> None
        | o' # os' \<Rightarrow> do {
            (matches, size) \<leftarrow> Match h fop o' opBits;
            if \<not> matches then Some False else match_ops h fops os' (if size > opBits then size else opBits)
          })"

fun choose_form :: "(nat \<Rightarrow> Ralloc) \<Rightarrow> IForm list \<Rightarrow> string \<Rightarrow> operand list \<Rightarrow> IForm option option" where
  "choose_form h [] formname os = Some None"
| "choose_form h (f # fs) formname os =
     (if form_opcount f \<noteq> length os then choose_form h fs formname os
      else if formname \<noteq> '''' \<and> formname \<noteq> form_name f then choose_form h fs formname os
      else do {
        ok \<leftarrow> match_ops h (form_ops f) os 0;
        if ok then Some (Some f) else choose_form h fs formname os
      })"

section \<open>Encoding a form\<close>

text \<open>No REX prefix may be emitted when one of AH, BH, CH, DH is an operand.\<close>

definition high_byte :: "operand \<Rightarrow> bool" where
  "high_byte o' = (case o' of OReg r \<Rightarrow> r = R_AH \<or> r = R_BH \<or> r = R_CH \<or> r = R_DH | _ \<Rightarrow> False)"

text \<open>Whether the panic on a REX prefix is avoided; \<open>None\<close> is a panic of \<open>rex.Encode\<close> itself.\<close>

fun no_rex :: "encoder list \<Rightarrow> operand list \<Rightarrow> bool option" where
  "no_rex [] os = Some True"
| "no_rex (Erex x # es) os = do {
     (bs, _) \<leftarrow> rex_Encode x os;
     if bs \<noteq> [] then Some False else no_rex es os
   }"
| "no_rex (_ # es) os = no_rex es os"

text \<open>One alternative: the parts in order, stopping at an error.  The relocations returned are those
  of the last part.\<close>

fun encode_parts :: "nat \<Rightarrow> encoder list \<Rightarrow> operand list \<Rightarrow> Relocation list \<Rightarrow> encoded option" where
  "encode_parts len [] os rs = Some ([], Inr rs)"
| "encode_parts len (e # es) os rs = do {
     (bs, res) \<leftarrow> Encode len e os;
     case res of
       Inl err \<Rightarrow> Some (bs, Inl err)
     | Inr rs' \<Rightarrow> do {
         (bs', res') \<leftarrow> encode_parts (len + length bs) es os rs';
         Some (bs @ bs', res')
       }
   }"

text \<open>The alternatives in order; what a failed one has written stays.\<close>

fun encode_alts :: "nat \<Rightarrow> encoder list list \<Rightarrow> operand list \<Rightarrow> enc_err + Relocation list \<Rightarrow> encoded option" where
  "encode_alts len [] os prev = Some ([], prev)"
| "encode_alts len (es # ess) os prev = do {
     (bs, res) \<leftarrow> encode_parts len es os [];
     case res of
       Inr rs \<Rightarrow> Some (bs, Inr rs)
     | Inl err \<Rightarrow> do {
         (bs', res') \<leftarrow> encode_alts (len + length bs) ess os (Inl err);
         Some (bs @ bs', res')
       }
   }"

text \<open>\<open>IForm.Encode\<close> once the \<open>Ralloc\<close> operands are replaced.\<close>

definition IForm_Encode :: "nat \<Rightarrow> IForm \<Rightarrow> operand list \<Rightarrow> encoded option" where
  "IForm_Encode len f os = do {
     ok \<leftarrow> (if list_ex high_byte os then no_rex (concat (form_enc f)) os else Some True);
     if ok then encode_alts len (form_enc f) os (Inr []) else None
   }"

section \<open>Instruction tables\<close>

text \<open>\<open>instrs\<close> and \<open>specforms\<close> hold pointers to instructions: positions in the list \<open>asm_heap\<close>.\<close>

record Asm =
  asm_ArchName :: string
  asm_heap :: "Instruction list"
  asm_instrs :: "(string \<times> nat) list"
  asm_specforms :: "(string \<times> nat) list"

text \<open>The instruction looked up, and the name the form must have.\<close>

definition find_instr :: "Asm \<Rightarrow> string \<Rightarrow> (nat \<times> string) option" where
  "find_instr a instr = (case map_of (asm_instrs a) instr of
      Some p \<Rightarrow> Some (p, '''')
    | None \<Rightarrow> map_option (\<lambda>p. (p, instr)) (map_of (asm_specforms a) instr))"

text \<open>The form \<open>Asm.Encode\<close> decides on; the outer \<open>None\<close> is a panic.\<close>

definition select_form :: "Asm \<Rightarrow> (nat \<Rightarrow> Ralloc) \<Rightarrow> string \<Rightarrow> operand list \<Rightarrow> (enc_err + IForm) option" where
  "select_form a h instr os = (case find_instr a instr of
      None \<Rightarrow> Some (Inl (NoInstruction instr))
    | Some (p, matchspec) \<Rightarrow>
        if p \<ge> length (asm_heap a) then None
        else map_option (\<lambda>f. case f of None \<Rightarrow> Inl NoForm | Some f \<Rightarrow> Inr f)
          (choose_form h (ins_Forms (asm_heap a ! p)) matchspec os))"

definition operand_free :: "operand \<Rightarrow> bool" where
  "operand_free o' = (case o' of ORa _ \<Rightarrow> False | _ \<Rightarrow> True)"

text \<open>\<open>Asm.Encode\<close> for operands without a \<open>Ralloc\<close>: its loop runs once.\<close>

definition Asm_Encode :: "Asm \<Rightarrow> (nat \<Rightarrow> Ralloc) \<Rightarrow> nat \<Rightarrow> string \<Rightarrow> operand list \<Rightarrow> encoded option" where
  "Asm_Encode a h len instr os = do {
     f \<leftarrow> select_form a h instr os;
     case f of Inl e \<Rightarrow> Some (failed e) | Inr f \<Rightarrow> IForm_Encode len f os
   }"

section \<open>Reading the instruction tables\<close>

text \<open>What \<open>encoding/xml\<close> decodes into the structures of \<open>decoder.go\<close>.\<close>

record XAttr =
  at_Name :: string
  at_Value :: string

record XOperand =
  xo_Name :: string
  xo_ID :: string
  xo_Type :: string
  xo_Input :: bool
  xo_Output :: bool

record XEncoding =
  xe_Name :: string
  xe_Attrs :: "XAttr list"

record XForm =
  xf_Attrs :: "XAttr list"
  xf_Operands :: "XOperand list"
  xf_Encodings :: "XEncoding list list"

record XInstruction =
  xi_Name :: string
  xi_Summary :: string
  xi_Forms :: "XForm list"

record XInstructionSet =
  xs_Name :: string
  xs_XInstructions :: "XInstruction list"

definition GetAttr :: "XEncoding \<Rightarrow> string \<Rightarrow> string option" where
  "GetAttr e k = map_of (map (\<lambda>a. (at_Name a, at_Value a)) (xe_Attrs e)) k"

text \<open>\<open>strconv.ParseUint\<close> for 8 bits and a given base, \<open>strconv.Atoi\<close> and \<open>strconv.ParseBool\<close>.\<close>

definition digit_value :: "char \<Rightarrow> nat option" where
  "digit_value c = (let n = of_char c in
     if 48 \<le> n \<and> n \<le> 57 then Some (n - 48)
     else if 97 \<le> n \<and> n \<le> 122 then Some (n - 97 + 10)
     else if 65 \<le> n \<and> n \<le> 90 then Some (n - 65 + 10)
     else None)"

fun parse_digits :: "nat \<Rightarrow> nat \<Rightarrow> string \<Rightarrow> nat option" where
  "parse_digits base acc [] = Some acc"
| "parse_digits base acc (c # cs) = (case digit_value c of
      None \<Rightarrow> None
    | Some d \<Rightarrow> if d \<ge> base then None else parse_digits base (acc * base + d) cs)"

definition ParseUint8 :: "nat \<Rightarrow> string \<Rightarrow> byte option" where
  "ParseUint8 base s = (if s = '''' then None
     else case parse_digits base 0 s of
         None \<Rightarrow> None
       | Some n \<Rightarrow> if n > 255 then None else Some (of_nat n))"

definition Atoi :: "string \<Rightarrow> int option" where
  "Atoi s =
     (let (neg, ds) = (case s of
          c # cs \<Rightarrow> if c = CHR ''-'' then (True, cs) else if c = CHR ''+'' then (False, cs) else (False, s)
        | [] \<Rightarrow> (False, s))
      in if ds = '''' then None
         else case parse_digits 10 0 ds of
             None \<Rightarrow> None
           | Some n \<Rightarrow>
               let v = (if neg then - int n else int n)
               in if - (2 ^ 63) \<le> v \<and> v < 2 ^ 63 then Some v else None)"

definition ParseBool :: "string \<Rightarrow> bool option" where
  "ParseBool s =
     (if s \<in> {''1'', ''t'', ''T'', ''true'', ''TRUE'', ''True''} then Some True
      else if s \<in> {''0'', ''f'', ''F'', ''false'', ''FALSE'', ''False''} then Some False
      else None)"

definition toOp :: "string \<Rightarrow> byte option" where
  "toOp s = (if s = ''#0'' then Some 0 else if s = ''#1'' then Some 1 else if s = ''#2'' then Some 2
     else if s = ''#3'' then Some 3 else if s = ''#4'' then Some 4 else None)"

datatype parse_err =
    UnknownOperand string
  | MissingAttr string
  | BadAttr string
  | CannotEncode string
  | UnknownEncoding string

text \<open>An attribute that is parsed when present and keeps its default otherwise.\<close>

definition opt_attr :: "XEncoding \<Rightarrow> string \<Rightarrow> 'a \<Rightarrow> (string \<Rightarrow> 'a option) \<Rightarrow> parse_err + 'a" where
  "opt_attr e k d p = (case GetAttr e k of
      None \<Rightarrow> Inr d
    | Some v \<Rightarrow> (case p v of None \<Rightarrow> Inl (BadAttr (xe_Name e)) | Some x \<Rightarrow> Inr x))"

definition req_attr :: "XEncoding \<Rightarrow> string \<Rightarrow> (string \<Rightarrow> 'a option) \<Rightarrow> parse_err + 'a" where
  "req_attr e k p = (case GetAttr e k of
      None \<Rightarrow> Inl (MissingAttr k)
    | Some v \<Rightarrow> (case p v of None \<Rightarrow> Inl (BadAttr (xe_Name e)) | Some x \<Rightarrow> Inr x))"

text \<open>A number stands for itself (\<open>MODE_LITERAL\<close>), \<open>#n\<close> for an operand.\<close>

definition literal_or_op :: "nat \<Rightarrow> string \<Rightarrow> byte option" where
  "literal_or_op base s = (case ParseUint8 base s of
      Some n \<Rightarrow> Some (n OR MODE_LITERAL)
    | None \<Rightarrow> toOp s)"

definition parseEncoding :: "XEncoding \<Rightarrow> parse_err + encoder" where
  "parseEncoding e =
     (let k = xe_Name e in
      if k = ''Opcode'' then
        rbind (req_attr e ''byte'' (ParseUint8 16)) (\<lambda>op.
        rbind (opt_attr e ''addend'' None (map_option Some \<circ> toOp)) (\<lambda>add.
        Inr (Eopcode op (add \<noteq> None) (case add of None \<Rightarrow> 0 | Some a \<Rightarrow> a))))
      else if k = ''Immediate'' then
        rbind (req_attr e ''size'' Atoi) (\<lambda>sz. rbind (req_attr e ''value'' toOp) (\<lambda>v. Inr (Eimmediate sz v)))
      else if k = ''REX'' then
        rbind (opt_attr e ''mandatory'' False ParseBool) (\<lambda>mandatory.
        rbind (opt_attr e ''W'' 0 (ParseUint8 10)) (\<lambda>w.
        rbind (opt_attr e ''R'' 0 toOp) (\<lambda>r.
        rbind (opt_attr e ''X'' 0 toOp) (\<lambda>x.
        rbind (opt_attr e ''B'' 0 toOp) (\<lambda>b.
        Inr (Erex \<lparr>x_mandatory = mandatory, x_w = w, x_r = r, x_x = x, x_b = b\<rparr>))))))
      else if k = ''ModRM'' then
        rbind (opt_attr e ''mode'' 0 (literal_or_op 2)) (\<lambda>mode.
        rbind (opt_attr e ''reg'' 0 (literal_or_op 10)) (\<lambda>reg.
        rbind (opt_attr e ''rm'' 0 toOp) (\<lambda>rm.
        Inr (Emodrm \<lparr>mr_mod = mode, mr_reg = reg, mr_rm = rm\<rparr>))))
      else if k = ''Prefix'' then rbind (req_attr e ''byte'' (ParseUint8 16)) (\<lambda>b. Inr (Eprefix b))
      else if k = ''CodeOffset'' then
        rbind (req_attr e ''size'' Atoi) (\<lambda>sz. rbind (req_attr e ''value'' toOp) (\<lambda>v. Inr (EcodeOffset sz v)))
      else if k = ''DataOffset'' then
        rbind (req_attr e ''size'' Atoi) (\<lambda>sz. rbind (req_attr e ''value'' toOp) (\<lambda>v. Inr (EdataOffset sz v)))
      else if k = ''VEX'' \<or> k = ''EVEX'' then Inl (CannotEncode k)
      else Inl (UnknownEncoding k))"

fun parse_all :: "('a \<Rightarrow> parse_err + 'b) \<Rightarrow> 'a list \<Rightarrow> parse_err + 'b list" where
  "parse_all p [] = Inr []"
| "parse_all p (x # xs) = rbind (p x) (\<lambda>y. rbind (parse_all p xs) (\<lambda>ys. Inr (y # ys)))"

fun parse_operands :: "XOperand list \<Rightarrow> parse_err + (nat \<times> Op list)" where
  "parse_operands [] = Inr (0, [])"
| "parse_operands (xo # xos) =
     (let k = xo_Name xo in
      if k = ''ISA'' then parse_operands xos
      else if k = ''Operand'' then
        rbind (parse_operands xos) (\<lambda>(n, ops).
          Inr (n + 1, \<lparr>op_TN = xo_Type xo, op_Output = xo_Output xo, op_Implicit = False\<rparr> # ops))
      else if k = ''ImplicitOperand'' then
        rbind (parse_operands xos) (\<lambda>(n, ops).
          Inr (n, \<lparr>op_TN = xo_ID xo, op_Output = xo_Output xo, op_Implicit = True\<rparr> # ops))
      else Inl (UnknownOperand k))"

definition parseForm :: "XForm \<Rightarrow> parse_err + IForm" where
  "parseForm xform =
     (let names = map at_Value (filter (\<lambda>a. at_Name a = ''gas-name'') (xf_Attrs xform)) in
      rbind (parse_operands (xf_Operands xform)) (\<lambda>(n, ops).
      rbind (parse_all (parse_all parseEncoding) (xf_Encodings xform)) (\<lambda>enc.
      Inr \<lparr>form_name = (if names = [] then '''' else ToUpper (last names)),
        form_opcount = n, form_ops = ops, form_enc = enc\<rparr>)))"

text \<open>A form that cannot be parsed is left out.\<close>

definition parsed_forms :: "XInstruction \<Rightarrow> IForm list" where
  "parsed_forms xi = concat (map (\<lambda>xf. case parseForm xf of Inl _ \<Rightarrow> [] | Inr f \<Rightarrow> [f]) (xi_Forms xi))"

definition add_instruction :: "bool \<Rightarrow> XInstruction \<Rightarrow> Asm \<Rightarrow> Asm" where
  "add_instruction spec xi a =
     (let p = length (asm_heap a); fs = parsed_forms xi in
      a\<lparr>asm_heap := asm_heap a @ [\<lparr>ins_Summary = xi_Summary xi, ins_Forms = fs\<rparr>],
        asm_instrs := AList.update (xi_Name xi) p (asm_instrs a),
        asm_specforms := (if spec then fold (\<lambda>f. AList.update (form_name f) p) fs (asm_specforms a)
          else asm_specforms a)\<rparr>)"

definition parse_set :: "bool \<Rightarrow> XInstructionSet \<Rightarrow> Asm" where
  "parse_set spec xis = fold (add_instruction spec) (xs_XInstructions xis)
     \<lparr>asm_ArchName = xs_Name xis, asm_heap = [], asm_instrs = [], asm_specforms = []\<rparr>"

text \<open>\<open>parse\<close> and \<open>ParseFile\<close> after decoding: only \<open>parse\<close> fills \<open>specforms\<close>.\<close>

definition Asm_parse :: "XInstructionSet \<Rightarrow> Asm" where
  "Asm_parse = parse_set True"

definition Asm_ParseFile :: "XInstructionSet \<Rightarrow> Asm" where
  "Asm_ParseFile = parse_set False"

text \<open>\<open>LoadAsm\<close>, the embedded file being given as what it decodes to.\<close>

definition AMD64 :: int where
  "AMD64 = 0"

definition LoadAsm :: "XInstructionSet \<Rightarrow> int \<Rightarrow> Asm option" where
  "LoadAsm embedded a = (if a = AMD64 then Some (Asm_parse embedded) else None)"

end
