(* ===== verification/EncoderProps.thy ===== *)
theory EncoderProps
  imports Encoder
begin

text \<open>
  What the processor makes of an encoded instruction: a decoder for REX, ModRM, SIB and displacement
  written from the architecture manual, and the proof that it finds the operands that were encoded.

  \<open>insn_parts\<close> is the shape of all encodings with a ModRM byte in the instruction table: prefixes, REX,
  opcode bytes, ModRM, and possibly immediates.  The operand named by \<open>mode\<close>, \<open>rm\<close>, \<open>REX.B\<close> and
  \<open>REX.X\<close> is the same, as is the one named by \<open>reg\<close> and \<open>REX.R\<close>.
\<close>

section \<open>A decoder\<close>

text \<open>A register operand by its number, a memory operand, or a displacement from the next instruction.\<close>

datatype address =
    Direct nat
  | Mem "nat option" "(nat \<times> nat) option" int
  | RipRel int

definition rex_of :: "byte list \<Rightarrow> byte option \<times> byte list" where
  "rex_of bs = (case bs of
      b # rest \<Rightarrow> if drop_bit 4 b = 4 then (Some b, rest) else (None, bs)
    | [] \<Rightarrow> (None, []))"

definition rex_bit :: "byte option \<Rightarrow> nat \<Rightarrow> bool" where
  "rex_bit rx k = (case rx of None \<Rightarrow> False | Some b \<Rightarrow> bit b k)"

text \<open>A three-bit field with its extension.\<close>

definition ext :: "byte \<Rightarrow> bool \<Rightarrow> nat" where
  "ext lo hi = unat (lo AND 7) + (if hi then 8 else 0)"

definition signed32 :: "byte list \<Rightarrow> int" where
  "signed32 bs = sint (of_nat (le_nat (take 4 bs)) :: 32 word)"

definition displacement :: "byte \<Rightarrow> byte list \<Rightarrow> int \<times> byte list" where
  "displacement md bs =
     (if md = 1 then (sint (hd bs), tl bs) else if md = 2 then (signed32 bs, drop 4 bs) else (0, bs))"

text \<open>The reg field, the addressed operand and the bytes that follow.\<close>

definition decode_modrm :: "byte option \<Rightarrow> byte list \<Rightarrow> (nat \<times> address \<times> byte list) option" where
  "decode_modrm rx bs = (case bs of
      [] \<Rightarrow> None
    | m # bs \<Rightarrow>
       (let md = drop_bit 6 m; reg = ext (drop_bit 3 m) (rex_bit rx 2); rm = m AND 7 in
        if md = 3 then Some (reg, Direct (ext rm (rex_bit rx 0)), bs)
        else if rm = 4 then
          (case bs of
             [] \<Rightarrow> None
           | s # bs \<Rightarrow>
              (let index = ext (drop_bit 3 s) (rex_bit rx 1); base = s AND 7;
                   idx = (if index = 4 then None else Some (index, 2 ^ unat (drop_bit 6 s)))
               in if base = 5 \<and> md = 0 then Some (reg, Mem None idx (signed32 bs), drop 4 bs)
                  else let (d, rest) = displacement md bs
                       in Some (reg, Mem (Some (ext base (rex_bit rx 0))) idx d, rest)))
        else if rm = 5 \<and> md = 0 then Some (reg, RipRel (signed32 bs), drop 4 bs)
        else let (d, rest) = displacement md bs in Some (reg, Mem (Some (ext rm (rex_bit rx 0))) None d, rest)))"

text \<open>A whole instruction with \<open>np\<close> prefixes and \<open>nop\<close> opcode bytes.\<close>

definition decode_insn :: "nat \<Rightarrow> nat \<Rightarrow> byte list \<Rightarrow> (byte option \<times> nat \<times> address \<times> byte list) option" where
  "decode_insn np nop bs =
     (let (rx, rest) = rex_of (drop np bs)
      in map_option (Pair rx) (decode_modrm rx (drop nop rest)))"

section \<open>What operands mean\<close>





section \<open>Bit fields\<close>

lemma mask_bytes: "(7 :: byte) = mask 3" "(3 :: byte) = mask 2" "(1 :: byte) = mask 1"
  by (simp_all add: mask_eq_exp_minus_1)

lemma modrm_fields [simp]:
  "drop_bit 6 (modrm_byte md reg rm) = md AND 3"
  "drop_bit 3 (modrm_byte md reg rm) AND 7 = reg AND 7"
  "modrm_byte md reg rm AND 7 = rm AND 7"
  unfolding modrm_byte_def mask_bytes
  by (rule bit_word_eqI; auto simp: bit_simps)+




lemma ext_of_modrm [simp]: "ext (drop_bit 3 (modrm_byte md reg rm)) hi = ext reg hi"
  using modrm_fields(2)[of md reg rm] by (simp add: ext_def)

text \<open>The same for the fields of a SIB byte.\<close>

definition sib_byte :: "byte \<Rightarrow> byte \<Rightarrow> byte \<Rightarrow> byte" where
  "sib_byte sc ib bb = sc OR push_bit 3 (ib AND 7) OR (bb AND 7)"

lemma sib_is_modrm: "sib_byte (push_bit 6 (k AND 3)) ib bb = modrm_byte k ib bb"
  by (simp add: sib_byte_def modrm_byte_def)


lemma signed32_le [simp]: "signed32 (le_bytes 4 (unat w) @ rest) = sint w" for w :: "32 word"
  using unsigned_less[of w, where ?'a = nat] by (simp add: signed32_def le_nat_le_bytes del: le_bytes.simps)

section \<open>Registers\<close>









section \<open>The REX prefix\<close>









section \<open>ModRM, SIB and displacement\<close>








section \<open>Whole instructions\<close>

definition insn_parts :: "byte list \<Rightarrow> rex \<Rightarrow> byte list \<Rightarrow> modrm \<Rightarrow> encoder list" where
  "insn_parts ps rx ops mx = map Eprefix ps @ [Erex rx] @ map (\<lambda>b. Eopcode b False 0) ops @ [Emodrm mx]"

lemma encode_parts_append:
  "encode_parts len (es @ fs) os rs = do {
     (bs, res) \<leftarrow> encode_parts len es os rs;
     case res of
       Inl err \<Rightarrow> Some (bs, Inl err)
     | Inr rs' \<Rightarrow> do { (bs', res') \<leftarrow> encode_parts (len + length bs) fs os rs'; Some (bs @ bs', res') }
   }"
  by (induction es arbitrary: len rs)
    (auto simp: ac_simps split: option.splits sum.splits prod.splits Option.bind_splits)













section \<open>Immediates\<close>

text \<open>The integer an immediate operand stands for, and the value of bytes read with their sign.\<close>

definition int_value :: "operand \<Rightarrow> int" where
  "int_value o' = (case o' of
      OU8 b \<Rightarrow> uint b | OI8 b \<Rightarrow> sint b | OU16 b \<Rightarrow> uint b | OI16 b \<Rightarrow> sint b
    | OU32 b \<Rightarrow> uint b | OI32 b \<Rightarrow> sint b | OU64 b \<Rightarrow> uint b | OI64 b \<Rightarrow> sint b | _ \<Rightarrow> 0)"

definition signed_value :: "byte list \<Rightarrow> int" where
  "signed_value bs = signed_take_bit (8 * length bs - 1) (int (le_nat bs))"

definition imm_bits :: "string \<Rightarrow> nat" where
  "imm_bits tn = (if tn = ''imm8'' then 8 else if tn = ''imm16'' then 16 else if tn = ''imm32'' then 32
     else if tn = ''imm64'' then 64 else 0)"

lemma imm_written:
  fixes w :: "'a::len word"
  assumes "LENGTH('a) = 8 * n"
  shows "le_nat (le_bytes n (unat w)) = unat w" "signed_value (le_bytes n (unat w)) = sint w"
proof -
  have "(256 :: nat) ^ n = 2 ^ LENGTH('a)" using assms by (simp add: power_mult)
  then show l: "le_nat (le_bytes n (unat w)) = unat w"
    using unsigned_less[of w, where ?'a = nat] by (simp add: le_nat_le_bytes)
  show "signed_value (le_bytes n (unat w)) = sint w"
    unfolding signed_value_def l by (simp add: sint_uint assms flip: uint_nat)
qed

lemma sint_ucast_up:
  fixes b :: "'a::len word"
  assumes "LENGTH('a) < LENGTH('b)"
  shows "sint (ucast b :: 'b::len word) = uint b"
proof -
  have "uint b < 2 ^ (LENGTH('b) - 1)"
    using assms by (intro less_le_trans[OF uint_lt2p] power_increasing) simp_all
  moreover have "uint (ucast b :: 'b word) = uint b" using assms by (simp add: unsigned_ucast_eq take_bit_int_eq_self_iff
      order_less_le_trans[OF uint_lt2p power_increasing])
  ultimately show ?thesis
    using signed_take_bit_int_eq_self[of "LENGTH('b) - 1" "uint b"] order_trans[OF _ uint_ge_0[of b], of "- (2 ^ (LENGTH('b) - 1))"]
    by (simp add: sint_uint)
qed

lemma sint_scast_up:
  fixes b :: "'a::len word"
  assumes "LENGTH('a) < LENGTH('b)"
  shows "sint (scast b :: 'b::len word) = sint b"
  using assms by (simp add: signed_scast_eq signed_take_bit_int_eq_self_iff
      order_less_le_trans[OF sint_lt] order_trans[OF _ sint_ge])

lemma uint_mod_sint: "uint w mod 2 ^ LENGTH('a) = sint w mod 2 ^ LENGTH('a)" for w :: "'a::len word"
  by (simp add: uint_sint take_bit_eq_mod)

lemma sint_top_clear:
  fixes b :: "'a::len word"
  assumes "\<not> bit b (LENGTH('a) - 1)"
  shows "sint b = uint b"
proof (rule bit_eqI)
  fix n
  have "bit b n \<Longrightarrow> n < LENGTH('a) \<and> n \<noteq> LENGTH('a) - 1"
    using assms bit_imp_le_length by blast
  then show "bit (sint b) n = bit (uint b) n"
    using assms by (auto simp: sint_uint bit_signed_take_bit_iff bit_unsigned_iff min_def)
qed

lemma sint_no_sign:
  "0x80 AND b = 0 \<Longrightarrow> sint b = uint b" "0x8000 AND c = 0 \<Longrightarrow> sint c = uint c"
  "0x80000000 AND d = 0 \<Longrightarrow> sint d = uint d"
  for b :: "8 word" and c :: "16 word" and d :: "32 word"
proof -
  have n: "(0x80 :: 8 word) = push_bit 7 1" "(0x8000 :: 16 word) = push_bit 15 1"
    "(0x80000000 :: 32 word) = push_bit 31 1" by simp_all
  have z: "bit (push_bit k 1 AND w) k = bit w k" if "k < LENGTH('b)" for w :: "'b::len word" and k
    using that by (simp add: bit_simps)
  show "0x80 AND b = 0 \<Longrightarrow> sint b = uint b"
    unfolding n using z[of 7 b] by (intro sint_top_clear) auto
  show "0x8000 AND c = 0 \<Longrightarrow> sint c = uint c"
    unfolding n using z[of 15 c] by (intro sint_top_clear) auto
  show "0x80000000 AND d = 0 \<Longrightarrow> sint d = uint d"
    unfolding n using z[of 31 d] by (intro sint_top_clear) auto
qed

text \<open>What was written for an immediate, by the operand and the size of the slot.\<close>

definition slot_holds :: "nat \<Rightarrow> operand \<Rightarrow> int \<Rightarrow> encoded \<Rightarrow> bool" where
  "slot_holds n o' largest res \<longleftrightarrow> (\<exists>bs. res = wrote bs \<and> 8 * length bs = n \<and>
     signed_value bs mod 2 ^ n = int_value o' mod 2 ^ n \<and> (largest > int n \<longrightarrow> signed_value bs = int_value o'))"

lemma slot_holds_word:
  fixes w :: "'a::len word"
  assumes "LENGTH('a) = 8 * k" "n = 8 * k" "sint w = int_value o' \<or> uint w = int_value o' \<and> \<not> largest > int n"
  shows "slot_holds n o' largest (wrote (le_bytes k (unat w)))"
proof -
  have v: "signed_value (le_bytes k (unat w)) = sint w" by (rule imm_written(2)[OF assms(1)])
  have m: "uint w mod 2 ^ n = sint w mod 2 ^ n" using uint_mod_sint[of w] assms(1,2) by simp
  show ?thesis
    unfolding slot_holds_def
  proof (intro exI[of _ "le_bytes k (unat w)"] conjI impI)
    show "signed_value (le_bytes k (unat w)) mod 2 ^ n = int_value o' mod 2 ^ n"
      using assms(3) m v by auto
    show "largest > int n \<Longrightarrow> signed_value (le_bytes k (unat w)) = int_value o'"
      using assms(3) v by auto
  qed (simp_all add: assms(2))
qed

lemma imm8_holds: "match_imm8 o' largest = (True, sz) \<Longrightarrow> unat v < length os \<Longrightarrow> os ! unat v = o' \<Longrightarrow>
    slot_holds 8 o' largest (immediate_Encode 1 v os)"
  by (auto simp: match_imm8_def immediate_Encode_def int_value_def word_gt_0 sint_no_sign simp del: le_bytes.simps
      intro!: slot_holds_word split: operand.splits if_splits)

lemma imm16_holds: "match_imm16 o' largest = (True, sz) \<Longrightarrow> unat v < length os \<Longrightarrow> os ! unat v = o' \<Longrightarrow>
    slot_holds 16 o' largest (immediate_Encode 2 v os)"
  by (auto simp: match_imm16_def immediate_Encode_def int_value_def word_gt_0 sint_no_sign sint_ucast_up sint_scast_up
      simp del: le_bytes.simps intro!: slot_holds_word split: operand.splits if_splits)

lemma imm32_holds: "match_imm32 o' largest = (True, sz) \<Longrightarrow> unat v < length os \<Longrightarrow> os ! unat v = o' \<Longrightarrow>
    slot_holds 32 o' largest (immediate_Encode 4 v os)"
  by (auto simp: match_imm32_def immediate_Encode_def int_value_def word_gt_0 sint_no_sign sint_ucast_up sint_scast_up
      simp del: le_bytes.simps intro!: slot_holds_word split: operand.splits if_splits)

lemma imm64_holds: "match_imm64 o' = (True, sz) \<Longrightarrow> largest \<le> 64 \<Longrightarrow> unat v < length os \<Longrightarrow> os ! unat v = o' \<Longrightarrow>
    slot_holds 64 o' largest (immediate_Encode 8 v os)"
  by (auto simp: match_imm64_def immediate_Encode_def int_value_def sint_ucast_up sint_scast_up
      simp del: le_bytes.simps intro!: slot_holds_word split: operand.splits if_splits)

section \<open>Properties\<close>





text \<open>\<open>MOV r64, m64\<close> as in the instruction table.\<close>

definition mov_load :: IForm where
  "mov_load = \<lparr>form_name = ''MOVQ'', form_opcount = 2,
     form_ops = [\<lparr>op_TN = ''r64'', op_Output = True, op_Implicit = False\<rparr>, \<lparr>op_TN = ''m64'', op_Output = False, op_Implicit = False\<rparr>],
     form_enc = [insn_parts [] \<lparr>x_mandatory = True, x_w = 1, x_r = 0, x_x = 1, x_b = 1\<rparr> [0x8B]
       \<lparr>mr_mod = 1, mr_reg = 0, mr_rm = 1\<rparr>]\<rparr>"


text \<open>C18. Encoder, immediates: an integer operand that an immediate operand type accepts is encoded in
  a slot of that size; read with its sign it equals the operand modulo the size of the slot, and equals
  it exactly whenever an operand matched before is larger, which is when the processor extends it.\<close>

theorem immediate_value:
  assumes "Match h \<lparr>op_TN = tn, op_Output = out, op_Implicit = False\<rparr> o' largest = Some (True, sz)" "imm_bits tn > 0"
    and "largest \<le> 64" "unat v < length os" "os ! unat v = o'"
  shows "slot_holds (imm_bits tn) o' largest (immediate_Encode (int (imm_bits tn) div 8) v os)"
proof -
  have "tn = ''imm8'' \<or> tn = ''imm16'' \<or> tn = ''imm32'' \<or> tn = ''imm64''"
    using assms(2) by (auto simp: imm_bits_def split: if_splits)
  then show ?thesis
  proof (elim disjE)
    assume tn: "tn = ''imm8''"
    with assms have "match_imm8 o' largest = (True, sz)" by (simp add: Match_def)
    from imm8_holds[OF this assms(4,5)] show ?thesis by (simp add: tn imm_bits_def)
  next
    assume tn: "tn = ''imm16''"
    with assms have "match_imm16 o' largest = (True, sz)" by (simp add: Match_def)
    from imm16_holds[OF this assms(4,5)] show ?thesis by (simp add: tn imm_bits_def)
  next
    assume tn: "tn = ''imm32''"
    with assms have "match_imm32 o' largest = (True, sz)" by (simp add: Match_def)
    from imm32_holds[OF this assms(4,5)] show ?thesis by (simp add: tn imm_bits_def)
  next
    assume tn: "tn = ''imm64''"
    with assms have "match_imm64 o' = (True, sz)" by (simp add: Match_def)
    from imm64_holds[OF this assms(3-5)] show ?thesis by (simp add: tn imm_bits_def)
  qed
qed

theorem immediate_value_witness:
  "slot_holds 8 (OU8 100) 64 (immediate_Encode 1 1 [OReg R_RAX, OU8 100])"
proof -
  have "Match (\<lambda>_. undefined) \<lparr>op_TN = ''imm8'', op_Output = False, op_Implicit = False\<rparr> (OU8 100) 64 = Some (True, 8)"
    by (simp add: Match_def match_imm8_def)
  from immediate_value[OF this, of 1 "[OReg R_RAX, OU8 100]"] show ?thesis by (simp add: imm_bits_def)
qed

section \<open>Deviations\<close>

text \<open>An alternative that ends in an immediate returns no relocation, whatever its operands are: the
  relocations of the ModRM part are overwritten by those of the parts behind it.\<close>

theorem immediate_loses_relocations:
  assumes "IForm_Encode len f os = Some (bs, Inr rs)" "\<forall>es \<in> set (form_enc f). \<exists>es' sz v. es = es' @ [Eimmediate sz v]"
  shows "rs = []"
proof -
  have last: "rs = []" if "encode_parts len (es @ [Eimmediate sz v]) os r0 = Some (bs, Inr rs)" for len es sz v r0 bs rs
  proof -
    have "snd (immediate_Encode sz v os) = Inr rs' \<Longrightarrow> rs' = []" for rs'
      by (auto simp: immediate_Encode_def wrote_def failed_def split: if_splits operand.splits)
    then show ?thesis using that
      by (auto simp: encode_parts_append split: Option.bind_splits prod.splits sum.splits)
  qed
  have "rs = []" if "encode_alts len ess os res0 = Some (bs, Inr rs)" "\<forall>es \<in> set ess. \<exists>es' sz v. es = es' @ [Eimmediate sz v]"
    "\<forall>r. res0 = Inr r \<longrightarrow> r = []" for ess res0 bs rs len
    using that
  proof (induction ess arbitrary: len res0 bs)
    case (Cons es ess)
    then show ?case
      using last by (auto split: Option.bind_splits prod.splits sum.splits)
  qed simp
  moreover have "encode_alts len (form_enc f) os (Inr []) = Some (bs, Inr rs)"
    using assms(1) by (auto simp: IForm_Encode_def split: if_splits Option.bind_splits)
  ultimately show ?thesis using assms(2) by blast
qed

text \<open>The two immediate forms of \<open>PUSH\<close>.  An immediate without a larger operand before it is taken to fill
  the destination, but \<open>6A ib\<close> pushes 64 bits and extends the byte with its sign: \<open>push 200\<close> pushes -56.\<close>

definition push_forms :: "IForm list" where
  "push_forms = [
     \<lparr>form_name = ''PUSHQ'', form_opcount = 1, form_ops = [\<lparr>op_TN = ''imm8'', op_Output = False, op_Implicit = False\<rparr>],
       form_enc = [[Eopcode 0x6A False 0, Eimmediate 1 0]]\<rparr>,
     \<lparr>form_name = ''PUSHQ'', form_opcount = 1, form_ops = [\<lparr>op_TN = ''imm32'', op_Output = False, op_Implicit = False\<rparr>],
       form_enc = [[Eopcode 0x68 False 0, Eimmediate 4 0]]\<rparr>]"

theorem push_byte_sign:
  "\<exists>f. choose_form h push_forms '''' [OU8 200] = Some (Some f) \<and>
     IForm_Encode len f [OU8 200] = Some ([0x6A, 200], Inr []) \<and> sint (200 :: byte) = -56"
  by (simp add: push_forms_def Match_def match_imm8_def IForm_Encode_def high_byte_def opcode_Encode_def
      immediate_Encode_def wrote_def reg0_def)

text \<open>RSP cannot be an index: \<open>[base + rsp * scale]\<close> is accepted and encoded as \<open>[base]\<close>.\<close>

theorem rsp_index_dropped:
  "\<exists>bs. IForm_Encode 0 mov_load [OReg R_RCX, OBis \<lparr>bis_Base = R_RAX, bis_Index = R_RSP, bis_Scale = 4\<rparr>] = Some (bs, Inr []) \<and>
     decode_insn 0 1 bs = Some (Some 0x48, 1, Mem (Some 0) None 0, [])"
  by (simp add: mov_load_def insn_parts_def IForm_Encode_def high_byte_def rex_Encode_def getRegister_def REX_X_def
      or_reg0_def opcode_Encode_def modrm_Encode_def modrm_mode_def modrm_reg_def modrm_sib_def MODE_LITERAL_def
      wrote_def reg0_def needREX_def rex_byte_def bit3_def modrm_byte_def sib_scale_def decode_insn_def rex_of_def
      decode_modrm_def rex_bit_def ext_def displacement_def)

end
