(* ===== verification/Rallocs.thy ===== *)
theory Rallocs
  imports Encoder RegAlloc
begin

text \<open>
  The local variables of a function and the registers they live in, \<open>function.go\<close>: \<open>Ralloc\<close>,
  \<open>Rallocs\<close>, and the operations of \<open>Function\<close> that go through them (\<open>Prologue\<close>, \<open>Epilogue\<close>, \<open>Label\<close>,
  \<open>Jump\<close>, \<open>Instr\<close>), with the part of \<open>encoder.go\<close> that turns a variable into an operand
  (\<open>ConvertRalloc\<close>, the loop of \<open>Asm.Encode\<close>).

  A \<open>*Ralloc\<close> is a position in the heap of the state.  The operations take the instruction tables and
  the state and return the state changed; \<open>None\<close> is a panic.  \<open>fs_code\<close> is not in the code: it
  lists the instructions that were encoded, as handed to \<open>IForm.Encode\<close> after \<open>ConvertRalloc\<close>, each
  with its bytes, and is what the lemmas about the generated code speak of.
\<close>

section \<open>State\<close>

record fstate =
  fs_heap :: "nat \<Rightarrow> Ralloc"
  fs_fresh :: nat
  fs_regs :: "Register \<Rightarrow> nat option"
  fs_names :: "(string \<times> nat) list"
  fs_rs :: regfile
  fs_lru :: "Register list"
  fs_localoff :: "32 word"
  fs_free :: "(32 word \<times> 32 word) list"
  fs_localsLocation :: "32 word"
  fs_basePointerOff :: "32 word"
  fs_fn :: Function
  fs_code :: "(string \<times> operand list \<times> byte list) list"

definition no_ralloc :: Ralloc where
  "no_ralloc = \<lparr>a_sym = '''', a_size = 0, a_inreg = False, a_inmem = False, a_reg = reg0, a_regable = False,
     a_offset = 0, a_volatile = False\<rparr>"

text \<open>\<open>NewRallocs\<close> and the fields \<open>NewFunction\<close> sets.\<close>

definition NewRallocs :: "Function \<Rightarrow> fstate" where
  "NewRallocs f = \<lparr>fs_heap = (\<lambda>_. no_ralloc), fs_fresh = 0, fs_regs = (\<lambda>_. None), fs_names = [],
     fs_rs = NewRegisters, fs_lru = [], fs_localoff = 0, fs_free = [], fs_localsLocation = 0,
     fs_basePointerOff = 6 * 8, fs_fn = f, fs_code = []\<rparr>"

definition upd :: "nat \<Rightarrow> (Ralloc \<Rightarrow> Ralloc) \<Rightarrow> fstate \<Rightarrow> fstate" where
  "upd p g s = s\<lparr>fs_heap := (fs_heap s)(p := g (fs_heap s p))\<rparr>"

section \<open>Stack slots\<close>

text \<open>The first free block of the size.\<close>

fun take_free :: "32 word \<Rightarrow> (32 word \<times> 32 word) list \<Rightarrow> (32 word \<times> (32 word \<times> 32 word) list) option" where
  "take_free n [] = None"
| "take_free n ((sz, off) # fr) =
     (if sz = n then Some (off, fr)
      else map_option (\<lambda>(o', fr'). (o', (sz, off) # fr')) (take_free n fr))"

definition space :: "32 word \<Rightarrow> fstate \<Rightarrow> 32 word \<times> fstate" where
  "space n s = (case take_free n (fs_free s) of
      Some (off, fr) \<Rightarrow> (off, s\<lparr>fs_free := fr\<rparr>)
    | None \<Rightarrow> (let l = fs_localoff s + n in (- l, s\<lparr>fs_localoff := l\<rparr>)))"

definition returnSpace :: "32 word \<Rightarrow> 32 word \<Rightarrow> fstate \<Rightarrow> fstate" where
  "returnSpace n off s = s\<lparr>fs_free := fs_free s @ [(n, off)]\<rparr>"

text \<open>\<open>int32(size) / 8\<close>, which truncates towards zero.\<close>

definition int32_8 :: "int \<Rightarrow> 32 word" where
  "int32_8 n = (let x = sint (word_of_int n :: 32 word) in word_of_int (if x < 0 then - (- x div 8) else x div 8))"

definition new_ralloc :: "string \<Rightarrow> Ralloc \<Rightarrow> fstate \<Rightarrow> nat \<times> fstate" where
  "new_ralloc n r s = (fs_fresh s, s\<lparr>fs_heap := (fs_heap s)(fs_fresh s := r), fs_fresh := fs_fresh s + 1,
     fs_names := AList.update n (fs_fresh s) (fs_names s)\<rparr>)"

datatype ra_err =
    Declared string
  | NotDeclared string
  | IsVolatile string

definition NewLocal :: "string \<Rightarrow> int \<Rightarrow> fstate \<Rightarrow> ra_err + (nat \<times> fstate)" where
  "NewLocal n sz s =
     (if map_of (fs_names s) n \<noteq> None then Inl (Declared n)
      else let (off, s) = space (int32_8 sz) s in
        Inr (new_ralloc n (no_ralloc\<lparr>a_sym := n, a_size := sz, a_regable := True, a_offset := off\<rparr>) s))"

definition AllocBytes :: "string \<Rightarrow> int \<Rightarrow> fstate \<Rightarrow> ra_err + (nat \<times> fstate)" where
  "AllocBytes n sz s =
     (if map_of (fs_names s) n \<noteq> None then Inl (Declared n)
      else let (off, s) = space (word_of_int sz) s in
        Inr (new_ralloc n (no_ralloc\<lparr>a_sym := n, a_size := sz * 8, a_inmem := True, a_offset := off\<rparr>) s))"

definition AllocFor :: "string \<Rightarrow> fstate \<Rightarrow> nat option" where
  "AllocFor n s = map_of (fs_names s) n"

definition updateLRU :: "Register \<Rightarrow> fstate \<Rightarrow> fstate" where
  "updateLRU r s = s\<lparr>fs_lru := filter (\<lambda>x. x \<noteq> r) (fs_lru s) @ [r]\<rparr>"

definition removeLRU :: "Register \<Rightarrow> fstate \<Rightarrow> fstate" where
  "removeLRU r s = s\<lparr>fs_lru := filter (\<lambda>x. x \<noteq> r) (fs_lru s)\<rparr>"

text \<open>\<open>removeLRU(r.reg); delete(regs, r.reg); rs.Release(r.reg)\<close>.\<close>

definition give_up :: "Register \<Rightarrow> fstate \<Rightarrow> fstate option" where
  "give_up r s = map_option (\<lambda>rs. (removeLRU r s)\<lparr>fs_regs := (fs_regs s)(r := None), fs_rs := rs\<rparr>) (Release r (fs_rs s))"

text \<open>\<open>r.reg = reg; regs[reg] = r; updateLRU(reg); r.inreg = true\<close>.\<close>

definition settle :: "nat \<Rightarrow> Register \<Rightarrow> fstate \<Rightarrow> fstate" where
  "settle p r s = updateLRU r (upd p (\<lambda>v. v\<lparr>a_reg := r, a_inreg := True\<rparr>) (s\<lparr>fs_regs := (fs_regs s)(r := Some p)\<rparr>))"

definition Forget :: "string \<Rightarrow> fstate \<Rightarrow> (ra_err + fstate) option" where
  "Forget n s = (case map_of (fs_names s) n of
      None \<Rightarrow> Some (Inl (NotDeclared n))
    | Some p \<Rightarrow> do {
        let v = fs_heap s p in
        (if a_inreg v then give_up (a_reg v) s else Some s) \<bind> (\<lambda>s.
        Some (Inr (returnSpace (int32_8 (a_size v)) (a_offset v) (s\<lparr>fs_names := AList.delete n (fs_names s)\<rparr>)))) })"

text \<open>\<open>iter\<close> is the order in which Go happens to iterate over the map.\<close>

fun forget_each :: "string list \<Rightarrow> fstate \<Rightarrow> fstate option" where
  "forget_each [] s = Some s"
| "forget_each (n # ns) s = do {
     res \<leftarrow> Forget n s;
     case res of Inl _ \<Rightarrow> forget_each ns s | Inr s \<Rightarrow> forget_each ns s }"

definition ForgetAll :: "(string list \<Rightarrow> string list) \<Rightarrow> fstate \<Rightarrow> fstate option" where
  "ForgetAll iter s = forget_each (iter (map fst (fs_names s))) s"

section \<open>Arguments\<close>

definition Arg :: "string \<Rightarrow> Register \<Rightarrow> fstate \<Rightarrow> (ra_err + (nat \<times> fstate)) option" where
  "Arg n reg s =
     (if map_of (fs_names s) n \<noteq> None then Some (Inl (Declared n))
      else do {
        w \<leftarrow> Width reg;
        let (off, s) = space (int32_8 w) s;
            (p, s) = new_ralloc n (no_ralloc\<lparr>a_sym := n, a_size := w, a_inreg := True, a_reg := reg,
              a_regable := True, a_offset := off\<rparr>) s;
            s = updateLRU reg (s\<lparr>fs_regs := (fs_regs s)(reg := Some p)\<rparr>) in
        map_option (\<lambda>(_, rs). Inr (p, s\<lparr>fs_rs := rs\<rparr>)) (Use reg (fs_rs s)) })"

definition StackArg :: "string \<Rightarrow> int \<Rightarrow> fstate \<Rightarrow> ra_err + (nat \<times> fstate)" where
  "StackArg n i s =
     (if map_of (fs_names s) n \<noteq> None then Inl (Declared n)
      else Inr (new_ralloc n (no_ralloc\<lparr>a_sym := n, a_size := 64, a_inmem := True, a_regable := True,
             a_offset := word_of_int ((i + 1) * 8) + fs_basePointerOff s\<rparr>)
           (s\<lparr>fs_localoff := fs_localoff s + 8\<rparr>)))"

definition by_size :: "int \<Rightarrow> Register \<Rightarrow> Register \<Rightarrow> Register \<Rightarrow> Register \<Rightarrow> Register" where
  "by_size n r8 r16 r32 r64 = (if n = 8 then r8 else if n = 16 then r16 else if n = 32 then r32 else r64)"

definition argRegForSize :: "int \<Rightarrow> int \<Rightarrow> Register" where
  "argRegForSize i n =
     (if i = 0 then by_size n R_DIL R_DI R_EDI R_RDI
      else if i = 1 then by_size n R_SIL R_SI R_ESI R_RSI
      else if i = 2 then by_size n R_DL R_DX R_EDX R_RDX
      else if i = 3 then by_size n R_CL R_CX R_ECX R_RCX
      else if i = 4 then by_size n R8B R8W R8D R8
      else if i = 5 then by_size n R9B R9W R9D R9
      else R_RDI)"

definition ArgI :: "string \<Rightarrow> int \<Rightarrow> int option \<Rightarrow> fstate \<Rightarrow> (ra_err + (nat \<times> fstate)) option" where
  "ArgI n i opt s = (let sz = (case opt of None \<Rightarrow> 64 | Some z \<Rightarrow> z) in
     if i \<le> 5 then Arg n (argRegForSize i sz) s else Some (StackArg n (i - 6) s))"
section \<open>Instructions of the allocator\<close>

text \<open>\<open>Instr\<close> when no operand is a variable: encode, append, and panic on an error.\<close>

definition emit_insn :: "Asm \<Rightarrow> string \<Rightarrow> operand list \<Rightarrow> fstate \<Rightarrow> fstate option" where
  "emit_insn a instr os s = do {
     (bs, res) \<leftarrow> Asm_Encode a (fs_heap s) (length (f_bs (fs_fn s))) instr os;
     case res of
       Inl e \<Rightarrow> None
     | Inr rs \<Rightarrow> Some (s\<lparr>fs_fn := emit bs rs (fs_fn s), fs_code := fs_code s @ [(instr, os, bs)]\<rparr>) }"

definition slot_op :: "Ralloc \<Rightarrow> int \<Rightarrow> operand" where
  "slot_op v n = OInd \<lparr>in_Reg = R_RBP, in_Off = a_offset v, in_Size = n, in_Symbol = ''''\<rparr>"

text \<open>\<open>Ralloc.Evict\<close>.\<close>

definition Evict :: "Asm \<Rightarrow> nat \<Rightarrow> fstate \<Rightarrow> (Register \<times> fstate) option" where
  "Evict a p s = (let v = fs_heap s p in
     if \<not> a_inreg v then None
     else if a_regable v then do {
       n \<leftarrow> RegSize v;
       s \<leftarrow> emit_insn a ''MOV'' [slot_op v n, OReg (a_reg v)] s;
       s \<leftarrow> give_up (a_reg v) (upd p (\<lambda>v. v\<lparr>a_inreg := False, a_inmem := True\<rparr>) s);
       Some (a_reg v, s) }
     else do {
       s \<leftarrow> give_up (a_reg v) (upd p (\<lambda>v. v\<lparr>a_inreg := False\<rparr>) s);
       Some (a_reg v, s) })"

text \<open>\<open>Rallocs.Evict\<close>: the least recently used register that is wide enough.  A missing entry of
  \<open>regs\<close> is a nil dereference.\<close>

fun evict_lru :: "Asm \<Rightarrow> int \<Rightarrow> Register list \<Rightarrow> fstate \<Rightarrow> (Register option \<times> fstate) option" where
  "evict_lru a n [] s = Some (None, s)"
| "evict_lru a n (r # rest) s = do {
     w \<leftarrow> Width r;
     if w \<ge> n then do {
       p \<leftarrow> fs_regs s r;
       (_, s) \<leftarrow> Evict a p s;
       (got, rs) \<leftarrow> Get n (fs_rs s);
       Some (got, s\<lparr>fs_rs := rs\<rparr>) }
     else evict_lru a n rest s }"

definition Rallocs_Evict :: "Asm \<Rightarrow> int \<Rightarrow> fstate \<Rightarrow> (Register option \<times> fstate) option" where
  "Rallocs_Evict a n s = evict_lru a n (fs_lru s) s"

fun evict_each :: "Asm \<Rightarrow> Register list \<Rightarrow> fstate \<Rightarrow> fstate option" where
  "evict_each a [] s = Some s"
| "evict_each a (c # cs) s = (case fs_regs s c of
      None \<Rightarrow> evict_each a cs s
    | Some p \<Rightarrow> do { (_, s) \<leftarrow> Evict a p s; evict_each a cs s })"

definition EvictReg :: "Asm \<Rightarrow> Register \<Rightarrow> fstate \<Rightarrow> fstate option" where
  "EvictReg a r s = do { cs \<leftarrow> Conflicts r (fs_rs s); evict_each a cs s }"

fun evict_all :: "Asm \<Rightarrow> Register list \<Rightarrow> fstate \<Rightarrow> fstate option" where
  "evict_all a [] s = Some s"
| "evict_all a (r # rest) s = do {
     p \<leftarrow> fs_regs s r;
     (_, s) \<leftarrow> Evict a p s;
     evict_all a rest s }"

definition EvictAll :: "Asm \<Rightarrow> fstate \<Rightarrow> fstate option" where
  "EvictAll a s = evict_all a (fs_lru s) s"

fun evict_regs :: "Asm \<Rightarrow> Register list \<Rightarrow> fstate \<Rightarrow> fstate option" where
  "evict_regs a [] s = Some s"
| "evict_regs a (r # rest) s = do { s \<leftarrow> EvictReg a r s; evict_regs a rest s }"

definition EvictForCall :: "Asm \<Rightarrow> fstate \<Rightarrow> fstate option" where
  "EvictForCall a s = evict_regs a caller_saved s"

definition Acquire :: "Asm \<Rightarrow> Register \<Rightarrow> fstate \<Rightarrow> fstate option" where
  "Acquire a r s = do {
     cs \<leftarrow> Conflicts r (fs_rs s);
     s \<leftarrow> evict_all a cs s;
     (ok, rs) \<leftarrow> Use r (fs_rs s);
     if ok then Some (s\<lparr>fs_rs := rs\<rparr>) else None }"

section \<open>A variable in a register\<close>

text \<open>A register of the size, evicting a variable when there is none; "Failed to load register" is a
  panic.\<close>

definition obtain_reg :: "Asm \<Rightarrow> int \<Rightarrow> fstate \<Rightarrow> (Register \<times> fstate) option" where
  "obtain_reg a n s = do {
     (got, rs) \<leftarrow> Get n (fs_rs s);
     case got of
       Some r \<Rightarrow> Some (r, s\<lparr>fs_rs := rs\<rparr>)
     | None \<Rightarrow> do {
         (got, s) \<leftarrow> Rallocs_Evict a n (s\<lparr>fs_rs := rs\<rparr>);
         case got of Some r \<Rightarrow> Some (r, s) | None \<Rightarrow> None } }"

definition Ralloc_Register :: "Asm \<Rightarrow> nat \<Rightarrow> fstate \<Rightarrow> (Register \<times> fstate) option" where
  "Ralloc_Register a p s = (let v = fs_heap s p in
     if a_volatile v \<and> a_regable v then None
     else if a_inreg v then Some (a_reg v, updateLRU (a_reg v) s)
     else if \<not> a_regable v then do {
       (r, s) \<leftarrow> obtain_reg a 64 s;
       s \<leftarrow> emit_insn a ''LEA'' [OReg r, slot_op v 0] s;
       Some (r, settle p r s) }
     else do {
       (r, s) \<leftarrow> obtain_reg a (a_size v) s;
       s \<leftarrow> (if a_inmem v then do {
           w \<leftarrow> Width r;
           s \<leftarrow> (if w < 64 then do { f \<leftarrow> fullReg r; emit_insn a ''XOR'' [OReg f, OReg f] s } else Some s);
           n \<leftarrow> RegSize v;
           emit_insn a ''MOV'' [OReg r, slot_op v n] s }
         else Some s);
       Some (r, settle p r s) })"

definition move_in :: "Asm \<Rightarrow> nat \<Rightarrow> Register \<Rightarrow> fstate \<Rightarrow> fstate option" where
  "move_in a p reg s = (let v = fs_heap s p in
     if a_inreg v then do {
       s \<leftarrow> emit_insn a ''MOV'' [OReg reg, OReg (a_reg v)] s;
       rs \<leftarrow> Release (a_reg v) (fs_rs s);
       let s = removeLRU (a_reg v) (s\<lparr>fs_rs := rs\<rparr>) in
       Some (settle p reg (s\<lparr>fs_regs := (fs_regs s)(a_reg v := None)\<rparr>)) }
     else if a_inmem v then
       if \<not> a_regable v then do {
         s \<leftarrow> emit_insn a ''LEA'' [OReg reg, slot_op v 0] s;
         Some (settle p reg s) }
       else do {
         n \<leftarrow> RegSize v;
         s \<leftarrow> emit_insn a ''MOV'' [OReg reg, slot_op v n] s;
         Some (settle p reg s) }
     else Some (settle p reg s))"

definition UseRegister :: "Asm \<Rightarrow> nat \<Rightarrow> Register \<Rightarrow> fstate \<Rightarrow> fstate option" where
  "UseRegister a p reg s = (let v = fs_heap s p in
     if a_volatile v \<and> a_regable v then None
     else if a_inreg v \<and> a_reg v = reg then Some s
     else do {
       taken \<leftarrow> InUse reg (fs_rs s);
       s \<leftarrow> (if taken then EvictReg a reg s else Some s);
       (_, rs) \<leftarrow> Use reg (fs_rs s);
       w \<leftarrow> Width reg;
       if a_regable (fs_heap s p) \<and> a_size (fs_heap s p) \<noteq> w then None
       else move_in a p reg (s\<lparr>fs_rs := rs\<rparr>) })"

text \<open>\<open>Ralloc.Indirect\<close>.\<close>

definition Ralloc_Indirect :: "Asm \<Rightarrow> nat \<Rightarrow> fstate \<Rightarrow> (operand \<times> fstate) option" where
  "Ralloc_Indirect a p s = do {
     s \<leftarrow> (if a_inreg (fs_heap s p) then map_option snd (Evict a p s) else Some s);
     Some (slot_op (fs_heap s p) 0, s) }"

definition Location :: "Asm \<Rightarrow> nat \<Rightarrow> bool \<Rightarrow> fstate \<Rightarrow> (operand \<times> fstate) option" where
  "Location a p preferRegister s = (let v = fs_heap s p in
     if a_inreg v then Some (OReg (a_reg v), updateLRU (a_reg v) s)
     else if \<not> a_regable v \<or> preferRegister then
       map_option (\<lambda>(r, s). (OReg r, s)) (Ralloc_Register a p s)
     else do {
       n \<leftarrow> RegSize v;
       Some (slot_op v n, if a_inmem v then s else upd p (\<lambda>v. v\<lparr>a_inmem := True\<rparr>) s) })"

definition VolatileLocal :: "Asm \<Rightarrow> string \<Rightarrow> fstate \<Rightarrow> (ra_err + fstate) option" where
  "VolatileLocal a n s = (case map_of (fs_names s) n of
      None \<Rightarrow> Some (Inl (NotDeclared n))
    | Some p \<Rightarrow>
        if \<not> a_regable (fs_heap s p) then Some (Inr s)
        else do {
          s \<leftarrow> (if a_inreg (fs_heap s p) then map_option snd (Evict a p s) else Some s);
          Some (Inr (upd p (\<lambda>v. v\<lparr>a_volatile := True, a_inmem := True\<rparr>) s)) })"

definition takeoverRegister :: "Asm \<Rightarrow> string \<Rightarrow> Register \<Rightarrow> fstate \<Rightarrow> (ra_err + (nat \<times> fstate)) option" where
  "takeoverRegister a n reg s = (case map_of (fs_names s) n of
      None \<Rightarrow> Some (Inl (NotDeclared n))
    | Some p \<Rightarrow>
        if a_volatile (fs_heap s p) then Some (Inl (IsVolatile n))
        else do {
          s \<leftarrow> (case fs_regs s reg of Some q \<Rightarrow> map_option snd (Evict a q s) | None \<Rightarrow> Some s);
          (_, rs) \<leftarrow> Use reg (fs_rs s);
          Some (Inr (p, settle p reg (s\<lparr>fs_rs := rs\<rparr>))) })"

section \<open>Variables as operands\<close>

text \<open>\<open>Op.ConvertRalloc\<close>.\<close>

definition reg_types :: "(string \<times> int) list" where
  "reg_types = [(''r64'', 64), (''r32'', 32), (''r16'', 16), (''r8'', 8)]"

definition ConvertRalloc :: "Asm \<Rightarrow> Op \<Rightarrow> nat \<Rightarrow> fstate \<Rightarrow> (operand \<times> fstate) option" where
  "ConvertRalloc a op p s = (case map_of reg_types (op_TN op) of
      Some n \<Rightarrow> do {
        (r, s) \<leftarrow> Ralloc_Register a p s;
        w \<leftarrow> Width r;
        if w \<noteq> n then None else Some (OReg r, s) }
    | None \<Rightarrow>
        if op_TN op \<in> {''m64'', ''m32'', ''m16'', ''m8'', ''m''} then Ralloc_Indirect a p s else None)"

text \<open>The operand at a position is converted by the form's operand at that position.\<close>

fun convert_ops :: "Asm \<Rightarrow> Op list \<Rightarrow> operand list \<Rightarrow> fstate \<Rightarrow> (operand list \<times> fstate) option" where
  "convert_ops a [] os s = Some (os, s)"
| "convert_ops a (op # ops) [] s = Some ([], s)"
| "convert_ops a (op # ops) (o' # os) s = do {
     (c, s) \<leftarrow> (case o' of ORa p \<Rightarrow> ConvertRalloc a op p s | _ \<Rightarrow> Some (o', s));
     (cs, s) \<leftarrow> convert_ops a ops os s;
     Some (c # cs, s) }"

text \<open>\<open>IForm.Encode\<close> in full.  The operands are changed in place.\<close>

definition form_Encode :: "Asm \<Rightarrow> string \<Rightarrow> IForm \<Rightarrow> operand list \<Rightarrow> fstate \<Rightarrow>
    ((enc_err + Relocation list) \<times> operand list \<times> fstate) option" where
  "form_Encode a instr f os s = do {
     (os, s) \<leftarrow> convert_ops a (form_ops f) os s;
     (bs, res) \<leftarrow> IForm_Encode (length (f_bs (fs_fn s))) f os;
     Some (res, os, s\<lparr>fs_fn := emit bs [] (fs_fn s),
       fs_code := (case res of Inr _ \<Rightarrow> fs_code s @ [(instr, os, bs)] | Inl _ \<Rightarrow> fs_code s)\<rparr>) }"

text \<open>\<open>Instruction.Encode\<close>.\<close>

definition instr_Encode :: "Asm \<Rightarrow> string \<Rightarrow> IForm list \<Rightarrow> string \<Rightarrow> operand list \<Rightarrow> fstate \<Rightarrow>
    ((enc_err + Relocation list) \<times> operand list \<times> fstate) option" where
  "instr_Encode a instr fs matchspec os s = do {
     f \<leftarrow> choose_form (fs_heap s) fs matchspec os;
     case f of
       None \<Rightarrow> Some (Inl NoForm, os, s)
     | Some f \<Rightarrow> form_Encode a instr f os s }"

text \<open>The first operand that was a variable and became a memory operand.\<close>

definition now_indirect :: "operand \<Rightarrow> operand \<Rightarrow> nat option" where
  "now_indirect n o' = (case (n, o') of (OInd _, ORa p) \<Rightarrow> Some p | _ \<Rightarrow> None)"

fun first_indirect :: "operand list \<Rightarrow> operand list \<Rightarrow> nat \<Rightarrow> (nat \<times> nat) option" where
  "first_indirect (n # ns) (o' # os) i =
     (case now_indirect n o' of Some p \<Rightarrow> Some (i, p) | None \<Rightarrow> first_indirect ns os (i + 1))"
| "first_indirect _ _ i = None"

text \<open>Variables that have not become registers yet: what the loop of \<open>Asm.Encode\<close> has left to try.\<close>

definition untried :: "operand \<Rightarrow> operand \<Rightarrow> bool" where
  "untried n o' = (case (n, o') of (OReg _, ORa _) \<Rightarrow> False | (_, ORa _) \<Rightarrow> True | _ \<Rightarrow> False)"

fun to_try :: "operand list \<Rightarrow> operand list \<Rightarrow> nat" where
  "to_try (n # ns) (o' # os) = of_bool (untried n o') + to_try ns os"
| "to_try _ _ = 0"

lemma convert_less: "convert_ops a ops ns s = Some (ns', s') \<Longrightarrow> to_try ns' os \<le> to_try ns os"
proof (induction a ops ns s arbitrary: os ns' s' rule: convert_ops.induct)
  case (3 a op ops o' ns s)
  then obtain c s1 cs where c: "(case o' of ORa p \<Rightarrow> ConvertRalloc a op p s | _ \<Rightarrow> Some (o', s)) = Some (c, s1)"
    "convert_ops a ops ns s1 = Some (cs, s')" "ns' = c # cs"
    by (auto split: Option.bind_splits prod.splits)
  have "untried c x \<Longrightarrow> untried o' x" for x
    using c(1) by (auto simp: untried_def split: operand.splits)
  moreover have "to_try cs os' \<le> to_try ns os'" for os' using 3 c by blast
  ultimately show ?case unfolding c(3) by (cases os) (auto intro: le_SucI)
qed auto

lemma attempt_less:
  "instr_Encode a instr fs m ns s = Some (res, ns', s') \<Longrightarrow> to_try ns' os \<le> to_try ns os"
  by (auto simp: instr_Encode_def form_Encode_def split: Option.bind_splits prod.splits option.splits
      dest: convert_less)

lemma first_indirect_less:
  "first_indirect ns os k = Some (i, p) \<Longrightarrow> k \<le> i \<and> to_try (ns[i - k := OReg r]) os < to_try ns os"
proof (induction ns os k rule: first_indirect.induct)
  case (1 n ns o' os k)
  show ?case
  proof (cases "now_indirect n o'")
    case None
    with 1 have "k + 1 \<le> i \<and> to_try (ns[i - (k + 1) := OReg r]) os < to_try ns os" by simp
    moreover then have "i - k = Suc (i - (k + 1))" by linarith
    ultimately show ?thesis by simp
  next
    case (Some q)
    with 1(2) show ?thesis by (auto simp: untried_def now_indirect_def split: operand.splits)
  qed
qed auto

text \<open>The loop of \<open>Asm.Encode\<close>.  It ends: each round after the first puts a variable into a register
  that was not an operand before.\<close>

function encode_loop :: "Asm \<Rightarrow> string \<Rightarrow> IForm list \<Rightarrow> string \<Rightarrow> operand list \<Rightarrow> operand list \<Rightarrow> fstate \<Rightarrow>
    ((enc_err + Relocation list) \<times> operand list \<times> fstate) option" where
  "encode_loop a instr fs matchspec os newos s = do {
     (res, newos, s) \<leftarrow> instr_Encode a instr fs matchspec newos s;
     case res of
       Inr rs \<Rightarrow> Some (Inr rs, newos, s)
     | Inl err \<Rightarrow> (case first_indirect newos os 0 of
         None \<Rightarrow> Some (Inl err, newos, s)
       | Some (i, p) \<Rightarrow> do {
           (r, s) \<leftarrow> Ralloc_Register a p s;
           encode_loop a instr fs matchspec os (newos[i := OReg r]) s }) }"
  by pat_completeness auto
termination
proof (relation "measure (\<lambda>(a, instr, fs, m, os, newos, s). to_try newos os)", goal_cases)
  case (2 a instr fs m os newos s x1 res x2 newos' s' err x3 i p x4 r s'')
  then show ?case
    using attempt_less[of a instr fs m newos s res newos' s' os] first_indirect_less[of newos' os 0 i p r]
    by auto
qed simp

declare encode_loop.simps [simp del]

text \<open>\<open>Asm.Encode\<close> in full.\<close>

definition asm_Encode :: "Asm \<Rightarrow> string \<Rightarrow> operand list \<Rightarrow> fstate \<Rightarrow>
    ((enc_err + Relocation list) \<times> operand list \<times> fstate) option" where
  "asm_Encode a instr os s = (case find_instr a instr of
      None \<Rightarrow> Some (Inl (NoInstruction instr), os, s)
    | Some (p, matchspec) \<Rightarrow>
        if p \<ge> length (asm_heap a) then None
        else encode_loop a instr (ins_Forms (asm_heap a ! p)) matchspec os os s)"

section \<open>Instr\<close>

text \<open>An operand of \<open>Instr\<close>: an encoder operand, or the low bits of a variable (\<open>RallocPartial\<close>).\<close>

datatype arg =
    AOp operand
  | APart nat int

datatype part_err =
    PartTooWide
  | NoPart

definition asOperand :: "nat \<Rightarrow> int \<Rightarrow> fstate \<Rightarrow> ((part_err + operand) \<times> fstate) option" where
  "asOperand p n s = (let v = fs_heap s p in
     if n > a_size v then Some (Inl PartTooWide, s)
     else if a_inreg v then
       map_option (\<lambda>pr. (case pr of None \<Rightarrow> Inl NoPart | Some r \<Rightarrow> Inr (OReg r), s)) (partial_reg (a_reg v) n)
     else Some (Inr (slot_op v n), if a_regable v then upd p (\<lambda>v. v\<lparr>a_inmem := True\<rparr>) s else s))"

fun resolve_args :: "arg list \<Rightarrow> fstate \<Rightarrow> ((part_err + operand list) \<times> fstate) option" where
  "resolve_args [] s = Some (Inr [], s)"
| "resolve_args (x # xs) s = do {
     (res, s) \<leftarrow> (case x of AOp o' \<Rightarrow> Some (Inr o', s) | APart p n \<Rightarrow> asOperand p n s);
     case res of
       Inl e \<Rightarrow> Some (Inl e, s)
     | Inr o' \<Rightarrow> do {
         (res, s) \<leftarrow> resolve_args xs s;
         Some (case res of Inl e \<Rightarrow> Inl e | Inr os \<Rightarrow> Inr (o' # os), s) } }"

text \<open>The instruction and operands that are encoded instead.\<close>

definition fixLEAVar :: "Asm \<Rightarrow> operand list \<Rightarrow> fstate \<Rightarrow> (string \<times> operand list \<times> fstate) option" where
  "fixLEAVar a os s = (case os of
      [OInd ind, OVar v] \<Rightarrow>
        (case NewLocal ''__movvar'' 64 s of
           Inl _ \<Rightarrow> None
         | Inr (p, s) \<Rightarrow> do {
             (r, s) \<leftarrow> Ralloc_Register a p s;
             res \<leftarrow> Forget ''__movvar'' s;
             let s = (case res of Inl _ \<Rightarrow> s | Inr s' \<Rightarrow> s') in
             map_option (\<lambda>s. (''MOV'', [OInd ind, OReg r], s)) (emit_insn a ''LEA'' [OReg r, OVar v] s) })
    | _ \<Rightarrow> Some (''LEA'', os, s))"

definition lea_source :: "Asm \<Rightarrow> operand list \<Rightarrow> fstate \<Rightarrow> fstate option" where
  "lea_source a os s =
     (if length os < 2 then None
      else case os ! 1 of
          ORa p \<Rightarrow> if a_inreg (fs_heap s p) then map_option snd (Evict a p s)
                   else Some (upd p (\<lambda>v. v\<lparr>a_inmem := True\<rparr>) s)
        | _ \<Rightarrow> Some s)"

definition fixMovzx32To64 :: "Asm \<Rightarrow> operand list \<Rightarrow> fstate \<Rightarrow> (string \<times> operand list \<times> fstate) option" where
  "fixMovzx32To64 a os s = (case os of
      [ORa d, ORa e] \<Rightarrow>
        if a_size (fs_heap s d) = 64 \<and> a_size (fs_heap s e) = 32 then do {
          (r, s) \<leftarrow> Ralloc_Register a d s;
          pr \<leftarrow> partial_reg r 32;
          case pr of None \<Rightarrow> None | Some r32 \<Rightarrow> Some (''MOV'', [OReg r32, ORa e], s) }
        else Some (''MOVZX'', os, s)
    | _ \<Rightarrow> Some (''MOVZX'', os, s))"

definition operandBitWidth :: "operand \<Rightarrow> fstate \<Rightarrow> int option option" where
  "operandBitWidth o' s = (case o' of
      ORa p \<Rightarrow> Some (Some (a_size (fs_heap s p)))
    | OReg r \<Rightarrow> map_option Some (Width r)
    | _ \<Rightarrow> Some None)"

definition fixMovsx32To64 :: "operand list \<Rightarrow> fstate \<Rightarrow> (string \<times> operand list) option" where
  "fixMovsx32To64 os s = (case os of
      [d, e] \<Rightarrow> do {
        dw \<leftarrow> operandBitWidth d s;
        if dw \<noteq> Some 64 then Some (''MOVSX'', os)
        else do {
          sw \<leftarrow> operandBitWidth e s;
          Some (if sw \<noteq> Some 32 then ''MOVSX'' else ''MOVSXD'', os) } }
    | _ \<Rightarrow> Some (''MOVSX'', os))"

definition retarget :: "Asm \<Rightarrow> string \<Rightarrow> operand list \<Rightarrow> fstate \<Rightarrow> (string \<times> operand list \<times> fstate) option" where
  "retarget a instr os s =
     (if instr = ''LEA'' then do { s \<leftarrow> lea_source a os s; fixLEAVar a os s }
      else if instr = ''MOVZX'' then fixMovzx32To64 a os s
      else if instr = ''MOVSX'' then map_option (\<lambda>(i, os). (i, os, s)) (fixMovsx32To64 os s)
      else Some (instr, os, s))"

text \<open>An error of the encoder is a panic; that of a partial operand is returned.\<close>

definition Instr :: "Asm \<Rightarrow> string \<Rightarrow> arg list \<Rightarrow> fstate \<Rightarrow> (part_err option \<times> fstate) option" where
  "Instr a instr args s = do {
     (res, s) \<leftarrow> resolve_args args s;
     case res of
       Inl e \<Rightarrow> Some (Some e, s)
     | Inr os \<Rightarrow> do {
         (instr, os, s) \<leftarrow> retarget a instr os s;
         (res, os, s) \<leftarrow> asm_Encode a instr os s;
         case res of
           Inl e \<Rightarrow> None
         | Inr rs \<Rightarrow> Some (None, s\<lparr>fs_fn := emit [] rs (fs_fn s)\<rparr>) } }"

section \<open>Function bodies\<close>

fun emit_all :: "Asm \<Rightarrow> (string \<times> operand list) list \<Rightarrow> fstate \<Rightarrow> fstate option" where
  "emit_all a [] s = Some s"
| "emit_all a ((i, os) # is) s = do { s \<leftarrow> emit_insn a i os s; emit_all a is s }"

definition Function_Use :: "Register \<Rightarrow> fstate \<Rightarrow> (bool \<times> fstate) option" where
  "Function_Use r s = map_option (\<lambda>(ok, rs). (ok, s\<lparr>fs_rs := rs\<rparr>)) (Use r (fs_rs s))"

definition Function_Release :: "Register \<Rightarrow> fstate \<Rightarrow> fstate option" where
  "Function_Release r s = map_option (\<lambda>rs. s\<lparr>fs_rs := rs\<rparr>) (Release r (fs_rs s))"

definition Function_Get :: "int \<Rightarrow> fstate \<Rightarrow> (Register option \<times> fstate) option" where
  "Function_Get n s = map_option (\<lambda>(got, rs). (got, s\<lparr>fs_rs := rs\<rparr>)) (Get n (fs_rs s))"

definition saved_regs :: "Register list" where
  "saved_regs = [R_RBP, R_RBX, R12, R13, R14, R15]"

definition Prologue :: "Asm \<Rightarrow> fstate \<Rightarrow> fstate option" where
  "Prologue a s = do {
     (_, s) \<leftarrow> Function_Use R_RBP s;
     (_, s) \<leftarrow> Function_Use R_RSP s;
     s \<leftarrow> emit_all a (map (\<lambda>r. (''PUSH'', [OReg r])) saved_regs @
       [(''MOV'', [OReg R_RBP, OReg R_RSP]), (''SUB'', [OReg R_RSP, OU32 0])]) s;
     Some (s\<lparr>fs_localsLocation := word_of_int (int (length (f_bs (fs_fn s))) - 4)\<rparr>) }"

text \<open>The four bytes at \<open>localsLocation\<close> are written as \<open>Relocation.Apply\<close> does, to the spare capacity
  of the buffer or not at all when they lie behind its end.\<close>

definition frame_size :: "32 word \<Rightarrow> 32 word" where
  "frame_size l = (l + 0x10) AND 0xFFFFFFF0"

definition Epilogue :: "Asm \<Rightarrow> nat \<Rightarrow> fstate \<Rightarrow> fstate option" where
  "Epilogue a spare s = do {
     s \<leftarrow> Function_Release R_RBP s;
     s \<leftarrow> Function_Release R_RSP s;
     let bs = f_bs (fs_fn s); off = unat (fs_localsLocation s) in
     if off > length bs then None
     else emit_all a ((''MOV'', [OReg R_RSP, OReg R_RBP]) # map (\<lambda>r. (''POP'', [OReg r])) (rev saved_regs))
       (s\<lparr>fs_fn := (fs_fn s)\<lparr>f_bs := (if off + 4 > length bs + spare then bs
          else overwrite bs off (le_bytes 4 (unat (frame_size (fs_localoff s)))))\<rparr>\<rparr>) }"

text \<open>\<open>Label\<close> answers whether the label is new.\<close>

definition Function_Label :: "Asm \<Rightarrow> string \<Rightarrow> fstate \<Rightarrow> (bool \<times> fstate) option" where
  "Function_Label a l s = do {
     s \<leftarrow> EvictAll a s;
     Some (map_of (f_labels (fs_fn s)) l = None, s\<lparr>fs_fn := Label [] l (fs_fn s)\<rparr>) }"

definition Function_Jump :: "Asm \<Rightarrow> string \<Rightarrow> string \<Rightarrow> fstate \<Rightarrow> fstate option" where
  "Function_Jump a instr l s = do {
     s \<leftarrow> (if instr = ''CALL'' then EvictForCall a s else EvictAll a s);
     (bs, res) \<leftarrow> Asm_Encode a (fs_heap s) (length (f_bs (fs_fn s))) instr [OI32 0];
     case res of
       Inl e \<Rightarrow> None
     | Inr rs \<Rightarrow> Some (s\<lparr>fs_fn := Jump [] bs l (fs_fn s), fs_code := fs_code s @ [(instr, [OI32 0], bs)]\<rparr>) }"

end
