(* ===== verification/Machine.thy ===== *)
theory Machine
  imports Rallocs
begin

text \<open>
  A small machine for the instructions the register allocator inserts: the general registers byte by
  byte, and memory addressed relative to RBP.  \<open>exec\<close> is written from the architecture manual and
  covers the forms of MOV, LEA and XOR that \<open>function.go\<close> emits on its own; every other instruction
  is \<open>None\<close>.
\<close>

record mach =
  m_reg :: "Register \<Rightarrow> nat \<Rightarrow> byte"
  m_rbp :: "64 word"
  m_mem :: "int \<Rightarrow> byte"

definition high_regs :: "Register set" where
  "high_regs = {R_AH, R_BH, R_CH, R_DH}"

definition lo_byte :: "Register \<Rightarrow> nat" where
  "lo_byte r = (if r \<in> high_regs then 1 else 0)"

definition nbytes :: "Register \<Rightarrow> nat" where
  "nbytes r = nat (the (Width r)) div 8"

definition full :: "Register \<Rightarrow> Register" where
  "full r = the (fullReg r)"

definition read_reg :: "Register \<Rightarrow> mach \<Rightarrow> byte list" where
  "read_reg r m = map (m_reg m (full r)) [lo_byte r ..< lo_byte r + nbytes r]"

text \<open>Writing a 32-bit register clears the upper half of the full register.\<close>

definition write_reg :: "Register \<Rightarrow> byte list \<Rightarrow> mach \<Rightarrow> mach" where
  "write_reg r bs m = m\<lparr>m_reg := (m_reg m)(full r := (\<lambda>k.
     if lo_byte r \<le> k \<and> k < lo_byte r + nbytes r then bs ! (k - lo_byte r)
     else if Width r = Some 32 then 0 else m_reg m (full r) k))\<rparr>"

definition read_mem :: "int \<Rightarrow> nat \<Rightarrow> mach \<Rightarrow> byte list" where
  "read_mem off n m = map (\<lambda>k. m_mem m (off + int k)) [0 ..< n]"

definition write_mem :: "int \<Rightarrow> byte list \<Rightarrow> mach \<Rightarrow> mach" where
  "write_mem off bs m = m\<lparr>m_mem := (\<lambda>k.
     if off \<le> k \<and> k < off + int (length bs) then bs ! nat (k - off) else m_mem m k)\<rparr>"

definition frame_op :: "Indirect \<Rightarrow> bool" where
  "frame_op i \<longleftrightarrow> in_Reg i = R_RBP \<and> in_Symbol i = ''''"

definition frame_addr :: "32 word \<Rightarrow> mach \<Rightarrow> byte list" where
  "frame_addr off m = le_bytes 8 (unat (m_rbp m + scast off))"

definition exec :: "string \<Rightarrow> operand list \<Rightarrow> mach \<Rightarrow> mach option" where
  "exec i os m = (case os of
      [OReg d, OReg e] \<Rightarrow>
        if i = ''MOV'' \<and> Width d = Width e \<and> full d \<noteq> R_RBP then Some (write_reg d (read_reg e m) m)
        else if i = ''XOR'' \<and> d = e \<and> full d \<noteq> R_RBP then Some (write_reg d (replicate (nbytes d) 0) m)
        else None
    | [OReg d, OInd x] \<Rightarrow>
        if i = ''MOV'' \<and> frame_op x \<and> full d \<noteq> R_RBP then Some (write_reg d (read_mem (sint (in_Off x)) (nbytes d) m) m)
        else if i = ''LEA'' \<and> frame_op x \<and> Width d = Some 64 \<and> full d \<noteq> R_RBP then Some (write_reg d (frame_addr (in_Off x) m) m)
        else None
    | [OInd x, OReg e] \<Rightarrow>
        if i = ''MOV'' \<and> frame_op x then Some (write_mem (sint (in_Off x)) (read_reg e m) m) else None
    | _ \<Rightarrow> None)"

fun exec_all :: "(string \<times> operand list \<times> byte list) list \<Rightarrow> mach \<Rightarrow> mach option" where
  "exec_all [] m = Some m"
| "exec_all ((i, os, bs) # cs) m = exec i os m \<bind> exec_all cs"

lemma exec_all_append: "exec_all (cs @ ds) m = exec_all cs m \<bind> exec_all ds"
  by (induction cs m rule: exec_all.induct) (auto split: Option.bind_splits)

section \<open>Reading what was written\<close>

lemma length_read_reg [simp]: "length (read_reg r m) = nbytes r"
  by (simp add: read_reg_def)

lemma length_read_mem [simp]: "length (read_mem off n m) = n"
  by (simp add: read_mem_def)

lemma length_frame_addr [simp]: "length (frame_addr off m) = 8"
  by (simp add: frame_addr_def)

lemma write_sel [simp]:
  "m_mem (write_reg r bs m) = m_mem m" "m_rbp (write_reg r bs m) = m_rbp m"
  "m_reg (write_mem off bs m) = m_reg m" "m_rbp (write_mem off bs m) = m_rbp m"
  by (simp_all add: write_reg_def write_mem_def)

lemma read_write_mem [simp]:
  "read_reg r (write_mem off bs m) = read_reg r m" "frame_addr disp (write_mem off bs m) = frame_addr disp m"
  by (simp_all add: read_reg_def frame_addr_def)

lemma read_mem_write_reg [simp]:
  "read_mem off n (write_reg r bs m) = read_mem off n m" "frame_addr disp (write_reg r bs m) = frame_addr disp m"
  by (simp_all add: read_mem_def frame_addr_def)

lemma read_reg_same [simp]: "length bs = nbytes r \<Longrightarrow> read_reg r (write_reg r bs m) = bs"
  by (auto simp: read_reg_def write_reg_def intro!: nth_equalityI)

lemma read_mem_same [simp]: "length bs = n \<Longrightarrow> read_mem off n (write_mem off bs m) = bs"
  by (auto simp: read_mem_def write_mem_def intro!: nth_equalityI)

lemma read_mem_other:
  "{off ..< off + int n} \<inter> {off' ..< off' + int (length bs)} = {} \<Longrightarrow>
   read_mem off n (write_mem off' bs m) = read_mem off n m"
  by (auto simp: read_mem_def write_mem_def disjoint_iff)

text \<open>The two 8-bit halves of a register: one is a high byte.\<close>

lemma brother_halves: "brother8 r = Some s \<Longrightarrow> lo_byte r \<noteq> lo_byte s \<and> nbytes r = 1 \<and> nbytes s = 1"
  by (cases r) (auto simp: lo_byte_def high_regs_def nbytes_def)

lemma low_full: "Width r = Some 64 \<Longrightarrow> full r = r \<and> lo_byte r = 0 \<and> nbytes r = 8"
  by (cases r) (auto simp: full_def lo_byte_def high_regs_def nbytes_def)

lemma nbytes_width: "Width r = Some w \<Longrightarrow> nbytes r = nat w div 8"
  by (simp add: nbytes_def)

lemma read_reg_other:
  assumes "\<not> overlap r q" "r \<noteq> R_RIP" "q \<noteq> R_RIP"
  shows "read_reg q (write_reg r bs m) = read_reg q m"
proof (cases "fullReg r = fullReg q")
  case False
  then have "full r \<noteq> full q" using assms(2,3) fullReg_None[of r] fullReg_None[of q] by (auto simp: full_def)
  then show ?thesis by (simp add: read_reg_def write_reg_def)
next
  case True
  then have w: "r \<noteq> q" "Width r = Some 8" "Width q = Some 8" using assms by (auto simp: overlap_def)
  then have "brother8 r = Some q" using same_full8[of r q] True by auto
  from brother_halves[OF this] w show ?thesis by (auto simp: read_reg_def write_reg_def)
qed

text \<open>Clearing the full register of a low one spares every other low register that does not overlap.\<close>

lemma clear_other:
  assumes "fullReg r = Some f" "\<not> overlap r q" "q \<noteq> R_RIP" "r \<notin> high_regs" "q \<notin> high_regs"
  shows "\<not> overlap f q"
proof
  assume "overlap f q"
  then have f: "fullReg f = fullReg q" "fullReg q = Some f"
    using assms(1) fullReg_full[of r f] by (auto simp: overlap_def)
  then have "r \<noteq> q" "Width r = Some 8" "Width q = Some 8" using assms(1,2) by (auto simp: overlap_def)
  then have "brother8 r = Some q" using same_full8[of r q] assms(1) f by auto
  then show False using assms(4,5) brother_halves by (fastforce simp: lo_byte_def)
qed

end
