(* ===== verification/AllocProps.thy ===== *)
theory AllocProps
  imports Machine
begin

text \<open>
  Correctness of the register allocator (\<open>function.go\<close>): the invariant that ties the tables of a
  function's variables to the register file and keeps stack slots apart, and the simulation that says
  the code the allocator inserts moves values between registers and stack without losing one.
\<close>

section \<open>The invariant\<close>

definition live :: "fstate \<Rightarrow> nat set" where
  "live s = snd ` set (fs_names s)"

definition vslot :: "Ralloc \<Rightarrow> int set" where
  "vslot v = {sint (a_offset v) ..< sint (a_offset v) + a_size v div 8}"

definition free_slot :: "32 word \<times> 32 word \<Rightarrow> int set" where
  "free_slot b = {sint (snd b) ..< sint (snd b) + sint (fst b)}"

definition slots :: "fstate \<Rightarrow> int set list" where
  "slots s = map (\<lambda>(n, p). vslot (fs_heap s p)) (fs_names s) @ map free_slot (fs_free s)"

definition apart_list :: "int set list \<Rightarrow> bool" where
  "apart_list bs \<longleftrightarrow> sorted_wrt (\<lambda>b c. b \<inter> c = {}) bs"

text \<open>A variable: its size, where it may be, and what register it may be in.\<close>

definition var_ok :: "Ralloc \<Rightarrow> bool" where
  "var_ok v \<longleftrightarrow>
     (if a_regable v then a_size v \<in> {8, 16, 32, 64} else 0 \<le> a_size v \<and> a_size v < 2 ^ 31 \<and> a_size v mod 8 = 0 \<and> a_inmem v) \<and>
     (a_inreg v \<longrightarrow> Width (a_reg v) = Some (if a_regable v then a_size v else 64) \<and> a_reg v \<noteq> R_RIP) \<and>
     (a_volatile v \<and> a_regable v \<longrightarrow> \<not> a_inreg v \<and> a_inmem v)"

definition names_ok :: "fstate \<Rightarrow> bool" where
  "names_ok s \<longleftrightarrow> distinct (map fst (fs_names s)) \<and> distinct (map snd (fs_names s)) \<and>
     (\<forall>p \<in> live s. p < fs_fresh s \<and> var_ok (fs_heap s p))"

text \<open>The three tables of what is in which register agree.\<close>

definition tables_ok :: "fstate \<Rightarrow> bool" where
  "tables_ok s \<longleftrightarrow>
     (\<forall>r p. fs_regs s r = Some p \<longleftrightarrow> p \<in> live s \<and> a_inreg (fs_heap s p) \<and> a_reg (fs_heap s p) = r) \<and>
     distinct (fs_lru s) \<and> set (fs_lru s) = dom (fs_regs s)"

text \<open>Registers in use that no variable is in: those of the user.\<close>

definition others :: "fstate \<Rightarrow> Register set" where
  "others s = held (fs_rs s) - dom (fs_regs s)"

definition file_ok :: "Register set \<Rightarrow> fstate \<Rightarrow> bool" where
  "file_ok U s \<longleftrightarrow> regs_ok (fs_rs s) \<and> dom (fs_regs s) \<subseteq> held (fs_rs s) \<and> held (fs_rs s) \<inter> high_regs = {} \<and>
     U \<subseteq> others s"

definition slots_ok :: "fstate \<Rightarrow> bool" where
  "slots_ok s \<longleftrightarrow> apart_list (slots s) \<and> uint (fs_localoff s) < 2 ^ 31 \<and>
     (\<forall>b \<in> set (slots s). \<forall>k \<in> b. - uint (fs_localoff s) \<le> k)"

definition alloc_inv :: "Register set \<Rightarrow> fstate \<Rightarrow> bool" where
  "alloc_inv U s \<longleftrightarrow> names_ok s \<and> tables_ok s \<and> file_ok U s \<and> slots_ok s"

text \<open>From the prologue on RBP and RSP are the user's; before it no code is inserted.\<close>

abbreviation alloc_ok :: "fstate \<Rightarrow> bool" where
  "alloc_ok \<equiv> alloc_inv {R_RBP, R_RSP}"

lemmas alloc_ok_def = alloc_inv_def

lemmas alloc_defs = alloc_ok_def names_ok_def tables_ok_def file_ok_def slots_ok_def

text \<open>Code does not matter to the invariant.\<close>

lemma code_sel [simp]:
  "live (s\<lparr>fs_fn := f, fs_code := c\<rparr>) = live s" "slots (s\<lparr>fs_fn := f, fs_code := c\<rparr>) = slots s"
  "others (s\<lparr>fs_fn := f, fs_code := c\<rparr>) = others s" "alloc_inv U (s\<lparr>fs_fn := f, fs_code := c\<rparr>) = alloc_inv U s"
  by (simp_all add: live_def slots_def others_def alloc_defs)

lemma held_apart:
  assumes "regs_ok rs" "r \<in> held rs" "h \<in> held rs" "overlap r h"
  shows "r = h"
proof -
  obtain f where f: "fullReg r = Some f" using assms(2) by (auto simp: held_def)
  have h: "fullReg h = Some f" using assms(4) f by (simp add: overlap_def)
  show ?thesis
  proof (cases "Width r = Some 8 \<or> Width h = Some 8")
    case True
    then have "Width r = Some 8 \<and> Width h = Some 8"
      using held_part[OF assms(1) f assms(3,4)] held_part[OF assms(1) h assms(2)] assms(4)
      by (auto simp: overlap_def)
    then show ?thesis using assms(4) by (auto simp: overlap_def)
  next
    case False
    then have w: "Width r = Some (size_of rs f)" "Width h = Some (size_of rs f)"
      using assms(2,3) f h held_wide by auto
    show ?thesis using partial_reg_of[OF f w(1)] partial_reg_of[OF h w(2)] False w by auto
  qed
qed

lemma live_var: "alloc_inv U s \<Longrightarrow> p \<in> live s \<Longrightarrow> var_ok (fs_heap s p)"
  by (simp add: alloc_defs)

lemma regs_of: "alloc_inv U s \<Longrightarrow> fs_regs s r = Some p \<Longrightarrow> p \<in> live s \<and> a_inreg (fs_heap s p) \<and> a_reg (fs_heap s p) = r"
  by (simp add: alloc_defs)

lemma in_regs: "alloc_inv U s \<Longrightarrow> p \<in> live s \<Longrightarrow> a_inreg (fs_heap s p) \<Longrightarrow> fs_regs s (a_reg (fs_heap s p)) = Some p"
  by (simp add: alloc_defs)

lemma in_reg_held: "alloc_inv U s \<Longrightarrow> p \<in> live s \<Longrightarrow> a_inreg (fs_heap s p) \<Longrightarrow> a_reg (fs_heap s p) \<in> held (fs_rs s)"
  using in_regs[of U s p] domI[of "fs_regs s" "a_reg (fs_heap s p)" p] by (auto simp: alloc_ok_def file_ok_def)

text \<open>Two variables are never in overlapping registers.\<close>

lemma regs_distinct:
  assumes "alloc_inv U s" "p \<in> live s" "q \<in> live s" "a_inreg (fs_heap s p)" "a_inreg (fs_heap s q)" "p \<noteq> q"
  shows "\<not> overlap (a_reg (fs_heap s p)) (a_reg (fs_heap s q))"
proof
  assume "overlap (a_reg (fs_heap s p)) (a_reg (fs_heap s q))"
  then have "a_reg (fs_heap s p) = a_reg (fs_heap s q)"
    using held_apart[of "fs_rs s"] in_reg_held[OF assms(1)] assms by (auto simp: alloc_defs)
  with in_regs[OF assms(1,2,4)] in_regs[OF assms(1,3,5)] show False using assms(6) by simp
qed

section \<open>The simulation\<close>

text \<open>
  What the program sees: the value of each variable (\<open>None\<close>: not initialised), what the user keeps in
  the registers it has acquired, and the memory outside the stack slots of variables.
\<close>

record astate =
  vals :: "nat \<Rightarrow> byte list option"
  owned :: "Register \<Rightarrow> byte list option"
  elsewhere :: "int \<Rightarrow> byte"

definition stored :: "Ralloc \<Rightarrow> mach \<Rightarrow> byte list" where
  "stored v m = read_mem (sint (a_offset v)) (nat (a_size v) div 8) m"

definition holds :: "mach \<Rightarrow> Ralloc \<Rightarrow> byte list \<Rightarrow> bool" where
  "holds m v x \<longleftrightarrow>
     (if a_regable v \<and> a_inreg v then read_reg (a_reg v) m = x else a_inmem v \<and> stored v m = x)"

text \<open>A variable too large for a register: the register holds its address.\<close>

definition points :: "mach \<Rightarrow> Ralloc \<Rightarrow> bool" where
  "points m v \<longleftrightarrow> (\<not> a_regable v \<and> a_inreg v \<longrightarrow> read_reg (a_reg v) m = frame_addr (a_offset v) m)"

definition sim :: "fstate \<Rightarrow> mach \<Rightarrow> astate \<Rightarrow> bool" where
  "sim s m c \<longleftrightarrow>
     (\<forall>p \<in> live s. points m (fs_heap s p) \<and> (\<forall>x. vals c p = Some x \<longrightarrow> holds m (fs_heap s p) x)) \<and>
     (\<forall>r \<in> others s. \<forall>x. owned c r = Some x \<longrightarrow> read_reg r m = x) \<and>
     (\<forall>k. (\<forall>p \<in> live s. k \<notin> vslot (fs_heap s p)) \<longrightarrow> m_mem m k = elsewhere c k)"

text \<open>The code between two states changes nothing the program sees, except in the registers \<open>D\<close>.\<close>

definition lose :: "Register set \<Rightarrow> astate \<Rightarrow> astate" where
  "lose D c = c\<lparr>owned := owned c |` (- D)\<rparr>"

definition runs :: "Register set \<Rightarrow> fstate \<Rightarrow> fstate \<Rightarrow> bool" where
  "runs D s s' \<longleftrightarrow> (\<exists>cs. fs_code s' = fs_code s @ cs \<and>
     f_bs (fs_fn s') = f_bs (fs_fn s) @ concat (map (\<lambda>(i, os, bs). bs) cs) \<and>
     (\<forall>m c. sim s m c \<longrightarrow> (\<exists>m'. exec_all cs m = Some m' \<and> sim s' m' (lose D c))))"

lemma lose_simps [simp]: "lose {} c = c" "lose D (lose E c) = lose (D \<union> E) c"
  by (auto simp: lose_def restrict_map_def fun_eq_iff)

lemma runs_refl [simp]: "runs {} s s"
  by (auto simp: runs_def intro: exI[of _ "[]"])

lemma runs_trans:
  assumes "runs D s s'" "runs E s' s''"
  shows "runs (E \<union> D) s s''"
proof -
  obtain cs where cs: "fs_code s' = fs_code s @ cs"
    "f_bs (fs_fn s') = f_bs (fs_fn s) @ concat (map (\<lambda>(i, os, bs). bs) cs)"
    "\<forall>m c. sim s m c \<longrightarrow> (\<exists>m'. exec_all cs m = Some m' \<and> sim s' m' (lose D c))"
    using assms(1) by (auto simp: runs_def)
  obtain ds where ds: "fs_code s'' = fs_code s' @ ds"
    "f_bs (fs_fn s'') = f_bs (fs_fn s') @ concat (map (\<lambda>(i, os, bs). bs) ds)"
    "\<forall>m c. sim s' m c \<longrightarrow> (\<exists>m'. exec_all ds m = Some m' \<and> sim s'' m' (lose E c))"
    using assms(2) by (auto simp: runs_def)
  show ?thesis unfolding runs_def
  proof (intro exI[of _ "cs @ ds"] conjI allI impI)
    fix m c assume "sim s m c"
    then obtain m' where "exec_all cs m = Some m'" "sim s' m' (lose D c)" using cs by blast
    moreover then obtain m'' where "exec_all ds m' = Some m''" "sim s'' m'' (lose E (lose D c))" using ds by blast
    ultimately show "\<exists>m''. exec_all (cs @ ds) m = Some m'' \<and> sim s'' m'' (lose (E \<union> D) c)"
      by (auto simp: exec_all_append)
  qed (use cs ds in simp_all)
qed

lemma runs_trans0: "runs {} s s' \<Longrightarrow> runs {} s' s'' \<Longrightarrow> runs {} s s''"
  using runs_trans[of "{}" s s' "{}" s''] by simp

lemma sim_lose: "sim s m (lose D c) \<Longrightarrow> others s \<inter> D = {} \<Longrightarrow> sim s m c"
  by (auto simp: sim_def lose_def restrict_map_def disjoint_iff)

lemma runs_settled:
  assumes "runs D s s'" "others s' \<inter> D = {}"
  shows "runs {} s s'"
proof -
  obtain cs where cs: "fs_code s' = fs_code s @ cs"
    "f_bs (fs_fn s') = f_bs (fs_fn s) @ concat (map (\<lambda>(i, os, bs). bs) cs)"
    "\<forall>m c. sim s m c \<longrightarrow> (\<exists>m'. exec_all cs m = Some m' \<and> sim s' m' (lose D c))"
    using assms(1) by (auto simp: runs_def)
  then have "\<forall>m c. sim s m c \<longrightarrow> (\<exists>m'. exec_all cs m = Some m' \<and> sim s' m' c)"
    using sim_lose[OF _ assms(2)] by fast
  with cs show ?thesis unfolding runs_def lose_simps by blast
qed

section \<open>Emitting an instruction\<close>

lemma emit_insn_sel:
  assumes "emit_insn a i os s = Some s'"
  shows "s' = s\<lparr>fs_fn := fs_fn s', fs_code := fs_code s'\<rparr>"
    "\<exists>bs. fs_code s' = fs_code s @ [(i, os, bs)] \<and> f_bs (fs_fn s') = f_bs (fs_fn s) @ bs"
  using assms by (auto simp: emit_insn_def emit_def split: Option.bind_splits prod.splits sum.splits)

lemma exec_one [simp]: "exec_all [(i, os, bs)] m = exec i os m"
  by (cases "exec i os m") simp_all

lemma emit_runs:
  assumes "emit_insn a i os s = Some s'"
    and "\<And>m c. sim s m c \<Longrightarrow> \<exists>m'. exec i os m = Some m' \<and> sim t m' (lose D c)"
    and "fs_code t = fs_code s'" "f_bs (fs_fn t) = f_bs (fs_fn s')"
  shows "runs D s t"
proof -
  obtain bs where "fs_code s' = fs_code s @ [(i, os, bs)]" "f_bs (fs_fn s') = f_bs (fs_fn s) @ bs"
    using emit_insn_sel(2)[OF assms(1)] by blast
  then show ?thesis unfolding runs_def
    by (intro exI[of _ "[(i, os, bs)]"] conjI allI impI) (use assms(2-4) in \<open>auto simp del: exec_all.simps\<close>)
qed

section \<open>Slots\<close>

lemma apart_map:
  assumes "apart_list (map f xs)" "x \<in> set xs" "y \<in> set xs" "x \<noteq> y"
  shows "f x \<inter> f y = {}"
  using assms by (induction xs) (auto simp: apart_list_def)

lemma slots_disjoint:
  assumes "alloc_inv U s" "p \<in> live s" "q \<in> live s" "p \<noteq> q"
  shows "vslot (fs_heap s p) \<inter> vslot (fs_heap s q) = {}"
proof -
  have "apart_list (map (\<lambda>(n, p). vslot (fs_heap s p)) (fs_names s))"
    using assms(1) by (auto simp: alloc_defs slots_def apart_list_def sorted_wrt_append)
  with assms(2-4) show ?thesis
    unfolding live_def using apart_map[of "\<lambda>(n, p). vslot (fs_heap s p)" "fs_names s"] by fastforce
qed

lemma slot_stored: "0 \<le> a_size v \<Longrightarrow> vslot v = {sint (a_offset v) ..< sint (a_offset v) + int (nat (a_size v) div 8)}"
  by (simp add: vslot_def zdiv_int)

lemma var_size: "var_ok v \<Longrightarrow> 0 \<le> a_size v"
  by (auto simp: var_ok_def split: if_splits)

lemma var_reg: "var_ok v \<Longrightarrow> a_regable v \<Longrightarrow> a_inreg v \<Longrightarrow> nbytes (a_reg v) = nat (a_size v) div 8"
  by (auto simp: var_ok_def nbytes_def)

text \<open>Storing to one vslot leaves the other variables' alone.\<close>

lemma stored_other:
  assumes "alloc_ok s" "p \<in> live s" "q \<in> live s" "p \<noteq> q" "length bs = nat (a_size (fs_heap s p)) div 8"
  shows "stored (fs_heap s q) (write_mem (sint (a_offset (fs_heap s p))) bs m) = stored (fs_heap s q) m"
  using slots_disjoint[OF assms(1,3,2)] live_var[OF assms(1,2)] live_var[OF assms(1,3)] assms(4,5)
  by (auto simp: stored_def slot_stored var_size intro!: read_mem_other)

section \<open>Evicting a variable\<close>

definition dropped :: "bool \<Rightarrow> nat \<Rightarrow> regfile \<Rightarrow> fstate \<Rightarrow> fstate" where
  "dropped b p rs s = (let v = fs_heap s p in
     s\<lparr>fs_heap := (fs_heap s)(p := v\<lparr>a_inreg := False, a_inmem := b\<rparr>), fs_regs := (fs_regs s)(a_reg v := None),
       fs_rs := rs, fs_lru := filter (\<lambda>x. x \<noteq> a_reg v) (fs_lru s)\<rparr>)"

lemma same_slot [simp]:
  "vslot (v\<lparr>a_inreg := b\<rparr>) = vslot v" "vslot (v\<lparr>a_inmem := b\<rparr>) = vslot v" "vslot (v\<lparr>a_reg := r\<rparr>) = vslot v"
  "vslot (v\<lparr>a_volatile := b\<rparr>) = vslot v"
  "stored (v\<lparr>a_inreg := b\<rparr>) = stored v" "stored (v\<lparr>a_inmem := b\<rparr>) = stored v" "stored (v\<lparr>a_reg := r\<rparr>) = stored v"
  "stored (v\<lparr>a_volatile := b\<rparr>) = stored v"
  by (simp_all add: vslot_def stored_def fun_eq_iff)

lemma slots_upd: "vslot v = vslot (fs_heap s p) \<Longrightarrow>
  map (\<lambda>(n, q). vslot (((fs_heap s)(p := v)) q)) ns = map (\<lambda>(n, q). vslot (fs_heap s q)) ns"
  by (auto split: if_splits)

lemma dropped_sel [simp]:
  "live (dropped b p rs s) = live s" "slots (dropped b p rs s) = slots s" "fs_names (dropped b p rs s) = fs_names s"
  "fs_fresh (dropped b p rs s) = fs_fresh s" "fs_localoff (dropped b p rs s) = fs_localoff s"
  "fs_free (dropped b p rs s) = fs_free s" "fs_rs (dropped b p rs s) = rs" "fs_code (dropped b p rs s) = fs_code s"
  "fs_fn (dropped b p rs s) = fs_fn s"
  "fs_regs (dropped b p rs s) = (fs_regs s)(a_reg (fs_heap s p) := None)"
  "fs_lru (dropped b p rs s) = filter (\<lambda>x. x \<noteq> a_reg (fs_heap s p)) (fs_lru s)"
  "fs_heap (dropped b p rs s) = (fs_heap s)(p := (fs_heap s p)\<lparr>a_inreg := False, a_inmem := b\<rparr>)"
  by (auto simp: dropped_def Let_def live_def slots_def split: if_splits)

lemma dropped_others:
  assumes "alloc_ok s" "p \<in> live s" "a_inreg (fs_heap s p)" "held rs = held (fs_rs s) - {a_reg (fs_heap s p)}"
  shows "others (dropped b p rs s) = others s"
  using in_regs[OF assms(1-3)] assms(4) by (auto simp: others_def)

lemma dropped_ok:
  assumes "alloc_ok s" "p \<in> live s" "a_inreg (fs_heap s p)" "Release (a_reg (fs_heap s p)) (fs_rs s) = Some rs"
    "b \<or> a_regable (fs_heap s p)"
  shows "alloc_ok (dropped b p rs s)" "others (dropped b p rs s) = others s"
    "held rs = held (fs_rs s) - {a_reg (fs_heap s p)}"
proof -
  have "regs_ok (fs_rs s)" using assms(1) by (simp add: alloc_defs)
  with Release_ok[OF this in_reg_held[OF assms(1-3)]] assms(4)
  have rs: "regs_ok rs" "held rs = held (fs_rs s) - {a_reg (fs_heap s p)}" by auto
  show "held rs = held (fs_rs s) - {a_reg (fs_heap s p)}" by fact
  show others: "others (dropped b p rs s) = others s" by (rule dropped_others[OF assms(1-3) rs(2)])
  have reg: "fs_regs s (a_reg (fs_heap s p)) = Some p" by (rule in_regs[OF assms(1-3)])
  show "alloc_ok (dropped b p rs s)" unfolding alloc_ok_def
  proof (intro conjI)
    show "names_ok (dropped b p rs s)" using assms(1,5) live_var[OF assms(1,2)] assms(3)
      by (auto simp: alloc_ok_def names_ok_def var_ok_def)
    have "fs_regs (dropped b p rs s) r = Some q \<longleftrightarrow> q \<in> live (dropped b p rs s) \<and>
        a_inreg (fs_heap (dropped b p rs s) q) \<and> a_reg (fs_heap (dropped b p rs s) q) = r" for r q
      using regs_of[OF assms(1), of r q] in_regs[OF assms(1), of q] reg by auto
    then show "tables_ok (dropped b p rs s)" using assms(1) by (auto simp: alloc_ok_def tables_ok_def)
    show "file_ok {R_RBP, R_RSP} (dropped b p rs s)" using assms(1) rs others by (auto simp: alloc_ok_def file_ok_def)
    show "slots_ok (dropped b p rs s)" using assms(1) by (simp add: alloc_ok_def slots_ok_def)
  qed
qed

lemma Evict_sel:
  assumes "Evict a p s = Some (r, s')" "alloc_ok s" "p \<in> live s"
  shows "a_inreg (fs_heap s p)" "r = a_reg (fs_heap s p)"
    "\<exists>rs. Release r (fs_rs s) = Some rs \<and> s' = (dropped True p rs s)\<lparr>fs_fn := fs_fn s', fs_code := fs_code s'\<rparr>"
    "\<exists>n. if a_regable (fs_heap s p)
       then \<exists>t. emit_insn a ''MOV'' [slot_op (fs_heap s p) n, OReg r] s = Some t \<and> fs_code s' = fs_code t \<and> fs_fn s' = fs_fn t
       else fs_code s' = fs_code s \<and> fs_fn s' = fs_fn s"
proof -
  let ?v = "fs_heap s p"
  show i: "a_inreg ?v" using assms(1) by (auto simp: Evict_def Let_def split: if_splits)
  have mem: "\<not> a_regable ?v \<Longrightarrow> a_inmem ?v" using live_var[OF assms(2,3)] by (simp add: var_ok_def)
  have "r = a_reg ?v \<and> (\<exists>rs. Release r (fs_rs s) = Some rs \<and> s' = (dropped True p rs s)\<lparr>fs_fn := fs_fn s', fs_code := fs_code s'\<rparr>) \<and>
    (\<exists>n. if a_regable ?v
       then \<exists>t. emit_insn a ''MOV'' [slot_op ?v n, OReg r] s = Some t \<and> fs_code s' = fs_code t \<and> fs_fn s' = fs_fn t
       else fs_code s' = fs_code s \<and> fs_fn s' = fs_fn s)"
  proof (cases "a_regable ?v")
    case True
    then obtain n t where t: "emit_insn a ''MOV'' [slot_op ?v n, OReg (a_reg ?v)] s = Some t"
      "give_up (a_reg ?v) (upd p (\<lambda>v. v\<lparr>a_inreg := False, a_inmem := True\<rparr>) t) = Some s'" "r = a_reg ?v"
      using assms(1) i True by (auto simp: Evict_def Let_def bind_eq_Some_conv)
    note sel = emit_insn_sel(1)[OF t(1)]
    have "give_up (a_reg ?v) (upd p (\<lambda>v. v\<lparr>a_inreg := False, a_inmem := True\<rparr>)
        (s\<lparr>fs_fn := fs_fn t, fs_code := fs_code t\<rparr>)) = Some s'"
      using t(2) unfolding sel[symmetric] .
    then obtain rs where rs: "Release (a_reg ?v) (fs_rs s) = Some rs"
      and s': "s' = (dropped True p rs s)\<lparr>fs_fn := fs_fn t, fs_code := fs_code t\<rparr>"
      by (auto simp: give_up_def upd_def removeLRU_def dropped_def Let_def)
    have eq: "fs_fn s' = fs_fn t" "fs_code s' = fs_code t" by (simp_all add: s')
    have "s' = (dropped True p rs s)\<lparr>fs_fn := fs_fn s', fs_code := fs_code s'\<rparr>" unfolding eq by (fact s')
    then show ?thesis
      using t(1,3) True rs eq by (intro conjI exI[of _ rs] exI[of _ n]) simp_all
  next
    case False
    then have "give_up (a_reg ?v) (upd p (\<lambda>v. v\<lparr>a_inreg := False\<rparr>) s) = Some s'" "r = a_reg ?v"
      using assms(1) i by (auto simp: Evict_def Let_def bind_eq_Some_conv)
    moreover have "?v\<lparr>a_inreg := False\<rparr> = ?v\<lparr>a_inreg := False, a_inmem := True\<rparr>" using mem[OF False] by simp
    ultimately have "\<exists>rs. Release r (fs_rs s) = Some rs \<and> s' = dropped True p rs s"
      by (auto simp: give_up_def upd_def removeLRU_def dropped_def Let_def)
    then obtain rs where rs: "Release (a_reg ?v) (fs_rs s) = Some rs" "s' = dropped True p rs s"
      using \<open>r = a_reg ?v\<close> by blast
    then have "s' = (dropped True p rs s)\<lparr>fs_fn := fs_fn s', fs_code := fs_code s'\<rparr>" by simp
    then show ?thesis using False \<open>r = a_reg ?v\<close> rs by (intro conjI exI[of _ rs]) simp_all
  qed
  then show "r = a_reg ?v" "\<exists>rs. Release r (fs_rs s) = Some rs \<and> s' = (dropped True p rs s)\<lparr>fs_fn := fs_fn s', fs_code := fs_code s'\<rparr>"
    "\<exists>n. if a_regable ?v
       then \<exists>t. emit_insn a ''MOV'' [slot_op ?v n, OReg r] s = Some t \<and> fs_code s' = fs_code t \<and> fs_fn s' = fs_fn t
       else fs_code s' = fs_code s \<and> fs_fn s' = fs_fn s" by auto
qed

lemma sim_code [simp]: "sim (s\<lparr>fs_fn := f, fs_code := c\<rparr>) = sim s"
  by (simp add: sim_def fun_eq_iff)

lemma holds_var: "sim s m c \<Longrightarrow> p \<in> live s \<Longrightarrow> vals c p = Some x \<Longrightarrow> holds m (fs_heap s p) x"
  by (simp add: sim_def)

lemma simI:
  assumes "\<And>q. q \<in> live s \<Longrightarrow> points m (fs_heap s q)"
    and "\<And>q x. q \<in> live s \<Longrightarrow> vals c q = Some x \<Longrightarrow> holds m (fs_heap s q) x"
    and "\<And>r x. r \<in> others s \<Longrightarrow> owned c r = Some x \<Longrightarrow> read_reg r m = x"
    and "\<And>k. \<forall>q \<in> live s. k \<notin> vslot (fs_heap s q) \<Longrightarrow> m_mem m k = elsewhere c k"
  shows "sim s m c"
  using assms unfolding sim_def by blast

lemma simD:
  assumes "sim s m c"
  shows "q \<in> live s \<Longrightarrow> points m (fs_heap s q)"
    "q \<in> live s \<Longrightarrow> vals c q = Some x \<Longrightarrow> holds m (fs_heap s q) x"
    "r \<in> others s \<Longrightarrow> owned c r = Some x \<Longrightarrow> read_reg r m = x"
    "\<forall>q \<in> live s. k \<notin> vslot (fs_heap s q) \<Longrightarrow> m_mem m k = elsewhere c k"
  using assms unfolding sim_def by blast+

lemma dropped_heap: "fs_heap (dropped True p rs s) q = (if q = p then (fs_heap s p)\<lparr>a_inreg := False, a_inmem := True\<rparr> else fs_heap s q)"
  by simp

lemma dropped_vslot: "vslot (fs_heap (dropped True p rs s) q) = vslot (fs_heap s q)"
  by simp

lemma exec_store: "exec ''MOV'' [slot_op v n, OReg r] m = Some (write_mem (sint (a_offset v)) (read_reg r m) m)"
  by (simp add: exec_def slot_op_def frame_op_def)

text \<open>Storing a variable's register to its slot.\<close>

lemma sim_store:
  assumes ok: "alloc_ok s" and p: "p \<in> live s" "a_regable (fs_heap s p)" "a_inreg (fs_heap s p)"
    and others: "others (dropped True p rs s) = others s" and sim: "sim s m c"
  shows "sim (dropped True p rs s) (write_mem (sint (a_offset (fs_heap s p))) (read_reg (a_reg (fs_heap s p)) m) m) c"
    (is "sim ?t ?m c")
proof -
  let ?v = "fs_heap s p"
  have n: "nbytes (a_reg ?v) = nat (a_size ?v) div 8" using var_reg[OF live_var[OF ok p(1)] p(2,3)] .
  have st: "stored (fs_heap s q) ?m = stored (fs_heap s q) m" if "q \<in> live s" "q \<noteq> p" for q
    using stored_other[OF ok p(1) that(1)] that(2) n by auto
  show ?thesis
  proof (rule simI, unfold dropped_sel(1))
    fix q assume q: "q \<in> live s"
    show "points ?m (fs_heap ?t q)"
      using simD(1)[OF sim q] by (auto simp: points_def dropped_heap simp del: dropped_sel)
    fix x assume x: "vals c q = Some x"
    show "holds ?m (fs_heap ?t q) x"
    proof (cases "q = p")
      case True
      with simD(2)[OF sim q x] p have "x = read_reg (a_reg ?v) m" by (simp add: holds_def)
      with True n show ?thesis by (simp add: holds_def stored_def)
    next
      case False
      with simD(2)[OF sim q x] st[OF q False] show ?thesis by (simp add: holds_def)
    qed
  next
    fix r x assume "r \<in> others ?t" "owned c r = Some x"
    then show "read_reg r ?m = x" using simD(3)[OF sim] others by simp
  next
    fix k assume k: "\<forall>q \<in> live s. k \<notin> vslot (fs_heap ?t q)"
    then have "k \<notin> vslot ?v" using p unfolding dropped_vslot by blast
    then have "m_mem ?m k = m_mem m k"
      using n var_size[OF live_var[OF ok p(1)]] by (auto simp: write_mem_def slot_stored)
    with simD(4)[OF sim] k show "m_mem ?m k = elsewhere c k" unfolding dropped_vslot by simp
  qed
qed

text \<open>A pointer need not be stored.\<close>

lemma sim_forget_pointer:
  assumes "alloc_ok s" "p \<in> live s" "\<not> a_regable (fs_heap s p)" "others (dropped True p rs s) = others s" "sim s m c"
  shows "sim (dropped True p rs s) m c"
proof (rule simI, unfold dropped_sel(1))
  fix q assume q: "q \<in> live s"
  show "points m (fs_heap (dropped True p rs s) q)"
    using simD(1)[OF assms(5) q] by (auto simp: points_def dropped_heap simp del: dropped_sel)
  fix x assume "vals c q = Some x"
  from simD(2)[OF assms(5) q this] assms(3) show "holds m (fs_heap (dropped True p rs s) q) x"
    by (auto simp: holds_def dropped_heap simp del: dropped_sel)
qed (use assms simD(3,4)[OF assms(5)] in \<open>simp_all add: dropped_vslot del: dropped_sel(12)\<close>)

lemma Evict_runs:
  assumes "Evict a p s = Some (r, s')" "alloc_ok s" "p \<in> live s"
  shows "runs {} s s'"
proof -
  let ?v = "fs_heap s p"
  note sel = Evict_sel[OF assms]
  obtain rs where rs: "Release r (fs_rs s) = Some rs" "s' = (dropped True p rs s)\<lparr>fs_fn := fs_fn s', fs_code := fs_code s'\<rparr>"
    using sel(3) by blast
  have d: "others (dropped True p rs s) = others s" using dropped_ok(2)[OF assms(2,3) sel(1)] rs(1) sel(2) by simp
  have sim': "sim s' m c = sim (dropped True p rs s) m c" for m c by (subst rs(2)) simp
  show ?thesis
  proof (cases "a_regable ?v")
    case True
    then obtain n t where t: "emit_insn a ''MOV'' [slot_op ?v n, OReg r] s = Some t" "fs_code s' = fs_code t" "fs_fn s' = fs_fn t"
      using sel(4) by auto
    show ?thesis
      using sim_store[OF assms(2,3) True sel(1) d]
      by (intro emit_runs[OF t(1)]) (auto simp: exec_store sim' sel(2) t(2,3))
  next
    case False
    have "sim s' m c" if "sim s m c" for m c
      using sim_forget_pointer[OF assms(2,3) False d that] by (simp add: sim')
    with sel(4) False show ?thesis by (auto simp: runs_def intro!: exI[of _ "[]"])
  qed
qed

text \<open>What callers of \<open>Evict\<close> need.\<close>

lemma Evict_ok:
  assumes "Evict a p s = Some (r, s')" "alloc_ok s" "p \<in> live s"
  shows "alloc_ok s'" "runs {} s s'" "live s' = live s" "fs_names s' = fs_names s" "others s' = others s"
    "a_inreg (fs_heap s p)" "r = a_reg (fs_heap s p)" "fs_regs s' = (fs_regs s)(r := None)"
    "held (fs_rs s') = held (fs_rs s) - {r}"
    "fs_heap s' = (fs_heap s)(p := (fs_heap s p)\<lparr>a_inreg := False, a_inmem := True\<rparr>)"
proof -
  note sel = Evict_sel[OF assms]
  obtain rs where rs: "Release r (fs_rs s) = Some rs" "s' = (dropped True p rs s)\<lparr>fs_fn := fs_fn s', fs_code := fs_code s'\<rparr>"
    using sel(3) by blast
  note ok = dropped_ok[OF assms(2,3) sel(1), of rs True, simplified]
  show "alloc_ok s'" by (subst rs(2)) (use ok rs(1) sel(2) in simp)
  show "runs {} s s'" by (rule Evict_runs[OF assms])
  show "live s' = live s" by (subst rs(2)) simp
  show "fs_names s' = fs_names s" by (subst rs(2)) simp
  show "others s' = others s" by (subst rs(2)) (use ok rs(1) sel(2) in simp)
  show "a_inreg (fs_heap s p)" "r = a_reg (fs_heap s p)" by (fact sel)+
  show "fs_regs s' = (fs_regs s)(r := None)" by (subst rs(2)) (simp add: sel(2))
  show "held (fs_rs s') = held (fs_rs s) - {r}" by (subst rs(2)) (use ok rs(1) sel(2) in simp)
  show "fs_heap s' = (fs_heap s)(p := (fs_heap s p)\<lparr>a_inreg := False, a_inmem := True\<rparr>)" by (subst rs(2)) simp
qed

section \<open>Evicting several\<close>

text \<open>The same variables, some of them out of their registers.\<close>

definition same_var :: "Ralloc \<Rightarrow> Ralloc \<Rightarrow> bool" where
  "same_var v w \<longleftrightarrow> a_sym w = a_sym v \<and> a_size w = a_size v \<and> a_regable w = a_regable v \<and> a_offset w = a_offset v \<and>
     a_volatile w = a_volatile v \<and> (\<not> a_inreg v \<longrightarrow> w = v) \<and> (a_inmem v \<longrightarrow> a_inmem w) \<and> (a_inreg w \<longrightarrow> w = v)"

definition spilled :: "fstate \<Rightarrow> fstate \<Rightarrow> bool" where
  "spilled s s' \<longleftrightarrow> alloc_ok s' \<and> runs {} s s' \<and> fs_names s' = fs_names s \<and> fs_fresh s' = fs_fresh s \<and> others s' = others s \<and>
     fs_regs s' \<subseteq>\<^sub>m fs_regs s \<and> (\<forall>q. same_var (fs_heap s q) (fs_heap s' q))"

lemma same_var_refl [simp]: "same_var v v"
  by (simp add: same_var_def)

lemma same_var_trans: "same_var u v \<Longrightarrow> same_var v w \<Longrightarrow> same_var u w"
  unfolding same_var_def by metis

lemma spilled_refl: "alloc_ok s \<Longrightarrow> spilled s s"
  by (simp add: spilled_def)

lemma spilled_trans:
  assumes "spilled s s'" "spilled s' s''"
  shows "spilled s s''"
proof -
  have "runs {} s s''" using assms runs_trans0[of s s' s''] by (simp add: spilled_def)
  moreover have "same_var (fs_heap s q) (fs_heap s'' q)" for q
    using assms same_var_trans[of "fs_heap s q" "fs_heap s' q"] by (simp add: spilled_def)
  moreover have "fs_regs s'' \<subseteq>\<^sub>m fs_regs s" using assms map_le_trans by (auto simp: spilled_def)
  ultimately show ?thesis using assms by (simp add: spilled_def)
qed

lemma spilled_live: "spilled s s' \<Longrightarrow> live s' = live s"
  by (simp add: spilled_def live_def)

lemma Evict_fresh: "Evict a p s = Some (r, s') \<Longrightarrow> fs_fresh s' = fs_fresh s"
  by (auto simp: Evict_def Let_def give_up_def upd_def removeLRU_def emit_insn_def split: if_splits Option.bind_splits sum.splits)

lemma Evict_spills:
  assumes "Evict a p s = Some (r, s')" "alloc_ok s" "p \<in> live s"
  shows "spilled s s'"
proof -
  note ok = Evict_ok[OF assms]
  have "fs_regs s' \<subseteq>\<^sub>m fs_regs s" by (auto simp: ok(8) map_le_def split: if_splits)
  moreover have "same_var (fs_heap s q) (fs_heap s' q)" for q using ok(6) by (auto simp: ok(10) same_var_def)
  ultimately show ?thesis using ok Evict_fresh[OF assms(1)] by (simp add: spilled_def)
qed

lemma evict_each_ok:
  "evict_each a cs s = Some s' \<Longrightarrow> alloc_ok s \<Longrightarrow> spilled s s' \<and> fs_regs s' = fs_regs s |` (- set cs)"
proof (induction a cs s rule: evict_each.induct)
  case (1 a s)
  then show ?case by (simp add: spilled_refl)
next
  case (2 a c cs s)
  show ?case
  proof (cases "fs_regs s c")
    case None
    with 2 have "spilled s s'" "fs_regs s' = fs_regs s |` (- set cs)" by auto
    moreover have "fs_regs s |` (- set cs) = fs_regs s |` (- set (c # cs))"
      using None by (auto simp: restrict_map_def)
    ultimately show ?thesis by simp
  next
    case (Some p)
    with 2(3) obtain r t where t: "Evict a p s = Some (r, t)" "evict_each a cs t = Some s'"
      by (auto simp: bind_eq_Some_conv)
    note p = regs_of[OF 2(4) Some]
    note ok = Evict_ok[OF t(1) 2(4)]
    have "spilled t s'" "fs_regs s' = fs_regs t |` (- set cs)"
      using 2(2)[OF Some t(1) refl t(2)] ok(1) p by auto
    moreover have "fs_regs t = (fs_regs s)(c := None)" using ok(7,8) p by auto
    ultimately show ?thesis
      using spilled_trans[OF Evict_spills[OF t(1) 2(4)]] p by (auto simp: restrict_map_def)
  qed
qed

lemma evict_all_each: "evict_all a rs s = Some s' \<Longrightarrow> evict_each a rs s = Some s'"
  by (induction a rs s rule: evict_all.induct) (auto simp: bind_eq_Some_conv split: option.splits)

lemma held_split: "alloc_inv U s \<Longrightarrow> held (fs_rs s) = others s \<union> dom (fs_regs s)"
  by (auto simp: alloc_defs others_def)

text \<open>What \<open>EvictReg\<close> leaves in use of a register is the user's.\<close>

lemma EvictReg_ok:
  assumes "EvictReg a r s = Some s'" "alloc_ok s" "r \<noteq> R_RIP"
  shows "spilled s s'" "\<forall>h \<in> held (fs_rs s'). overlap r h \<longrightarrow> h \<in> others s"
proof -
  have "regs_ok (fs_rs s)" using assms(2) by (simp add: alloc_defs)
  with Conflicts_ok[OF this assms(3)] obtain cs where cs: "Conflicts r (fs_rs s) = Some cs"
    "set cs = {h \<in> held (fs_rs s). overlap r h}" by blast
  with assms(1) have "evict_each a cs s = Some s'" by (simp add: EvictReg_def)
  from evict_each_ok[OF this assms(2)] have s': "spilled s s'" "fs_regs s' = fs_regs s |` (- set cs)" by auto
  show "spilled s s'" by fact
  have "held (fs_rs s') = others s \<union> dom (fs_regs s')" "dom (fs_regs s) \<subseteq> held (fs_rs s)"
    using held_split[where s = s'] s'(1) assms(2) by (auto simp: spilled_def alloc_ok_def file_ok_def)
  then show "\<forall>h \<in> held (fs_rs s'). overlap r h \<longrightarrow> h \<in> others s"
    using s'(2) cs(2) by (auto simp: restrict_map_def subset_iff dom_def split: if_splits)
qed

lemma EvictAll_ok:
  assumes "EvictAll a s = Some s'" "alloc_ok s"
  shows "spilled s s'" "fs_regs s' = Map.empty"
proof -
  have e: "evict_each a (fs_lru s) s = Some s'" using assms(1) by (simp add: EvictAll_def evict_all_each)
  note s' = evict_each_ok[OF e assms(2)]
  have "set (fs_lru s) = dom (fs_regs s)" using assms(2) by (simp add: alloc_ok_def tables_ok_def)
  with s' show "spilled s s'" "fs_regs s' = Map.empty" by (auto simp: restrict_map_def fun_eq_iff)
qed

lemma evict_regs_ok:
  "evict_regs a rs s = Some s' \<Longrightarrow> alloc_ok s \<Longrightarrow> R_RIP \<notin> set rs \<Longrightarrow> spilled s s' \<and>
     (\<forall>r \<in> set rs. \<forall>h \<in> held (fs_rs s'). overlap r h \<longrightarrow> h \<in> others s)"
proof (induction a rs s rule: evict_regs.induct)
  case (2 a r rs s)
  from 2(2) obtain t where t: "EvictReg a r s = Some t" "evict_regs a rs t = Some s'"
    by (auto simp: bind_eq_Some_conv)
  have r: "r \<noteq> R_RIP" using 2(4) by auto
  note ok = EvictReg_ok[OF t(1) 2(3) r]
  then have ts: "alloc_ok t" "others t = others s" by (auto simp: spilled_def)
  with 2(1)[OF t(1,2)] 2(4) have s': "spilled t s'" "\<forall>r \<in> set rs. \<forall>h \<in> held (fs_rs s'). overlap r h \<longrightarrow> h \<in> others s" by auto
  have "held (fs_rs s') \<subseteq> held (fs_rs t)"
    using held_split[OF ts(1)] held_split[where s = s'] s'(1) by (auto simp: spilled_def map_le_def dom_def)
  with ok s' spilled_trans[OF ok(1) s'(1)] show ?case by auto
qed (simp add: spilled_refl)

section \<open>Obtaining a register\<close>

lemma unused8_in_mem: "unused8_in rs f = Some (Some r) \<Longrightarrow> r \<in> set rs"
  by (induction rs f rule: unused8_in.induct) (auto simp: bind_eq_Some_conv split: if_splits)

lemma regs8_low: "r \<in> set regs8 \<Longrightarrow> r \<notin> high_regs"
  by (auto simp: regs8_def high_regs_def)

lemma high_width: "r \<in> high_regs \<Longrightarrow> Width r = Some 8"
  by (auto simp: high_regs_def)

lemma Get_low:
  assumes "Get n rs = Some (Some r, rs')" "n \<in> {8, 16, 32, 64}" "regs_ok rs"
  shows "r \<notin> high_regs"
proof (cases "n = 8")
  case True
  with assms(1) have "unused8_in regs8 rs = Some (Some r)"
    by (auto simp: Get_def unused8_def bind_eq_Some_conv split: option.splits)
  then show ?thesis using unused8_in_mem regs8_low by blast
next
  case False
  with Get_ok[OF assms(3,2)] assms(1) show ?thesis using high_width by auto
qed

text \<open>A new register of the user's: \<open>t\<close> is \<open>s\<close> with \<open>r\<close> handed out to no variable.\<close>

definition handed :: "int \<Rightarrow> Register \<Rightarrow> fstate \<Rightarrow> fstate \<Rightarrow> bool" where
  "handed n r s t \<longleftrightarrow> alloc_ok t \<and> runs {r} s t \<and> fs_names t = fs_names s \<and> fs_fresh t = fs_fresh s \<and>
     others t = insert r (others s) \<and> fs_regs t \<subseteq>\<^sub>m fs_regs s \<and> (\<forall>q. same_var (fs_heap s q) (fs_heap t q)) \<and>
     Width r = Some n \<and> r \<notin> high_regs \<and> r \<notin> others s \<and> (\<forall>h \<in> held (fs_rs t) - {r}. \<not> overlap r h)"

lemma hand_out:
  assumes ok: "alloc_ok s" and rs: "regs_ok rs" "held rs = insert r (held (fs_rs s))" "\<forall>h \<in> held (fs_rs s). \<not> overlap r h"
    and r: "Width r = Some n" "r \<notin> high_regs"
  shows "handed n r s (s\<lparr>fs_rs := rs\<rparr>)"
proof -
  let ?t = "s\<lparr>fs_rs := rs\<rparr>"
  have new: "r \<notin> held (fs_rs s)" using rs(3) by (auto simp: overlap_def)
  have reg: "dom (fs_regs s) \<subseteq> held (fs_rs s)" using ok by (simp add: alloc_ok_def file_ok_def)
  then have o': "others ?t = insert r (others s)" using rs(2) new by (auto simp: others_def)
  have l: "live ?t = live s" "slots ?t = slots s" by (simp_all add: live_def slots_def)
  have "alloc_ok ?t" using ok rs r o' by (auto simp: alloc_ok_def names_ok_def tables_ok_def file_ok_def slots_ok_def l)
  moreover have "sim ?t m (lose {r} c)" if "sim s m c" for m c
  proof (rule simI, unfold l(1))
    fix q x assume "q \<in> others ?t" "owned (lose {r} c) q = Some x"
    then show "read_reg q m = x" using simD(3)[OF that] o' by (auto simp: lose_def restrict_map_def split: if_splits)
  qed (use simD[OF that] in \<open>simp_all add: lose_def\<close>)
  then have "runs {r} s ?t" unfolding runs_def by (intro exI[of _ "[]"]) auto
  ultimately show ?thesis using o' r rs(2,3) new by (auto simp: handed_def others_def)
qed

lemma spill_hand:
  assumes "spilled s t" "handed n r t u"
  shows "handed n r s u"
proof -
  have "runs ({r} \<union> {}) s u" using assms runs_trans[of "{}" s t "{r}" u] by (simp add: spilled_def handed_def)
  moreover have "same_var (fs_heap s q) (fs_heap u q)" for q
    using assms same_var_trans[of "fs_heap s q" "fs_heap t q"] by (simp add: spilled_def handed_def)
  moreover have "fs_regs u \<subseteq>\<^sub>m fs_regs s" using assms map_le_trans by (auto simp: spilled_def handed_def)
  ultimately show ?thesis using assms by (simp add: spilled_def handed_def)
qed

lemma Get_hands:
  assumes "Get n (fs_rs s) = Some (Some r, rs)" "alloc_ok s" "n \<in> {8, 16, 32, 64}"
  shows "handed n r s (s\<lparr>fs_rs := rs\<rparr>)"
proof -
  have ok: "regs_ok (fs_rs s)" using assms(2) by (simp add: alloc_ok_def file_ok_def)
  from Get_ok[OF this assms(3)] assms(1) Get_low[OF assms(1,3) ok] show ?thesis
    by (intro hand_out[OF assms(2)]) auto
qed

lemma evict_lru_ok:
  "evict_lru a n rs s = Some (Some r, s') \<Longrightarrow> alloc_ok s \<Longrightarrow> n \<in> {8, 16, 32, 64} \<Longrightarrow> handed n r s s'"
proof (induction a n rs s rule: evict_lru.induct)
  case (2 a n c rest s)
  obtain w where w: "Width c = Some w" using 2(2) by (auto simp: bind_eq_Some_conv)
  show ?case
  proof (cases "n \<le> w")
    case True
    with 2(2) w obtain p x t rs where t: "fs_regs s c = Some p" "Evict a p s = Some (x, t)"
      "Get n (fs_rs t) = Some (Some r, rs)" "s' = t\<lparr>fs_rs := rs\<rparr>"
      by (auto simp: bind_eq_Some_conv)
    have "p \<in> live s" using regs_of[OF 2(3) t(1)] by blast
    from Evict_spills[OF t(2) 2(3) this] have sp: "spilled s t" .
    then have "alloc_ok t" by (simp add: spilled_def)
    from spill_hand[OF sp Get_hands[OF t(3) this 2(4)]] t(4) show ?thesis by simp
  next
    case False
    with 2 w show ?thesis by simp
  qed
qed simp

lemma obtain_reg_ok:
  assumes "obtain_reg a n s = Some (r, s')" "alloc_ok s" "n \<in> {8, 16, 32, 64}"
  shows "handed n r s s'"
proof -
  have ok: "regs_ok (fs_rs s)" using assms(2) by (simp add: alloc_ok_def file_ok_def)
  from Get_ok[OF this assms(3)] obtain got rs where g: "Get n (fs_rs s) = Some (got, rs)"
    "got = None \<longrightarrow> rs = fs_rs s" by (auto split: option.splits)
  show ?thesis
  proof (cases got)
    case None
    with assms(1) g have "evict_lru a n (fs_lru s) s = Some (Some r, s')"
      by (auto simp: obtain_reg_def Rallocs_Evict_def bind_eq_Some_conv split: option.splits)
    then show ?thesis using evict_lru_ok assms(2,3) by blast
  next
    case (Some x)
    with assms(1) g have "x = r" "s' = s\<lparr>fs_rs := rs\<rparr>" by (auto simp: obtain_reg_def)
    with Get_hands[OF _ assms(2,3)] g Some show ?thesis by auto
  qed
qed

section \<open>Loading a variable\<close>

text \<open>A write that touches no register in use except \<open>r\<close>.\<close>

lemma sim_write:
  assumes ok: "alloc_ok t" and r: "r \<in> others t" and f: "f \<noteq> R_RIP" "\<forall>h \<in> held (fs_rs t) - {r}. \<not> overlap f h"
    and sim: "sim t m c"
  shows "sim t (write_reg f bs m) (lose {r} c)"
proof -
  have same: "read_reg h (write_reg f bs m) = read_reg h m" if "h \<in> held (fs_rs t)" "h \<noteq> r" for h
    using read_reg_other[of f h] that f by (metis DiffI held_rip singletonD)
  have in_reg: "a_reg (fs_heap t q) \<in> held (fs_rs t) \<and> a_reg (fs_heap t q) \<noteq> r"
    if "q \<in> live t" "a_inreg (fs_heap t q)" for q
    using in_regs[OF ok that] in_reg_held[OF ok that] r by (auto simp: others_def)
  show ?thesis
  proof (rule simI)
  fix q assume q: "q \<in> live t"
  show "points (write_reg f bs m) (fs_heap t q)"
    using simD(1)[OF sim q] in_reg[OF q] same by (simp add: points_def)
  fix x assume "vals (lose {r} c) q = Some x"
  then show "holds (write_reg f bs m) (fs_heap t q) x"
    using simD(2)[OF sim q, of x] in_reg[OF q] same by (auto simp: holds_def stored_def lose_def)
next
  fix h x assume "h \<in> others t" "owned (lose {r} c) h = Some x"
  then show "read_reg h (write_reg f bs m) = x"
    using simD(3)[OF sim, of h x] same[of h] by (auto simp: lose_def restrict_map_def others_def split: if_splits)
next
  fix k assume "\<forall>q \<in> live t. k \<notin> vslot (fs_heap t q)"
  then show "m_mem (write_reg f bs m) k = elsewhere (lose {r} c) k" using simD(4)[OF sim] by (simp add: lose_def)
qed
qed

section \<open>Settling in a register\<close>

lemma settle_sel [simp]:
  "fs_heap (settle p r s) = (fs_heap s)(p := (fs_heap s p)\<lparr>a_reg := r, a_inreg := True\<rparr>)"
  "fs_regs (settle p r s) = (fs_regs s)(r := Some p)" "fs_names (settle p r s) = fs_names s"
  "fs_fresh (settle p r s) = fs_fresh s" "fs_rs (settle p r s) = fs_rs s" "fs_free (settle p r s) = fs_free s"
  "fs_localoff (settle p r s) = fs_localoff s" "fs_lru (settle p r s) = filter (\<lambda>x. x \<noteq> r) (fs_lru s) @ [r]"
  "fs_code (settle p r s) = fs_code s" "fs_fn (settle p r s) = fs_fn s"
  by (simp_all add: settle_def updateLRU_def upd_def)

lemma settle_live [simp]: "live (settle p r s) = live s"
  by (simp add: live_def)

lemma settle_slots [simp]: "slots (settle p r s) = slots s"
  by (auto simp: slots_def split: if_splits)

lemma settle_others [simp]: "others (settle p r s) = others s - {r}"
  by (auto simp: others_def)

definition fit :: "Ralloc \<Rightarrow> Register \<Rightarrow> bool" where
  "fit v r \<longleftrightarrow> Width r = Some (if a_regable v then a_size v else 64) \<and> \<not> (a_volatile v \<and> a_regable v)"

lemma settle_ok:
  assumes ok: "alloc_inv U s" and p: "p \<in> live s" "\<not> a_inreg (fs_heap s p)" and r: "r \<in> others s" "r \<notin> U"
    and fit: "fit (fs_heap s p) r"
  shows "alloc_inv U (settle p r s)"
  unfolding alloc_ok_def
proof (intro conjI)
  have r': "r \<in> held (fs_rs s)" "fs_regs s r = None" using r by (auto simp: others_def)
  then have "r \<noteq> R_RIP" by auto
  with ok fit show "names_ok (settle p r s)" by (auto simp: alloc_ok_def names_ok_def fit_def var_ok_def)
  have tab: "fs_regs (settle p r s) x = Some q \<longleftrightarrow> q \<in> live (settle p r s) \<and>
      a_inreg (fs_heap (settle p r s) q) \<and> a_reg (fs_heap (settle p r s) q) = x" for x q
    using regs_of[OF ok, of x q] in_regs[OF ok, of q] p r' by auto
  have lru: "distinct (fs_lru s)" "set (fs_lru s) = dom (fs_regs s)" using ok by (auto simp: alloc_ok_def tables_ok_def)
  show "tables_ok (settle p r s)" unfolding tables_ok_def using tab lru by auto
  show "file_ok U (settle p r s)" using ok r r' by (auto simp: alloc_ok_def file_ok_def)
  show "slots_ok (settle p r s)" using ok by (simp add: alloc_ok_def slots_ok_def)
qed

lemma sim_settle:
  assumes p: "p \<in> live s" "\<not> a_inreg (fs_heap s p)"
    and loaded: "a_regable (fs_heap s p) \<Longrightarrow> a_inmem (fs_heap s p) \<Longrightarrow> read_reg r m = stored (fs_heap s p) m"
      "\<not> a_regable (fs_heap s p) \<Longrightarrow> read_reg r m = frame_addr (a_offset (fs_heap s p)) m"
    and sim: "sim s m c"
  shows "sim (settle p r s) m c"
proof (rule simI, unfold settle_live)
  fix q assume q: "q \<in> live s"
  show "points m (fs_heap (settle p r s) q)"
    using simD(1)[OF sim q] loaded(2) by (auto simp: points_def)
  fix x assume "vals c q = Some x"
  from simD(2)[OF sim q this] loaded(1) p show "holds m (fs_heap (settle p r s) q) x"
    by (auto simp: holds_def)
next
  fix k assume "\<forall>q \<in> live s. k \<notin> vslot (fs_heap (settle p r s) q)"
  then have "\<forall>q \<in> live s. k \<notin> vslot (fs_heap s q)" by (auto split: if_splits)
  then show "m_mem m k = elsewhere c k" by (rule simD(4)[OF sim])
qed (use simD(3)[OF sim] in auto)

text \<open>The moves: from a slot, of an address, between registers.\<close>

lemma exec_load: "full r \<noteq> R_RBP \<Longrightarrow> exec ''MOV'' [OReg r, slot_op v n] m =
    Some (write_reg r (read_mem (sint (a_offset v)) (nbytes r) m) m)"
  by (simp add: exec_def slot_op_def frame_op_def)

lemma exec_lea: "full r \<noteq> R_RBP \<Longrightarrow> Width r = Some 64 \<Longrightarrow> exec ''LEA'' [OReg r, slot_op v n] m =
    Some (write_reg r (frame_addr (a_offset v) m) m)"
  by (simp add: exec_def slot_op_def frame_op_def)

lemma exec_clear: "full f \<noteq> R_RBP \<Longrightarrow> exec ''XOR'' [OReg f, OReg f] m = Some (write_reg f (replicate (nbytes f) 0) m)"
  by (simp add: exec_def)

lemma exec_mov: "full d \<noteq> R_RBP \<Longrightarrow> Width d = Width e \<Longrightarrow> exec ''MOV'' [OReg d, OReg e] m = Some (write_reg d (read_reg e m) m)"
  by (simp add: exec_def)

lemma not_rbp:
  assumes "r \<noteq> R_RIP" "\<not> overlap r R_RBP"
  shows "full r \<noteq> R_RBP" "r \<noteq> R_RBP"
  using assms by (cases r; simp add: overlap_def full_def)+

text \<open>\<open>r\<close> is free for a variable.\<close>

definition vacant :: "Register \<Rightarrow> fstate \<Rightarrow> bool" where
  "vacant r t \<longleftrightarrow> alloc_ok t \<and> r \<in> others t \<and> r \<notin> {R_RBP, R_RSP}"

lemma vacant_facts:
  assumes "vacant r t"
  shows "r \<noteq> R_RIP" "\<forall>h \<in> held (fs_rs t) - {r}. \<not> overlap r h" "full r \<noteq> R_RBP" "r \<notin> high_regs" "alloc_ok t"
    "r \<in> others t" "r \<notin> {R_RBP, R_RSP}"
proof -
  have r: "r \<in> held (fs_rs t)" and ok: "regs_ok (fs_rs t)" "R_RBP \<in> held (fs_rs t)"
    using assms by (auto simp: vacant_def others_def alloc_ok_def file_ok_def)
  show "alloc_ok t" "r \<in> others t" "r \<notin> {R_RBP, R_RSP}" using assms by (simp_all add: vacant_def)
  show rip: "r \<noteq> R_RIP" using r by auto
  show ap: "\<forall>h \<in> held (fs_rs t) - {r}. \<not> overlap r h" using held_apart[OF ok(1) r] by blast
  have "r \<noteq> R_RBP" using assms by (simp add: vacant_def)
  then show "full r \<noteq> R_RBP" using not_rbp[OF rip] ap ok(2) by blast
  show "r \<notin> high_regs" using assms r by (auto simp: vacant_def alloc_ok_def file_ok_def)
qed

lemma code_states: "emit_insn a i os t = Some u \<Longrightarrow> sim u = sim t \<and> alloc_ok u = alloc_ok t \<and> others u = others t \<and>
    live u = live t \<and> fs_heap u = fs_heap t \<and> fs_names u = fs_names t \<and> fs_fresh u = fs_fresh t \<and> fs_regs u = fs_regs t \<and> fs_rs u = fs_rs t"
  using emit_insn_sel(1)[of a i os t u] by (metis code_sel fstate.ext_inject fstate.surjective fstate.update_convs(11,12) sim_code)

lemma fit_bytes: "fit v r \<Longrightarrow> a_regable v \<Longrightarrow> nbytes r = nat (a_size v) div 8"
  by (simp add: fit_def nbytes_def)

text \<open>A value written to a vacant register, then the variable settles in it.\<close>

lemma fill_runs:
  assumes t: "vacant r t" and p: "p \<in> live t" "\<not> a_inreg (fs_heap t p)"
    and e: "emit_insn a i os t = Some u" "\<And>m. exec i os m = Some (write_reg r (bs m) m)" "\<And>m. length (bs m) = nbytes r"
    and v: "\<And>m. a_regable (fs_heap t p) \<Longrightarrow> a_inmem (fs_heap t p) \<Longrightarrow> bs m = stored (fs_heap t p) m"
      "\<And>m. \<not> a_regable (fs_heap t p) \<Longrightarrow> bs m = frame_addr (a_offset (fs_heap t p)) m"
  shows "runs {r} t (settle p r u)"
proof (rule emit_runs[OF e(1)])
  note c = code_states[OF e(1)] and vf = vacant_facts[OF t]
  fix m c assume sim: "sim t m c"
  let ?m = "write_reg r (bs m) m"
  have w: "sim u ?m (lose {r} c)" using sim_write[OF vf(5,6,1,2) sim] c by simp
  have "sim (settle p r u) ?m (lose {r} c)"
    by (rule sim_settle[OF _ _ _ _ w])
       (use p e(3) v c in \<open>simp_all add: stored_def\<close>)
  then show "\<exists>m'. exec i os m = Some m' \<and> sim (settle p r u) m' (lose {r} c)" using e(2) by blast
qed simp_all

lemma settle_filled:
  assumes t: "vacant r t" and p: "p \<in> live t" "\<not> a_inreg (fs_heap t p)" and e: "emit_insn a i os t = Some u"
    and fit: "fit (fs_heap t p) r"
  shows "alloc_ok (settle p r u)" "others (settle p r u) = others t - {r}"
  using settle_ok[of "{R_RBP, R_RSP}" u p r] code_states[OF e] vacant_facts[OF t] p fit by simp_all

lemma load_runs:
  assumes "vacant r t" "p \<in> live t" "\<not> a_inreg (fs_heap t p)" "fit (fs_heap t p) r" "a_regable (fs_heap t p)"
    and e: "emit_insn a ''MOV'' [OReg r, slot_op (fs_heap t p) n] t = Some u"
  shows "runs {r} t (settle p r u)"
  by (rule fill_runs[OF assms(1-3) e exec_load[OF vacant_facts(3)[OF assms(1)]]])
     (use assms(4,5) in \<open>simp_all add: stored_def fit_bytes\<close>)

lemma lea_runs:
  assumes "vacant r t" "p \<in> live t" "\<not> a_inreg (fs_heap t p)" "fit (fs_heap t p) r" "\<not> a_regable (fs_heap t p)"
    and e: "emit_insn a ''LEA'' [OReg r, slot_op (fs_heap t p) n] t = Some u"
  shows "runs {r} t (settle p r u)"
proof -
  have "Width r = Some 64" using assms(4,5) by (simp add: fit_def)
  then show ?thesis
    using assms(5) low_full[of r] by (intro fill_runs[OF assms(1-3) e exec_lea[OF vacant_facts(3)[OF assms(1)]]]) simp_all
qed

lemma fresh_runs:
  assumes "vacant r t" "p \<in> live t" "\<not> a_inreg (fs_heap t p)" "a_regable (fs_heap t p)" "\<not> a_inmem (fs_heap t p)"
  shows "runs {r} t (settle p r t)"
proof -
  have "sim (settle p r t) m (lose {r} c)" if "sim t m c" for m c
  proof (rule sim_settle[OF assms(2,3)])
    show "sim t m (lose {r} c)"
      using that by (intro simI) (auto dest: simD simp: lose_def restrict_map_def split: if_splits)
  qed (use assms in auto)
  then show ?thesis unfolding runs_def by (intro exI[of _ "[]"]) auto
qed

text \<open>Clearing the full register before a narrow load spares the other registers in use, since no high
  byte is in use.\<close>

lemma clear_runs:
  assumes t: "vacant r t" and f: "fullReg r = Some f" and e: "emit_insn a ''XOR'' [OReg f, OReg f] t = Some u"
  shows "runs {r} t u" "vacant r u"
proof -
  note c = code_states[OF e] and vf = vacant_facts[OF t]
  have ff: "fullReg f = Some f" "Width f = Some 64" using fullReg_full[OF f] by auto
  have "full f \<noteq> R_RBP" using vf(3) f ff by (simp add: full_def)
  note x = exec_clear[OF this]
  have "f \<noteq> R_RIP" using ff by auto
  moreover have "\<not> overlap f h" if "h \<in> held (fs_rs t) - {r}" for h
  proof (rule clear_other[OF f _ _ vf(4)])
    show "\<not> overlap r h" using vf(2) that by blast
    show "h \<noteq> R_RIP" using that by auto
    show "h \<notin> high_regs" using that vf(5) by (auto simp: alloc_ok_def file_ok_def)
  qed
  ultimately have "sim t (write_reg f (replicate (nbytes f) 0) m) (lose {r} c)" if "sim t m c" for m c
    using sim_write[OF vf(5,6)] that by blast
  then show "runs {r} t u" by (intro emit_runs[OF e]) (auto simp: x c)
  show "vacant r u" using t c by (simp add: vacant_def)
qed

lemma runs_again: "runs {r} s t \<Longrightarrow> runs {r} t u \<Longrightarrow> runs {r} s u"
  using runs_trans[of "{r}" s t "{r}" u] by simp

text \<open>The result of bringing a variable into a register.\<close>

definition loaded :: "nat \<Rightarrow> Register \<Rightarrow> fstate \<Rightarrow> fstate \<Rightarrow> bool" where
  "loaded p r s s' \<longleftrightarrow> alloc_ok s' \<and> runs {} s s' \<and> fs_names s' = fs_names s \<and> fs_fresh s' = fs_fresh s \<and>
     others s' = others s \<and> a_inreg (fs_heap s' p) \<and> a_reg (fs_heap s' p) = r \<and>
     Width r = Some (if a_regable (fs_heap s p) then a_size (fs_heap s p) else 64)"

lemma handed_vacant:
  assumes "handed n r s t" "alloc_ok s"
  shows "vacant r t"
  using assms by (auto simp: handed_def vacant_def alloc_ok_def file_ok_def)

lemma updateLRU_sel [simp]:
  "live (updateLRU r s) = live s" "slots (updateLRU r s) = slots s" "others (updateLRU r s) = others s"
  "sim (updateLRU r s) = sim s" "fs_code (updateLRU r s) = fs_code s" "fs_fn (updateLRU r s) = fs_fn s"
  "fs_names (updateLRU r s) = fs_names s" "fs_fresh (updateLRU r s) = fs_fresh s" "fs_heap (updateLRU r s) = fs_heap s"
  "fs_regs (updateLRU r s) = fs_regs s" "fs_rs (updateLRU r s) = fs_rs s"
  by (simp_all add: updateLRU_def live_def slots_def others_def sim_def fun_eq_iff)

lemma updateLRU_ok:
  assumes "alloc_ok s" "r \<in> dom (fs_regs s)"
  shows "alloc_ok (updateLRU r s)"
proof -
  have "distinct (fs_lru (updateLRU r s)) \<and> set (fs_lru (updateLRU r s)) = dom (fs_regs s)"
    using assms by (auto simp: updateLRU_def alloc_ok_def tables_ok_def)
  with assms(1) show ?thesis by (simp add: alloc_ok_def names_ok_def tables_ok_def file_ok_def slots_ok_def)
     (simp add: updateLRU_def)
qed

lemma filled_loaded:
  assumes h: "handed n r s t" "alloc_ok s" and p: "p \<in> live s" "\<not> a_inreg (fs_heap s p)" "fit (fs_heap s p) r"
    and u: "runs {r} t (settle p r u)" "alloc_ok (settle p r u)" "others (settle p r u) = others t - {r}"
      "fs_names u = fs_names t" "fs_fresh u = fs_fresh t"
  shows "loaded p r s (settle p r u)"
proof -
  have "runs {r} s (settle p r u)" using h(1) u(1) by (auto simp: handed_def intro: runs_again)
  then have "runs {} s (settle p r u)" by (rule runs_settled) (simp add: u(3))
  moreover have "others t - {r} = others s" using h(1) by (auto simp: handed_def)
  ultimately show ?thesis using h u(2-5) p(3) by (auto simp: loaded_def handed_def fit_def)
qed

lemma handed_var:
  assumes "handed n r s t" "p \<in> live s" "\<not> a_inreg (fs_heap s p)"
  shows "fs_heap t p = fs_heap s p" "p \<in> live t" "\<not> a_inreg (fs_heap t p)"
proof -
  have "same_var (fs_heap s p) (fs_heap t p)" using assms(1) by (simp add: handed_def)
  then show "fs_heap t p = fs_heap s p" using assms(3) by (simp add: same_var_def)
  then show "\<not> a_inreg (fs_heap t p)" using assms(3) by simp
  show "p \<in> live t" using assms(1,2) by (simp add: handed_def live_def)
qed

lemma var_width: "var_ok v \<Longrightarrow> a_regable v \<Longrightarrow> a_size v \<in> {8, 16, 32, 64}"
  by (simp add: var_ok_def)

lemma clear_maybe:
  assumes "vacant r t" "t' = t \<or> (\<exists>f. fullReg r = Some f \<and> emit_insn a ''XOR'' [OReg f, OReg f] t = Some t')"
  shows "vacant r t'" "runs {r} t t' \<or> t' = t" "fs_heap t' = fs_heap t" "live t' = live t" "others t' = others t"
    "fs_names t' = fs_names t" "fs_fresh t' = fs_fresh t"
proof -
  consider (same) "t' = t" | (clear) f where "fullReg r = Some f" "emit_insn a ''XOR'' [OReg f, OReg f] t = Some t'"
    using assms(2) by blast
  then have "vacant r t' \<and> (runs {r} t t' \<or> t' = t) \<and> fs_heap t' = fs_heap t \<and> live t' = live t \<and> others t' = others t \<and>
    fs_names t' = fs_names t \<and> fs_fresh t' = fs_fresh t"
  proof cases
    case same
    then show ?thesis using assms(1) by simp
  next
    case clear
    show ?thesis using clear_runs[OF assms(1) clear] code_states[OF clear(2)] by simp
  qed
  then show "vacant r t'" "runs {r} t t' \<or> t' = t" "fs_heap t' = fs_heap t" "live t' = live t" "others t' = others t"
    "fs_names t' = fs_names t" "fs_fresh t' = fs_fresh t" by blast+
qed

lemma Register_ok:
  assumes "Ralloc_Register a p s = Some (r, s')" "alloc_ok s" "p \<in> live s"
  shows "loaded p r s s'"
proof -
  let ?v = "fs_heap s p"
  have vol: "\<not> (a_volatile ?v \<and> a_regable ?v)" using assms(1) by (auto simp: Ralloc_Register_def Let_def)
  show ?thesis
  proof (cases "a_inreg ?v")
    case True
    then have s': "r = a_reg ?v" "s' = updateLRU r s" using assms(1) vol by (auto simp: Ralloc_Register_def Let_def)
    have "alloc_ok s'" using updateLRU_ok[OF assms(2)] in_regs[OF assms(2,3) True] s' by auto
    moreover have "runs {} s s'" unfolding runs_def s'(2) by (intro exI[of _ "[]"]) auto
    ultimately show ?thesis using True s' live_var[OF assms(2,3)] by (simp add: loaded_def var_ok_def)
  next
    case out: False
    show ?thesis
    proof (cases "a_regable ?v")
      case False
      with assms(1) out obtain t u where t: "obtain_reg a 64 s = Some (r, t)"
        "emit_insn a ''LEA'' [OReg r, slot_op ?v 0] t = Some u" "s' = settle p r u"
        by (auto simp: Ralloc_Register_def Let_def bind_eq_Some_conv)
      have h: "handed 64 r s t" by (rule obtain_reg_ok[OF t(1) assms(2)]) simp
      note hv = handed_var[OF h assms(3) out]
      have fit: "fit ?v r" using h False by (simp add: handed_def fit_def)
      have run: "runs {r} t s'" unfolding t(3)
        by (rule lea_runs[OF handed_vacant[OF h assms(2)] hv(2,3)]) (use hv fit False t(2) in auto)
      note set = settle_filled[OF handed_vacant[OF h assms(2)] hv(2,3) t(2), unfolded hv(1), OF fit]
      show ?thesis using filled_loaded[OF h assms(2,3) out fit run[unfolded t(3)] set] code_states[OF t(2)] t(3) by simp
    next
      case True
      have n: "a_size ?v \<in> {8, 16, 32, 64}" using var_width[OF live_var[OF assms(2,3)] True] .
      from assms(1) out True vol obtain t where t: "obtain_reg a (a_size ?v) s = Some (r, t)"
        by (auto simp: Ralloc_Register_def Let_def bind_eq_Some_conv)
      have h: "handed (a_size ?v) r s t" by (rule obtain_reg_ok[OF t assms(2) n])
      note hv = handed_var[OF h assms(3) out]
      note vac = handed_vacant[OF h assms(2)]
      have fit: "fit ?v r" using h True vol by (simp add: handed_def fit_def)
      show ?thesis
      proof (cases "a_inmem ?v")
        case False
        then have s': "s' = settle p r t" using assms(1) out True vol t by (auto simp: Ralloc_Register_def Let_def)
        have run: "runs {r} t (settle p r t)" by (rule fresh_runs[OF vac hv(2,3)]) (use hv True False in auto)
        have "alloc_ok (settle p r t)" using settle_ok[of "{R_RBP, R_RSP}" t p r] vacant_facts[OF vac] hv fit by simp
        then show ?thesis using filled_loaded[OF h assms(2,3) out fit run] s' by simp
      next
        case inmem: True
        from assms(1) out True vol t inmem obtain t' n u where
          x: "t' = t \<or> (\<exists>f. fullReg r = Some f \<and> emit_insn a ''XOR'' [OReg f, OReg f] t = Some t')" and
          u: "emit_insn a ''MOV'' [OReg r, slot_op ?v n] t' = Some u" "s' = settle p r u"
          by (auto simp: Ralloc_Register_def Let_def bind_eq_Some_conv split: if_splits)
        note t' = clear_maybe[OF vac x]
        have run: "runs {r} t' (settle p r u)"
          by (rule load_runs[OF t'(1)]) (use t' hv fit True u(1) in auto)
        then have run': "runs {r} t (settle p r u)" using t'(2) runs_again by blast
        have p': "p \<in> live t'" "\<not> a_inreg (fs_heap t' p)" "fit (fs_heap t' p) r" using t' hv fit by simp_all
        note set = settle_filled[OF t'(1) p'(1,2) u(1) p'(3)]
        show ?thesis
          using filled_loaded[OF h assms(2,3) out fit run' set(1)] set(2) t' code_states[OF u(1)] u(2) by simp
      qed
    qed
  qed
qed

section \<open>A variable in a given register\<close>

text \<open>Moving a variable to a vacant register, and giving up the old one.\<close>

definition moved :: "nat \<Rightarrow> Register \<Rightarrow> regfile \<Rightarrow> fstate \<Rightarrow> fstate" where
  "moved p r rs s = settle p r (dropped (a_inmem (fs_heap s p)) p rs s)"

lemma moved_heap: "fs_heap (moved p r rs s) q = (if q = p then (fs_heap s p)\<lparr>a_reg := r, a_inreg := True\<rparr> else fs_heap s q)"
  by (cases "fs_heap s p") (simp add: moved_def)

lemma moved_vslot: "vslot (fs_heap (moved p r rs s) q) = vslot (fs_heap s q)"
  by (simp add: moved_heap)

lemma moved_ok:
  assumes t: "vacant r t" and p: "p \<in> live t" "a_inreg (fs_heap t p)" "Release (a_reg (fs_heap t p)) (fs_rs t) = Some rs"
    and fit: "fit (fs_heap t p) r"
  shows "alloc_ok (moved p r rs t)" "others (moved p r rs t) = others t - {r}"
proof -
  let ?b = "a_inmem (fs_heap t p)"
  note vf = vacant_facts[OF t]
  have "?b \<or> a_regable (fs_heap t p)" using live_var[OF vf(5) p(1)] by (auto simp: var_ok_def)
  note d = dropped_ok[OF vf(5) p(1,2,3) this]
  have "alloc_ok (settle p r (dropped ?b p rs t))"
    by (rule settle_ok[OF d(1)]) (use p vf d(2) fit in \<open>simp_all add: fit_def\<close>)
  then show "alloc_ok (moved p r rs t)" by (simp add: moved_def)
  show "others (moved p r rs t) = others t - {r}" using d(2) by (simp add: moved_def)
qed

lemma sim_moved:
  assumes t: "vacant r t" and p: "p \<in> live t" "a_inreg (fs_heap t p)" "nbytes (a_reg (fs_heap t p)) = nbytes r"
    and o: "others (moved p r rs t) = others t - {r}" and sim: "sim t m c"
  shows "sim (moved p r rs t) (write_reg r (read_reg (a_reg (fs_heap t p)) m) m) (lose {r} c)"
proof -
  let ?x = "read_reg (a_reg (fs_heap t p)) m"
  let ?m = "write_reg r ?x m"
  note vf = vacant_facts[OF t]
  have new: "read_reg r ?m = ?x" using p(3) by simp
  have l: "live (moved p r rs t) = live t" by (simp add: moved_def)
  have w: "sim t ?m (lose {r} c)" by (rule sim_write[OF vf(5,6,1,2) sim])
  show ?thesis
  proof (rule simI, unfold l)
    fix q assume q: "q \<in> live t"
    show "points ?m (fs_heap (moved p r rs t) q)"
      using simD(1)[OF w q] simD(1)[OF sim p(1)] p(2) new by (auto simp: points_def moved_heap)
    fix x assume x: "vals (lose {r} c) q = Some x"
    show "holds ?m (fs_heap (moved p r rs t) q) x"
    proof (cases "q = p")
      case True
      then have "holds m (fs_heap t p) x" using simD(2)[OF sim p(1)] x by (simp add: lose_def)
      then show ?thesis using True p(2) new by (auto simp: holds_def moved_heap stored_def split: if_splits)
    next
      case False
      with simD(2)[OF w q x] show ?thesis by (simp add: moved_heap)
    qed
  next
    fix h x assume "h \<in> others (moved p r rs t)" "owned (lose {r} c) h = Some x"
    then show "read_reg h ?m = x" using simD(3)[OF w] o by simp
  next
    fix k assume "\<forall>q \<in> live t. k \<notin> vslot (fs_heap (moved p r rs t) q)"
    then show "m_mem ?m k = elsewhere (lose {r} c) k" using simD(4)[OF w] by (simp add: moved_vslot)
  qed
qed

lemma emitted_moved: "moved p r rs (s\<lparr>fs_fn := f, fs_code := c\<rparr>) = (moved p r rs s)\<lparr>fs_fn := f, fs_code := c\<rparr>"
  by (simp add: moved_def settle_def dropped_def Let_def upd_def updateLRU_def)

lemma move_runs:
  assumes t: "vacant r t" and p: "p \<in> live t" "a_inreg (fs_heap t p)" "Release (a_reg (fs_heap t p)) (fs_rs t) = Some rs"
    and fit: "fit (fs_heap t p) r" and e: "emit_insn a ''MOV'' [OReg r, OReg (a_reg (fs_heap t p))] t = Some u"
  shows "runs {r} t (moved p r rs u)"
proof (rule emit_runs[OF e])
  fix m c assume sim: "sim t m c"
  note vf = vacant_facts[OF t] and ok = moved_ok[OF t p fit]
  have w: "Width (a_reg (fs_heap t p)) = Width r" using live_var[OF vf(5) p(1)] fit p(2) by (simp add: var_ok_def fit_def)
  have "sim (moved p r rs t) (write_reg r (read_reg (a_reg (fs_heap t p)) m) m) (lose {r} c)"
    by (rule sim_moved[OF t p(1,2) _ ok(2) sim]) (simp add: nbytes_def w)
  moreover have "sim (moved p r rs u) = sim (moved p r rs t)"
    by (subst emit_insn_sel(1)[OF e]) (simp only: emitted_moved sim_code)
  ultimately show "\<exists>m'. exec ''MOV'' [OReg r, OReg (a_reg (fs_heap t p))] m = Some m' \<and> sim (moved p r rs u) m' (lose {r} c)"
    using exec_mov[OF vf(3)] w by simp
qed (simp_all add: moved_def)

lemma filled_loaded':
  assumes h: "handed n r s t" and p: "p \<in> live s" "Width r = Some (if a_regable (fs_heap s p) then a_size (fs_heap s p) else 64)"
    and u: "runs {r} t w" "alloc_ok w" "others w = others t - {r}" "fs_names w = fs_names t" "fs_fresh w = fs_fresh t"
      "a_inreg (fs_heap w p)" "a_reg (fs_heap w p) = r"
  shows "loaded p r s w"
proof -
  have "runs {r} s w" using h(1) u(1) by (auto simp: handed_def intro: runs_again)
  then have "runs {} s w" by (rule runs_settled) (simp add: u(3))
  moreover have "others t - {r} = others s" using h(1) by (auto simp: handed_def)
  ultimately show ?thesis using h u(2-) p by (auto simp: loaded_def handed_def)
qed

lemma Use_hands:
  assumes "Use r (fs_rs s) = Some (b, rs)" "alloc_ok s" "r \<noteq> R_RIP" "r \<notin> high_regs" "Width r = Some n"
    "\<forall>h \<in> held (fs_rs s). \<not> overlap r h"
  shows "handed n r s (s\<lparr>fs_rs := rs\<rparr>)"
proof -
  have ok: "regs_ok (fs_rs s)" using assms(2) by (simp add: alloc_ok_def file_ok_def)
  from Use_ok[OF ok assms(3)] assms(1,6) have "regs_ok rs" "held rs = insert r (held (fs_rs s))" by auto
  then show ?thesis by (rule hand_out[OF assms(2) _ _ assms(6,5,4)])
qed

text \<open>Evicting whatever is in the register.\<close>

lemma make_room:
  assumes "InUse r (fs_rs s) = Some taken" "(if taken then EvictReg a r s else Some s) = Some t" "alloc_ok s" "r \<noteq> R_RIP"
    "\<forall>h \<in> others s. \<not> overlap r h"
  shows "spilled s t" "\<forall>h \<in> held (fs_rs t). \<not> overlap r h"
proof -
  have "regs_ok (fs_rs s)" using assms(3) by (simp add: alloc_ok_def file_ok_def)
  from InUse_ok[OF this assms(4)] assms(1) have b: "taken = (\<exists>h \<in> held (fs_rs s). overlap r h)" by simp
  have "spilled s t \<and> (\<forall>h \<in> held (fs_rs t). \<not> overlap r h)"
  proof (cases taken)
    case True
    then have "EvictReg a r s = Some t" using assms(2) by simp
    from EvictReg_ok[OF this assms(3,4)] assms(5) show ?thesis by blast
  next
    case False
    then show ?thesis using assms(2,3) b spilled_refl by auto
  qed
  then show "spilled s t" "\<forall>h \<in> held (fs_rs t). \<not> overlap r h" by blast+
qed

text \<open>A register the user may put a variable in.\<close>

definition usable :: "Register \<Rightarrow> fstate \<Rightarrow> bool" where
  "usable r s \<longleftrightarrow> r \<noteq> R_RIP \<and> r \<notin> high_regs \<and> (\<forall>h \<in> others s. \<not> overlap r h)"

lemma spill_loaded:
  assumes "spilled s t" "loaded p r t u"
  shows "loaded p r s u"
proof -
  have "runs {} s u" using assms runs_trans0[of s t u] by (simp add: spilled_def loaded_def)
  moreover have "same_var (fs_heap s p) (fs_heap t p)" using assms(1) by (simp add: spilled_def)
  then have "a_size (fs_heap t p) = a_size (fs_heap s p)" "a_regable (fs_heap t p) = a_regable (fs_heap s p)"
    by (simp_all add: same_var_def)
  ultimately show ?thesis using assms by (simp add: spilled_def loaded_def)
qed

lemma removeLRU_regs [simp]: "fs_regs (removeLRU r s) = fs_regs s" "fs_rs (removeLRU r s) = fs_rs s"
  by (simp_all add: removeLRU_def)

text \<open>The part of \<open>UseRegister\<close> after the register is handed out.\<close>

lemma bring_in:
  assumes h: "handed n r s t" "alloc_ok s" and p: "p \<in> live s" "fs_heap t p = fs_heap s p" "fit (fs_heap s p) r"
    and out: "move_in a p r t = Some s'"
  shows "loaded p r s s'"
proof -
  let ?v = "fs_heap t p"
  note vac = handed_vacant[OF h] and vf = vacant_facts[OF handed_vacant[OF h]]
  have pt: "p \<in> live t" using h(1) p(1) by (simp add: handed_def live_def)
  have fit: "fit ?v r" using p by simp
  have w: "Width r = Some (if a_regable (fs_heap s p) then a_size (fs_heap s p) else 64)" using p(3) by (simp add: fit_def)
  have mem: "\<not> a_regable ?v \<Longrightarrow> a_inmem ?v" using live_var[OF vf(5) pt] by (simp add: var_ok_def)
  show ?thesis
  proof (cases "a_inreg ?v")
    case True
    with out obtain u rs where u: "emit_insn a ''MOV'' [OReg r, OReg (a_reg ?v)] t = Some u" "Release (a_reg ?v) (fs_rs u) = Some rs"
      "s' = settle p r ((removeLRU (a_reg ?v) (u\<lparr>fs_rs := rs\<rparr>))\<lparr>fs_regs := (fs_regs u)(a_reg ?v := None)\<rparr>)"
      by (auto simp: move_in_def bind_eq_Some_conv Let_def)
    note c = code_states[OF u(1)]
    have s': "s' = moved p r rs u"
      using c by (simp add: u(3) moved_def dropped_def settle_def removeLRU_def updateLRU_def upd_def Let_def)
    have rel: "Release (a_reg ?v) (fs_rs t) = Some rs" using u(2) c by simp
    note ok = moved_ok[OF vac pt True rel fit]
    have "runs {r} t s'" unfolding s' by (rule move_runs[OF vac pt True rel fit u(1)])
    moreover have s'': "s' = (moved p r rs t)\<lparr>fs_fn := fs_fn u, fs_code := fs_code u\<rparr>"
      unfolding s' by (subst emit_insn_sel(1)[OF u(1)]) (simp only: emitted_moved)
    moreover have "alloc_ok s'" "others s' = others t - {r}" using ok by (simp_all add: s'')
    ultimately show ?thesis
      by (intro filled_loaded'[OF h(1) p(1) w]) (simp_all add: moved_def)
  next
    case notin: False
    then have sp: "\<not> a_inreg (fs_heap s p)" using p by simp
    show ?thesis
    proof (cases "a_inmem ?v")
      case False
      then have r: "a_regable ?v" using mem by blast
      have s': "s' = settle p r t" using out notin False by (simp add: move_in_def Let_def)
      have "alloc_ok (settle p r t)" using settle_ok[of "{R_RBP, R_RSP}" t p r] vf pt notin fit by simp
      then show ?thesis
        using filled_loaded[OF h p(1) sp p(3) fresh_runs[OF vac pt notin r False]] s' by simp
    next
      case True
      have "\<exists>i n u. emit_insn a i [OReg r, slot_op ?v n] t = Some u \<and> s' = settle p r u \<and> runs {r} t (settle p r u)"
      proof (cases "a_regable ?v")
        case reg: True
        with out notin True obtain n u where u: "emit_insn a ''MOV'' [OReg r, slot_op ?v n] t = Some u" "s' = settle p r u"
          by (auto simp: move_in_def Let_def bind_eq_Some_conv)
        with load_runs[OF vac pt notin fit reg u(1)] show ?thesis by blast
      next
        case reg: False
        with out notin True obtain u where u: "emit_insn a ''LEA'' [OReg r, slot_op ?v 0] t = Some u" "s' = settle p r u"
          by (auto simp: move_in_def Let_def bind_eq_Some_conv)
        with lea_runs[OF vac pt notin fit reg u(1)] show ?thesis by blast
      qed
      then obtain i n u where u: "emit_insn a i [OReg r, slot_op ?v n] t = Some u" "s' = settle p r u"
        "runs {r} t (settle p r u)" by blast
      note set = settle_filled[OF vac pt notin u(1) fit]
      show ?thesis using filled_loaded[OF h p(1) sp p(3) u(3) set] code_states[OF u(1)] u(2) by simp
    qed
  qed
qed


lemma UseRegister_ok:
  assumes "UseRegister a p r s = Some s'" "alloc_ok s" "p \<in> live s" "usable r s"
    "a_regable (fs_heap s p) \<or> Width r = Some 64"
  shows "loaded p r s s'"
proof -
  let ?v = "fs_heap s p"
  have vol: "\<not> (a_volatile ?v \<and> a_regable ?v)" using assms(1) by (auto simp: UseRegister_def Let_def)
  show ?thesis
  proof (cases "a_inreg ?v \<and> a_reg ?v = r")
    case True
    then have "s' = s" using assms(1) vol by (auto simp: UseRegister_def Let_def)
    with True assms(2) live_var[OF assms(2,3)] show ?thesis by (simp add: loaded_def var_ok_def)
  next
    case False
    have r: "r \<noteq> R_RIP" "r \<notin> high_regs" "\<forall>h \<in> others s. \<not> overlap r h" using assms(4) by (simp_all add: usable_def)
    from assms(1) vol False obtain b t b' rs w where b: "InUse r (fs_rs s) = Some b"
      and t: "(if b then EvictReg a r s else Some s) = Some t" and u: "Use r (fs_rs t) = Some (b', rs)"
      and w: "Width r = Some w" and sz: "\<not> (a_regable (fs_heap t p) \<and> a_size (fs_heap t p) \<noteq> w)"
      and out: "move_in a p r (t\<lparr>fs_rs := rs\<rparr>) = Some s'"
      unfolding UseRegister_def Let_def by (auto simp: bind_eq_Some_conv simp del: not_None_eq split: if_split_asm)
    let ?t = "t\<lparr>fs_rs := rs\<rparr>"
    note room = make_room[OF b t assms(2) r(1,3)]
    have ok: "alloc_ok t" "p \<in> live t" using room(1) assms(3) by (auto simp: spilled_def live_def)
    have sv: "same_var ?v (fs_heap t p)" using room(1) by (simp add: spilled_def)
    have h: "handed w r t ?t" by (rule Use_hands[OF u ok(1) r(1,2) w room(2)])
    have "a_regable (fs_heap t p) = a_regable ?v" "a_volatile (fs_heap t p) = a_volatile ?v" using sv by (simp_all add: same_var_def)
    then have fit: "fit (fs_heap t p) r" using sz w assms(5) vol by (auto simp: fit_def)
    have "loaded p r t s'"
      by (rule bring_in[OF h ok _ fit out]) simp
    then show ?thesis by (rule spill_loaded[OF room(1)])
  qed
qed

end
