(* ===== verification/FrameProps.thy ===== *)
theory FrameProps
  imports AllocProps
begin

text \<open>
  The stack frame of a function (\<open>function.go\<close>): slots are handed out apart and inside the frame, the
  invariant of theory \<open>AllocProps\<close> holds after any sequence of operations, and the properties of the
  allocator.
\<close>

section \<open>Stack slots of variables\<close>

lemma apart_Cons: "apart_list (x # l) \<longleftrightarrow> (\<forall>y \<in> set l. x \<inter> y = {}) \<and> apart_list l"
  by (simp add: apart_list_def)

lemma apart_move: "apart_list (xs @ b # ys) \<longleftrightarrow> apart_list (b # xs @ ys)"
proof (induction xs)
  case (Cons x xs)
  have "x \<inter> b = {} \<longleftrightarrow> b \<inter> x = {}" by (simp add: Int_commute)
  with Cons show ?case by (simp only: append_Cons apart_Cons set_append list.set Un_iff ball_Un ball_simps insert_iff) argo
qed simp

lemma take_free_Some: "take_free n fr = Some (off, fr') \<Longrightarrow> \<exists>xs ys. fr = xs @ (n, off) # ys \<and> fr' = xs @ ys"
proof (induction fr arbitrary: fr')
  case (Cons b fr)
  obtain sz o' where b: "b = (sz, o')" by (cases b)
  show ?case
  proof (cases "sz = n")
    case True
    with Cons.prems b show ?thesis by (auto intro: exI[of _ "[]"])
  next
    case False
    with Cons.prems b obtain fr2 where f: "take_free n fr = Some (off, fr2)" "fr' = b # fr2" by auto
    from Cons.IH[OF f(1)] obtain xs ys where "fr = xs @ (n, off) # ys" "fr2 = xs @ ys" by blast
    with f(2) have "b # fr = (b # xs) @ (n, off) # ys \<and> fr' = (b # xs) @ ys" by simp
    then show ?thesis by blast
  qed
qed simp

lemma sint_word: "- (2 ^ 31) \<le> x \<Longrightarrow> x < 2 ^ 31 \<Longrightarrow> sint (word_of_int x :: 32 word) = x"
  by (rule sint_word_of_int_32) simp_all

lemma sint_neg: "uint w < 2 ^ 31 \<Longrightarrow> sint (- w :: 32 word) = - uint w"
  using sint_word[of "- uint w"] uint_ge_0[of w] by (simp add: wi_hom_neg)

lemma uint_small: "uint w < 2 ^ 31 \<Longrightarrow> sint (w :: 32 word) = uint w"
  using sint_word[of "uint w"] uint_ge_0[of w] by simp

lemma int32_8: "0 \<le> z \<Longrightarrow> z < 2 ^ 31 \<Longrightarrow> sint (int32_8 z) = z div 8"
  using sint_word[of z] sint_word[of "z div 8"] by (simp add: int32_8_def Let_def)

text \<open>What \<open>space\<close> hands out is apart from every block in use or free.\<close>

lemma space_ok:
  assumes "space n s = (off, t)" "slots_ok s" "0 \<le> sint n" "uint (fs_localoff s) + sint n < 2 ^ 31"
  shows "\<exists>fr l. t = s\<lparr>fs_free := fr, fs_localoff := l\<rparr>" "apart_list (free_slot (n, off) # slots t)"
    "uint (fs_localoff t) < 2 ^ 31" "\<forall>b \<in> set (free_slot (n, off) # slots t). \<forall>k \<in> b. - uint (fs_localoff t) \<le> k"
    "uint (fs_localoff t) \<le> uint (fs_localoff s) + sint n"
proof -
  let ?vs = "map (\<lambda>(n, p). vslot (fs_heap s p)) (fs_names s)"
  have "(\<exists>fr l. t = s\<lparr>fs_free := fr, fs_localoff := l\<rparr>) \<and> apart_list (free_slot (n, off) # slots t) \<and>
    uint (fs_localoff t) < 2 ^ 31 \<and> (\<forall>b \<in> set (free_slot (n, off) # slots t). \<forall>k \<in> b. - uint (fs_localoff t) \<le> k) \<and>
    uint (fs_localoff t) \<le> uint (fs_localoff s) + sint n"
  proof (cases "take_free n (fs_free s)")
    case None
    let ?l = "fs_localoff s + n"
    have t: "off = - ?l" "t = s\<lparr>fs_localoff := ?l\<rparr>" using assms(1) None by (auto simp: space_def Let_def)
    have "uint n = uint (word_of_int (sint n) :: 32 word)" by simp
    also have "\<dots> = sint n" using assms(3) sint_lt[of n] by (simp add: uint_word_of_int del: of_int_sint)
    finally have "uint n = sint n" .
    then have l: "uint ?l = uint (fs_localoff s) + sint n" using assms(3,4) uint_ge_0[of "fs_localoff s"]
      by (simp add: uint_word_ariths)
    have o: "sint off = - uint ?l" unfolding t(1) by (rule sint_neg) (use l assms(4) in simp)
    have sl: "slots t = slots s" by (simp add: t(2) slots_def)
    have low: "\<forall>b \<in> set (slots s). \<forall>k \<in> b. - uint (fs_localoff s) \<le> k" "apart_list (slots s)"
      using assms(2) by (simp_all add: slots_ok_def)
    have fs: "free_slot (n, off) = {- uint ?l ..< - uint (fs_localoff s)}" by (simp add: free_slot_def o l)
    have "free_slot (n, off) \<inter> b = {}" if "b \<in> set (slots s)" for b
      using low(1) that by (auto simp: fs disjoint_iff dest!: bspec)
    then have ap: "apart_list (free_slot (n, off) # slots s)" using low(2) by (simp add: apart_list_def)
    have "- uint ?l \<le> k" if "b \<in> set (slots s)" "k \<in> b" for b k
      using low(1) that l assms(3) by (auto dest!: bspec)
    then have "\<forall>b \<in> set (free_slot (n, off) # slots s). \<forall>k \<in> b. - uint ?l \<le> k" by (auto simp: fs)
    moreover have "uint ?l < 2 ^ 31" using l assms(4) by simp
    moreover have "\<exists>fr l. t = s\<lparr>fs_free := fr, fs_localoff := l\<rparr>"
      by (intro exI[of _ "fs_free s"] exI[of _ ?l]) (simp add: t(2))
    ultimately show ?thesis using ap l unfolding sl by (simp add: t(2))
  next
    case (Some x)
    then obtain fr where f: "take_free n (fs_free s) = Some (off, fr)" "t = s\<lparr>fs_free := fr\<rparr>"
      using assms(1) by (auto simp: space_def split: prod.splits)
    obtain xs ys where xy: "fs_free s = xs @ (n, off) # ys" "fr = xs @ ys" using take_free_Some[OF f(1)] by blast
    have "slots s = (?vs @ map free_slot xs) @ free_slot (n, off) # map free_slot ys" by (simp add: slots_def xy)
    moreover have sl: "slots t = (?vs @ map free_slot xs) @ map free_slot ys" by (simp add: slots_def f(2) xy)
    moreover have "\<exists>fr l. t = s\<lparr>fs_free := fr, fs_localoff := l\<rparr>"
      by (intro exI[of _ fr] exI[of _ "fs_localoff s"]) (simp add: f(2))
    ultimately show ?thesis
      using assms(2,3) f(2) apart_move[of "?vs @ map free_slot xs"] by (simp add: slots_ok_def ball_Un)
  qed
  then show "\<exists>fr l. t = s\<lparr>fs_free := fr, fs_localoff := l\<rparr>" "apart_list (free_slot (n, off) # slots t)"
    "uint (fs_localoff t) < 2 ^ 31" "\<forall>b \<in> set (free_slot (n, off) # slots t). \<forall>k \<in> b. - uint (fs_localoff t) \<le> k"
    "uint (fs_localoff t) \<le> uint (fs_localoff s) + sint n" by blast+
qed

section \<open>New variables\<close>

lemma enter_new: "map_of xs n = None \<Longrightarrow> AList.update n p xs = xs @ [(n, p)]"
  by (induction xs) auto

definition added :: "string \<Rightarrow> Ralloc \<Rightarrow> fstate \<Rightarrow> fstate" where
  "added n v s = snd (new_ralloc n v s)"

lemma added_sel [simp]:
  "fs_heap (added n v s) = (fs_heap s)(fs_fresh s := v)" "fs_fresh (added n v s) = fs_fresh s + 1"
  "fs_regs (added n v s) = fs_regs s" "fs_rs (added n v s) = fs_rs s" "fs_lru (added n v s) = fs_lru s"
  "fs_localoff (added n v s) = fs_localoff s" "fs_free (added n v s) = fs_free s" "others (added n v s) = others s"
  "fs_code (added n v s) = fs_code s" "fs_fn (added n v s) = fs_fn s"
  by (simp_all add: added_def new_ralloc_def others_def)

lemma added_names: "map_of (fs_names s) n = None \<Longrightarrow> fs_names (added n v s) = fs_names s @ [(n, fs_fresh s)]"
  by (simp add: added_def new_ralloc_def enter_new)

lemma fresh_names: "alloc_inv U s \<Longrightarrow> (n, p) \<in> set (fs_names s) \<Longrightarrow> p < fs_fresh s"
  by (force simp: alloc_ok_def names_ok_def live_def)

lemma fresh_live: "alloc_inv U s \<Longrightarrow> fs_fresh s \<notin> live s"
  by (auto simp: alloc_ok_def names_ok_def)

lemma added_live: "map_of (fs_names s) n = None \<Longrightarrow> live (added n v s) = insert (fs_fresh s) (live s)"
  by (simp add: live_def added_names)

lemma added_ok:
  assumes ok: "alloc_inv U s" and t: "t = s\<lparr>fs_free := fr, fs_localoff := l\<rparr>" and n: "map_of (fs_names s) n = None"
    and v: "var_ok v" "\<not> a_inreg v"
    and slots: "apart_list (vslot v # slots t)" "uint (fs_localoff t) < 2 ^ 31"
      "\<forall>b \<in> set (vslot v # slots t). \<forall>k \<in> b. - uint (fs_localoff t) \<le> k"
  shows "alloc_inv U (added n v t)"
proof -
  have tn: "fs_names t = fs_names s" "fs_fresh t = fs_fresh s" "fs_heap t = fs_heap s" "fs_regs t = fs_regs s" "fs_rs t = fs_rs s"
    "fs_lru t = fs_lru s" "live t = live s" "others t = others s"
    by (simp_all add: t live_def others_def)
  have nt: "map_of (fs_names t) n = None" using n tn by simp
  note live = added_live[OF nt, of v] and names = added_names[OF nt, of v]
  have fresh: "fs_fresh s \<notin> live s" by (rule fresh_live[OF ok])
  have "map (\<lambda>(n, p). vslot (fs_heap (added n v t) p)) (fs_names s) = map (\<lambda>(n, p). vslot (fs_heap s p)) (fs_names s)"
    using fresh_names[OF ok] by (fastforce simp: tn intro!: map_cong)
  then have sl: "slots (added n v t) = map (\<lambda>(n, p). vslot (fs_heap s p)) (fs_names s) @ vslot v # map free_slot (fs_free t)"
    by (simp add: slots_def names tn)
  have st: "slots t = map (\<lambda>(n, p). vslot (fs_heap s p)) (fs_names s) @ map free_slot (fs_free t)"
    by (simp add: slots_def tn)
  show ?thesis unfolding alloc_ok_def
  proof (intro conjI)
    have "fs_fresh s \<notin> snd ` set (fs_names s)" "n \<notin> fst ` set (fs_names s)"
      using fresh n by (simp_all add: live_def map_of_eq_None_iff)
    then show "names_ok (added n v t)"
      using ok v fresh by (auto simp: alloc_ok_def names_ok_def live names tn split: if_splits)
    show "tables_ok (added n v t)"
      using ok v fresh by (auto simp: alloc_ok_def tables_ok_def live tn split: if_splits)
    show "file_ok U (added n v t)" using ok by (simp add: alloc_ok_def file_ok_def tn)
    show "slots_ok (added n v t)"
      using slots(2,3) slots(1)[unfolded st] apart_move[of "map (\<lambda>(n, p). vslot (fs_heap s p)) (fs_names s)"]
      by (simp add: slots_ok_def sl st ball_Un)
  qed
qed

text \<open>New locals, registers sized and not.\<close>

lemma NewLocal_ok:
  assumes "NewLocal n z s = Inr (p, s')" "alloc_inv U s" "z \<in> {8, 16, 32, 64}" "uint (fs_localoff s) + z div 8 < 2 ^ 31"
  shows "alloc_inv U s'" "p \<in> live s'" "p \<notin> live s" "live s' = insert p (live s)" "others s' = others s"
    "\<not> a_inreg (fs_heap s' p)" "fs_heap s' p = no_ralloc\<lparr>a_sym := n, a_size := z, a_regable := True, a_offset := a_offset (fs_heap s' p)\<rparr>"
proof -
  obtain off t where sp: "space (int32_8 z) s = (off, t)" by (cases "space (int32_8 z) s")
  let ?v = "no_ralloc\<lparr>a_sym := n, a_size := z, a_regable := True, a_offset := off\<rparr>"
  have n: "map_of (fs_names s) n = None" and r: "p = fs_fresh t" "s' = added n ?v t"
    using assms(1) sp by (auto simp: NewLocal_def new_ralloc_def added_def split: if_splits)
  have z: "sint (int32_8 z) = z div 8" using assms(3) by (intro int32_8) auto
  have so: "slots_ok s" using assms(2) by (simp add: alloc_ok_def)
  have "0 \<le> sint (int32_8 z)" "uint (fs_localoff s) + sint (int32_8 z) < 2 ^ 31" using assms(3,4) z by auto
  note ok = space_ok[OF sp so this]
  obtain fr l where t: "t = s\<lparr>fs_free := fr, fs_localoff := l\<rparr>" using ok(1) by blast
  have v: "vslot ?v = free_slot (int32_8 z, off)" by (simp add: vslot_def free_slot_def z)
  have "var_ok ?v" "\<not> a_inreg ?v" using assms(3) by (auto simp: var_ok_def no_ralloc_def)
  with added_ok[OF assms(2) t n this] ok(2-4) v have "alloc_inv U (added n ?v t)" by simp
  then show "alloc_inv U s'" by (simp add: r)
  have nt: "map_of (fs_names t) n = None" and lt: "live t = live s" "fs_fresh t = fs_fresh s" "others t = others s"
    using n by (simp_all add: t live_def others_def)
  show "live s' = insert p (live s)" "p \<in> live s'" "p \<notin> live s" "others s' = others s"
    using added_live[OF nt, of ?v] fresh_live[OF assms(2)] by (simp_all add: r lt)
  show "\<not> a_inreg (fs_heap s' p)" "fs_heap s' p = no_ralloc\<lparr>a_sym := n, a_size := z, a_regable := True, a_offset := a_offset (fs_heap s' p)\<rparr>"
    by (simp_all add: r no_ralloc_def)
qed

lemma AllocBytes_ok:
  assumes "AllocBytes n z s = Inr (p, s')" "alloc_inv U s" "0 \<le> z" "z < 2 ^ 28" "uint (fs_localoff s) + z < 2 ^ 31"
  shows "alloc_inv U s'"
proof -
  obtain off t where sp: "space (word_of_int z) s = (off, t)" by (cases "space (word_of_int z) s")
  let ?v = "no_ralloc\<lparr>a_sym := n, a_size := z * 8, a_inmem := True, a_offset := off\<rparr>"
  have n: "map_of (fs_names s) n = None" and r: "s' = added n ?v t"
    using assms(1) sp by (auto simp: AllocBytes_def new_ralloc_def added_def split: if_splits)
  have z: "sint (word_of_int z :: 32 word) = z" using assms(3,4) by (intro sint_word) simp_all
  have so: "slots_ok s" using assms(2) by (simp add: alloc_ok_def)
  have "0 \<le> sint (word_of_int z :: 32 word)" "uint (fs_localoff s) + sint (word_of_int z :: 32 word) < 2 ^ 31"
    using assms(3,5) z by auto
  note ok = space_ok[OF sp so this]
  obtain fr l where t: "t = s\<lparr>fs_free := fr, fs_localoff := l\<rparr>" using ok(1) by blast
  have v: "vslot ?v = free_slot (word_of_int z, off)" by (simp add: vslot_def free_slot_def z)
  have "var_ok ?v" "\<not> a_inreg ?v" using assms(3,4) by (auto simp: var_ok_def no_ralloc_def)
  with added_ok[OF assms(2) t n this] ok(2-4) v show ?thesis by (simp add: r)
qed

text \<open>Arguments: in a register nothing else is in, or above the frame.\<close>

lemma StackArg_ok:
  assumes "StackArg n i s = Inr (p, s')" "alloc_inv U s" "uint (fs_localoff s) + 8 < 2 ^ 31"
    "\<forall>b \<in> set (slots s). b \<inter> {sint off ..< sint off + 8} = {}" "0 \<le> sint off"
    and off: "off = word_of_int ((i + 1) * 8) + fs_basePointerOff s"
  shows "alloc_inv U s'"
proof -
  let ?v = "no_ralloc\<lparr>a_sym := n, a_size := 64, a_inmem := True, a_regable := True, a_offset := off\<rparr>"
  let ?t = "s\<lparr>fs_localoff := fs_localoff s + 8\<rparr>"
  have t: "?t = s\<lparr>fs_free := fs_free s, fs_localoff := fs_localoff s + 8\<rparr>" by simp
  have n: "map_of (fs_names s) n = None" and r: "s' = added n ?v ?t"
    using assms(1) by (auto simp: off StackArg_def new_ralloc_def added_def split: if_splits)
  have sl: "slots ?t = slots s" by (simp add: slots_def)
  have l: "uint (fs_localoff ?t) = uint (fs_localoff s) + 8" using assms(3) by (simp add: uint_word_ariths)
  have v: "vslot ?v = {sint off ..< sint off + 8}" by (simp add: vslot_def)
  have so: "apart_list (slots s)" "\<forall>b \<in> set (slots s). \<forall>k \<in> b. - uint (fs_localoff s) \<le> k"
    using assms(2) by (simp_all add: alloc_ok_def slots_ok_def)
  have "apart_list (vslot ?v # slots ?t)" using so(1) assms(4) unfolding sl v by (simp add: apart_Cons Int_commute)
  moreover have "- uint (fs_localoff ?t) \<le> k" if "b \<in> set (slots s)" "k \<in> b" for b k
    using so(2) that l by (auto dest!: bspec)
  then have "\<forall>b \<in> set (vslot ?v # slots ?t). \<forall>k \<in> b. - uint (fs_localoff ?t) \<le> k"
    using assms(5) unfolding sl by (auto simp: v intro: order_trans[of "- uint (fs_localoff s + 8)" 0])
  moreover have "var_ok ?v" "\<not> a_inreg ?v" by (auto simp: var_ok_def no_ralloc_def)
  moreover have "uint (fs_localoff ?t) < 2 ^ 31" using l assms(3) by simp
  ultimately show ?thesis using added_ok[OF assms(2) t n] r by blast
qed

text \<open>A register taken by the user.\<close>

lemma taken_ok:
  assumes "Use r (fs_rs s) = Some (b, rs)" "alloc_inv U s" "r \<noteq> R_RIP" "r \<notin> high_regs" "\<forall>h \<in> held (fs_rs s). \<not> overlap r h"
  shows "alloc_inv U (s\<lparr>fs_rs := rs\<rparr>)" "others (s\<lparr>fs_rs := rs\<rparr>) = insert r (others s)" "r \<notin> others s"
proof -
  have reg: "regs_ok (fs_rs s)" "dom (fs_regs s) \<subseteq> held (fs_rs s)" using assms(2) by (simp_all add: alloc_ok_def file_ok_def)
  have rs: "regs_ok rs" "held rs = insert r (held (fs_rs s))" using Use_ok[OF reg(1) assms(3)] assms(1,5) by auto
  have new: "r \<notin> held (fs_rs s)" using assms(5) by (auto simp: overlap_def)
  with reg rs show o': "others (s\<lparr>fs_rs := rs\<rparr>) = insert r (others s)" "r \<notin> others s" by (auto simp: others_def)
  have l: "live (s\<lparr>fs_rs := rs\<rparr>) = live s" "slots (s\<lparr>fs_rs := rs\<rparr>) = slots s" by (simp_all add: live_def slots_def)
  show "alloc_inv U (s\<lparr>fs_rs := rs\<rparr>)" using assms(2,4) rs o'(1)
    by (auto simp: alloc_ok_def names_ok_def tables_ok_def file_ok_def slots_ok_def l)
qed

lemma Arg_ok:
  assumes "Arg n r s = Some (Inr (p, s'))" "alloc_inv U s" "uint (fs_localoff s) + 8 < 2 ^ 31"
    "r \<notin> high_regs" "\<forall>h \<in> held (fs_rs s). \<not> overlap r h"
  shows "alloc_inv U s'"
proof -
  obtain w where w: "Width r = Some w" using assms(1) by (auto simp: Arg_def bind_eq_Some_conv split: if_splits)
  have wr: "w \<in> {8, 16, 32, 64}" using Width_range[OF w] .
  have rip: "r \<noteq> R_RIP" using w by auto
  obtain off t where sp: "space (int32_8 w) s = (off, t)" by (cases "space (int32_8 w) s")
  let ?v = "no_ralloc\<lparr>a_sym := n, a_size := w, a_regable := True, a_offset := off\<rparr>"
  let ?u = "added n ?v t"
  have new: "NewLocal n w s = Inr (fs_fresh t, ?u)" and n: "map_of (fs_names s) n = None"
    using assms(1) sp by (auto simp: Arg_def NewLocal_def new_ralloc_def added_def Let_def split: if_splits)
  note u = NewLocal_ok[OF new assms(2) wr]
  have bound: "uint (fs_localoff s) + w div 8 < 2 ^ 31" using wr assms(3) by auto
  have fr: "fs_rs ?u = fs_rs s" using space_ok(1)[OF sp] assms(2) wr bound int32_8[of w]
    by (auto simp: alloc_ok_def)
  obtain b rs where use: "Use r (fs_rs ?u) = Some (b, rs)" and s': "s' = settle (fs_fresh t) r (?u\<lparr>fs_rs := rs\<rparr>)"
    using assms(1) w sp n fr
    by (auto simp: Arg_def Let_def new_ralloc_def added_def settle_def updateLRU_def upd_def no_ralloc_def bind_eq_Some_conv split: prod.splits)
  note h = taken_ok[OF use u(1)[OF bound] rip assms(4)]
  have f: "fit (fs_heap ?u (fs_fresh t)) r" using w by (simp add: fit_def no_ralloc_def)
  have nU: "r \<notin> U" using assms(2) h(3) u(5)[OF bound] assms(5) fr by (auto simp: alloc_ok_def file_ok_def)
  show ?thesis using settle_ok[of U "?u\<lparr>fs_rs := rs\<rparr>" "fs_fresh t" r] h assms(5) fr nU f u(2,6)[OF bound]
    by (simp add: s' live_def)
qed

section \<open>Forgetting a variable\<close>

lemma delete_key: "distinct (map fst (xs @ (n, p) # ys)) \<Longrightarrow> AList.delete n (xs @ (n, p) # ys) = xs @ ys"
proof (induction xs)
  case Nil
  then have "\<forall>x \<in> set ys. fst x \<noteq> n" by force
  then have "AList.delete n ys = ys" by (induction ys) auto
  then show ?case by simp
qed auto

lemma forgotten_ok:
  assumes u: "alloc_ok u" "map_of (fs_names u) n = Some p" "\<not> a_inreg (fs_heap u p)"
    and k: "sint k = a_size (fs_heap u p) div 8" and h: "\<forall>q. q \<noteq> p \<longrightarrow> h q = fs_heap u q"
  shows "alloc_ok (u\<lparr>fs_heap := h, fs_names := AList.delete n (fs_names u),
     fs_free := fs_free u @ [(k, a_offset (fs_heap u p))]\<rparr>)" (is "alloc_ok ?w")
proof -
  obtain xs ys where xy: "fs_names u = xs @ (n, p) # ys" using map_of_SomeD[OF u(2)] by (meson split_list)
  have d: "distinct (map fst (fs_names u))" "distinct (map snd (fs_names u))" using u(1) by (simp_all add: alloc_ok_def names_ok_def)
  have names: "AList.delete n (xs @ (n, p) # ys) = xs @ ys" by (rule delete_key) (use d(1) xy in simp)
  have np: "p \<notin> snd ` (set xs \<union> set ys)" using d(2) unfolding xy by auto
  then have live: "live ?w = live u - {p}" by (auto simp: live_def names xy)
  have pl: "p \<in> live u" by (simp add: live_def xy)
  have hs: "map (\<lambda>(n, p). vslot (h p)) zs = map (\<lambda>(n, p). vslot (fs_heap u p)) zs" if "set zs \<subseteq> set xs \<union> set ys" for zs
    using that np h by (fastforce intro!: map_cong)
  have b: "vslot (fs_heap u p) = free_slot (k, a_offset (fs_heap u p))" by (simp add: vslot_def free_slot_def k)
  let ?f = "\<lambda>(n, p). vslot (fs_heap u p)"
  have "slots ?w = (map ?f xs @ map ?f ys @ map free_slot (fs_free u)) @ vslot (fs_heap u p) # []"
    using hs[of xs] hs[of ys] by (simp add: slots_def names xy b)
  moreover have "slots u = map ?f xs @ vslot (fs_heap u p) # map ?f ys @ map free_slot (fs_free u)"
    by (simp add: slots_def xy)
  ultimately have sl: "apart_list (slots ?w) = apart_list (slots u)" "set (slots ?w) = set (slots u)"
    using apart_move[of "map ?f xs"] apart_move[of "map ?f xs @ map ?f ys @ map free_slot (fs_free u)" _ "[]"] by auto
  show ?thesis unfolding alloc_ok_def
  proof (intro conjI)
    show "names_ok ?w" using u(1) d h unfolding names_ok_def live
      by (auto simp: names xy alloc_ok_def names_ok_def)
    have "fs_regs ?w r = Some q \<longleftrightarrow> q \<in> live ?w \<and> a_inreg (fs_heap ?w q) \<and> a_reg (fs_heap ?w q) = r" for r q
      using regs_of[OF u(1), of r q] in_regs[OF u(1), of q] u(3) h unfolding live by auto
    then show "tables_ok ?w" using u(1) by (simp add: alloc_ok_def tables_ok_def)
    show "file_ok {R_RBP, R_RSP} ?w" using u(1) by (simp add: alloc_ok_def file_ok_def others_def)
    show "slots_ok ?w" using u(1) sl by (simp add: alloc_ok_def slots_ok_def)
  qed
qed

lemma Forget_ok:
  assumes "Forget n s = Some (Inr s')" "alloc_ok s"
  shows "alloc_ok s'"
proof -
  obtain p where p: "map_of (fs_names s) n = Some p" using assms(1) by (auto simp: Forget_def split: option.splits)
  then have pl: "p \<in> live s" by (force simp: live_def dest: map_of_SomeD)
  let ?v = "fs_heap s p"
  have k: "sint (int32_8 (a_size ?v)) = a_size ?v div 8"
    using live_var[OF assms(2) pl] by (intro int32_8) (auto simp: var_ok_def split: if_splits)
  show ?thesis
  proof (cases "a_inreg ?v")
    case False
    with assms(1) p have "s' = s\<lparr>fs_heap := fs_heap s, fs_names := AList.delete n (fs_names s),
       fs_free := fs_free s @ [(int32_8 (a_size ?v), a_offset ?v)]\<rparr>"
      by (auto simp: Forget_def returnSpace_def Let_def)
    with forgotten_ok[OF assms(2) p False k, of "fs_heap s"] show ?thesis by simp
  next
    case True
    with assms(1) p obtain rs where rs: "Release (a_reg ?v) (fs_rs s) = Some rs"
      and s': "s' = (dropped True p rs s)\<lparr>fs_heap := fs_heap s, fs_names := AList.delete n (fs_names s),
       fs_free := fs_free s @ [(int32_8 (a_size ?v), a_offset ?v)]\<rparr>"
      by (auto simp: Forget_def returnSpace_def Let_def give_up_def removeLRU_def dropped_def bind_eq_Some_conv)
    note d = dropped_ok(1)[OF assms(2) pl True rs, of True, simplified]
    show ?thesis
      using forgotten_ok[OF d, of n p "int32_8 (a_size ?v)" "fs_heap s"] p k by (simp add: s')
  qed
qed

section \<open>The remaining operations\<close>

text \<open>A change of a variable that is in no register.\<close>

lemma upd_ok:
  assumes ok: "alloc_ok s" and p: "p \<in> live s" "\<not> a_inreg (fs_heap s p)"
    and g: "var_ok (g (fs_heap s p))" "\<not> a_inreg (g (fs_heap s p))" "vslot (g (fs_heap s p)) = vslot (fs_heap s p)"
  shows "alloc_ok (upd p g s)" "live (upd p g s) = live s" "others (upd p g s) = others s"
proof -
  show l: "live (upd p g s) = live s" "others (upd p g s) = others s" by (simp_all add: upd_def live_def others_def)
  have sl: "slots (upd p g s) = slots s" using g(3) by (auto simp: slots_def upd_def split: if_splits)
  show "alloc_ok (upd p g s)" unfolding alloc_ok_def
  proof (intro conjI)
    show "names_ok (upd p g s)" using ok g(1) by (auto simp: alloc_ok_def names_ok_def l) (auto simp: upd_def)
    have "fs_regs (upd p g s) r = Some q \<longleftrightarrow> q \<in> live s \<and> a_inreg (fs_heap (upd p g s) q) \<and> a_reg (fs_heap (upd p g s) q) = r" for r q
      using regs_of[OF ok, of r q] in_regs[OF ok, of q] p g(2) by (auto simp: upd_def)
    then show "tables_ok (upd p g s)" using ok by (simp add: alloc_ok_def tables_ok_def l) (simp add: upd_def)
    show "file_ok {R_RBP, R_RSP} (upd p g s)" using ok by (simp add: alloc_ok_def file_ok_def l) (simp add: upd_def)
    show "slots_ok (upd p g s)" using ok by (simp add: alloc_ok_def slots_ok_def sl) (simp add: upd_def)
  qed
qed

text \<open>Marking a variable as stored: it holds no value yet, or is stored already.\<close>

lemma sim_mark:
  assumes "sim s m c" "p \<in> live s" "\<not> a_inreg (fs_heap s p)"
    and g: "g (fs_heap s p) = (fs_heap s p)\<lparr>a_inmem := True\<rparr> \<or> g (fs_heap s p) = (fs_heap s p)\<lparr>a_inmem := True, a_volatile := True\<rparr>"
  shows "sim (upd p g s) m c"
proof (rule simI)
  have l: "live (upd p g s) = live s" by (simp add: upd_def live_def)
  fix q assume "q \<in> live (upd p g s)"
  then have q: "q \<in> live s" by (simp add: l)
  show "points m (fs_heap (upd p g s) q)" using simD(1)[OF assms(1) q] g assms(3) by (auto simp: upd_def points_def)
  fix x assume "vals c q = Some x"
  from simD(2)[OF assms(1) q this] g assms(3) show "holds m (fs_heap (upd p g s) q) x"
    by (auto simp: upd_def holds_def stored_def)
next
  fix r x assume "r \<in> others (upd p g s)" "owned c r = Some x"
  then show "read_reg r m = x" using simD(3)[OF assms(1)] by (simp add: upd_def others_def)
next
  have v: "vslot (fs_heap (upd p g s) q) = vslot (fs_heap s q)" for q using g by (auto simp: upd_def)
  fix k assume "\<forall>q \<in> live (upd p g s). k \<notin> vslot (fs_heap (upd p g s) q)"
  then have "\<forall>q \<in> live s. k \<notin> vslot (fs_heap s q)" unfolding v by (simp add: upd_def live_def)
  then show "m_mem m k = elsewhere c k" by (rule simD(4)[OF assms(1)])
qed

lemma mark_runs:
  assumes "p \<in> live s" "\<not> a_inreg (fs_heap s p)"
    "g (fs_heap s p) = (fs_heap s p)\<lparr>a_inmem := True\<rparr> \<or> g (fs_heap s p) = (fs_heap s p)\<lparr>a_inmem := True, a_volatile := True\<rparr>"
  shows "runs {} s (upd p g s)"
proof -
  have "sim (upd p g s) m c" if "sim s m c" for m c using sim_mark[where g = g, OF that assms(1,2)] assms(3) by blast
  then show ?thesis unfolding runs_def by (intro exI[of _ "[]"]) (auto simp: upd_def)
qed

lemma maybe_Evict:
  assumes "(if a_inreg (fs_heap s p) then map_option snd (Evict a p s) else Some s) = Some t" "alloc_ok s" "p \<in> live s"
  shows "spilled s t" "\<not> a_inreg (fs_heap t p)"
proof -
  have "spilled s t \<and> \<not> a_inreg (fs_heap t p)"
  proof (cases "a_inreg (fs_heap s p)")
    case True
    then obtain r where "Evict a p s = Some (r, t)" using assms(1) by auto
    with Evict_spills[OF this assms(2,3)] Evict_ok(10)[OF this assms(2,3)] show ?thesis by simp
  next
    case False
    then show ?thesis using assms spilled_refl by auto
  qed
  then show "spilled s t" "\<not> a_inreg (fs_heap t p)" by blast+
qed

lemma Volatile_ok:
  assumes "VolatileLocal a n s = Some (Inr s')" "alloc_ok s"
  shows "alloc_ok s'" "runs {} s s'" "live s' = live s"
proof -
  obtain p where p: "map_of (fs_names s) n = Some p" using assms(1) by (auto simp: VolatileLocal_def split: option.splits)
  then have pl: "p \<in> live s" by (force simp: live_def dest: map_of_SomeD)
  have "alloc_ok s' \<and> runs {} s s' \<and> live s' = live s"
  proof (cases "a_regable (fs_heap s p)")
    case False
    then show ?thesis using assms p by (simp add: VolatileLocal_def)
  next
    case True
    with assms(1) p obtain t where t: "(if a_inreg (fs_heap s p) then map_option snd (Evict a p s) else Some s) = Some t"
      "s' = upd p (\<lambda>v. v\<lparr>a_volatile := True, a_inmem := True\<rparr>) t"
      by (auto simp: VolatileLocal_def bind_eq_Some_conv split: if_split_asm)
    note e = maybe_Evict[OF t(1) assms(2) pl]
    have tok: "alloc_ok t" "p \<in> live t" using e(1) pl by (simp_all add: spilled_def live_def)
    have "var_ok ((fs_heap t p)\<lparr>a_volatile := True, a_inmem := True\<rparr>)" using live_var[OF tok] e(2) by (simp add: var_ok_def split: if_splits)
    with upd_ok(1)[OF tok e(2)] e(2) have "alloc_ok s'" by (simp add: t(2))
    moreover have "runs {} t s'" unfolding t(2) by (rule mark_runs[OF tok(2) e(2)]) simp
    moreover have "live s' = live s" using upd_ok(2)[OF tok e(2)] spilled_live[OF e(1)] unfolding t(2) by (simp add: upd_def live_def)
    ultimately show ?thesis using e(1) runs_trans0 by (auto simp: spilled_def)
  qed
  then show "alloc_ok s'" "runs {} s s'" "live s' = live s" by blast+
qed

lemma Indirect_ok:
  assumes "Ralloc_Indirect a p s = Some (x, s')" "alloc_ok s" "p \<in> live s"
  shows "spilled s s'" "\<not> a_inreg (fs_heap s' p)" "x = slot_op (fs_heap s' p) 0"
proof -
  have "(if a_inreg (fs_heap s p) then map_option snd (Evict a p s) else Some s) = Some s'" "x = slot_op (fs_heap s' p) 0"
    using assms(1) by (auto simp: Ralloc_Indirect_def bind_eq_Some_conv split: if_splits)
  with maybe_Evict[OF this(1) assms(2,3)]
  show "spilled s s'" "\<not> a_inreg (fs_heap s' p)" "x = slot_op (fs_heap s' p) 0" by blast+
qed

lemma Location_ok:
  assumes "Location a p pref s = Some (x, s')" "alloc_ok s" "p \<in> live s"
  shows "alloc_ok s'" "runs {} s s'" "live s' = live s"
proof -
  let ?v = "fs_heap s p"
  have "alloc_ok s' \<and> runs {} s s' \<and> live s' = live s"
  proof (cases "a_inreg ?v \<or> \<not> a_regable ?v \<or> pref")
    case True
    show ?thesis
    proof (cases "a_inreg ?v")
      case in_reg: True
      then have s': "s' = updateLRU (a_reg ?v) s" using assms(1) by (simp add: Location_def Let_def)
      have "runs {} s s'" unfolding s' runs_def by (intro exI[of _ "[]"]) auto
      moreover have "live s' = live s" by (simp add: s' live_def)
      ultimately show ?thesis using updateLRU_ok[OF assms(2)] in_regs[OF assms(2,3) in_reg] s' by auto
    next
      case False
      with True assms(1) obtain r where "Ralloc_Register a p s = Some (r, s')" by (auto simp: Location_def Let_def)
      from Register_ok[OF this assms(2,3)] show ?thesis by (simp add: loaded_def live_def)
    qed
  next
    case False
    then have out: "\<not> a_inreg ?v" "a_regable ?v" by auto
    with False assms(1) have s': "s' = (if a_inmem ?v then s else upd p (\<lambda>v. v\<lparr>a_inmem := True\<rparr>) s)"
      by (auto simp: Location_def Let_def bind_eq_Some_conv)
    have "var_ok (?v\<lparr>a_inmem := True\<rparr>)" using live_var[OF assms(2,3)] by (simp add: var_ok_def split: if_splits)
    with upd_ok(1)[OF assms(2,3) out(1), of "\<lambda>v. v\<lparr>a_inmem := True\<rparr>"] out mark_runs[OF assms(3) out(1), of "\<lambda>v. v\<lparr>a_inmem := True\<rparr>"]
    show ?thesis using assms(2) by (simp add: s') (simp add: upd_def live_def)
  qed
  then show "alloc_ok s'" "runs {} s s'" "live s' = live s" by blast+
qed

lemma Acquire_ok:
  assumes "Acquire a r s = Some s'" "alloc_ok s" "r \<noteq> R_RIP" "r \<notin> high_regs"
  shows "alloc_ok s'" "runs {r} s s'" "others s' = insert r (others s)" "live s' = live s"
proof -
  obtain cs t rs where t: "Conflicts r (fs_rs s) = Some cs" "evict_all a cs s = Some t"
    "Use r (fs_rs t) = Some (True, rs)" "s' = t\<lparr>fs_rs := rs\<rparr>"
    using assms(1) by (auto simp: Acquire_def bind_eq_Some_conv split: if_splits)
  have sp: "spilled s t" using evict_each_ok[OF evict_all_each[OF t(2)] assms(2)] by blast
  then have tok: "alloc_ok t" by (simp add: spilled_def)
  then have "regs_ok (fs_rs t)" by (simp add: alloc_ok_def file_ok_def)
  with Use_ok[OF this assms(3)] t(3) have free: "\<forall>h \<in> held (fs_rs t). \<not> overlap r h" by auto
  obtain w where w: "Width r = Some w" using assms(3) Width_None by (cases "Width r") auto
  have "handed w r s s'" unfolding t(4) by (rule spill_hand[OF sp Use_hands[OF t(3) tok assms(3,4) w free]])
  then show "alloc_ok s'" "runs {r} s s'" "others s' = insert r (others s)" "live s' = live s"
    by (simp_all add: handed_def live_def)
qed

lemma user_Release_ok:
  assumes "Function_Release r s = Some s'" "alloc_ok s" "r \<in> others s" "r \<notin> {R_RBP, R_RSP}"
  shows "alloc_ok s'"
proof -
  obtain rs where rs: "Release r (fs_rs s) = Some rs" "s' = s\<lparr>fs_rs := rs\<rparr>" using assms(1) by (auto simp: Function_Release_def)
  have f: "regs_ok (fs_rs s)" "r \<in> held (fs_rs s)" using assms(2,3) by (simp_all add: alloc_ok_def file_ok_def others_def)
  from Release_ok[OF this] rs(1) have r: "regs_ok rs" "held rs = held (fs_rs s) - {r}" by auto
  have l: "live s' = live s" "slots s' = slots s" "others s' = others s - {r}"
    by (auto simp: rs(2) live_def slots_def others_def r(2))
  show ?thesis using assms(2-4) r unfolding alloc_ok_def names_ok_def tables_ok_def file_ok_def slots_ok_def l
    by (auto simp: rs(2) others_def)
qed

end
