(* ===== verification/AllocSpec.thy ===== *)
theory AllocSpec
  imports FrameProps
begin

text \<open>
  What \<open>function.go\<close> promises of a function's variables, for every order of its operations: the states
  an assembler can bring the allocator into, the invariant in all of them, and the simulation for any
  sequence of operations that insert code.
\<close>

section \<open>Instructions keep the invariant\<close>

definition op_live :: "fstate \<Rightarrow> operand \<Rightarrow> bool" where
  "op_live s o' = (case o' of ORa p \<Rightarrow> p \<in> live s | _ \<Rightarrow> True)"

definition kept :: "fstate \<Rightarrow> fstate \<Rightarrow> bool" where
  "kept s s' \<longleftrightarrow> alloc_ok s' \<and> fs_names s' = fs_names s \<and> others s' = others s"

lemma kept_refl: "alloc_ok s \<Longrightarrow> kept s s"
  by (simp add: kept_def)

lemma kept_trans: "kept s t \<Longrightarrow> kept t u \<Longrightarrow> kept s u"
  by (simp add: kept_def)

lemma kept_ok: "kept s t \<Longrightarrow> alloc_ok t"
  by (simp add: kept_def)

lemma kept_live: "kept s t \<Longrightarrow> op_live t = op_live s \<and> live t = live s"
  by (auto simp: kept_def op_live_def live_def fun_eq_iff split: operand.splits)

lemma kept_code [simp]: "kept s (t\<lparr>fs_fn := f, fs_code := c\<rparr>) = kept s t" "kept s (t\<lparr>fs_fn := f\<rparr>) = kept s t"
proof -
  show "kept s (t\<lparr>fs_fn := f, fs_code := c\<rparr>) = kept s t" for c by (simp add: kept_def)
  from this[of "fs_code t"] show "kept s (t\<lparr>fs_fn := f\<rparr>) = kept s t" by simp
qed

lemma loaded_kept: "loaded p r s s' \<Longrightarrow> kept s s'"
  by (simp add: loaded_def kept_def)

lemma spilled_kept: "spilled s s' \<Longrightarrow> kept s s'"
  by (simp add: spilled_def kept_def)

text \<open>Marking a variable as stored.\<close>

lemma mark_kept:
  assumes "alloc_ok s" "p \<in> live s" "\<not> a_inreg (fs_heap s p)"
  shows "kept s (upd p (\<lambda>v. v\<lparr>a_inmem := True\<rparr>) s)"
proof -
  have "var_ok ((fs_heap s p)\<lparr>a_inmem := True\<rparr>)"
    using live_var[OF assms(1,2)] assms(3) by (auto simp: var_ok_def split: if_splits)
  with upd_ok[OF assms, of "\<lambda>v. v\<lparr>a_inmem := True\<rparr>"] assms(3) show ?thesis
    by (simp add: kept_def) (simp add: upd_def)
qed

lemma Convert_kept:
  assumes "ConvertRalloc a op p s = Some (c, s')" "alloc_ok s" "p \<in> live s"
  shows "kept s s'" "op_live s' c"
proof -
  have "kept s s' \<and> op_live s' c"
  proof (cases "map_of reg_types (op_TN op)")
    case None
    with assms(1) have i: "Ralloc_Indirect a p s = Some (c, s')" by (auto simp: ConvertRalloc_def split: if_splits)
    from Indirect_ok[OF this assms(2,3)] show ?thesis by (auto simp: spilled_kept op_live_def slot_op_def)
  next
    case (Some n)
    with assms(1) obtain r where r: "Ralloc_Register a p s = Some (r, s')" "c = OReg r"
      by (auto simp: ConvertRalloc_def bind_eq_Some_conv split: if_splits)
    from Register_ok[OF r(1) assms(2,3)] r(2) show ?thesis by (simp add: loaded_kept op_live_def)
  qed
  then show "kept s s'" "op_live s' c" by blast+
qed

lemma convert_ops_kept:
  "convert_ops a ops os s = Some (os', s') \<Longrightarrow> alloc_ok s \<Longrightarrow> \<forall>o' \<in> set os. op_live s o' \<Longrightarrow>
   kept s s' \<and> (\<forall>o' \<in> set os'. op_live s' o')"
proof (induction a ops os s arbitrary: os' s' rule: convert_ops.induct)
  case (3 a op ops o' os s)
  then obtain c t cs where c: "(case o' of ORa p \<Rightarrow> ConvertRalloc a op p s | _ \<Rightarrow> Some (o', s)) = Some (c, t)"
    "convert_ops a ops os t = Some (cs, s')" "os' = c # cs"
    by (auto simp: bind_eq_Some_conv)
  have t: "kept s t \<and> op_live t c"
    using c(1) 3(3,4) Convert_kept[of a op _ s c t] kept_refl[of s] by (auto simp: op_live_def split: operand.splits)
  have "kept t s' \<and> (\<forall>o' \<in> set cs. op_live s' o')"
    by (rule 3(1)[OF c(1) refl c(2)]) (use t 3(4) kept_live in \<open>auto simp: kept_def\<close>)
  with t kept_trans[of s t s'] kept_live[of t s'] c(3) show ?case by auto
qed (auto simp: kept_refl)

lemma instr_Encode_kept:
  assumes "instr_Encode a i fs m os s = Some (res, os', s')" "alloc_ok s" "\<forall>o' \<in> set os. op_live s o'"
  shows "kept s s'" "\<forall>o' \<in> set os'. op_live s' o'"
proof -
  obtain f where f: "choose_form (fs_heap s) fs m os = Some f"
    "(case f of None \<Rightarrow> Some (Inl NoForm, os, s) | Some f \<Rightarrow> form_Encode a i f os s) = Some (res, os', s')"
    using assms(1) by (auto simp: instr_Encode_def bind_eq_Some_conv)
  have "kept s s' \<and> (\<forall>o' \<in> set os'. op_live s' o')"
  proof (cases f)
    case None
    with f(2) assms show ?thesis by (simp add: kept_refl)
  next
    case (Some g)
    with f(2) obtain t bs c where t: "convert_ops a (form_ops g) os s = Some (os', t)"
      "s' = t\<lparr>fs_fn := emit bs [] (fs_fn t), fs_code := c\<rparr>"
      by (auto simp: form_Encode_def bind_eq_Some_conv)
    from convert_ops_kept[OF t(1) assms(2,3)] show ?thesis
      unfolding t(2) by (auto simp: op_live_def live_def split: operand.splits)
  qed
  then show "kept s s'" "\<forall>o' \<in> set os'. op_live s' o'" by blast+
qed

lemma indirect_var: "first_indirect ns os k = Some (i, p) \<Longrightarrow> ORa p \<in> set os"
  by (induction ns os k rule: first_indirect.induct) (auto simp: now_indirect_def split: option.splits operand.splits)

lemma encode_loop_kept:
  "encode_loop a instr fs m os ns s = Some (res, os', s') \<Longrightarrow> alloc_ok s \<Longrightarrow>
   \<forall>o' \<in> set os. op_live s o' \<Longrightarrow> \<forall>o' \<in> set ns. op_live s o' \<Longrightarrow> kept s s'"
proof (induction a instr fs m os ns s arbitrary: res os' s' rule: encode_loop.induct)
  case (1 a instr fs m os ns s)
  from 1(2) obtain r1 ns1 t where t: "instr_Encode a instr fs m ns s = Some (r1, ns1, t)"
    by (subst (asm) encode_loop.simps) (auto simp: bind_eq_Some_conv)
  note k = instr_Encode_kept[OF t 1(3,5)]
  note rest = 1(2)[unfolded encode_loop.simps[of a instr fs m os ns s] t, simplified]
  show ?case
  proof (cases r1)
    case (Inr rs)
    with rest k show ?thesis by simp
  next
    case (Inl err)
    show ?thesis
    proof (cases "first_indirect ns1 os 0")
      case None
      with rest k Inl show ?thesis by simp
    next
      case (Some x)
      obtain i p where x: "x = (i, p)" by (cases x)
      obtain r u where u: "Ralloc_Register a p t = Some (r, u)" "encode_loop a instr fs m os (ns1[i := OReg r]) u = Some (res, os', s')"
        using rest Inl Some x by (auto simp: bind_eq_Some_conv)
      have "p \<in> live t" using indirect_var[of ns1 os 0 i p] Some x 1(4) kept_live[OF k(1)] by (auto simp: op_live_def)
      from loaded_kept[OF Register_ok[OF u(1) kept_ok[OF k(1)] this]] have tu: "kept t u" .
      have su: "kept s u" by (rule kept_trans[OF k(1) tu])
      have "\<forall>o' \<in> set (ns1[i := OReg r]). op_live u o'"
        using k(2) kept_live[OF tu] set_update_subset_insert[of ns1 i "OReg r"] by (auto simp: op_live_def)
      then have "kept u s'"
        using 1(1)[OF t refl refl Inl Some x[symmetric] u(1) refl u(2) kept_ok[OF su]] 1(4) kept_live[OF su] by simp
      with su show ?thesis by (rule kept_trans)
    qed
  qed
qed

text \<open>An operand that is part of a variable.\<close>

definition arg_live :: "fstate \<Rightarrow> arg \<Rightarrow> bool" where
  "arg_live s x = (case x of AOp o' \<Rightarrow> op_live s o' | APart p n \<Rightarrow> p \<in> live s)"

lemma kept_arg: "kept s t \<Longrightarrow> arg_live t = arg_live s"
  using kept_live[of s t] by (auto simp: arg_live_def fun_eq_iff split: arg.splits)

lemma asOperand_kept:
  assumes "asOperand p n s = Some (res, s')" "alloc_ok s" "p \<in> live s"
  shows "kept s s'" "\<forall>o'. res = Inr o' \<longrightarrow> op_live s' o'"
  using assms mark_kept[OF assms(2,3)] kept_refl[OF assms(2)]
  by (auto simp: asOperand_def Let_def slot_op_def op_live_def split: if_splits option.splits)

lemma resolve_kept:
  "resolve_args xs s = Some (res, s') \<Longrightarrow> alloc_ok s \<Longrightarrow> \<forall>x \<in> set xs. arg_live s x \<Longrightarrow>
   kept s s' \<and> (\<forall>os. res = Inr os \<longrightarrow> (\<forall>o' \<in> set os. op_live s' o'))"
proof (induction xs s arbitrary: res s' rule: resolve_args.induct)
  case (2 x xs s)
  then obtain r1 t where t: "(case x of AOp o' \<Rightarrow> Some (Inr o', s) | APart p n \<Rightarrow> asOperand p n s) = Some (r1, t)"
    by (auto simp: bind_eq_Some_conv)
  have k: "kept s t \<and> (\<forall>o'. r1 = Inr o' \<longrightarrow> op_live t o')"
    using t 2(3,4) asOperand_kept[of _ _ s r1 t] kept_refl[of s] by (auto simp: arg_live_def split: arg.splits)
  show ?case
  proof (cases r1)
    case (Inl e)
    with 2(2) t k show ?thesis by auto
  next
    case (Inr o')
    obtain r2 u where u: "resolve_args xs t = Some (r2, u)" "s' = u"
      "res = (case r2 of Inl e \<Rightarrow> Inl e | Inr os \<Rightarrow> Inr (o' # os))"
      using 2(2) t Inr by (auto simp: bind_eq_Some_conv)
    have "kept t u \<and> (\<forall>os. r2 = Inr os \<longrightarrow> (\<forall>o' \<in> set os. op_live u o'))"
      by (rule 2(1)[OF t refl Inr u(1)]) (use k 2(4) kept_arg in \<open>auto simp: kept_def\<close>)
    with k kept_trans[of s t u] kept_live[of t u] u(2,3) Inr show ?thesis by (auto split: sum.splits)
  qed
qed (auto simp: kept_refl)

lemma lea_source_kept:
  assumes "lea_source a os s = Some s'" "alloc_ok s" "\<forall>o' \<in> set os. op_live s o'"
  shows "kept s s'"
proof -
  have n: "\<not> length os < 2" using assms(1) by (auto simp: lea_source_def)
  then have in_os: "os ! 1 \<in> set os" by simp
  show ?thesis
  proof (cases "\<exists>p. os ! 1 = ORa p")
    case True
    then obtain p where p: "os ! 1 = ORa p" "p \<in> live s" using assms(3) in_os by (force simp: op_live_def)
    show ?thesis
    proof (cases "a_inreg (fs_heap s p)")
      case True
      then obtain r where "Evict a p s = Some (r, s')" using assms(1) n p by (auto simp: lea_source_def)
      from Evict_spills[OF this assms(2) p(2)] show ?thesis by (rule spilled_kept)
    next
      case False
      then show ?thesis using assms(1) n p mark_kept[OF assms(2) p(2) False] by (simp add: lea_source_def)
    qed
  next
    case False
    then have "s' = s" using assms(1) n by (auto simp: lea_source_def split: operand.splits)
    with assms(2) show ?thesis by (simp add: kept_refl)
  qed
qed

text \<open>The temporary variable of \<open>fixLEAVar\<close> is gone afterwards.\<close>

lemma delete_new: "map_of xs n = None \<Longrightarrow> AList.delete n (xs @ [(n, p)]) = xs"
  by (induction xs) auto

lemma Forget_names:
  assumes "Forget n s = Some (Inr s')" "alloc_ok s"
  shows "fs_names s' = AList.delete n (fs_names s)" "others s' = others s" "fs_localoff s' = fs_localoff s"
proof -
  obtain p where p: "map_of (fs_names s) n = Some p" using assms(1) by (auto simp: Forget_def split: option.splits)
  then have pl: "p \<in> live s" by (force simp: live_def dest: map_of_SomeD)
  have "fs_names s' = AList.delete n (fs_names s) \<and> others s' = others s \<and> fs_localoff s' = fs_localoff s"
  proof (cases "a_inreg (fs_heap s p)")
    case False
    with assms(1) p show ?thesis by (auto simp: Forget_def returnSpace_def others_def Let_def)
  next
    case True
    with assms(1) p obtain rs where rs: "Release (a_reg (fs_heap s p)) (fs_rs s) = Some rs"
      and s': "s' = returnSpace (int32_8 (a_size (fs_heap s p))) (a_offset (fs_heap s p))
        ((removeLRU (a_reg (fs_heap s p)) s)\<lparr>fs_regs := (fs_regs s)(a_reg (fs_heap s p) := None), fs_rs := rs,
          fs_names := AList.delete n (fs_names s)\<rparr>)"
      by (auto simp: Forget_def give_up_def bind_eq_Some_conv Let_def removeLRU_def)
    note d = dropped_ok(2,3)[OF assms(2) pl True rs, of True, simplified]
    have "others s' = others (dropped True p rs s)" by (simp add: s' others_def returnSpace_def)
    then show ?thesis using d(1) by (simp add: s' returnSpace_def removeLRU_def)
  qed
  then show "fs_names s' = AList.delete n (fs_names s)" "others s' = others s" "fs_localoff s' = fs_localoff s" by blast+
qed

lemma fixLEAVar_kept:
  assumes "fixLEAVar a os s = Some (i', os', s')" "alloc_ok s" "uint (fs_localoff s) + 8 < 2 ^ 31" "\<forall>o' \<in> set os. op_live s o'"
  shows "kept s s'" "\<forall>o' \<in> set os'. op_live s' o'"
proof -
  have "kept s s' \<and> (\<forall>o' \<in> set os'. op_live s' o')"
  proof (cases "\<exists>ind v. os = [OInd ind, OVar v]")
    case True
    then obtain ind v where os: "os = [OInd ind, OVar v]" by blast
    obtain p t where t: "NewLocal ''__movvar'' 64 s = Inr (p, t)"
      using assms(1) os by (auto simp: fixLEAVar_def split: sum.splits)
    obtain r u res w x where u: "Ralloc_Register a p t = Some (r, u)" "Forget ''__movvar'' u = Some res"
      "w = (case res of Inl _ \<Rightarrow> u | Inr s' \<Rightarrow> s')" "emit_insn a ''LEA'' [OReg r, OVar v] w = Some s'" "os' = [OInd ind, OReg r]"
      using assms(1) os t by (auto simp: fixLEAVar_def bind_eq_Some_conv Let_def)
    have "uint (fs_localoff s) + 64 div 8 < 2 ^ 31" "(64::int) \<in> {8, 16, 32, 64}" using assms(3) by simp_all
    note new = NewLocal_ok[OF t assms(2) this(2,1)]
    have n: "map_of (fs_names s) ''__movvar'' = None" "fs_names t = fs_names s @ [(''__movvar'', p)]"
      using t by (auto simp: NewLocal_def new_ralloc_def space_def Let_def enter_new split: if_splits option.splits)
    note reg = Register_ok[OF u(1) new(1,2)]
    then have un: "fs_names u = fs_names s @ [(''__movvar'', p)]" "alloc_ok u" "others u = others s" using n new(5) by (auto simp: loaded_def)
    then obtain w' where w': "res = Inr w'" using u(2) n(1) by (cases res) (auto simp: Forget_def bind_eq_Some_conv map_add_def Let_def split: option.splits)
    with u(3) have w: "Forget ''__movvar'' u = Some (Inr w)" using u(2) by simp
    have "kept s w" using Forget_ok[OF w un(2)] Forget_names[OF w un(2)] un delete_new[OF n(1)] by (simp add: kept_def)
    then have "kept s (w\<lparr>fs_fn := fs_fn s', fs_code := fs_code s'\<rparr>)" by simp
    then show ?thesis unfolding emit_insn_sel(1)[OF u(4), symmetric] using u(5) by (auto simp: op_live_def)
  next
    case False
    then have "s' = s" "os' = os" using assms(1) by (auto simp: fixLEAVar_def split: list.splits operand.splits)
    with assms(2,4) show ?thesis by (simp add: kept_refl)
  qed
  then show "kept s s'" "\<forall>o' \<in> set os'. op_live s' o'" by blast+
qed

lemma fixMovzx_kept:
  assumes "fixMovzx32To64 a os s = Some (i', os', s')" "alloc_ok s" "\<forall>o' \<in> set os. op_live s o'"
  shows "kept s s'" "\<forall>o' \<in> set os'. op_live s' o'"
proof -
  have "kept s s' \<and> (\<forall>o' \<in> set os'. op_live s' o')"
  proof (cases "\<exists>d e. os = [ORa d, ORa e] \<and> a_size (fs_heap s d) = 64 \<and> a_size (fs_heap s e) = 32")
    case True
    then obtain d e where os: "os = [ORa d, ORa e]" "a_size (fs_heap s d) = 64 \<and> a_size (fs_heap s e) = 32" by blast
    obtain r q where r: "Ralloc_Register a d s = Some (r, s')" "os' = [OReg q, ORa e]"
      using assms(1) os by (auto simp: fixMovzx32To64_def bind_eq_Some_conv split: option.splits)
    have "d \<in> live s" "e \<in> live s" using assms(3) os by (auto simp: op_live_def)
    with loaded_kept[OF Register_ok[OF r(1) assms(2)]] have "kept s s'" by blast
    with kept_live[OF this] assms(3) os(1) r(2) show ?thesis by (auto simp: op_live_def)
  next
    case False
    then have "s' = s" "os' = os" using assms(1) by (auto simp: fixMovzx32To64_def split: list.splits operand.splits if_splits)
    with assms(2,3) show ?thesis by (simp add: kept_refl)
  qed
  then show "kept s s'" "\<forall>o' \<in> set os'. op_live s' o'" by blast+
qed

lemma emit_localoff: "emit_insn a i os s = Some s' \<Longrightarrow> fs_localoff s' = fs_localoff s"
  by (auto simp: emit_insn_def split: Option.bind_splits sum.splits)

lemma give_up_localoff: "give_up r s = Some s' \<Longrightarrow> fs_localoff s' = fs_localoff s"
  by (auto simp: give_up_def removeLRU_def)

lemma lea_source_localoff: "lea_source a os s = Some s' \<Longrightarrow> fs_localoff s' = fs_localoff s"
  by (auto simp: lea_source_def Evict_def Let_def upd_def bind_eq_Some_conv dest!: emit_localoff give_up_localoff
      split: if_splits operand.splits)

lemma retarget_kept:
  assumes "retarget a i os s = Some (i', os', s')" "alloc_ok s" "uint (fs_localoff s) + 8 < 2 ^ 31" "\<forall>o' \<in> set os. op_live s o'"
  shows "kept s s'" "\<forall>o' \<in> set os'. op_live s' o'"
proof -
  have "kept s s' \<and> (\<forall>o' \<in> set os'. op_live s' o')"
  proof (cases "i = ''LEA''")
    case True
    then obtain t where t: "lea_source a os s = Some t" "fixLEAVar a os t = Some (i', os', s')"
      using assms(1) by (auto simp: retarget_def bind_eq_Some_conv)
    note k = lea_source_kept[OF t(1) assms(2,4)]
    have "kept t s' \<and> (\<forall>o' \<in> set os'. op_live s' o')"
      using fixLEAVar_kept[OF t(2) kept_ok[OF k]] lea_source_localoff[OF t(1)] assms(3,4) kept_live[OF k] by simp
    with kept_trans[OF k] show ?thesis by blast
  next
    case False
    then show ?thesis
      using assms(1,2,4) fixMovzx_kept[OF _ assms(2,4)] kept_refl[OF assms(2)]
      by (auto simp: retarget_def fixMovsx32To64_def bind_eq_Some_conv split: if_splits list.splits)
  qed
  then show "kept s s'" "\<forall>o' \<in> set os'. op_live s' o'" by blast+
qed

lemma resolve_localoff: "resolve_args xs s = Some (res, s') \<Longrightarrow> fs_localoff s' = fs_localoff s"
proof (induction xs s arbitrary: res s' rule: resolve_args.induct)
  case (2 x xs s)
  then obtain r1 t where t: "(case x of AOp o' \<Rightarrow> Some (Inr o', s) | APart p n \<Rightarrow> asOperand p n s) = Some (r1, t)"
    by (auto simp: bind_eq_Some_conv)
  have "fs_localoff t = fs_localoff s"
    using t by (auto simp: asOperand_def Let_def upd_def split: arg.splits if_splits option.splits)
  moreover have "fs_localoff s' = fs_localoff t"
  proof (cases r1)
    case (Inl e)
    with 2(2) t show ?thesis by simp
  next
    case (Inr o')
    then obtain r2 where "resolve_args xs t = Some (r2, s')" using 2(2) t by (auto simp: bind_eq_Some_conv)
    from 2(1)[OF t refl Inr this] show ?thesis .
  qed
  ultimately show ?case by simp
qed simp

lemma Instr_kept:
  assumes "Instr a i xs s = Some (res, s')" "alloc_ok s" "\<forall>x \<in> set xs. arg_live s x" "uint (fs_localoff s) + 8 < 2 ^ 31"
  shows "kept s s'"
proof -
  obtain r t where t: "resolve_args xs s = Some (r, t)" using assms(1) by (auto simp: Instr_def bind_eq_Some_conv)
  note k = resolve_kept[OF t assms(2,3)]
  show ?thesis
  proof (cases r)
    case (Inl e)
    with assms(1) t k show ?thesis by (simp add: Instr_def)
  next
    case (Inr os)
    obtain j os1 u r2 os2 w where u: "retarget a i os t = Some (j, os1, u)" "asm_Encode a j os1 u = Some (r2, os2, w)"
      and r2: "(case r2 of Inl e \<Rightarrow> None | Inr rs \<Rightarrow> Some (None, w\<lparr>fs_fn := emit [] rs (fs_fn w)\<rparr>)) = Some (res, s')"
      using assms(1) t Inr by (auto simp: Instr_def bind_eq_Some_conv)
    from r2 have s': "\<exists>rs. s' = w\<lparr>fs_fn := emit [] rs (fs_fn w)\<rparr>" by (auto split: sum.splits)
    have ot: "\<forall>o' \<in> set os. op_live t o'" using k Inr by simp
    have off: "uint (fs_localoff t) + 8 < 2 ^ 31" using assms(4) resolve_localoff[OF t] by simp
    note ru = retarget_kept[OF u(1) kept_ok[OF conjunct1[OF k]] off ot]
    have "kept u w"
      using u(2) ru encode_loop_kept kept_refl[of u] kept_ok[OF ru(1)]
      by (auto simp: asm_Encode_def split: option.splits if_splits)
    with kept_trans[OF conjunct1[OF k] kept_trans[OF ru(1)]] s' show ?thesis by auto
  qed
qed

section \<open>The operations as steps\<close>

text \<open>Sequences of labelled steps; a sequence has the union of the labels.\<close>

inductive steps :: "('l set \<Rightarrow> 's \<Rightarrow> 's \<Rightarrow> bool) \<Rightarrow> 'l set \<Rightarrow> 's \<Rightarrow> 's \<Rightarrow> bool" for step where
  none: "steps step {} s s"
| more: "steps step D s t \<Longrightarrow> step E t u \<Longrightarrow> steps step (E \<union> D) s u"

text \<open>An invariant and a relation kept by each step are kept by every sequence.\<close>

locale simulation =
  fixes inv :: "'s \<Rightarrow> bool" and rel :: "'l set \<Rightarrow> 's \<Rightarrow> 's \<Rightarrow> bool" and step :: "'l set \<Rightarrow> 's \<Rightarrow> 's \<Rightarrow> bool"
  assumes step_inv: "inv s \<Longrightarrow> step D s s' \<Longrightarrow> inv s'"
    and step_rel: "inv s \<Longrightarrow> step D s s' \<Longrightarrow> rel D s s'"
    and rel_refl: "rel {} s s"
    and rel_trans: "rel D s s' \<Longrightarrow> rel E s' s'' \<Longrightarrow> rel (E \<union> D) s s''"
begin

lemma steps_inv: "steps step D s s' \<Longrightarrow> inv s \<Longrightarrow> inv s'"
  by (induction rule: steps.induct) (auto intro: step_inv)

lemma steps_rel: "steps step D s s' \<Longrightarrow> inv s \<Longrightarrow> rel D s s'"
proof (induction rule: steps.induct)
  case (more D s t E u)
  from rel_trans[OF more.IH[OF more.prems] step_rel[OF steps_inv[OF more.hyps(1) more.prems] more.hyps(2)]]
  show ?case .
qed (rule rel_refl)

end

text \<open>
  The operations that insert code or move variables, with what their callers must respect: they name
  a variable of the function, and registers other than RIP, AH, BH, CH, DH, RBP and RSP.
  \<open>D\<close> is the register whose contents change hands.
\<close>

inductive alloc_move :: "Asm \<Rightarrow> Register set \<Rightarrow> fstate \<Rightarrow> fstate \<Rightarrow> bool" for a where
  evict: "Evict a p s = Some (r, s') \<Longrightarrow> p \<in> live s \<Longrightarrow> alloc_move a {} s s'"
| evict_reg: "EvictReg a r s = Some s' \<Longrightarrow> r \<noteq> R_RIP \<Longrightarrow> alloc_move a {} s s'"
| evict_all: "EvictAll a s = Some s' \<Longrightarrow> alloc_move a {} s s'"
| evict_call: "EvictForCall a s = Some s' \<Longrightarrow> alloc_move a {} s s'"
| load: "Ralloc_Register a p s = Some (r, s') \<Longrightarrow> p \<in> live s \<Longrightarrow> alloc_move a {} s s'"
| inreg: "UseRegister a p r s = Some s' \<Longrightarrow> p \<in> live s \<Longrightarrow> usable r s \<Longrightarrow>
    a_regable (fs_heap s p) \<or> Width r = Some 64 \<Longrightarrow> alloc_move a {} s s'"
| indirect: "Ralloc_Indirect a p s = Some (x, s') \<Longrightarrow> p \<in> live s \<Longrightarrow> alloc_move a {} s s'"
| location: "Location a p pref s = Some (x, s') \<Longrightarrow> p \<in> live s \<Longrightarrow> alloc_move a {} s s'"
| volatile: "VolatileLocal a n s = Some (Inr s') \<Longrightarrow> alloc_move a {} s s'"
| acquire: "Acquire a r s = Some s' \<Longrightarrow> r \<noteq> R_RIP \<Longrightarrow> r \<notin> high_regs \<Longrightarrow> alloc_move a {r} s s'"
| get: "Function_Get n s = Some (Some r, s') \<Longrightarrow> n \<in> {8, 16, 32, 64} \<Longrightarrow> alloc_move a {r} s s'"
| use_it: "Function_Use r s = Some (True, s') \<Longrightarrow> r \<noteq> R_RIP \<Longrightarrow> r \<notin> high_regs \<Longrightarrow> alloc_move a {r} s s'"
| release: "Function_Release r s = Some s' \<Longrightarrow> r \<in> others s \<Longrightarrow> r \<notin> {R_RBP, R_RSP} \<Longrightarrow> alloc_move a {} s s'"

lemma EvictForCall_ok:
  assumes "EvictForCall a s = Some s'" "alloc_ok s"
  shows "spilled s s'" "\<forall>r \<in> set caller_saved. \<forall>h \<in> held (fs_rs s'). overlap r h \<longrightarrow> h \<in> others s"
proof -
  have rip: "R_RIP \<notin> set caller_saved" by (simp add: caller_saved_def)
  have "evict_regs a caller_saved s = Some s'" using assms(1) by (simp add: EvictForCall_def)
  from evict_regs_ok[OF this assms(2) rip] show "spilled s s'" "\<forall>r \<in> set caller_saved. \<forall>h \<in> held (fs_rs s'). overlap r h \<longrightarrow> h \<in> others s"
    by blast+
qed

lemma Use_move:
  assumes "Function_Use r s = Some (True, s')" "alloc_ok s" "r \<noteq> R_RIP" "r \<notin> high_regs"
  shows "\<exists>w. handed w r s s'"
proof -
  obtain rs where rs: "Use r (fs_rs s) = Some (True, rs)" "s' = s\<lparr>fs_rs := rs\<rparr>" using assms(1) by (auto simp: Function_Use_def)
  have "regs_ok (fs_rs s)" using assms(2) by (simp add: alloc_ok_def file_ok_def)
  with Use_ok[OF this assms(3)] rs(1) have free: "\<forall>h \<in> held (fs_rs s). \<not> overlap r h" by auto
  obtain w where w: "Width r = Some w" using assms(3) Width_None by (cases "Width r") auto
  from Use_hands[OF rs(1) assms(2-4) w free] show ?thesis by (auto simp: rs(2))
qed

lemma Release_runs:
  assumes "Function_Release r s = Some s'" "alloc_ok s" "r \<in> others s"
  shows "runs {} s s'"
proof -
  obtain rs where rs: "Release r (fs_rs s) = Some rs" "s' = s\<lparr>fs_rs := rs\<rparr>" using assms(1) by (auto simp: Function_Release_def)
  have f: "regs_ok (fs_rs s)" "r \<in> held (fs_rs s)" using assms(2,3) by (simp_all add: alloc_ok_def file_ok_def others_def)
  from Release_ok[OF this] rs(1) have "held rs = held (fs_rs s) - {r}" by auto
  then have "others s' \<subseteq> others s" by (auto simp: rs(2) others_def)
  then have "sim s' m c" if "sim s m c" for m c using that by (auto simp: sim_def live_def rs(2))
  then show ?thesis unfolding runs_def rs(2) by (intro exI[of _ "[]"]) auto
qed

lemma spilled_move: "spilled s s' \<Longrightarrow> alloc_ok s' \<and> runs {} s s' \<and> live s' = live s"
  by (simp add: spilled_live) (simp add: spilled_def)

lemma loaded_move: "loaded p r s s' \<Longrightarrow> alloc_ok s' \<and> runs {} s s' \<and> live s' = live s"
  by (simp add: loaded_def live_def)

lemma handed_move: "handed n r s s' \<Longrightarrow> alloc_ok s' \<and> runs {r} s s' \<and> live s' = live s"
  by (simp add: handed_def live_def)

lemma move_ok:
  assumes "alloc_move a D s s'" "alloc_ok s"
  shows "alloc_ok s'" "runs D s s'" "live s' = live s"
proof -
  have "alloc_ok s' \<and> runs D s s' \<and> live s' = live s"
    using assms(1)
  proof cases
    case (evict p r)
    show ?thesis unfolding evict(1) by (rule spilled_move[OF Evict_spills[OF evict(2) assms(2) evict(3)]])
  next
    case (evict_reg r)
    show ?thesis unfolding evict_reg(1) by (rule spilled_move[OF EvictReg_ok(1)[OF evict_reg(2) assms(2) evict_reg(3)]])
  next
    case evict_all
    show ?thesis unfolding evict_all(1) by (rule spilled_move[OF EvictAll_ok(1)[OF evict_all(2) assms(2)]])
  next
    case evict_call
    show ?thesis unfolding evict_call(1) by (rule spilled_move[OF EvictForCall_ok(1)[OF evict_call(2) assms(2)]])
  next
    case (load p r)
    show ?thesis unfolding load(1) by (rule loaded_move[OF Register_ok[OF load(2) assms(2) load(3)]])
  next
    case (inreg p r)
    show ?thesis unfolding inreg(1) by (rule loaded_move[OF UseRegister_ok[OF inreg(2) assms(2) inreg(3-5)]])
  next
    case (indirect p x)
    show ?thesis unfolding indirect(1) by (rule spilled_move[OF Indirect_ok(1)[OF indirect(2) assms(2) indirect(3)]])
  next
    case (location p pref x)
    then show ?thesis using Location_ok[OF location(2) assms(2) location(3)] by simp
  next
    case (volatile n)
    then show ?thesis using Volatile_ok[OF volatile(2) assms(2)] by simp
  next
    case (acquire r)
    then show ?thesis using Acquire_ok[OF acquire(2) assms(2) acquire(3,4)] by simp
  next
    case (get n r)
    obtain rs where rs: "Get n (fs_rs s) = Some (Some r, rs)" "s' = s\<lparr>fs_rs := rs\<rparr>" using get(2) by (auto simp: Function_Get_def)
    show ?thesis unfolding get(1) rs(2) by (rule handed_move[OF Get_hands[OF rs(1) assms(2) get(3)]])
  next
    case (use_it r)
    obtain w where "handed w r s s'" using Use_move[OF use_it(2) assms(2) use_it(3,4)] by blast
    from handed_move[OF this] show ?thesis by (simp add: use_it(1))
  next
    case (release r)
    have "live s' = live s" using release(2) by (auto simp: Function_Release_def live_def)
    then show ?thesis using user_Release_ok[OF release(2) assms(2) release(3,4)] Release_runs[OF release(2) assms(2) release(3)] release(1)
      by blast
  qed
  then show "alloc_ok s'" "runs D s s'" "live s' = live s" by blast+
qed

interpretation alloc: simulation alloc_ok runs "alloc_move a" for a
proof unfold_locales
  fix s :: fstate and D s'
  assume s: "alloc_ok s" "alloc_move a D s s'"
  show "alloc_ok s'" "runs D s s'" using move_ok[OF s(2,1)] by blast+
next
  fix s :: fstate show "runs {} s s" by (rule runs_refl)
next
  fix s s' s'' :: fstate and D E
  assume "runs D s s'" "runs E s' s''"
  then show "runs (E \<union> D) s s''" by (rule runs_trans)
qed

lemma moves_live: "steps (alloc_move a) D s s' \<Longrightarrow> alloc_ok s \<Longrightarrow> live s' = live s"
proof (induction rule: steps.induct)
  case (more D s t E u)
  with move_ok(3)[OF more.hyps(2) alloc.steps_inv[OF more.hyps(1) more.prems]] show ?case by simp
qed simp

section \<open>Reachable states\<close>

text \<open>Declarations.  Their callers keep a frame below 2 GB and stack arguments apart.\<close>

inductive alloc_decl :: "fstate \<Rightarrow> fstate \<Rightarrow> bool" where
  new_local: "NewLocal n z s = Inr (p, s') \<Longrightarrow> z \<in> {8, 16, 32, 64} \<Longrightarrow> uint (fs_localoff s) + z div 8 < 2 ^ 31 \<Longrightarrow> alloc_decl s s'"
| bytes: "AllocBytes n z s = Inr (p, s') \<Longrightarrow> 0 \<le> z \<Longrightarrow> z < 2 ^ 28 \<Longrightarrow> uint (fs_localoff s) + z < 2 ^ 31 \<Longrightarrow> alloc_decl s s'"
| arg: "Arg n r s = Some (Inr (p, s')) \<Longrightarrow> uint (fs_localoff s) + 8 < 2 ^ 31 \<Longrightarrow> r \<notin> high_regs \<Longrightarrow>
    \<forall>h \<in> insert R_RBP (insert R_RSP (held (fs_rs s))). \<not> overlap r h \<Longrightarrow> alloc_decl s s'"
| stack_arg: "StackArg n i s = Inr (p, s') \<Longrightarrow> uint (fs_localoff s) + 8 < 2 ^ 31 \<Longrightarrow>
    off = word_of_int ((i + 1) * 8) + fs_basePointerOff s \<Longrightarrow> 0 \<le> sint off \<Longrightarrow>
    \<forall>b \<in> set (slots s). b \<inter> {sint off ..< sint off + 8} = {} \<Longrightarrow> alloc_decl s s'"

text \<open>The states of a function before (\<open>False\<close>) and after its prologue.\<close>

inductive alloc_reach :: "Asm \<Rightarrow> bool \<Rightarrow> fstate \<Rightarrow> bool" for a where
  start: "alloc_reach a False (NewRallocs f)"
| decl: "alloc_reach a b s \<Longrightarrow> alloc_decl s s' \<Longrightarrow> alloc_reach a b s'"
| prologue: "alloc_reach a False s \<Longrightarrow> Prologue a s = Some s' \<Longrightarrow> alloc_reach a True s'"
| forget: "alloc_reach a True s \<Longrightarrow> Forget n s = Some (Inr s') \<Longrightarrow> alloc_reach a True s'"
| move: "alloc_reach a True s \<Longrightarrow> alloc_move a D s s' \<Longrightarrow> alloc_reach a True s'"
| instr: "alloc_reach a True s \<Longrightarrow> Instr a i xs s = Some (res, s') \<Longrightarrow> \<forall>x \<in> set xs. arg_live s x \<Longrightarrow>
    uint (fs_localoff s) + 8 < 2 ^ 31 \<Longrightarrow> alloc_reach a True s'"
| label: "alloc_reach a True s \<Longrightarrow> Function_Label a l s = Some (b, s') \<Longrightarrow> alloc_reach a True s'"
| jump: "alloc_reach a True s \<Longrightarrow> Function_Jump a i l s = Some s' \<Longrightarrow> alloc_reach a True s'"

lemma decl_ok:
  assumes "alloc_decl s s'" "alloc_inv U s"
  shows "alloc_inv U s'"
  using assms(1)
proof cases
  case (new_local n z p)
  then show ?thesis using NewLocal_ok(1)[OF new_local(1) assms(2)] by blast
next
  case (bytes n z p)
  then show ?thesis using AllocBytes_ok[OF bytes(1) assms(2)] by blast
next
  case (arg n r p)
  then show ?thesis using Arg_ok[OF arg(1) assms(2)] by blast
next
  case (stack_arg n i p off)
  then show ?thesis using StackArg_ok[OF stack_arg(1) assms(2)] by blast
qed

lemma decl_held:
  assumes "alloc_decl s s'" "alloc_inv U s"
  shows "held (fs_rs s') \<subseteq> held (fs_rs s) \<union> {r. \<not> overlap r R_RBP \<and> \<not> overlap r R_RSP}"
  using assms(1)
proof cases
  case (arg n r p)
  obtain rs b where "fs_rs s' = rs" "Use r (fs_rs s) = Some (b, rs)"
    using arg(1) by (auto simp: Arg_def space_def new_ralloc_def updateLRU_def Let_def bind_eq_Some_conv split: if_splits option.splits)
  moreover have "regs_ok (fs_rs s)" "r \<noteq> R_RIP" using assms(2) arg(1) by (auto simp: alloc_ok_def file_ok_def Arg_def bind_eq_Some_conv split: if_splits)
  ultimately show ?thesis using Use_ok[of "fs_rs s" r] arg(4) by (auto split: if_splits)
qed (auto simp: NewLocal_def AllocBytes_def StackArg_def space_def new_ralloc_def Let_def split: if_splits option.splits)

lemma emit_all_code: "emit_all a is s = Some s' \<Longrightarrow> \<exists>f c. s' = s\<lparr>fs_fn := f, fs_code := c\<rparr>"
proof (induction a "is" s rule: emit_all.induct)
  case (1 a s)
  then show ?case by (intro exI[of _ "fs_fn s"] exI[of _ "fs_code s"]) simp
next
  case (2 a i os "is" s)
  then obtain t where t: "emit_insn a i os s = Some t" "emit_all a is t = Some s'" by (auto simp: bind_eq_Some_conv)
  from 2(1)[OF t] obtain f c where s': "s' = t\<lparr>fs_fn := f, fs_code := c\<rparr>" by blast
  then have "s' = (s\<lparr>fs_fn := fs_fn t, fs_code := fs_code t\<rparr>)\<lparr>fs_fn := f, fs_code := c\<rparr>"
    unfolding emit_insn_sel(1)[OF t(1), symmetric] .
  then show ?case by auto
qed

lemma Use_sel: "Function_Use r s = Some (b, s') \<Longrightarrow> \<exists>rs. Use r (fs_rs s) = Some (b, rs) \<and> s' = s\<lparr>fs_rs := rs\<rparr>"
  by (auto simp: Function_Use_def)

lemma Prologue_ok:
  assumes "Prologue a s = Some s'" "alloc_inv {} s" "\<forall>h \<in> held (fs_rs s). \<not> overlap h R_RBP \<and> \<not> overlap h R_RSP"
  shows "alloc_ok s'"
proof -
  obtain b t b' u w where t: "Function_Use R_RBP s = Some (b, t)" "Function_Use R_RSP t = Some (b', u)"
    and w: "emit_all a (map (\<lambda>r. (''PUSH'', [OReg r])) saved_regs @
       [(''MOV'', [OReg R_RBP, OReg R_RSP]), (''SUB'', [OReg R_RSP, OU32 0])]) u = Some w"
    and s': "s' = w\<lparr>fs_localsLocation := word_of_int (int (length (f_bs (fs_fn w))) - 4)\<rparr>"
    using assms(1) by (auto simp: Prologue_def bind_eq_Some_conv)
  have reg: "regs_ok (fs_rs s)" using assms(2) by (simp add: alloc_ok_def file_ok_def)
  have hi: "R_RBP \<notin> high_regs" "R_RSP \<notin> high_regs" "\<not> overlap R_RSP R_RBP" "R_RBP \<noteq> R_RIP" "R_RSP \<noteq> R_RIP"
    by (simp_all add: high_regs_def overlap_def)
  obtain rs where rs: "Use R_RBP (fs_rs s) = Some (b, rs)" "t = s\<lparr>fs_rs := rs\<rparr>" using Use_sel[OF t(1)] by blast
  have f: "\<forall>h \<in> held (fs_rs s). \<not> overlap R_RBP h" using assms(3) by (auto simp: overlap_def)
  note k = taken_ok[OF rs(1) assms(2) hi(4,1) f, folded rs(2)]
  have hr: "held rs = insert R_RBP (held (fs_rs s))" using Use_ok[OF reg hi(4)] rs(1) f by auto
  obtain rs' where rs': "Use R_RSP (fs_rs t) = Some (b', rs')" "u = t\<lparr>fs_rs := rs'\<rparr>" using Use_sel[OF t(2)] by blast
  have f': "\<forall>h \<in> held (fs_rs t). \<not> overlap R_RSP h" using assms(3) hr hi(3) unfolding rs(2) by (auto simp: overlap_def)
  note k' = taken_ok[OF rs'(1) k(1) hi(5,2) f', folded rs'(2)]
  have "alloc_ok u" using k'(1) k(2) k'(2) by (simp add: alloc_ok_def file_ok_def)
  moreover obtain fn c where "w = u\<lparr>fs_fn := fn, fs_code := c\<rparr>" using emit_all_code[OF w] by blast
  ultimately have "alloc_ok w" by simp
  then show ?thesis by (simp add: s' alloc_ok_def names_ok_def tables_ok_def file_ok_def slots_ok_def live_def slots_def others_def)
qed

lemma Label_kept:
  assumes "Function_Label a l s = Some (b, s')" "alloc_ok s"
  shows "kept s s'"
proof -
  obtain t where t: "EvictAll a s = Some t" "s' = t\<lparr>fs_fn := Label [] l (fs_fn t)\<rparr>"
    using assms(1) by (auto simp: Function_Label_def bind_eq_Some_conv)
  from spilled_kept[OF EvictAll_ok(1)[OF t(1) assms(2)]] show ?thesis unfolding t(2) by simp
qed

lemma Jump_kept:
  assumes "Function_Jump a i l s = Some s'" "alloc_ok s"
  shows "kept s s'"
proof -
  obtain t where t: "(if i = ''CALL'' then EvictForCall a s else EvictAll a s) = Some t"
    using assms(1) by (auto simp: Function_Jump_def bind_eq_Some_conv)
  obtain bs res where "Asm_Encode a (fs_heap t) (length (f_bs (fs_fn t))) i [OI32 0] = Some (bs, res)"
    using assms(1) t by (auto simp: Function_Jump_def bind_eq_Some_conv)
  then have res: "(case res of Inl e \<Rightarrow> None | Inr rs \<Rightarrow> Some (t\<lparr>fs_fn := Jump [] bs l (fs_fn t),
      fs_code := fs_code t @ [(i, [OI32 0], bs)]\<rparr>)) = Some s'"
    using assms(1) t by (simp add: Function_Jump_def)
  have s': "s' = t\<lparr>fs_fn := Jump [] bs l (fs_fn t), fs_code := fs_code t @ [(i, [OI32 0], bs)]\<rparr>"
    using res by (cases res) auto
  have "spilled s t" using t EvictAll_ok(1)[OF _ assms(2)] EvictForCall_ok(1)[OF _ assms(2)] by (auto split: if_splits)
  from spilled_kept[OF this] show ?thesis unfolding s' by simp
qed

lemma New_alloc: "alloc_inv {} (NewRallocs f)" "held (fs_rs (NewRallocs f)) = {}"
proof -
  show "held (fs_rs (NewRallocs f)) = {}" using New_ok by (simp add: NewRallocs_def)
  then show "alloc_inv {} (NewRallocs f)" using New_ok
    by (simp add: alloc_inv_def names_ok_def tables_ok_def file_ok_def slots_ok_def live_def slots_def apart_list_def NewRallocs_def)
qed

lemma reach_inv:
  "alloc_reach a b s \<Longrightarrow> (if b then alloc_ok s else alloc_inv {} s \<and> (\<forall>h \<in> held (fs_rs s). \<not> overlap h R_RBP \<and> \<not> overlap h R_RSP))"
proof (induction rule: alloc_reach.induct)
  case (start f)
  then show ?case using New_alloc by simp
next
  case (decl b s s')
  show ?case
  proof (cases b)
    case True
    with decl decl_ok show ?thesis by auto
  next
    case False
    with decl have i: "alloc_inv {} s" "\<forall>h \<in> held (fs_rs s). \<not> overlap h R_RBP \<and> \<not> overlap h R_RSP" by simp_all
    with False decl_ok[OF decl.hyps(2) i(1)] decl_held[OF decl.hyps(2) i(1)] show ?thesis by auto
  qed
next
  case (prologue s s')
  then show ?case using Prologue_ok[OF prologue.hyps(2)] by simp
next
  case (forget s n s')
  then show ?case using Forget_ok by simp
next
  case (move s D s')
  then show ?case using move_ok(1) by simp
next
  case (instr s i xs res s')
  then show ?case using Instr_kept[OF instr.hyps(2) _ instr.hyps(3,4)] by (simp add: kept_def)
next
  case (label s l b s')
  then show ?case using Label_kept[OF label.hyps(2)] by (simp add: kept_def)
next
  case (jump s i l s')
  then show ?case using Jump_kept[OF jump.hyps(2)] by (simp add: kept_def)
qed

lemma reach_ok: "alloc_reach a True s \<Longrightarrow> alloc_ok s"
  using reach_inv[of a True s] by simp

section \<open>What never changes of a variable\<close>

definition frozen :: "fstate \<Rightarrow> fstate \<Rightarrow> bool" where
  "frozen s s' \<longleftrightarrow> (\<forall>q. a_sym (fs_heap s' q) = a_sym (fs_heap s q) \<and> a_size (fs_heap s' q) = a_size (fs_heap s q) \<and>
     a_regable (fs_heap s' q) = a_regable (fs_heap s q) \<and> a_offset (fs_heap s' q) = a_offset (fs_heap s q))"

lemma frozen_refl [simp]: "frozen s s"
  by (simp add: frozen_def)

lemma frozen_trans: "frozen s t \<Longrightarrow> frozen t u \<Longrightarrow> frozen s u"
  by (simp add: frozen_def)

lemma frozen_heap: "fs_heap s' = fs_heap s \<Longrightarrow> frozen s s'"
  by (simp add: frozen_def)

lemma spilled_frozen: "spilled s t \<Longrightarrow> frozen s t"
  unfolding spilled_def frozen_def using same_var_def by blast

lemma handed_frozen: "handed n r s t \<Longrightarrow> frozen s t"
  unfolding handed_def frozen_def using same_var_def by blast

lemma emit_frozen: "emit_insn a i os s = Some s' \<Longrightarrow> frozen s s'"
  by (rule frozen_heap) (auto simp: emit_insn_def split: Option.bind_splits sum.splits)

lemma settle_frozen [simp]: "frozen s (settle p r t) = frozen s t"
  by (auto simp: frozen_def)

lemma Register_frozen:
  assumes "Ralloc_Register a p s = Some (r, s')" "alloc_ok s" "p \<in> live s"
  shows "frozen s s'"
proof -
  let ?v = "fs_heap s p"
  show ?thesis
  proof (cases "a_inreg ?v")
    case True
    then show ?thesis using assms(1) by (auto simp: Ralloc_Register_def Let_def updateLRU_def frozen_def split: if_splits)
  next
    case False
    let ?n = "if a_regable ?v then a_size ?v else 64"
    have n: "?n \<in> {8, 16, 32, 64}" using live_var[OF assms(2,3)] by (auto simp: var_ok_def)
    from assms(1) False obtain x t where t: "obtain_reg a ?n s = Some (x, t)"
      by (auto simp: Ralloc_Register_def Let_def bind_eq_Some_conv split: if_splits)
    have st: "frozen s t" by (rule handed_frozen[OF obtain_reg_ok[OF t assms(2) n]])
    show ?thesis
    proof (cases "a_regable ?v")
      case False
      with assms(1) t \<open>\<not> a_inreg ?v\<close> show ?thesis
        using frozen_trans[OF st] by (auto simp: Ralloc_Register_def Let_def bind_eq_Some_conv dest!: emit_frozen)
    next
      case True
      from assms(1) t \<open>\<not> a_inreg ?v\<close> True obtain u where "s' = settle p x u" "frozen t u"
        by (auto simp: Ralloc_Register_def Let_def bind_eq_Some_conv split: if_splits
            dest!: emit_frozen intro: frozen_trans)
      with frozen_trans[OF st] show ?thesis by simp
    qed
  qed
qed

lemma move_in_frozen: "move_in a p r s = Some s' \<Longrightarrow> frozen s s'"
  by (auto simp: move_in_def Let_def bind_eq_Some_conv removeLRU_def frozen_def split: if_splits
      dest!: emit_frozen)

lemma Use_frozen:
  assumes "UseRegister a p r s = Some s'" "alloc_ok s" "r \<noteq> R_RIP"
  shows "frozen s s'"
proof (cases "a_inreg (fs_heap s p) \<and> a_reg (fs_heap s p) = r")
  case True
  then show ?thesis using assms(1) by (auto simp: UseRegister_def Let_def split: if_splits)
next
  case False
  with assms(1) have "\<exists>t rs. (EvictReg a r s = Some t \<or> t = s) \<and> move_in a p r (t\<lparr>fs_rs := rs\<rparr>) = Some s'"
    unfolding UseRegister_def Let_def by (auto simp: bind_eq_Some_conv simp del: not_None_eq split: if_split_asm)
  then obtain t rs where t: "EvictReg a r s = Some t \<or> t = s" "move_in a p r (t\<lparr>fs_rs := rs\<rparr>) = Some s'" by blast
  have "frozen s t" using t(1) spilled_frozen[OF EvictReg_ok(1)[OF _ assms(2,3)]] by auto
  moreover have "frozen t s'" using move_in_frozen[OF t(2)] by (simp add: frozen_def)
  ultimately show ?thesis by (rule frozen_trans)
qed

lemma move_frozen:
  assumes "alloc_move a D s s'" "alloc_ok s"
  shows "frozen s s'"
  using assms(1)
proof cases
  case (evict p r)
  from Evict_spills[OF evict(2) assms(2) evict(3)] show ?thesis by (rule spilled_frozen)
next
  case (evict_reg r)
  from EvictReg_ok(1)[OF evict_reg(2) assms(2) evict_reg(3)] show ?thesis by (rule spilled_frozen)
next
  case evict_all
  from EvictAll_ok(1)[OF evict_all(2) assms(2)] show ?thesis by (rule spilled_frozen)
next
  case evict_call
  from EvictForCall_ok(1)[OF evict_call(2) assms(2)] show ?thesis by (rule spilled_frozen)
next
  case (load p r)
  then show ?thesis using Register_frozen assms(2) by blast
next
  case (inreg p r)
  then show ?thesis using Use_frozen assms(2) by (simp add: usable_def)
next
  case (indirect p x)
  from Indirect_ok(1)[OF indirect(2) assms(2) indirect(3)] show ?thesis by (rule spilled_frozen)
next
  case (location p pref x)
  then show ?thesis using Register_frozen[of a p s _ s'] assms(2)
    by (auto simp: Location_def Let_def updateLRU_def upd_def frozen_def bind_eq_Some_conv split: if_splits)
next
  case (volatile n)
  then obtain p where p: "map_of (fs_names s) n = Some p" by (auto simp: VolatileLocal_def split: option.splits)
  then have pl: "p \<in> live s" by (force simp: live_def dest: map_of_SomeD)
  show ?thesis
  proof (cases "a_regable (fs_heap s p)")
    case True
    with volatile(2) p obtain t where t: "(if a_inreg (fs_heap s p) then map_option snd (Evict a p s) else Some s) = Some t"
      "s' = upd p (\<lambda>v. v\<lparr>a_volatile := True, a_inmem := True\<rparr>) t"
      by (auto simp: VolatileLocal_def bind_eq_Some_conv split: if_split_asm)
    from spilled_frozen[OF maybe_Evict(1)[OF t(1) assms(2) pl]] show ?thesis by (simp add: t(2) frozen_def upd_def)
  next
    case False
    then show ?thesis using volatile(2) p by (simp add: VolatileLocal_def)
  qed
next
  case (acquire r)
  then obtain cs t where "evict_all a cs s = Some t" "fs_heap s' = fs_heap t"
    by (auto simp: Acquire_def bind_eq_Some_conv split: if_splits)
  then show ?thesis using spilled_frozen evict_each_ok[OF evict_all_each assms(2)] by (fastforce simp: frozen_def)
qed (auto simp: Function_Get_def Function_Use_def Function_Release_def frozen_def)

lemma moves_frozen: "steps (alloc_move a) D s s' \<Longrightarrow> alloc_ok s \<Longrightarrow> frozen s s'"
proof (induction rule: steps.induct)
  case (more D s t E u)
  from more.IH[OF more.prems] move_frozen[OF more.hyps(2) alloc.steps_inv[OF more.hyps(1) more.prems]]
  show ?case by (rule frozen_trans)
qed simp

lemma frozen_slot: "frozen s s' \<Longrightarrow> vslot (fs_heap s' p) = vslot (fs_heap s p)"
  by (simp add: frozen_def vslot_def)

end
