(* ===== verification/AllocTheorems.thy ===== *)
theory AllocTheorems
  imports AllocSpec
begin

text \<open>
  The properties of the register allocator (\<open>function.go\<close>), with a small instruction table they are
  instantiated at.
\<close>

section \<open>A small instruction table\<close>

text \<open>64-bit forms of the instructions the allocator inserts, encoded as in \<open>x86_64.xml\<close>.\<close>

definition op_r64 :: Op where
  "op_r64 = \<lparr>op_TN = ''r64'', op_Output = True, op_Implicit = False\<rparr>"

definition op_m64 :: Op where
  "op_m64 = \<lparr>op_TN = ''m64'', op_Output = True, op_Implicit = False\<rparr>"

definition op_imm32 :: Op where
  "op_imm32 = \<lparr>op_TN = ''imm32'', op_Output = False, op_Implicit = False\<rparr>"

definition rex_w :: "byte \<Rightarrow> byte \<Rightarrow> encoder" where
  "rex_w reg rm = Erex \<lparr>x_mandatory = True, x_w = 1, x_r = reg, x_x = rm, x_b = rm\<rparr>"

definition form64 :: "Op list \<Rightarrow> encoder list \<Rightarrow> IForm" where
  "form64 ops es = \<lparr>form_name = '''', form_opcount = length ops, form_ops = ops, form_enc = [es]\<rparr>"

definition one_form :: "IForm list \<Rightarrow> Instruction" where
  "one_form fs = \<lparr>ins_Summary = '''', ins_Forms = fs\<rparr>"

definition stack_form :: "byte \<Rightarrow> IForm" where
  "stack_form op = form64 [op_r64] [Erex \<lparr>x_mandatory = False, x_w = 0, x_r = 0, x_x = 0, x_b = 0\<rparr>, Eopcode op True 0]"

definition small_asm :: Asm where
  "small_asm = \<lparr>asm_ArchName = ''x86-64'', asm_heap = [
     one_form [form64 [op_r64, op_r64] [rex_w 1 0, Eopcode 0x89 False 0, Emodrm \<lparr>mr_mod = 0x83, mr_reg = 1, mr_rm = 0\<rparr>],
       form64 [op_r64, op_m64] [rex_w 0 1, Eopcode 0x8B False 0, Emodrm \<lparr>mr_mod = 1, mr_reg = 0, mr_rm = 1\<rparr>],
       form64 [op_m64, op_r64] [rex_w 1 0, Eopcode 0x89 False 0, Emodrm \<lparr>mr_mod = 0, mr_reg = 1, mr_rm = 0\<rparr>]],
     one_form [stack_form 0x50],
     one_form [stack_form 0x58],
     one_form [form64 [op_r64, op_imm32] [rex_w 0 0, Eopcode 0x81 False 0, Emodrm \<lparr>mr_mod = 0x83, mr_reg = 0x85, mr_rm = 0\<rparr>,
       Eimmediate 4 1]]],
   asm_instrs = [(''MOV'', 0), (''PUSH'', 1), (''POP'', 2), (''SUB'', 3)], asm_specforms = []\<rparr>"

lemmas encode_defs = small_asm_def op_r64_def op_m64_def op_imm32_def rex_w_def form64_def one_form_def stack_form_def
  emit_insn_def Asm_Encode_def find_instr_def select_form_def Match_def wide_def base_wide_def match_reg_def match_mem_def
  match_imm32_def IForm_Encode_def high_byte_def rex_Encode_def getRegister_def REX_X_def or_reg0_def opcode_Encode_def
  modrm_Encode_def modrm_mode_def modrm_reg_def modrm_sib_def modrm_plain_def plain_mode_def MODE_LITERAL_def wrote_def
  reg0_def needREX_def rex_byte_def bit3_def modrm_byte_def immediate_Encode_def

text \<open>The code of an instruction appended.\<close>

definition coded :: "string \<Rightarrow> operand list \<Rightarrow> byte list \<Rightarrow> fstate \<Rightarrow> fstate" where
  "coded i os bs s = s\<lparr>fs_fn := emit bs [] (fs_fn s), fs_code := fs_code s @ [(i, os, bs)]\<rparr>"

lemma coded_sel [simp]:
  "fs_heap (coded i os bs s) = fs_heap s" "fs_fresh (coded i os bs s) = fs_fresh s" "fs_regs (coded i os bs s) = fs_regs s"
  "fs_names (coded i os bs s) = fs_names s" "fs_rs (coded i os bs s) = fs_rs s" "fs_lru (coded i os bs s) = fs_lru s"
  "fs_localoff (coded i os bs s) = fs_localoff s" "fs_free (coded i os bs s) = fs_free s"
  "fs_localsLocation (coded i os bs s) = fs_localsLocation s"
  "f_bs (fs_fn (coded i os bs s)) = f_bs (fs_fn s) @ bs" "fs_code (coded i os bs s) = fs_code s @ [(i, os, bs)]"
  by (simp_all add: coded_def emit_def)

definition stack_bytes :: "byte \<Rightarrow> Register \<Rightarrow> byte list" where
  "stack_bytes op r = (if r = R_RBP then [op + 5] else if r = R_RBX then [op + 3]
     else if r = R12 then [0x47, op + 4] else if r = R13 then [0x47, op + 5] else if r = R14 then [0x47, op + 6] else [0x47, op + 7])"

lemma small_push:
  "r \<in> set saved_regs \<Longrightarrow> emit_insn small_asm ''PUSH'' [OReg r] s = Some (coded ''PUSH'' [OReg r] (stack_bytes 0x50 r) s)"
proof -
  assume r: "r \<in> set saved_regs"
  have "emit_insn small_asm ''PUSH'' [OReg R_RBP] s = Some (coded ''PUSH'' [OReg R_RBP] (stack_bytes 0x50 R_RBP) s)"
    "emit_insn small_asm ''PUSH'' [OReg R_RBX] s = Some (coded ''PUSH'' [OReg R_RBX] (stack_bytes 0x50 R_RBX) s)"
    "emit_insn small_asm ''PUSH'' [OReg R12] s = Some (coded ''PUSH'' [OReg R12] (stack_bytes 0x50 R12) s)"
    "emit_insn small_asm ''PUSH'' [OReg R13] s = Some (coded ''PUSH'' [OReg R13] (stack_bytes 0x50 R13) s)"
    "emit_insn small_asm ''PUSH'' [OReg R14] s = Some (coded ''PUSH'' [OReg R14] (stack_bytes 0x50 R14) s)"
    "emit_insn small_asm ''PUSH'' [OReg R15] s = Some (coded ''PUSH'' [OReg R15] (stack_bytes 0x50 R15) s)"
    by (simp_all add: encode_defs coded_def stack_bytes_def del: le_bytes.simps)
  with r show ?thesis by (auto simp only: saved_regs_def list.set insert_iff empty_iff)
qed


lemma small_frame:
  "emit_insn small_asm ''MOV'' [OReg R_RBP, OReg R_RSP] s = Some (coded ''MOV'' [OReg R_RBP, OReg R_RSP] [0x48, 0x89, 0xE5] s)"
  "emit_insn small_asm ''MOV'' [OReg R_RSP, OReg R_RBP] s = Some (coded ''MOV'' [OReg R_RSP, OReg R_RBP] [0x48, 0x89, 0xEC] s)"
  "emit_insn small_asm ''SUB'' [OReg R_RSP, OU32 0] s = Some (coded ''SUB'' [OReg R_RSP, OU32 0] (0x48 # 0x81 # 0xEC # le_bytes 4 0) s)"
  by (simp_all add: encode_defs coded_def del: le_bytes.simps)

lemma small_move:
  "emit_insn small_asm ''MOV'' [OInd \<lparr>in_Reg = R_RBP, in_Off = -8, in_Size = 64, in_Symbol = ''''\<rparr>, OReg R10] s =
    Some (coded ''MOV'' [OInd \<lparr>in_Reg = R_RBP, in_Off = -8, in_Size = 64, in_Symbol = ''''\<rparr>, OReg R10]
      (0x4C # 0x89 # 0x95 # le_bytes 4 0xFFFFFFF8) s)"
  "emit_insn small_asm ''MOV'' [OReg R10, OInd \<lparr>in_Reg = R_RBP, in_Off = -8, in_Size = 64, in_Symbol = ''''\<rparr>] s =
    Some (coded ''MOV'' [OReg R10, OInd \<lparr>in_Reg = R_RBP, in_Off = -8, in_Size = 64, in_Symbol = ''''\<rparr>]
      (0x4C # 0x8B # 0x95 # le_bytes 4 0xFFFFFFF8) s)"
  by (simp_all add: encode_defs coded_def del: le_bytes.simps)

section \<open>A function with one variable\<close>

definition one_var :: Function where
  "one_var = new_function '''' '''' 0 ''f'' []"

definition frame_regs :: regfile where
  "frame_regs = NewRegisters(R_RBP := Some \<lparr>inuse = True, rsize = 64\<rparr>, R_RSP := Some \<lparr>inuse = True, rsize = 64\<rparr>)"

definition prologue_bytes :: "byte list" where
  "prologue_bytes = concat (map (stack_bytes 0x50) saved_regs) @ [0x48, 0x89, 0xE5] @ [0x48, 0x81, 0xEC] @ le_bytes 4 0"

definition entered :: "(string \<times> operand list \<times> byte list) list \<Rightarrow> fstate" where
  "entered c = (NewRallocs one_var)\<lparr>fs_rs := frame_regs, fs_fn := one_var\<lparr>f_bs := prologue_bytes\<rparr>, fs_code := c,
     fs_localsLocation := 16\<rparr>"

lemma new_reg: "r \<in> set managed \<Longrightarrow> NewRegisters r = Some \<lparr>inuse = False, rsize = 0\<rparr>"
  by (auto simp: NewRegisters_def map_of_map_restrict restrict_map_def)

lemma small_prologue: "\<exists>c. Prologue small_asm (NewRallocs one_var) = Some (entered c)"
proof -
  let ?s = "(NewRallocs one_var)\<lparr>fs_rs := frame_regs\<rparr>"
  have u: "Use R_RBP NewRegisters = Some (True, NewRegisters(R_RBP := Some \<lparr>inuse = True, rsize = 64\<rparr>))"
    "Use R_RSP (NewRegisters(R_RBP := Some \<lparr>inuse = True, rsize = 64\<rparr>)) = Some (True, frame_regs)"
    by (simp_all add: Use_def occupy_def set_inuse_def set_size_def new_reg managed_def frame_regs_def)
  show ?thesis
    apply (simp add: Prologue_def Function_Use_def u NewRallocs_def small_push small_frame saved_regs_def del: le_bytes.simps)
    apply (simp add: coded_def emit_def entered_def NewRallocs_def prologue_bytes_def one_var_def new_function_def stack_bytes_def saved_regs_def
      del: le_bytes.simps)
    done
qed

text \<open>A 64-bit variable: declared, in R10, and back on the stack.\<close>

definition x_slot :: operand where
  "x_slot = OInd \<lparr>in_Reg = R_RBP, in_Off = -8, in_Size = 64, in_Symbol = ''''\<rparr>"

definition declared_x :: "(string \<times> operand list \<times> byte list) list \<Rightarrow> fstate" where
  "declared_x c = snd (new_ralloc ''x'' (no_ralloc\<lparr>a_sym := ''x'', a_size := 64, a_regable := True, a_offset := -8\<rparr>)
     ((entered c)\<lparr>fs_localoff := 8\<rparr>))"

definition loaded_x :: "(string \<times> operand list \<times> byte list) list \<Rightarrow> fstate" where
  "loaded_x c = settle 0 R10 ((declared_x c)\<lparr>fs_rs := frame_regs(R10 := Some \<lparr>inuse = True, rsize = 64\<rparr>)\<rparr>)"

definition stored_x :: "(string \<times> operand list \<times> byte list) list \<Rightarrow> fstate" where
  "stored_x c = dropped True 0 (frame_regs(R10 := Some \<lparr>inuse = False, rsize = 64\<rparr>))
     (coded ''MOV'' [x_slot, OReg R10] (0x4C # 0x89 # 0x95 # le_bytes 4 0xFFFFFFF8) (loaded_x c))"

lemma small_declare: "NewLocal ''x'' 64 (entered c) = Inr (0, declared_x c)"
  by (simp add: NewLocal_def declared_x_def entered_def NewRallocs_def space_def int32_8_def Let_def new_ralloc_def)

lemma first_free: "Get 64 frame_regs = Some (Some R10, frame_regs(R10 := Some \<lparr>inuse = True, rsize = 64\<rparr>))"
  by (simp add: Get_def regs64_def other_regs_def frame_regs_def new_reg managed_def partial_reg_def set_inuse_def set_size_def occupy_def)

lemma declared_sel [simp]:
  "fs_heap (declared_x c) 0 = no_ralloc\<lparr>a_sym := ''x'', a_size := 64, a_regable := True, a_offset := -8\<rparr>"
  "fs_rs (declared_x c) = frame_regs" "fs_regs (declared_x c) = Map.empty" "fs_lru (declared_x c) = []"
  "fs_names (declared_x c) = [(''x'', 0)]"
  by (simp_all add: declared_x_def new_ralloc_def entered_def NewRallocs_def)

lemma small_load: "Ralloc_Register small_asm 0 (declared_x c) = Some (R10, loaded_x c)"
  by (simp add: Ralloc_Register_def obtain_reg_def first_free loaded_x_def no_ralloc_def Let_def)

lemma loaded_sel [simp]:
  "fs_heap (loaded_x c) 0 = no_ralloc\<lparr>a_sym := ''x'', a_size := 64, a_regable := True, a_offset := -8, a_reg := R10, a_inreg := True\<rparr>"
  "fs_rs (loaded_x c) = frame_regs(R10 := Some \<lparr>inuse = True, rsize = 64\<rparr>)" "fs_regs (loaded_x c) = [R10 \<mapsto> 0]"
  "fs_lru (loaded_x c) = [R10]"
  by (simp_all add: loaded_x_def)

lemma small_store: "Evict small_asm 0 (loaded_x c) = Some (R10, stored_x c)"
  "EvictAll small_asm (loaded_x c) = Some (stored_x c)"
proof -
  have rel: "Release R10 (frame_regs(R10 := Some \<lparr>inuse = True, rsize = 64\<rparr>)) = Some (frame_regs(R10 := Some \<lparr>inuse = False, rsize = 64\<rparr>))"
    by (simp add: Release_def set_inuse_def)
  show "Evict small_asm 0 (loaded_x c) = Some (R10, stored_x c)"
    by (simp add: Evict_def Let_def RegSize_def slot_op_def small_move give_up_def rel no_ralloc_def upd_def removeLRU_def
        stored_x_def dropped_def x_slot_def del: le_bytes.simps)
  then show "EvictAll small_asm (loaded_x c) = Some (stored_x c)" by (simp add: EvictAll_def)
qed

lemma small_reach: "\<exists>c. alloc_reach small_asm True (declared_x c) \<and> alloc_reach small_asm True (loaded_x c)"
proof -
  obtain c where "Prologue small_asm (NewRallocs one_var) = Some (entered c)" using small_prologue by blast
  with alloc_reach.start have "alloc_reach small_asm True (entered c)" by (rule alloc_reach.prologue)
  then have d: "alloc_reach small_asm True (declared_x c)"
    by (rule alloc_reach.decl) (rule alloc_decl.new_local[OF small_declare], simp_all add: entered_def NewRallocs_def)
  have "alloc_move small_asm {} (declared_x c) (loaded_x c)"
    by (rule alloc_move.load[OF small_load]) (simp add: live_def)
  with d alloc_reach.move show ?thesis by blast
qed

section \<open>Preparations\<close>

unbundle bit_operations_syntax




text \<open>The loop of \<open>Asm.Encode\<close> with its rounds counted; \<open>None\<close>: out of rounds.\<close>

fun encode_rounds :: "nat \<Rightarrow> Asm \<Rightarrow> string \<Rightarrow> IForm list \<Rightarrow> string \<Rightarrow> operand list \<Rightarrow> operand list \<Rightarrow> fstate \<Rightarrow>
    ((enc_err + Relocation list) \<times> operand list \<times> fstate) option option" where
  "encode_rounds 0 a instr fs m os ns s = None"
| "encode_rounds (Suc k) a instr fs m os ns s = (case instr_Encode a instr fs m ns s of
      None \<Rightarrow> Some None
    | Some (Inr rs, ns, s) \<Rightarrow> Some (Some (Inr rs, ns, s))
    | Some (Inl err, ns, s) \<Rightarrow> (case first_indirect ns os 0 of
         None \<Rightarrow> Some (Some (Inl err, ns, s))
       | Some (i, p) \<Rightarrow> (case Ralloc_Register a p s of
           None \<Rightarrow> Some None
         | Some (r, s) \<Rightarrow> encode_rounds k a instr fs m os (ns[i := OReg r]) s)))"

lemma rounds_loop: "to_try ns os < k \<Longrightarrow> encode_rounds k a instr fs m os ns s = Some (encode_loop a instr fs m os ns s)"
proof (induction k a instr fs m os ns s rule: encode_rounds.induct)
  case (2 k a instr fs m os ns s)
  show ?case
  proof (cases "instr_Encode a instr fs m ns s")
    case None
    then show ?thesis by (simp add: encode_loop.simps[of a instr fs m os ns])
  next
    case (Some x)
    obtain res ns1 t where x: "x = (res, ns1, t)" by (cases x)
    have less: "to_try ns1 os \<le> to_try ns os" using attempt_less Some x by blast
    show ?thesis
    proof (cases res)
      case (Inr rs)
      then show ?thesis using Some x by (simp add: encode_loop.simps[of a instr fs m os ns])
    next
      case (Inl err)
      show ?thesis
      proof (cases "first_indirect ns1 os 0")
        case None
        then show ?thesis using Some x Inl by (simp add: encode_loop.simps[of a instr fs m os ns])
      next
        case ip: (Some y)
        obtain i p where y: "y = (i, p)" by (cases y)
        have "to_try (ns1[i := OReg r]) os < k" for r
          using first_indirect_less[of ns1 os 0 i p r] ip y less 2(2) by simp
        then show ?thesis using Some x Inl ip y 2(1)[OF Some x[symmetric] Inl refl ip y[symmetric]]
          by (auto simp: encode_loop.simps[of a instr fs m os ns] split: option.splits)
      qed
    qed
  qed
qed simp

lemma to_try_length: "to_try ns os \<le> length ns"
  by (induction ns os rule: to_try.induct) auto


section \<open>Properties\<close>

lemma runsD:
  assumes "runs D s s'" "\<forall>p \<in> live s. points m (fs_heap s p)"
  shows "\<exists>cs m'. fs_code s' = fs_code s @ cs \<and> f_bs (fs_fn s') = f_bs (fs_fn s) @ concat (map (\<lambda>(i, os, bs). bs) cs) \<and>
    exec_all cs m = Some m' \<and>
    (\<forall>p \<in> live s. \<forall>x. holds m (fs_heap s p) x \<longrightarrow> p \<in> live s' \<longrightarrow> holds m' (fs_heap s' p) x) \<and>
    (\<forall>p \<in> live s'. points m' (fs_heap s' p)) \<and>
    (\<forall>r \<in> others s' - D. read_reg r m' = read_reg r m) \<and>
    (\<forall>k. (\<forall>p \<in> live s'. k \<notin> vslot (fs_heap s' p)) \<longrightarrow> m_mem m' k = m_mem m k)"
proof -
  let ?x = "\<lambda>v. if a_regable v \<and> a_inreg v then Some (read_reg (a_reg v) m) else if a_inmem v then Some (stored v m) else None"
  define c where "c = \<lparr>vals = (\<lambda>p. if p \<in> live s then ?x (fs_heap s p) else None), owned = (\<lambda>r. Some (read_reg r m)), elsewhere = m_mem m\<rparr>"
  have h: "holds m v x \<longleftrightarrow> ?x v = Some x" for v x by (auto simp: holds_def)
  have "sim s m c" using assms(2) by (auto simp: sim_def c_def h)
  then obtain cs m' where cs: "fs_code s' = fs_code s @ cs"
    "f_bs (fs_fn s') = f_bs (fs_fn s) @ concat (map (\<lambda>(i, os, bs). bs) cs)" "exec_all cs m = Some m'" "sim s' m' (lose D c)"
    using assms(1) unfolding runs_def by blast
  have v: "vals (lose D c) = vals c" "elsewhere (lose D c) = elsewhere c" by (simp_all add: lose_def)
  have "holds m' (fs_heap s' p) x" if "p \<in> live s" "holds m (fs_heap s p) x" "p \<in> live s'" for p x
    using simD(2)[OF cs(4) that(3), of x] that h by (simp add: v) (simp add: c_def)
  moreover have "read_reg r m' = read_reg r m" if "r \<in> others s'" "r \<notin> D" for r
    using simD(3)[OF cs(4) that(1)] that(2) by (simp add: lose_def restrict_map_def c_def)
  moreover have "m_mem m' k = m_mem m k" if "\<forall>p \<in> live s'. k \<notin> vslot (fs_heap s' p)" for k
    using simD(4)[OF cs(4) that] by (simp add: v) (simp add: c_def)
  ultimately show ?thesis using cs(1-3) simD(1)[OF cs(4)] by blast
qed



text \<open>C15. Register allocator, types: a variable that fits a register is in a register of exactly its width,
  any other only has its address in a 64-bit register and stays on the stack; a volatile variable is
  never in a register.\<close>

theorem variable_well_typed:
  assumes "alloc_reach a True s" "map_of (fs_names s) n = Some p"
  shows "if a_regable (fs_heap s p)
    then a_size (fs_heap s p) \<in> {8, 16, 32, 64} \<and>
      (a_inreg (fs_heap s p) \<longrightarrow> Width (a_reg (fs_heap s p)) = Some (a_size (fs_heap s p)) \<and> a_reg (fs_heap s p) \<notin> high_regs) \<and>
      (a_volatile (fs_heap s p) \<longrightarrow> \<not> a_inreg (fs_heap s p) \<and> a_inmem (fs_heap s p))
    else a_size (fs_heap s p) mod 8 = 0 \<and> a_inmem (fs_heap s p) \<and>
      (a_inreg (fs_heap s p) \<longrightarrow> Width (a_reg (fs_heap s p)) = Some 64)"
proof -
  have ok: "alloc_ok s" by (rule reach_ok[OF assms(1)])
  have p: "p \<in> live s" using assms(2) by (force simp: live_def dest: map_of_SomeD)
  have "a_inreg (fs_heap s p) \<longrightarrow> a_reg (fs_heap s p) \<notin> high_regs"
    using in_reg_held[OF ok p] ok by (auto simp: alloc_ok_def file_ok_def)
  then show ?thesis using live_var[OF ok p] by (simp add: var_ok_def split: if_splits)
qed

theorem variable_well_typed_witness:
  "\<exists>c. Width (a_reg (fs_heap (loaded_x c) 0)) = Some 64 \<and> a_inreg (fs_heap (loaded_x c) 0)"
proof -
  obtain c where c: "alloc_reach small_asm True (loaded_x c)" using small_reach by blast
  have "map_of (fs_names (loaded_x c)) ''x'' = Some 0" by (simp add: loaded_x_def)
  from variable_well_typed[OF c this] show ?thesis by (intro exI[of _ c]) (simp add: no_ralloc_def)
qed

text \<open>C4. Register allocator, simulation: any sequence of loads, evictions, preparations for calls,
  moves into given registers and acquisitions of registers appends code to the function, and executing
  it keeps the value of every variable, wherever it now is, what the user has in the registers it keeps,
  and all memory outside the variables' slots.\<close>

theorem inserted_code_preserves:
  assumes "alloc_reach a True s" "steps (alloc_move a) D s s'" "\<forall>p \<in> live s. points m (fs_heap s p)"
  shows "\<exists>cs m'. fs_code s' = fs_code s @ cs \<and> f_bs (fs_fn s') = f_bs (fs_fn s) @ concat (map (\<lambda>(i, os, bs). bs) cs) \<and>
    exec_all cs m = Some m' \<and>
    (\<forall>p \<in> live s. \<forall>x. holds m (fs_heap s p) x \<longrightarrow> holds m' (fs_heap s' p) x) \<and>
    (\<forall>r \<in> others s' - D. read_reg r m' = read_reg r m) \<and>
    (\<forall>k. (\<forall>p \<in> live s. k \<notin> vslot (fs_heap s p)) \<longrightarrow> m_mem m' k = m_mem m k)"
proof -
  have ok: "alloc_ok s" by (rule reach_ok[OF assms(1)])
  have "live s' = live s" "vslot (fs_heap s' p) = vslot (fs_heap s p)" for p
    using moves_live[OF assms(2) ok] frozen_slot[OF moves_frozen[OF assms(2) ok]] by auto
  with runsD[OF alloc.steps_rel[OF assms(2) ok] assms(3)] show ?thesis by auto
qed

theorem inserted_code_preserves_witness:
  "\<exists>c (s' :: fstate) bs. \<forall>m. \<exists>m'. exec_all [(''MOV'', [x_slot, OReg R10], bs)] m = Some m' \<and>
    holds m' (fs_heap s' 0) (read_reg R10 m) \<and> \<not> a_inreg (fs_heap s' 0) \<and> fs_names s' = fs_names (loaded_x c)"
proof -
  obtain c where c: "alloc_reach small_asm True (loaded_x c)" using small_reach by blast
  have live: "live (loaded_x c) = {0}" by (simp add: live_def loaded_x_def)
  have "alloc_move small_asm {} (loaded_x c) (stored_x c)" by (rule alloc_move.evict_all[OF small_store(2)])
  with steps.more[where step = "alloc_move small_asm", OF steps.none] have st: "steps (alloc_move small_asm) {} (loaded_x c) (stored_x c)" by fastforce
  have code: "fs_code (stored_x c) = fs_code (loaded_x c) @ [(''MOV'', [x_slot, OReg R10], 0x4C # 0x89 # 0x95 # le_bytes 4 0xFFFFFFF8)]"
    by (simp add: stored_x_def del: le_bytes.simps)
  have s: "\<not> a_inreg (fs_heap (stored_x c) 0)" "fs_names (stored_x c) = fs_names (loaded_x c)" by (simp_all add: stored_x_def)
  have "\<forall>m. \<exists>m'. exec_all [(''MOV'', [x_slot, OReg R10], 0x4C # 0x89 # 0x95 # le_bytes 4 0xFFFFFFF8)] m = Some m' \<and>
    holds m' (fs_heap (stored_x c) 0) (read_reg R10 m)"
  proof
    fix m
    have "points m (fs_heap (loaded_x c) 0)" "holds m (fs_heap (loaded_x c) 0) (read_reg R10 m)"
      by (simp_all add: points_def holds_def)
    with inserted_code_preserves[OF c st, of m] code live
    show "\<exists>m'. exec_all [(''MOV'', [x_slot, OReg R10], 0x4C # 0x89 # 0x95 # le_bytes 4 0xFFFFFFF8)] m = Some m' \<and>
      holds m' (fs_heap (stored_x c) 0) (read_reg R10 m)" by (auto simp del: exec_all.simps le_bytes.simps)
  qed
  with s show ?thesis
    by (intro exI[of _ c] exI[of _ "stored_x c"] exI[of _ "0x4C # 0x89 # 0x95 # le_bytes 4 0xFFFFFFF8"]) blast
qed

text \<open>C11. Register allocator, loading: \<open>Register\<close> answers the register the variable then is in; after the
  code it inserts the register holds the variable's value, or its address if it is too large for a
  register, and every other variable keeps its value.\<close>

theorem Register_loads:
  assumes "alloc_reach a True s" "map_of (fs_names s) n = Some p" "Ralloc_Register a p s = Some (r, s')"
    "\<forall>q \<in> live s. points m (fs_heap s q)"
  shows "a_inreg (fs_heap s' p) \<and> a_reg (fs_heap s' p) = r \<and> fs_names s' = fs_names s \<and> others s' = others s \<and>
    (\<exists>cs m'. fs_code s' = fs_code s @ cs \<and> exec_all cs m = Some m' \<and>
      (if a_regable (fs_heap s p) then \<forall>x. holds m (fs_heap s p) x \<longrightarrow> read_reg r m' = x
       else read_reg r m' = frame_addr (a_offset (fs_heap s p)) m') \<and>
      (\<forall>q \<in> live s. \<forall>x. holds m (fs_heap s q) x \<longrightarrow> holds m' (fs_heap s' q) x))"
proof -
  have ok: "alloc_ok s" by (rule reach_ok[OF assms(1)])
  have p: "p \<in> live s" using assms(2) by (force simp: live_def dest: map_of_SomeD)
  have l: "loaded p r s s'" by (rule Register_ok[OF assms(3) ok p])
  then have s': "a_inreg (fs_heap s' p)" "a_reg (fs_heap s' p) = r" "fs_names s' = fs_names s" "others s' = others s" "runs {} s s'"
    by (simp_all add: loaded_def)
  have live: "live s' = live s" using s'(3) by (simp add: live_def)
  have fz: "a_regable (fs_heap s' p) = a_regable (fs_heap s p)" "a_offset (fs_heap s' p) = a_offset (fs_heap s p)"
    using Register_frozen[OF assms(3) ok p] by (simp_all add: frozen_def)
  obtain cs m' where cs: "fs_code s' = fs_code s @ cs" "exec_all cs m = Some m'"
    "\<forall>q \<in> live s. \<forall>x. holds m (fs_heap s q) x \<longrightarrow> holds m' (fs_heap s' q) x" "\<forall>q \<in> live s. points m' (fs_heap s' q)"
    using runsD[OF s'(5) assms(4)] live by auto
  have "if a_regable (fs_heap s p) then \<forall>x. holds m (fs_heap s p) x \<longrightarrow> read_reg r m' = x
    else read_reg r m' = frame_addr (a_offset (fs_heap s p)) m'"
  proof (cases "a_regable (fs_heap s p)")
    case True
    then show ?thesis using cs(3) p s'(1,2) fz by (auto simp: holds_def)
  next
    case False
    then show ?thesis using cs(4) p s'(1,2) fz by (auto simp: points_def)
  qed
  with s' cs show ?thesis by blast
qed

theorem Register_loads_witness:
  "\<exists>c. \<forall>m. \<exists>cs m'. fs_code (loaded_x c) = fs_code (declared_x c) @ cs \<and> exec_all cs m = Some m' \<and>
    a_reg (fs_heap (loaded_x c) 0) = R10"
proof -
  obtain c where c: "alloc_reach small_asm True (declared_x c)" using small_reach by blast
  have n: "map_of (fs_names (declared_x c)) ''x'' = Some 0" by simp
  have "live (declared_x c) = {0}" by (simp add: live_def)
  then have "\<forall>q \<in> live (declared_x c). points m (fs_heap (declared_x c) q)" for m by (simp add: points_def no_ralloc_def)
  from Register_loads[OF c n small_load this] show ?thesis by (intro exI[of _ c]) blast
qed

text \<open>C13. Register allocator, labels: before a label, and before a jump other than a call, every variable
  is brought to the stack: afterwards none is in a register, and in the code that precedes each
  variable's value has been stored in its slot.\<close>

theorem all_spilled:
  assumes "alloc_reach a True s" "EvictAll a s = Some s'" "\<forall>p \<in> live s. points m (fs_heap s p)"
  shows "(\<forall>p \<in> live s. \<not> a_inreg (fs_heap s' p)) \<and> fs_lru s' = [] \<and> held (fs_rs s') = others s \<and>
    (\<exists>cs m'. fs_code s' = fs_code s @ cs \<and> exec_all cs m = Some m' \<and>
      (\<forall>p \<in> live s. \<forall>x. holds m (fs_heap s p) x \<longrightarrow> stored (fs_heap s p) m' = x))"
proof -
  have ok: "alloc_ok s" by (rule reach_ok[OF assms(1)])
  note e = EvictAll_ok[OF assms(2) ok]
  have s': "alloc_ok s'" "runs {} s s'" "others s' = others s" "live s' = live s"
    using e(1) spilled_live[OF e(1)] by (simp_all add: spilled_def)
  have out: "\<not> a_inreg (fs_heap s' p)" if "p \<in> live s" for p
    using in_regs[OF s'(1), of p] that s'(4) e(2) by auto
  have "set (fs_lru s') = dom (fs_regs s')" using s'(1) by (simp add: alloc_ok_def tables_ok_def)
  then have lru: "fs_lru s' = []" using e(2) by simp
  have held: "held (fs_rs s') = others s" using held_split[OF s'(1)] e(2) s'(3) by simp
  have st: "stored (fs_heap s' p) = stored (fs_heap s p)" for p
    using spilled_frozen[OF e(1)] by (simp add: frozen_def stored_def fun_eq_iff)
  obtain cs m' where cs: "fs_code s' = fs_code s @ cs" "exec_all cs m = Some m'"
    "\<forall>q \<in> live s. \<forall>x. holds m (fs_heap s q) x \<longrightarrow> holds m' (fs_heap s' q) x"
    using runsD[OF s'(2) assms(3)] s'(4) by auto
  have "\<forall>p \<in> live s. \<forall>x. holds m (fs_heap s p) x \<longrightarrow> stored (fs_heap s p) m' = x"
    using cs(3) out st by (fastforce simp: holds_def)
  with cs out lru held show ?thesis by blast
qed

theorem all_spilled_witness:
  "\<exists>c. \<forall>m. \<exists>cs m'. exec_all cs m = Some m' \<and> stored (fs_heap (loaded_x c) 0) m' = read_reg R10 m"
proof -
  obtain c where c: "alloc_reach small_asm True (loaded_x c)" using small_reach by blast
  have live: "live (loaded_x c) = {0}" by (simp add: live_def loaded_x_def)
  have h: "\<forall>p \<in> live (loaded_x c). points m (fs_heap (loaded_x c) p)" "holds m (fs_heap (loaded_x c) 0) (read_reg R10 m)" for m
    by (simp_all add: live points_def holds_def)
  show ?thesis using all_spilled[OF c small_store(2) h(1)] h(2) live by (intro exI[of _ c]) blast
qed

text \<open>C12. Register allocator, calls: after \<open>EvictForCall\<close> no variable is in a register the callee may
  overwrite, and the inserted code keeps the value of every variable, those in callee-saved registers
  and those stored.\<close>

theorem call_ready:
  assumes "alloc_reach a True s" "EvictForCall a s = Some s'" "\<forall>p \<in> live s. points m (fs_heap s p)"
  shows "(\<forall>p \<in> live s. a_inreg (fs_heap s' p) \<longrightarrow> (\<forall>r \<in> set caller_saved. \<not> overlap r (a_reg (fs_heap s' p)))) \<and>
    (\<exists>cs m'. fs_code s' = fs_code s @ cs \<and> exec_all cs m = Some m' \<and>
      (\<forall>p \<in> live s. \<forall>x. holds m (fs_heap s p) x \<longrightarrow> holds m' (fs_heap s' p) x))"
proof -
  have ok: "alloc_ok s" by (rule reach_ok[OF assms(1)])
  note e = EvictForCall_ok[OF assms(2) ok]
  have s': "alloc_ok s'" "runs {} s s'" "others s' = others s" "live s' = live s"
    using e(1) spilled_live[OF e(1)] by (simp_all add: spilled_def)
  have "\<not> overlap r (a_reg (fs_heap s' p))" if "p \<in> live s" "a_inreg (fs_heap s' p)" "r \<in> set caller_saved" for p r
  proof
    assume o': "overlap r (a_reg (fs_heap s' p))"
    have p: "p \<in> live s'" using that(1) s'(4) by simp
    from e(2) that(3) in_reg_held[OF s'(1) p that(2)] o' s'(3) have "a_reg (fs_heap s' p) \<in> others s'" by auto
    with in_regs[OF s'(1) p that(2)] show False by (auto simp: others_def)
  qed
  with runsD[OF s'(2) assms(3)] s'(4) show ?thesis by auto
qed

theorem call_ready_witness:
  "\<forall>m. \<exists>c s' cs m'. EvictForCall small_asm (loaded_x c) = Some s' \<and> \<not> a_inreg (fs_heap s' 0) \<and>
    exec_all cs m = Some m' \<and> holds m' (fs_heap s' 0) (read_reg R10 m)"
proof
  fix m :: mach
  obtain c where c: "alloc_reach small_asm True (loaded_x c)" using small_reach by blast
  have e: "EvictForCall small_asm (loaded_x c) = Some (stored_x c)"
    by (simp add: EvictForCall_def caller_saved_def EvictReg_def Conflicts_def frame_regs_def new_reg managed_def small_store(1)
      stored_x_def del: le_bytes.simps)
  have live: "live (loaded_x c) = {0}" by (simp add: live_def loaded_x_def)
  have h: "\<forall>p \<in> live (loaded_x c). points m (fs_heap (loaded_x c) p)" "holds m (fs_heap (loaded_x c) 0) (read_reg R10 m)" for m
    by (simp_all add: live points_def holds_def)
  have "\<not> a_inreg (fs_heap (stored_x c) 0)" by (simp add: stored_x_def)
  with call_ready[OF c e h(1), of m] h(2)[of m] live e show "\<exists>c s' cs m'. EvictForCall small_asm (loaded_x c) = Some s' \<and> \<not> a_inreg (fs_heap s' 0) \<and>
    exec_all cs m = Some m' \<and> holds m' (fs_heap s' 0) (read_reg R10 m)" by blast
qed




text \<open>C16. Instruction encoder, termination: the loop of \<open>Asm.Encode\<close> that puts variables into registers until
  a form fits ends within one round more than there are operands.\<close>

theorem encode_ends:
  assumes "length os < k"
  shows "encode_rounds k a instr fs m os os s = Some (encode_loop a instr fs m os os s)"
  using rounds_loop[of os os k] to_try_length[of os os] assms by simp

theorem encode_ends_witness:
  "\<forall>s. encode_rounds 3 small_asm ''MOV'' [] '''' [OReg R_RBP, OReg R_RSP] [OReg R_RBP, OReg R_RSP] s =
    Some (encode_loop small_asm ''MOV'' [] '''' [OReg R_RBP, OReg R_RSP] [OReg R_RBP, OReg R_RSP] s)"
  by (intro allI encode_ends) simp

section \<open>Deviations\<close>

text \<open>
  \<open>Rallocs.Evict\<close> stops at the least recently used register that is wide enough.  For an 8-bit variable
  that may be RSI or RDI (those of the first two arguments), whose low bytes \<open>Get\<close> never hands out:
  \<open>Register\<close> then panics although evicting another variable would have made room.
\<close>

lemma unused8_same:
  assumes "\<And>r f. r \<in> set rl \<Longrightarrow> fullReg r = Some f \<Longrightarrow> rs' r = rs r \<and> rs' f = rs f" "\<And>r. r \<in> set rl \<Longrightarrow> fullReg r \<noteq> None"
  shows "unused8_in rl rs' = unused8_in rl rs"
  using assms
proof (induction rl)
  case (Cons r rl)
  obtain f where f: "fullReg r = Some f" using Cons.prems(2)[of r] by auto
  have "rs' r = rs r" "rs' f = rs f" using Cons.prems(1)[of r f] f by simp_all
  moreover have "unused8_in rl rs' = unused8_in rl rs" by (rule Cons.IH) (use Cons.prems in \<open>meson list.set_intros(2)\<close>)+
  ultimately show ?case by (simp only: unused8_in.simps f Option.bind.simps)
qed simp

lemma Release_same:
  assumes "Release r rs = Some rs'" "fullReg r = Some f" "x \<noteq> r" "x \<noteq> f"
  shows "rs' x = rs x"
proof -
  have same: "t x = u x" if "set_inuse q b u = Some t" "q \<in> {r, f}" for q b t u
    using that assms(3,4) by (auto simp: set_inuse_def bind_eq_Some_conv)
  show ?thesis
  proof (cases "Width r = Some 8")
    case True
    with assms(1,2) have "\<exists>u b. set_inuse r False rs = Some u \<and> set_inuse f b u = Some rs'"
      by (auto simp: Release_def bind_eq_Some_conv split: option.splits if_split_asm)
    then obtain u b where "set_inuse r False rs = Some u" "set_inuse f b u = Some rs'" by blast
    with same[of r False rs u] same[of f b u rs'] show ?thesis by simp
  next
    case False
    with assms(1,2) have "set_inuse f False rs = Some rs'" by (auto simp: Release_def bind_eq_Some_conv)
    with same[of f False rs rs'] show ?thesis by simp
  qed
qed

lemma byte_variable_stuck:
  assumes "alloc_reach a True s" "Get 8 (fs_rs s) = Some (None, rs)" "fs_lru s = r # rest" "fullReg r \<in> {Some R_RSI, Some R_RDI}"
  shows "obtain_reg a 8 s = None"
proof -
  have ok: "alloc_ok s" by (rule reach_ok[OF assms(1)])
  have u: "unused8_in regs8 (fs_rs s) = Some None" "rs = fs_rs s"
    using assms(2) by (auto simp: Get_def unused8_def bind_eq_Some_conv split: option.splits)
  obtain w where w: "Width r = Some w" "8 \<le> w" using assms(4) by (cases r) auto
  have ev: "evict_lru a 8 (r # rest) s = None \<or> (\<exists>t. evict_lru a 8 (r # rest) s = Some (None, t))"
  proof (cases "fs_regs s r")
    case (Some p)
    note p = regs_of[OF ok Some]
    show ?thesis
    proof (cases "Evict a p s")
      case e: (Some x)
      obtain r' t where x: "x = (r', t)" by (cases x)
      have ev: "Evict a p s = Some (r', t)" using e x by simp
      obtain rs' where rs': "Release r' (fs_rs s) = Some rs'" "t = (dropped True p rs' s)\<lparr>fs_fn := fs_fn t, fs_code := fs_code t\<rparr>"
        using Evict_sel(3)[OF ev ok conjunct1[OF p]] by blast
      have "fs_rs t = rs'" by (subst rs'(2)) simp
      moreover have "r' = r" using Evict_sel(2)[OF ev ok conjunct1[OF p]] p by simp
      ultimately have rel: "Release r (fs_rs s) = Some (fs_rs t)" using rs'(1) by simp
      have "unused8_in regs8 (fs_rs t) = unused8_in regs8 (fs_rs s)"
      proof (rule unused8_same)
        fix q f assume q: "q \<in> set regs8" "fullReg q = Some f"
        obtain g where g: "fullReg r = Some g" "g \<in> {R_RSI, R_RDI}" using assms(4) by auto
        have "q \<noteq> r" "q \<noteq> g" "f \<noteq> r" "f \<noteq> g" using q g by (auto simp: regs8_def)
        then show "fs_rs t q = fs_rs s q \<and> fs_rs t f = fs_rs s f" using Release_same[OF rel g(1)] by blast
      qed (auto simp: regs8_def)
      then have "Get 8 (fs_rs t) = Some (None, fs_rs t)" using u(1) by (simp add: Get_def unused8_def)
      then show ?thesis using w Some ev by simp
    qed (use w Some in simp)
  qed (use w in simp)
  have "s\<lparr>fs_rs := fs_rs s\<rparr> = s" by simp
  with ev show ?thesis using assms(2,3) u(2) by (auto simp: obtain_reg_def Rallocs_Evict_def simp del: evict_lru.simps)
qed

end
