(* ===== verification/TypeInfo.thy ===== *)
theory TypeInfo
  imports ObjFile
begin

text \<open>
  The layout of type descriptors and interface descriptors, \<open>typeinfo.go\<close>: a fixed head, a table of
  methods, the texts and the borrow masks, with offsets relative to the start of the block.
  The theorem: a descriptor that is laid out can be decoded again, whatever its texts and masks.
\<close>

section \<open>Records\<close>

definition KindTypedesc :: string where "KindTypedesc = ''typedesc''"
definition KindTypedescCache :: string where "KindTypedescCache = ''typedesc_cache''"
definition KindIfaceDesc :: string where "KindIfaceDesc = ''iface_desc''"

record TypedescMethod =
  tm_Name :: string
  tm_Sig :: string
  tm_NameHash :: "64 word"
  tm_SigHash :: "64 word"
  tm_RecvShape :: "64 word"
  tm_FnSym :: string
  tm_SlotMasks :: "64 word list"

record TypedescRecord =
  tr_TypeName :: string
  tr_SizeBytes :: "64 word"
  tr_CacheSym :: string
  tr_Methods :: "TypedescMethod list"

record IfaceDescMethod =
  dm_Name :: string
  dm_Sig :: string
  dm_NameHash :: "64 word"
  dm_SigHash :: "64 word"
  dm_DeclIdx :: "64 word"
  dm_SlotMasks :: "64 word list"

record IfaceDescRecord =
  ir_IfaceName :: string
  ir_Methods :: "IfaceDescMethod list"

definition tdHeadFixed :: nat where "tdHeadFixed = 40"
definition tdMethodStride :: nat where "tdMethodStride = 72"
definition tdMethodMaskOff :: nat where "tdMethodMaskOff = 64"
definition tdCacheRefOff :: nat where "tdCacheRefOff = 24"
definition idHeadFixed :: nat where "idHeadFixed = 24"
definition idMethodStride :: nat where "idMethodStride = 64"
definition idMethodMaskOff :: nat where "idMethodMaskOff = 56"

section \<open>Encoding\<close>

definition u64_bytes :: "64 word \<Rightarrow> byte list" where
  "u64_bytes v = le_bytes 8 (unat v)"

text \<open>\<open>binary.LittleEndian.PutUint64(buf[off:], v)\<close>; every use is within the buffer.\<close>

definition putU64 :: "nat \<Rightarrow> 64 word \<Rightarrow> byte list \<Rightarrow> byte list" where
  "putU64 off v buf = overwrite buf off (u64_bytes v)"

text \<open>\<open>addStr\<close>: the offset and the length of the text, and the texts so far.\<close>

definition addStr :: "nat \<Rightarrow> string \<Rightarrow> byte list \<Rightarrow> 64 word \<times> 64 word \<times> byte list" where
  "addStr blobStart s blob = (of_nat (blobStart + length blob), of_nat (length s), blob @ str_bytes s)"

definition encodeSlotMasks :: "64 word list \<Rightarrow> byte list" where
  "encodeSlotMasks masks = u64_bytes (of_nat (length masks)) @ concat (map u64_bytes masks)"

text \<open>The second loop: the mask region, and the field of each method that borrows.\<close>

fun put_masks :: "nat \<Rightarrow> nat \<Rightarrow> nat \<Rightarrow> nat \<Rightarrow> 64 word list list \<Rightarrow> byte list \<times> byte list \<Rightarrow> byte list \<times> byte list" where
  "put_masks head stride off start [] st = st"
| "put_masks head stride off start (m # ms) (buf, masks) = put_masks (head + stride) stride off start ms
     (if m = [] then (buf, masks)
      else (putU64 (head + off) (of_nat (start + length masks)) buf, masks @ encodeSlotMasks m))"

fun td_methods :: "nat \<Rightarrow> nat \<Rightarrow> TypedescMethod list \<Rightarrow> byte list \<times> byte list \<times> DataReloc list \<Rightarrow>
    byte list \<times> byte list \<times> DataReloc list" where
  "td_methods blobStart base [] st = st"
| "td_methods blobStart base (m # ms) (buf, blob, relocs) =
     (let (moff, mlen, blob) = addStr blobStart (tm_Name m) blob;
          (soff, slen, blob) = addStr blobStart (tm_Sig m) blob;
          buf = putU64 base moff buf;
          buf = putU64 (base + 8) mlen buf;
          buf = putU64 (base + 16) soff buf;
          buf = putU64 (base + 24) slen buf;
          buf = putU64 (base + 32) (tm_NameHash m) buf;
          buf = putU64 (base + 40) (tm_SigHash m) buf;
          buf = putU64 (base + 48) (tm_RecvShape m) buf;
          buf = putU64 (base + 56) 0 buf;
          buf = putU64 (base + tdMethodMaskOff) 0 buf
      in td_methods blobStart (base + tdMethodStride) ms
           (buf, blob, relocs @ [\<lparr>dr_Offset = of_nat (base + 56), dr_Symbol = tm_FnSym m, dr_Addend = 0\<rparr>]))"

definition EncodeTypedesc :: "TypedescRecord \<Rightarrow> byte list \<times> DataReloc list" where
  "EncodeTypedesc rec =
     (let n = length (tr_Methods rec);
          blobStart = tdHeadFixed + n * tdMethodStride;
          buf = replicate blobStart 0;
          (nameOff, nameLen, blob) = addStr blobStart (tr_TypeName rec) [];
          buf = putU64 0 nameOff buf;
          buf = putU64 8 nameLen buf;
          buf = putU64 16 (tr_SizeBytes rec) buf;
          buf = putU64 24 0 buf;
          buf = putU64 32 (of_nat n) buf;
          relocs = [\<lparr>dr_Offset = of_nat tdCacheRefOff, dr_Symbol = tr_CacheSym rec, dr_Addend = 0\<rparr>];
          (buf, blob, relocs) = td_methods blobStart tdHeadFixed (tr_Methods rec) (buf, blob, relocs);
          (buf, masks) = put_masks tdHeadFixed tdMethodStride tdMethodMaskOff (blobStart + length blob)
            (map tm_SlotMasks (tr_Methods rec)) (buf, [])
      in (buf @ blob @ masks, relocs))"

fun id_methods :: "nat \<Rightarrow> nat \<Rightarrow> IfaceDescMethod list \<Rightarrow> byte list \<times> byte list \<Rightarrow> byte list \<times> byte list" where
  "id_methods blobStart base [] st = st"
| "id_methods blobStart base (m # ms) (buf, blob) =
     (let (moff, mlen, blob) = addStr blobStart (dm_Name m) blob;
          (soff, slen, blob) = addStr blobStart (dm_Sig m) blob;
          buf = putU64 base moff buf;
          buf = putU64 (base + 8) mlen buf;
          buf = putU64 (base + 16) soff buf;
          buf = putU64 (base + 24) slen buf;
          buf = putU64 (base + 32) (dm_NameHash m) buf;
          buf = putU64 (base + 40) (dm_SigHash m) buf;
          buf = putU64 (base + 48) (dm_DeclIdx m) buf;
          buf = putU64 (base + idMethodMaskOff) 0 buf
      in id_methods blobStart (base + idMethodStride) ms (buf, blob))"

definition EncodeIfaceDesc :: "IfaceDescRecord \<Rightarrow> byte list \<times> DataReloc list" where
  "EncodeIfaceDesc rec =
     (let n = length (ir_Methods rec);
          blobStart = idHeadFixed + n * idMethodStride;
          buf = replicate blobStart 0;
          (nameOff, nameLen, blob) = addStr blobStart (ir_IfaceName rec) [];
          buf = putU64 0 nameOff buf;
          buf = putU64 8 nameLen buf;
          buf = putU64 16 (of_nat n) buf;
          (buf, blob) = id_methods blobStart idHeadFixed (ir_Methods rec) (buf, blob);
          (buf, masks) = put_masks idHeadFixed idMethodStride idMethodMaskOff (blobStart + length blob)
            (map dm_SlotMasks (ir_Methods rec)) (buf, [])
      in (buf @ blob @ masks, []))"

section \<open>Decoding\<close>

text \<open>\<open>binary.LittleEndian.Uint64(b[off:])\<close>, a panic behind the end.\<close>

definition getU64 :: "byte list \<Rightarrow> nat \<Rightarrow> 64 word option" where
  "getU64 b off = (if off + 8 > length b then None else Some (of_nat (le_nat (take 8 (drop off b)))))"

text \<open>The sum of offset and length may wrap; slicing backwards is a panic.\<close>

definition getStr :: "byte list \<Rightarrow> 64 word \<Rightarrow> 64 word \<Rightarrow> string option" where
  "getStr b off len =
     (if off + len > of_nat (length b) then Some ''''
      else if off > off + len then None
      else Some (bytes_str (take (unat len) (drop (unat off) b))))"

fun read_masks :: "byte list \<Rightarrow> nat \<Rightarrow> nat \<Rightarrow> 64 word list option" where
  "read_masks b off 0 = Some []"
| "read_masks b off (Suc n) = do { m \<leftarrow> getU64 b off; ms \<leftarrow> read_masks b (off + 8) n; Some (m # ms) }"

text \<open>The size test may wrap as well; \<open>make\<close> panics on a count beyond the address space.\<close>

definition decodeSlotMasks :: "byte list \<Rightarrow> 64 word \<Rightarrow> 64 word list option" where
  "decodeSlotMasks b off =
     (if off = 0 \<or> off + 8 > of_nat (length b) then Some []
      else do {
        n \<leftarrow> getU64 b (unat off);
        if off + 8 + 8 * n > of_nat (length b) then Some []
        else if 8 * uint n > maxAlloc then None
        else read_masks b (unat off + 8) (unat n) })"

definition relAt :: "DataReloc list \<Rightarrow> 32 word \<Rightarrow> string" where
  "relAt rs off = (case filter (\<lambda>r. dr_Offset r = off) rs of [] \<Rightarrow> '''' | r # _ \<Rightarrow> dr_Symbol r)"

definition td_method_at :: "byte list \<Rightarrow> DataReloc list \<Rightarrow> nat \<Rightarrow> TypedescMethod option" where
  "td_method_at b rs base = do {
     o1 \<leftarrow> getU64 b base; l1 \<leftarrow> getU64 b (base + 8); n \<leftarrow> getStr b o1 l1;
     o2 \<leftarrow> getU64 b (base + 16); l2 \<leftarrow> getU64 b (base + 24); sg \<leftarrow> getStr b o2 l2;
     nh \<leftarrow> getU64 b (base + 32); sh \<leftarrow> getU64 b (base + 40); sp \<leftarrow> getU64 b (base + 48);
     mo \<leftarrow> getU64 b (base + tdMethodMaskOff); ms \<leftarrow> decodeSlotMasks b mo;
     Some \<lparr>tm_Name = n, tm_Sig = sg, tm_NameHash = nh, tm_SigHash = sh, tm_RecvShape = sp,
       tm_FnSym = relAt rs (of_nat (base + 56)), tm_SlotMasks = ms\<rparr> }"

fun td_read :: "byte list \<Rightarrow> DataReloc list \<Rightarrow> nat \<Rightarrow> nat \<Rightarrow> TypedescMethod list option" where
  "td_read b rs base 0 = Some []"
| "td_read b rs base (Suc n) =
     (if base + tdMethodStride > length b then Some []
      else do { m \<leftarrow> td_method_at b rs base; ms \<leftarrow> td_read b rs (base + tdMethodStride) n; Some (m # ms) })"

text \<open>\<open>int(n)\<close> of a count is negative from \<open>2 ^ 63\<close> on, and then no method is read.\<close>

definition method_count :: "64 word \<Rightarrow> nat" where
  "method_count n = (if sint n < 0 then 0 else unat n)"

definition DecodeTypedesc :: "byte list \<Rightarrow> DataReloc list \<Rightarrow> TypedescRecord option" where
  "DecodeTypedesc b rs =
     (if length b < tdHeadFixed then Some \<lparr>tr_TypeName = '''', tr_SizeBytes = 0, tr_CacheSym = '''', tr_Methods = []\<rparr>
      else do {
        no \<leftarrow> getU64 b 0; nl \<leftarrow> getU64 b 8; name \<leftarrow> getStr b no nl;
        sz \<leftarrow> getU64 b 16; n \<leftarrow> getU64 b 32;
        ms \<leftarrow> td_read b rs tdHeadFixed (method_count n);
        Some \<lparr>tr_TypeName = name, tr_SizeBytes = sz, tr_CacheSym = relAt rs (of_nat tdCacheRefOff), tr_Methods = ms\<rparr> })"

definition id_method_at :: "byte list \<Rightarrow> nat \<Rightarrow> IfaceDescMethod option" where
  "id_method_at b base = do {
     o1 \<leftarrow> getU64 b base; l1 \<leftarrow> getU64 b (base + 8); n \<leftarrow> getStr b o1 l1;
     o2 \<leftarrow> getU64 b (base + 16); l2 \<leftarrow> getU64 b (base + 24); sg \<leftarrow> getStr b o2 l2;
     nh \<leftarrow> getU64 b (base + 32); sh \<leftarrow> getU64 b (base + 40); di \<leftarrow> getU64 b (base + 48);
     mo \<leftarrow> getU64 b (base + idMethodMaskOff); ms \<leftarrow> decodeSlotMasks b mo;
     Some \<lparr>dm_Name = n, dm_Sig = sg, dm_NameHash = nh, dm_SigHash = sh, dm_DeclIdx = di, dm_SlotMasks = ms\<rparr> }"

fun id_read :: "byte list \<Rightarrow> nat \<Rightarrow> nat \<Rightarrow> IfaceDescMethod list option" where
  "id_read b base 0 = Some []"
| "id_read b base (Suc n) =
     (if base + idMethodStride > length b then Some []
      else do { m \<leftarrow> id_method_at b base; ms \<leftarrow> id_read b (base + idMethodStride) n; Some (m # ms) })"

definition DecodeIfaceDesc :: "byte list \<Rightarrow> IfaceDescRecord option" where
  "DecodeIfaceDesc b =
     (if length b < idHeadFixed then Some \<lparr>ir_IfaceName = '''', ir_Methods = []\<rparr>
      else do {
        no \<leftarrow> getU64 b 0; nl \<leftarrow> getU64 b 8; name \<leftarrow> getStr b no nl;
        n \<leftarrow> getU64 b 16;
        ms \<leftarrow> id_read b idHeadFixed (method_count n);
        Some \<lparr>ir_IfaceName = name, ir_Methods = ms\<rparr> })"

section \<open>Reading what was put\<close>

lemma length_u64 [simp]: "length (u64_bytes v) = 8"
  by (simp add: u64_bytes_def)

lemma length_putU64 [simp]: "length (putU64 off v buf) = length buf"
  by (simp add: putU64_def)

lemma u64_read: "of_nat (le_nat (u64_bytes v)) = v"
proof -
  have "unat v mod 256 ^ 8 = unat v" using unsigned_less[of v, where ?'a = nat] by (intro mod_less) simp
  then show ?thesis by (simp add: u64_bytes_def le_nat_le_bytes)
qed

lemma getU64_here: "take 8 (drop off b) = u64_bytes v \<Longrightarrow> off + 8 \<le> length b \<Longrightarrow> getU64 b off = Some v"
  by (simp add: getU64_def u64_read)

lemma getU64_put: "off + 8 \<le> length buf \<Longrightarrow> getU64 (putU64 off v buf) off = Some v"
  by (rule getU64_here) (simp_all add: putU64_def overwrite_def)

lemma getU64_other:
  assumes "o' + 8 \<le> off \<or> off + 8 \<le> o'"
  shows "getU64 (putU64 off v buf) o' = getU64 buf o'"
proof (cases "o' + 8 \<le> length buf")
  case True
  have "take 8 (drop o' (putU64 off v buf)) = take 8 (drop o' buf)"
  proof (rule nth_equalityI)
    fix i assume "i < length (take 8 (drop o' (putU64 off v buf)))"
    then have "i < 8" by simp
    then have "\<not> (off \<le> o' + i \<and> o' + i < off + length (u64_bytes v))" using assms by auto
    then have "overwrite buf off (u64_bytes v) ! (o' + i) = buf ! (o' + i)"
      by (rule nth_overwrite_out) (use True \<open>i < 8\<close> in simp)
    then show "take 8 (drop o' (putU64 off v buf)) ! i = take 8 (drop o' buf) ! i"
      using True \<open>i < 8\<close> by (simp add: putU64_def)
  qed simp
  then show ?thesis by (simp add: getU64_def)
qed (simp add: getU64_def)

lemma getU64_append: "off + 8 \<le> length b \<Longrightarrow> getU64 (b @ c) off = getU64 b off"
  by (simp add: getU64_def)

lemma getU64_Some: "getU64 b off = Some v \<Longrightarrow> off + 8 \<le> length b"
  by (simp add: getU64_def split: if_splits)

lemma getU64_longer: "getU64 b off = Some v \<Longrightarrow> getU64 (b @ c) off = Some v"
  using getU64_Some[of b off v] by (simp add: getU64_append)

section \<open>Texts\<close>

definition text_at :: "nat \<Rightarrow> byte list \<Rightarrow> byte list \<Rightarrow> nat \<Rightarrow> string \<Rightarrow> bool" where
  "text_at start buf blob off s \<longleftrightarrow> (\<exists>pos. getU64 buf off = Some (of_nat (start + pos)) \<and>
     getU64 buf (off + 8) = Some (of_nat (length s)) \<and> pos + length s \<le> length blob \<and> take (length s) (drop pos blob) = str_bytes s)"

lemma text_longer: "text_at start buf blob off s \<Longrightarrow> text_at start buf (blob @ ext) off s"
  unfolding text_at_def by (elim exE, rule_tac x = pos in exI) auto

lemma text_same:
  "text_at start buf blob off s \<Longrightarrow> getU64 buf' off = getU64 buf off \<Longrightarrow> getU64 buf' (off + 8) = getU64 buf (off + 8) \<Longrightarrow>
   text_at start buf' blob off s"
  by (simp add: text_at_def)

lemma text_read:
  assumes "text_at start buf blob off s" "length buf = start" "start + length blob + length masks < 2 ^ 64"
  shows "\<exists>o1 l1. getU64 (buf @ blob @ masks) off = Some o1 \<and> getU64 (buf @ blob @ masks) (off + 8) = Some l1 \<and>
    getStr (buf @ blob @ masks) o1 l1 = Some s"
proof -
  obtain pos where p: "getU64 buf off = Some (of_nat (start + pos))" "getU64 buf (off + 8) = Some (of_nat (length s))"
    "pos + length s \<le> length blob" "take (length s) (drop pos blob) = str_bytes s"
    using assms(1) by (auto simp: text_at_def)
  let ?b = "buf @ blob @ masks" and ?o = "of_nat (start + pos) :: 64 word" and ?l = "of_nat (length s) :: 64 word"
  have u: "unat ?o = start + pos" "unat ?l = length s" "unat (of_nat (length ?b) :: 64 word) = length ?b"
    using p(3) assms(2,3) by (auto simp: unat_of_nat simp del: of_nat_add intro!: mod_less)
  have e: "unat (?o + ?l) = start + pos + length s"
    using p(3) assms(3) u(1,2) by (simp add: unat_word_ariths del: of_nat_add)
  have "?o + ?l \<le> of_nat (length ?b)" "?o \<le> ?o + ?l"
    unfolding word_le_nat_alt e u using p(3) assms(2) by simp_all
  then have "getStr ?b ?o ?l = Some (bytes_str (take (unat ?l) (drop (unat ?o) ?b)))"
    by (simp add: getStr_def not_less[symmetric] del: of_nat_add)
  also have "take (unat ?l) (drop (unat ?o) ?b) = str_bytes s" using p(3,4) assms(2) by (simp add: u del: of_nat_add)
  finally have "getStr ?b ?o ?l = Some s" by (simp add: str_bytes_inverse)
  with p(1,2) show ?thesis by (intro exI[of _ ?o] exI[of _ ?l]) (simp add: getU64_longer)
qed

section \<open>Masks\<close>

lemma read_masks_ok: "read_masks (pre @ concat (map u64_bytes ms) @ rest) (length pre) (length ms) = Some ms"
proof (induction ms arbitrary: pre)
  case (Cons m ms)
  have "getU64 (pre @ u64_bytes m @ concat (map u64_bytes ms) @ rest) (length pre) = Some m"
    by (rule getU64_here) simp_all
  with Cons[of "pre @ u64_bytes m"] show ?case by simp
qed simp

lemma length_masks: "length (encodeSlotMasks ms) = 8 + 8 * length ms"
  by (induction ms) (simp_all add: encodeSlotMasks_def)

lemma decode_masks:
  assumes "0 < length pre" "length pre + length (encodeSlotMasks ms) + length rest < 2 ^ 47"
  shows "decodeSlotMasks (pre @ encodeSlotMasks ms @ rest) (of_nat (length pre)) = Some ms"
proof -
  let ?b = "pre @ encodeSlotMasks ms @ rest" and ?o = "of_nat (length pre) :: 64 word" and ?n = "of_nat (length ms) :: 64 word"
  have len: "length ?b = length pre + 8 + 8 * length ms + length rest" by (simp add: length_masks)
  have sm: "length ?b < 2 ^ 47" using assms(2) by simp
  have uo: "unat ?o = length pre" and un: "unat ?n = length ms"
    using sm len by (auto simp: unat_of_nat intro!: mod_less)
  have ul: "unat (of_nat (length ?b) :: 64 word) = length ?b"
    unfolding unat_of_nat by (rule mod_less) (use sm in simp)
  have o8: "unat (?o + 8) = length pre + 8" using uo sm len by (simp add: unat_word_ariths)
  have n8: "unat (8 * ?n) = 8 * length ms" using un sm len by (simp add: unat_word_ariths)
  have on: "unat (?o + 8 + 8 * ?n) = length pre + 8 + 8 * length ms"
    using o8 n8 sm len by (simp add: unat_word_ariths)
  have "?o \<noteq> 0" using uo assms(1) by (metis unat_0 less_numeral_extra(3))
  moreover have "\<not> ?o + 8 > of_nat (length ?b)" "\<not> ?o + 8 + 8 * ?n > of_nat (length ?b)"
    unfolding word_less_nat_alt ul o8 on using len by simp_all
  moreover have "getU64 ?b (unat ?o) = Some ?n"
    by (rule getU64_here) (simp_all add: uo encodeSlotMasks_def)
  moreover have "\<not> 8 * uint ?n > maxAlloc" using un sm len by (simp add: maxAlloc_def uint_nat)
  moreover have "read_masks ?b (unat ?o + 8) (unat ?n) = Some ms"
    using read_masks_ok[of "pre @ u64_bytes ?n" ms rest] by (simp add: uo un encodeSlotMasks_def)
  ultimately show ?thesis unfolding decodeSlotMasks_def by simp
qed

section \<open>The method tables\<close>

text \<open>The fields that the two tables share: the texts and three numbers of a row.\<close>

type_synonym row = "string \<times> string \<times> 64 word \<times> 64 word \<times> 64 word"

fun table :: "nat \<Rightarrow> nat \<Rightarrow> byte list \<Rightarrow> byte list \<Rightarrow> nat \<Rightarrow> row list \<Rightarrow> bool" where
  "table start stride buf blob base [] = True"
| "table start stride buf blob base ((n, s, u, v, w) # rs) =
     (text_at start buf blob base n \<and> text_at start buf blob (base + 16) s \<and> getU64 buf (base + 32) = Some u \<and>
      getU64 buf (base + 40) = Some v \<and> getU64 buf (base + 48) = Some w \<and> table start stride buf blob (base + stride) rs)"

fun zeroes :: "nat \<Rightarrow> byte list \<Rightarrow> nat \<Rightarrow> nat \<Rightarrow> bool" where
  "zeroes stride buf a 0 = True"
| "zeroes stride buf a (Suc n) = (getU64 buf a = Some 0 \<and> zeroes stride buf (a + stride) n)"

fun mask_table :: "nat \<Rightarrow> nat \<Rightarrow> byte list \<Rightarrow> byte list \<Rightarrow> nat \<Rightarrow> 64 word list list \<Rightarrow> bool" where
  "mask_table start stride buf masks a [] = True"
| "mask_table start stride buf masks a (m # ms) =
     ((if m = [] then getU64 buf a = Some 0
       else \<exists>pre post. masks = pre @ encodeSlotMasks m @ post \<and> getU64 buf a = Some (of_nat (start + length pre))) \<and>
      mask_table start stride buf masks (a + stride) ms)"

definition td_row :: "TypedescMethod \<Rightarrow> row" where
  "td_row m = (tm_Name m, tm_Sig m, tm_NameHash m, tm_SigHash m, tm_RecvShape m)"

definition id_row :: "IfaceDescMethod \<Rightarrow> row" where
  "id_row m = (dm_Name m, dm_Sig m, dm_NameHash m, dm_SigHash m, dm_DeclIdx m)"

fun fn_relocs :: "nat \<Rightarrow> TypedescMethod list \<Rightarrow> DataReloc list" where
  "fn_relocs base [] = []"
| "fn_relocs base (m # ms) =
     \<lparr>dr_Offset = of_nat (base + 56), dr_Symbol = tm_FnSym m, dr_Addend = 0\<rparr> # fn_relocs (base + tdMethodStride) ms"

text \<open>A field inside a row, away from the field at \<open>off\<close>, or before the rows.\<close>

definition outside :: "nat \<Rightarrow> nat \<Rightarrow> nat \<Rightarrow> nat \<Rightarrow> bool" where
  "outside stride off head a \<longleftrightarrow> a + 8 \<le> head \<or> (head \<le> a \<and> (a - head) mod stride + 8 \<le> off)"

lemma mod_row: "head + stride \<le> a \<Longrightarrow> (a - head) mod stride = (a - (head + stride)) mod (stride::nat)"
  using le_mod_geq[of stride "a - head"] by (simp add: diff_diff_left)

lemma outside_next:
  assumes "outside stride off head a" "off + 8 \<le> stride"
  shows "outside stride off (head + stride) a"
proof (cases "a < head + stride")
  case True
  have "a + 8 \<le> head + stride"
  proof (cases "head \<le> a")
    case True
    with \<open>a < head + stride\<close> have "(a - head) mod stride = a - head" by (intro mod_less) linarith
    with assms True show ?thesis by (auto simp: outside_def)
  qed (use assms in \<open>auto simp: outside_def\<close>)
  then show ?thesis by (simp add: outside_def)
next
  case False
  then have "(a - head) mod stride = (a - (head + stride)) mod stride"
    by (simp add: mod_row)
  with False assms show ?thesis by (auto simp: outside_def)
qed

lemma outside_put:
  assumes "outside stride off head a" "off + 8 \<le> stride"
  shows "getU64 (putU64 (head + off) v buf) a = getU64 buf a"
proof (rule getU64_other)
  show "a + 8 \<le> head + off \<or> head + off + 8 \<le> a"
  proof (cases "head \<le> a \<and> a < head + stride")
    case True
    then have "(a - head) mod stride = a - head" by (intro mod_less) linarith
    with assms True show ?thesis by (auto simp: outside_def)
  qed (use assms in \<open>auto simp: outside_def\<close>)
qed

lemma table_longer: "table start stride buf blob base rs \<Longrightarrow> table start stride buf (blob @ ext) base rs"
  by (induction start stride buf blob base rs rule: table.induct) (simp_all add: text_longer)

lemma table_same:
  "table start stride buf blob base rs \<Longrightarrow> 56 \<le> off \<Longrightarrow> off + 8 \<le> stride \<Longrightarrow>
   (\<And>a. base \<le> a \<Longrightarrow> outside stride off base a \<Longrightarrow> getU64 buf' a = getU64 buf a) \<Longrightarrow> table start stride buf' blob base rs"
proof (induction start stride buf blob base rs rule: table.induct)
  case (2 start stride buf blob base n s u v w rs)
  have row: "getU64 buf' (base + k) = getU64 buf (base + k)" if "k + 8 \<le> 56" for k
    by (rule 2(5)) (use that 2(3,4) in \<open>simp_all add: outside_def\<close>)
  have "table start stride buf' blob (base + stride) rs"
  proof (rule 2(1))
    fix a assume a: "base + stride \<le> a" "outside stride off (base + stride) a"
    then have "(a - base) mod stride = (a - (base + stride)) mod stride"
      by (simp add: mod_row)
    with a show "getU64 buf' a = getU64 buf a" using 2(4) by (intro 2(5)) (auto simp: outside_def)
  qed (use 2 in auto)
  moreover have "text_at start buf' blob base n" "text_at start buf' blob (base + 16) s"
    using 2(2) row[of 0] row[of 8] row[of 16] row[of 24] by (auto elim!: text_same simp: algebra_simps)
  ultimately show ?case using 2(2) row[of 32] row[of 40] row[of 48] by simp
qed simp

lemma zeroes_before: "zeroes stride buf a n \<Longrightarrow> h + 8 \<le> a \<Longrightarrow> zeroes stride (putU64 h v buf) a n"
  by (induction stride buf a n rule: zeroes.induct) (simp_all add: getU64_other)

lemma put_masks_ok:
  "put_masks head stride off start ms (buf, masks) = (buf', masks') \<Longrightarrow> off + 8 \<le> stride \<Longrightarrow>
   head + length ms * stride \<le> length buf \<Longrightarrow> zeroes stride buf (head + off) (length ms) \<Longrightarrow>
   length buf' = length buf \<and> (\<exists>ext. masks' = masks @ ext) \<and> (\<forall>a. outside stride off head a \<longrightarrow> getU64 buf' a = getU64 buf a) \<and>
   mask_table start stride buf' masks' (head + off) ms"
proof (induction ms arbitrary: head buf masks)
  case (Cons m ms)
  define buf1 where "buf1 = (if m = [] then buf else putU64 (head + off) (of_nat (start + length masks)) buf)"
  define masks1 where "masks1 = (if m = [] then masks else masks @ encodeSlotMasks m)"
  have run: "put_masks (head + stride) stride off start ms (buf1, masks1) = (buf', masks')"
    using Cons.prems(1) by (simp add: buf1_def masks1_def split: if_splits)
  have z: "zeroes stride buf1 (head + stride + off) (length ms)"
    using Cons.prems(2,4) by (simp add: buf1_def zeroes_before algebra_simps)
  have l1: "length buf1 = length buf" by (simp add: buf1_def)
  have IH: "length buf' = length buf1" "\<exists>ext. masks' = masks1 @ ext"
    "outside stride off (head + stride) a \<Longrightarrow> getU64 buf' a = getU64 buf1 a"
    "mask_table start stride buf' masks' (head + stride + off) ms" for a
    using Cons.IH[OF run Cons.prems(2) _ z] Cons.prems(3) l1 by (auto simp: algebra_simps)
  have "getU64 buf' a = getU64 buf a" if "outside stride off head a" for a
    using IH(3)[OF outside_next[OF that Cons.prems(2)]] outside_put[OF that Cons.prems(2)] by (simp add: buf1_def)
  moreover have "getU64 buf' (head + off) = getU64 buf1 (head + off)"
    by (rule IH(3)) (use Cons.prems(2) in \<open>simp add: outside_def\<close>)
  moreover have "getU64 buf1 (head + off) = Some (if m = [] then 0 else of_nat (start + length masks))"
    using Cons.prems(2-4) by (simp add: buf1_def getU64_put)
  moreover obtain ext where "masks' = masks1 @ ext" using IH(2) by blast
  ultimately show ?case using IH(1,4) l1 by (auto simp: masks1_def algebra_simps)
qed simp

definition row_put :: "nat \<Rightarrow> nat \<Rightarrow> byte list \<Rightarrow> row \<Rightarrow> byte list \<Rightarrow> byte list" where
  "row_put start base blob r buf = (case r of (n, s, u, v, w) \<Rightarrow>
     putU64 (base + 48) w (putU64 (base + 40) v (putU64 (base + 32) u
       (putU64 (base + 24) (of_nat (length s)) (putU64 (base + 16) (of_nat (start + length (blob @ str_bytes n)))
         (putU64 (base + 8) (of_nat (length n)) (putU64 base (of_nat (start + length blob)) buf)))))))"

lemma length_row_put [simp]: "length (row_put start base blob r buf) = length buf"
  by (simp add: row_put_def split: prod.splits)

lemma row_put_before: "a + 8 \<le> base \<Longrightarrow> getU64 (row_put start base blob r buf) a = getU64 buf a"
  by (simp add: row_put_def getU64_other split: prod.splits)

lemma row_put_table:
  assumes "base + 56 \<le> length buf"
  shows "table start stride (row_put start base blob (n, s, u, v, w) buf) (blob @ str_bytes n @ str_bytes s) base [(n, s, u, v, w)]"
proof -
  let ?buf = "row_put start base blob (n, s, u, v, w) buf" and ?blob = "blob @ str_bytes n @ str_bytes s"
  have "text_at start ?buf ?blob base n"
    unfolding text_at_def using assms
    by (intro exI[of _ "length blob"]) (simp add: row_put_def getU64_other getU64_put)
  moreover have "text_at start ?buf ?blob (base + 16) s"
    unfolding text_at_def using assms
    by (intro exI[of _ "length (blob @ str_bytes n)"]) (simp add: row_put_def getU64_other getU64_put add.commute[of 24])
  ultimately show ?thesis using assms by (simp add: row_put_def getU64_other getU64_put)
qed

lemma table_Cons:
  "table start stride buf blob base (r # rs) \<longleftrightarrow> table start stride buf blob base [r] \<and> table start stride buf blob (base + stride) rs"
  by (cases r) auto

lemma row_same:
  "table start stride buf blob base [r] \<Longrightarrow> (\<And>a. base \<le> a \<Longrightarrow> a + 8 \<le> base + 56 \<Longrightarrow> getU64 buf' a = getU64 buf a) \<Longrightarrow>
   table start stride buf' blob base [r]"
  by (cases r) (auto elim!: text_same simp: algebra_simps)

text \<open>Both loops write a row and go on behind it; \<open>put\<close> is the loop and \<open>tl\<close> what it puts behind the seven fields.\<close>

lemma td_methods_ok:
  "td_methods start base ms (buf, blob, rl) = (buf', blob', rl') \<Longrightarrow> base + length ms * tdMethodStride \<le> length buf \<Longrightarrow>
   length buf' = length buf \<and> (\<exists>ext. blob' = blob @ ext) \<and> (\<forall>a. a + 8 \<le> base \<longrightarrow> getU64 buf' a = getU64 buf a) \<and>
   table start tdMethodStride buf' blob' base (map td_row ms) \<and> zeroes tdMethodStride buf' (base + tdMethodMaskOff) (length ms) \<and>
   rl' = rl @ fn_relocs base ms"
proof (induction ms arbitrary: base buf blob rl)
  case (Cons m ms)
  define buf1 where "buf1 = putU64 (base + 64) 0 (putU64 (base + 56) 0 (row_put start base blob (td_row m) buf))"
  define blob1 where "blob1 = blob @ str_bytes (tm_Name m) @ str_bytes (tm_Sig m)"
  have run: "td_methods start (base + tdMethodStride) ms
     (buf1, blob1, rl @ [\<lparr>dr_Offset = of_nat (base + 56), dr_Symbol = tm_FnSym m, dr_Addend = 0\<rparr>]) = (buf', blob', rl')"
    using Cons.prems(1) by (simp add: buf1_def blob1_def row_put_def td_row_def addStr_def Let_def tdMethodMaskOff_def)
  have l1: "length buf1 = length buf" by (simp add: buf1_def)
  have IH: "length buf' = length buf" "\<exists>ext. blob' = blob1 @ ext" "\<And>a. a + 8 \<le> base + 72 \<Longrightarrow> getU64 buf' a = getU64 buf1 a"
    "table start tdMethodStride buf' blob' (base + tdMethodStride) (map td_row ms)"
    "zeroes tdMethodStride buf' (base + tdMethodStride + tdMethodMaskOff) (length ms)"
    "rl' = rl @ fn_relocs base (m # ms)"
    using Cons.IH[OF run] Cons.prems(2) by (auto simp: l1 tdMethodStride_def)
  obtain ext where ext: "blob' = blob1 @ ext" using IH(2) by blast
  have "table start tdMethodStride (row_put start base blob (td_row m) buf) blob1 base [td_row m]"
    unfolding td_row_def blob1_def by (rule row_put_table) (use Cons.prems(2) in \<open>simp add: tdMethodStride_def\<close>)
  then have "table start tdMethodStride buf' blob1 base [td_row m]"
    by (rule row_same) (simp add: IH(3) buf1_def getU64_other)
  then have row: "table start tdMethodStride buf' blob' base [td_row m]" unfolding ext by (rule table_longer)
  moreover have "getU64 buf' (base + tdMethodMaskOff) = Some 0"
    using Cons.prems(2) by (simp add: IH(3) buf1_def getU64_put tdMethodMaskOff_def tdMethodStride_def)
  moreover have "getU64 buf' a = getU64 buf a" if "a + 8 \<le> base" for a
    using that by (simp add: IH(3) buf1_def getU64_other row_put_before)
  ultimately show ?case using IH(1,4-6) ext
    by (simp add: table_Cons[of _ _ _ _ _ "td_row m" "map td_row ms"] blob1_def algebra_simps)
qed simp

lemma id_methods_ok:
  "id_methods start base ms (buf, blob) = (buf', blob') \<Longrightarrow> base + length ms * idMethodStride \<le> length buf \<Longrightarrow>
   length buf' = length buf \<and> (\<exists>ext. blob' = blob @ ext) \<and> (\<forall>a. a + 8 \<le> base \<longrightarrow> getU64 buf' a = getU64 buf a) \<and>
   table start idMethodStride buf' blob' base (map id_row ms) \<and> zeroes idMethodStride buf' (base + idMethodMaskOff) (length ms)"
proof (induction ms arbitrary: base buf blob)
  case (Cons m ms)
  define buf1 where "buf1 = putU64 (base + 56) 0 (row_put start base blob (id_row m) buf)"
  define blob1 where "blob1 = blob @ str_bytes (dm_Name m) @ str_bytes (dm_Sig m)"
  have run: "id_methods start (base + idMethodStride) ms (buf1, blob1) = (buf', blob')"
    using Cons.prems(1) by (simp add: buf1_def blob1_def row_put_def id_row_def addStr_def Let_def idMethodMaskOff_def)
  have l1: "length buf1 = length buf" by (simp add: buf1_def)
  have IH: "length buf' = length buf" "\<exists>ext. blob' = blob1 @ ext" "\<And>a. a + 8 \<le> base + 64 \<Longrightarrow> getU64 buf' a = getU64 buf1 a"
    "table start idMethodStride buf' blob' (base + idMethodStride) (map id_row ms)"
    "zeroes idMethodStride buf' (base + idMethodStride + idMethodMaskOff) (length ms)"
    using Cons.IH[OF run] Cons.prems(2) by (auto simp: l1 idMethodStride_def)
  obtain ext where ext: "blob' = blob1 @ ext" using IH(2) by blast
  have "table start idMethodStride (row_put start base blob (id_row m) buf) blob1 base [id_row m]"
    unfolding id_row_def blob1_def by (rule row_put_table) (use Cons.prems(2) in \<open>simp add: idMethodStride_def\<close>)
  then have "table start idMethodStride buf' blob1 base [id_row m]"
    by (rule row_same) (simp add: IH(3) buf1_def getU64_other)
  then have row: "table start idMethodStride buf' blob' base [id_row m]" unfolding ext by (rule table_longer)
  moreover have "getU64 buf' (base + idMethodMaskOff) = Some 0"
    using Cons.prems(2) by (simp add: IH(3) buf1_def getU64_put idMethodMaskOff_def idMethodStride_def)
  moreover have "getU64 buf' a = getU64 buf a" if "a + 8 \<le> base" for a
    using that by (simp add: IH(3) buf1_def getU64_other row_put_before)
  ultimately show ?case using IH(1,4,5) ext
    by (simp add: table_Cons[of _ _ _ _ _ "id_row m" "map id_row ms"] blob1_def algebra_simps)
qed simp

section \<open>Reading the tables\<close>

lemma mask_read:
  assumes "mask_table start stride buf masks a (m # ms)" "b = buf @ blob @ masks" "start = length buf + length blob" "0 < start"
    "length b < 2 ^ 47"
  shows "\<exists>mo. getU64 b a = Some mo \<and> decodeSlotMasks b mo = Some m"
proof (cases "m = []")
  case True
  then show ?thesis using assms(1,2) by (auto simp: getU64_longer decodeSlotMasks_def intro!: exI[of _ "0 :: 64 word"])
next
  case False
  then obtain pre post where p: "masks = pre @ encodeSlotMasks m @ post" "getU64 buf a = Some (of_nat (start + length pre))"
    using assms(1) by auto
  have "decodeSlotMasks ((buf @ blob @ pre) @ encodeSlotMasks m @ post) (of_nat (length (buf @ blob @ pre))) = Some m"
    by (rule decode_masks) (use assms p in auto)
  then have "decodeSlotMasks b (of_nat (start + length pre)) = Some m"
    unfolding assms(2,3) p(1) by (simp only: append_assoc length_append add.assoc)
  moreover have "getU64 b a = Some (of_nat (start + length pre))" unfolding assms(2) by (rule getU64_longer[OF p(2)])
  ultimately show ?thesis by blast
qed

lemma row_read:
  assumes "table start stride buf blob base ((n, s, u, v, w) # rs)" "b = buf @ blob @ masks" "length buf = start" "length b < 2 ^ 47"
  shows "\<exists>o1 l1 o2 l2. getU64 b base = Some o1 \<and> getU64 b (base + 8) = Some l1 \<and> getStr b o1 l1 = Some n \<and>
    getU64 b (base + 16) = Some o2 \<and> getU64 b (base + 24) = Some l2 \<and> getStr b o2 l2 = Some s \<and>
    getU64 b (base + 32) = Some u \<and> getU64 b (base + 40) = Some v \<and> getU64 b (base + 48) = Some w"
proof -
  have l: "start + length blob + length masks < 2 ^ 64" using assms(2-4) by simp
  have t: "text_at start buf blob base n" "text_at start buf blob (base + 16) s"
    and f: "getU64 buf (base + 32) = Some u" "getU64 buf (base + 40) = Some v" "getU64 buf (base + 48) = Some w"
    using assms(1) by auto
  have e: "base + 16 + 8 = base + 24" by simp
  show ?thesis
    using text_read[OF t(1) assms(3) l] text_read[OF t(2) assms(3) l, unfolded e] f[THEN getU64_longer, of "blob @ masks"]
    unfolding assms(2) by blast
qed

lemma td_read_ok:
  assumes "length buf = start" "b = buf @ blob @ masks" "0 < start" "length b < 2 ^ 47"
  shows "table start tdMethodStride buf blob base (map td_row ms) \<Longrightarrow>
    mask_table (start + length blob) tdMethodStride buf masks (base + tdMethodMaskOff) (map tm_SlotMasks ms) \<Longrightarrow>
    base + length ms * tdMethodStride \<le> start \<Longrightarrow>
    \<forall>i < length ms. relAt rs (of_nat (base + i * tdMethodStride + 56)) = tm_FnSym (ms ! i) \<Longrightarrow>
    td_read b rs base (length ms) = Some ms"
proof (induction ms arbitrary: base)
  case (Cons m ms)
  have row: "table start tdMethodStride buf blob base
      ((tm_Name m, tm_Sig m, tm_NameHash m, tm_SigHash m, tm_RecvShape m) # map td_row ms)"
    using Cons.prems(1) by (simp add: td_row_def[of m])
  have msk: "\<exists>mo. getU64 b (base + tdMethodMaskOff) = Some mo \<and> decodeSlotMasks b mo = Some (tm_SlotMasks m)"
    by (rule mask_read[of "start + length blob" tdMethodStride buf masks _ _ "map tm_SlotMasks ms" _ blob])
      (use Cons.prems(2) assms in auto)
  have "relAt rs (of_nat (base + 56)) = tm_FnSym m" using Cons.prems(4) by (auto dest: spec[of _ 0])
  then have "td_method_at b rs base = Some m"
    using row_read[OF row assms(2,1,4)] msk by (auto simp: td_method_at_def bind_eq_Some_conv)
  moreover have "td_read b rs (base + tdMethodStride) (length ms) = Some ms"
  proof (rule Cons.IH)
    show "\<forall>i < length ms. relAt rs (of_nat (base + tdMethodStride + i * tdMethodStride + 56)) = tm_FnSym (ms ! i)"
    proof (intro allI impI)
      fix i assume "i < length ms"
      then have "relAt rs (of_nat (base + Suc i * tdMethodStride + 56)) = tm_FnSym ((m # ms) ! Suc i)"
        using Cons.prems(4) by (metis Suc_less_eq length_Cons)
      then show "relAt rs (of_nat (base + tdMethodStride + i * tdMethodStride + 56)) = tm_FnSym (ms ! i)"
        by (simp only: mult_Suc nth_Cons_Suc add.assoc)
    qed
  qed (use Cons.prems row in \<open>auto simp: algebra_simps\<close>)
  moreover have "base + tdMethodStride \<le> length b" using Cons.prems(3) assms(1,2) by simp
  ultimately show ?case by simp
qed simp

lemma id_read_ok:
  assumes "length buf = start" "b = buf @ blob @ masks" "0 < start" "length b < 2 ^ 47"
  shows "table start idMethodStride buf blob base (map id_row ms) \<Longrightarrow>
    mask_table (start + length blob) idMethodStride buf masks (base + idMethodMaskOff) (map dm_SlotMasks ms) \<Longrightarrow>
    base + length ms * idMethodStride \<le> start \<Longrightarrow> id_read b base (length ms) = Some ms"
proof (induction ms arbitrary: base)
  case (Cons m ms)
  have row: "table start idMethodStride buf blob base
      ((dm_Name m, dm_Sig m, dm_NameHash m, dm_SigHash m, dm_DeclIdx m) # map id_row ms)"
    using Cons.prems(1) by (simp add: id_row_def[of m])
  have msk: "\<exists>mo. getU64 b (base + idMethodMaskOff) = Some mo \<and> decodeSlotMasks b mo = Some (dm_SlotMasks m)"
    by (rule mask_read[of "start + length blob" idMethodStride buf masks _ _ "map dm_SlotMasks ms" _ blob])
      (use Cons.prems(2) assms in auto)
  have "id_method_at b base = Some m"
    using row_read[OF row assms(2,1,4)] msk by (auto simp: id_method_at_def bind_eq_Some_conv)
  moreover have "id_read b (base + idMethodStride) (length ms) = Some ms"
    by (rule Cons.IH) (use Cons.prems row in \<open>auto simp: algebra_simps\<close>)
  moreover have "base + idMethodStride \<le> length b" using Cons.prems(3) assms(1,2) by simp
  ultimately show ?case by simp
qed simp

text \<open>The relocations stand at offsets that do not meet, as long as the block is below \<open>2 ^ 32\<close>.\<close>

lemma of_nat32_eq: "a < 2 ^ 32 \<Longrightarrow> c < 2 ^ 32 \<Longrightarrow> (of_nat a :: 32 word) = of_nat c \<longleftrightarrow> a = c"
  by (auto dest!: arg_cong[where f = unat] simp: unat_of_nat)

lemma relAt_Cons: "relAt (r # rs) off = (if dr_Offset r = off then dr_Symbol r else relAt rs off)"
  by (simp add: relAt_def)

lemma fn_relocs_at:
  "base + length ms * tdMethodStride < 2 ^ 32 \<Longrightarrow> i < length ms \<Longrightarrow>
   relAt (fn_relocs base ms) (of_nat (base + i * tdMethodStride + 56)) = tm_FnSym (ms ! i)"
proof (induction ms arbitrary: base i)
  case (Cons m ms)
  show ?case
  proof (cases i)
    case (Suc j)
    have "j * 72 < length ms * 72" using Cons.prems(2) Suc by simp
    then have "(of_nat (base + 56) :: 32 word) \<noteq> of_nat (base + tdMethodStride + j * tdMethodStride + 56)"
      using Cons.prems(1) by (subst of_nat32_eq) (simp_all add: tdMethodStride_def)
    moreover have "relAt (fn_relocs (base + tdMethodStride) ms) (of_nat (base + tdMethodStride + j * tdMethodStride + 56)) =
        tm_FnSym (ms ! j)"
      by (rule Cons.IH) (use Cons.prems Suc in \<open>auto simp: tdMethodStride_def\<close>)
    ultimately show ?thesis by (simp add: relAt_Cons Suc algebra_simps)
  qed (simp add: relAt_Cons)
qed simp

section \<open>Round trips\<close>

lemma method_count: "n < 2 ^ 63 \<Longrightarrow> method_count (of_nat n) = n"
  by (simp add: method_count_def signed_of_nat signed_take_bit_int_eq_self unat_of_nat)

text \<open>The relocations of a descriptor, and its length from below.\<close>

lemma typedesc_relocs:
  assumes "EncodeTypedesc rec = (b, rs)"
  shows "rs = \<lparr>dr_Offset = of_nat tdCacheRefOff, dr_Symbol = tr_CacheSym rec, dr_Addend = 0\<rparr> # fn_relocs tdHeadFixed (tr_Methods rec)"
    and "tdHeadFixed + length (tr_Methods rec) * tdMethodStride \<le> length b"
proof -
  let ?ms = "tr_Methods rec" and ?n = "length (tr_Methods rec)"
  define start where "start = tdHeadFixed + ?n * tdMethodStride"
  define blob0 where "blob0 = str_bytes (tr_TypeName rec)"
  define buf0 where "buf0 = putU64 32 (of_nat ?n) (putU64 24 0 (putU64 16 (tr_SizeBytes rec)
    (putU64 8 (of_nat (length (tr_TypeName rec))) (putU64 0 (of_nat start) (replicate start 0)))))"
  obtain buf1 blob rl where run1: "td_methods start tdHeadFixed ?ms
      (buf0, blob0, [\<lparr>dr_Offset = of_nat tdCacheRefOff, dr_Symbol = tr_CacheSym rec, dr_Addend = 0\<rparr>]) = (buf1, blob, rl)"
    by (metis prod_cases3)
  obtain buf masks where run2: "put_masks tdHeadFixed tdMethodStride tdMethodMaskOff (start + length blob)
      (map tm_SlotMasks ?ms) (buf1, []) = (buf, masks)" by (metis surj_pair)
  have b: "b = buf @ blob @ masks" and rs: "rs = rl"
    using assms(1) run1 run2 by (simp_all add: EncodeTypedesc_def Let_def addStr_def start_def buf0_def blob0_def)
  have l0: "length buf0 = start" by (simp add: buf0_def)
  have T: "length buf1 = start" "zeroes tdMethodStride buf1 (tdHeadFixed + tdMethodMaskOff) ?n"
    "rl = \<lparr>dr_Offset = of_nat tdCacheRefOff, dr_Symbol = tr_CacheSym rec, dr_Addend = 0\<rparr> # fn_relocs tdHeadFixed ?ms"
    using td_methods_ok[OF run1] l0 by (auto simp: start_def)
  have "length buf = start" using put_masks_ok[OF run2] T(1,2) by (auto simp: start_def tdMethodStride_def tdMethodMaskOff_def)
  then show "rs = \<lparr>dr_Offset = of_nat tdCacheRefOff, dr_Symbol = tr_CacheSym rec, dr_Addend = 0\<rparr> # fn_relocs tdHeadFixed ?ms"
    "tdHeadFixed + ?n * tdMethodStride \<le> length b" using T(3) rs b by (simp_all add: start_def)
qed

lemma typedesc_decodes:
  assumes "EncodeTypedesc rec = (b, rs)" and "length b < 2 ^ 32"
  shows "DecodeTypedesc b rs = Some rec"
proof -
  let ?ms = "tr_Methods rec" and ?n = "length (tr_Methods rec)"
  define start where "start = tdHeadFixed + ?n * tdMethodStride"
  define blob0 where "blob0 = str_bytes (tr_TypeName rec)"
  define buf0 where "buf0 = putU64 32 (of_nat ?n) (putU64 24 0 (putU64 16 (tr_SizeBytes rec)
    (putU64 8 (of_nat (length (tr_TypeName rec))) (putU64 0 (of_nat start) (replicate start 0)))))"
  obtain buf1 blob rl where run1: "td_methods start tdHeadFixed ?ms
      (buf0, blob0, [\<lparr>dr_Offset = of_nat tdCacheRefOff, dr_Symbol = tr_CacheSym rec, dr_Addend = 0\<rparr>]) = (buf1, blob, rl)"
    by (metis prod_cases3)
  obtain buf masks where run2: "put_masks tdHeadFixed tdMethodStride tdMethodMaskOff (start + length blob)
      (map tm_SlotMasks ?ms) (buf1, []) = (buf, masks)" by (metis surj_pair)
  have b: "b = buf @ blob @ masks" and rs: "rs = rl"
    using assms(1) run1 run2 by (simp_all add: EncodeTypedesc_def Let_def addStr_def start_def buf0_def blob0_def)
  have l0: "length buf0 = start" by (simp add: buf0_def)
  have T: "length buf1 = start" "\<exists>ext. blob = blob0 @ ext" "\<And>a. a + 8 \<le> tdHeadFixed \<Longrightarrow> getU64 buf1 a = getU64 buf0 a"
    "table start tdMethodStride buf1 blob tdHeadFixed (map td_row ?ms)"
    "zeroes tdMethodStride buf1 (tdHeadFixed + tdMethodMaskOff) ?n"
    "rl = \<lparr>dr_Offset = of_nat tdCacheRefOff, dr_Symbol = tr_CacheSym rec, dr_Addend = 0\<rparr> # fn_relocs tdHeadFixed ?ms"
    using td_methods_ok[OF run1] l0 by (auto simp: start_def)
  have M: "length buf = start" "\<And>a. outside tdMethodStride tdMethodMaskOff tdHeadFixed a \<Longrightarrow> getU64 buf a = getU64 buf1 a"
    "mask_table (start + length blob) tdMethodStride buf masks (tdHeadFixed + tdMethodMaskOff) (map tm_SlotMasks ?ms)"
    using put_masks_ok[OF run2] T(1,5) by (auto simp: start_def tdMethodStride_def tdMethodMaskOff_def)
  have tab: "table start tdMethodStride buf blob tdHeadFixed (map td_row ?ms)"
    by (rule table_same[OF T(4), where off = tdMethodMaskOff]) (simp_all add: M(2) tdMethodStride_def tdMethodMaskOff_def)
  have hd: "getU64 buf a = getU64 buf0 a" if "a + 8 \<le> tdHeadFixed" for a
    using that by (simp add: M(2) T(3) outside_def)
  have lb: "start \<le> length b" "length b < 2 ^ 47" using assms(2) M(1) b by simp_all
  have rel: "relAt rs (of_nat (tdHeadFixed + i * tdMethodStride + 56)) = tm_FnSym (?ms ! i)" if "i < ?n" for i
  proof -
    have lim: "tdHeadFixed + ?n * tdMethodStride < 2 ^ 32" using lb(1) assms(2) by (simp add: start_def)
    moreover have "i * 72 + 72 \<le> ?n * 72" using that by simp
    ultimately have "(of_nat tdCacheRefOff :: 32 word) \<noteq> of_nat (tdHeadFixed + i * tdMethodStride + 56)"
      by (subst of_nat32_eq) (simp_all add: tdCacheRefOff_def tdHeadFixed_def tdMethodStride_def)
    with fn_relocs_at[OF lim that] show ?thesis by (simp add: rs T(6) relAt_Cons)
  qed
  have "td_read b rs tdHeadFixed ?n = Some ?ms"
    by (rule td_read_ok[OF M(1) b]) (use tab M(3) rel lb in \<open>simp_all add: start_def tdHeadFixed_def\<close>)
  moreover have "method_count (of_nat ?n) = ?n"
    using lb by (intro method_count) (simp add: start_def tdMethodStride_def)
  moreover have "text_at start buf blob 0 (tr_TypeName rec)"
    using T(2) hd[of 0] hd[of 8] unfolding text_at_def
    by (intro exI[of _ 0])
      (auto simp: buf0_def blob0_def getU64_other getU64_put start_def tdHeadFixed_def)
  then have "\<exists>o1 l1. getU64 b 0 = Some o1 \<and> getU64 b 8 = Some l1 \<and> getStr b o1 l1 = Some (tr_TypeName rec)"
    using text_read[of start buf blob 0 "tr_TypeName rec" masks] M(1) lb b by simp
  moreover have "getU64 b 16 = Some (tr_SizeBytes rec)" "getU64 b 32 = Some (of_nat ?n)"
    unfolding b using hd[of 16] hd[of 32]
    by (simp_all add: getU64_longer buf0_def getU64_other getU64_put start_def tdHeadFixed_def)
  moreover have "relAt rs (of_nat tdCacheRefOff) = tr_CacheSym rec" by (simp add: rs T(6) relAt_Cons)
  ultimately show ?thesis using lb by (auto simp: DecodeTypedesc_def bind_eq_Some_conv start_def)
qed

text \<open>C19. A type descriptor round-trips: laying out a record and reading the block back with its
  relocations gives the record again, every text and borrow mask in its place, as long as the block
  stays below \<open>2 ^ 32\<close> bytes, where the offsets of the relocations would wrap.\<close>

theorem typedesc_roundtrip:
  assumes "EncodeTypedesc rec = (b, rs)" and "length b < 2 ^ 32"
  shows "DecodeTypedesc b rs = Some rec"
  by (rule typedesc_decodes[OF assms])

theorem typedesc_roundtrip_witness:
  "let rec = \<lparr>tr_TypeName = ''T'', tr_SizeBytes = 16, tr_CacheSym = ''c'',
     tr_Methods = [\<lparr>tm_Name = ''m'', tm_Sig = ''fn()'', tm_NameHash = 7, tm_SigHash = 8, tm_RecvShape = 1, tm_FnSym = ''T.m'',
       tm_SlotMasks = [1, 2]\<rparr>]\<rparr>
   in length (fst (EncodeTypedesc rec)) = 142 \<and> (case EncodeTypedesc rec of (b, rs) \<Rightarrow> DecodeTypedesc b rs) = Some rec"
proof -
  let ?rec = "\<lparr>tr_TypeName = ''T'', tr_SizeBytes = 16, tr_CacheSym = ''c'',
     tr_Methods = [\<lparr>tm_Name = ''m'', tm_Sig = ''fn()'', tm_NameHash = 7, tm_SigHash = 8, tm_RecvShape = 1, tm_FnSym = ''T.m'',
       tm_SlotMasks = [1, 2]\<rparr>]\<rparr>"
  have l: "length (fst (EncodeTypedesc ?rec)) = 142"
    by (simp add: EncodeTypedesc_def Let_def addStr_def length_masks tdHeadFixed_def tdMethodStride_def)
  obtain b rs where "EncodeTypedesc ?rec = (b, rs)" by (metis surj_pair)
  with typedesc_roundtrip[OF this] l show ?thesis by (simp add: Let_def)
qed

text \<open>An interface descriptor round-trips as well, up to the largest buffer there can be.\<close>

lemma iface_desc_roundtrip:
  assumes "EncodeIfaceDesc rec = (b, rs)" and "length b < 2 ^ 47"
  shows "DecodeIfaceDesc b = Some rec \<and> rs = []"
proof -
  let ?ms = "ir_Methods rec" and ?n = "length (ir_Methods rec)"
  define start where "start = idHeadFixed + ?n * idMethodStride"
  define blob0 where "blob0 = str_bytes (ir_IfaceName rec)"
  define buf0 where "buf0 = putU64 16 (of_nat ?n)
    (putU64 8 (of_nat (length (ir_IfaceName rec))) (putU64 0 (of_nat start) (replicate start 0)))"
  obtain buf1 blob where run1: "id_methods start idHeadFixed ?ms (buf0, blob0) = (buf1, blob)" by (metis surj_pair)
  obtain buf masks where run2: "put_masks idHeadFixed idMethodStride idMethodMaskOff (start + length blob)
      (map dm_SlotMasks ?ms) (buf1, []) = (buf, masks)" by (metis surj_pair)
  have b: "b = buf @ blob @ masks" and rs: "rs = []"
    using assms(1) run1 run2 by (simp_all add: EncodeIfaceDesc_def Let_def addStr_def start_def buf0_def blob0_def)
  have l0: "length buf0 = start" by (simp add: buf0_def)
  have T: "length buf1 = start" "\<exists>ext. blob = blob0 @ ext" "\<And>a. a + 8 \<le> idHeadFixed \<Longrightarrow> getU64 buf1 a = getU64 buf0 a"
    "table start idMethodStride buf1 blob idHeadFixed (map id_row ?ms)"
    "zeroes idMethodStride buf1 (idHeadFixed + idMethodMaskOff) ?n"
    using id_methods_ok[OF run1] l0 by (auto simp: start_def)
  have M: "length buf = start" "\<And>a. outside idMethodStride idMethodMaskOff idHeadFixed a \<Longrightarrow> getU64 buf a = getU64 buf1 a"
    "mask_table (start + length blob) idMethodStride buf masks (idHeadFixed + idMethodMaskOff) (map dm_SlotMasks ?ms)"
    using put_masks_ok[OF run2] T(1,5) by (auto simp: start_def idMethodStride_def idMethodMaskOff_def)
  have tab: "table start idMethodStride buf blob idHeadFixed (map id_row ?ms)"
    by (rule table_same[OF T(4), where off = idMethodMaskOff]) (simp_all add: M(2) idMethodStride_def idMethodMaskOff_def)
  have hd: "getU64 buf a = getU64 buf0 a" if "a + 8 \<le> idHeadFixed" for a
    using that by (simp add: M(2) T(3) outside_def)
  have lb: "start \<le> length b" "length b < 2 ^ 47" using assms(2) M(1) b by simp_all
  have "id_read b idHeadFixed ?n = Some ?ms"
    by (rule id_read_ok[OF M(1) b]) (use tab M(3) lb in \<open>simp_all add: start_def idHeadFixed_def\<close>)
  moreover have "method_count (of_nat ?n) = ?n"
    using lb by (intro method_count) (simp add: start_def idMethodStride_def)
  moreover have "text_at start buf blob 0 (ir_IfaceName rec)"
    using T(2) hd[of 0] hd[of 8] unfolding text_at_def
    by (intro exI[of _ 0]) (auto simp: buf0_def blob0_def getU64_other getU64_put start_def idHeadFixed_def)
  then have "\<exists>o1 l1. getU64 b 0 = Some o1 \<and> getU64 b 8 = Some l1 \<and> getStr b o1 l1 = Some (ir_IfaceName rec)"
    using text_read[of start buf blob 0 "ir_IfaceName rec" masks] M(1) lb b by simp
  moreover have "getU64 b 16 = Some (of_nat ?n)"
    unfolding b using hd[of 16] by (simp add: getU64_longer buf0_def getU64_put start_def idHeadFixed_def)
  ultimately show ?thesis using lb rs by (auto simp: DecodeIfaceDesc_def bind_eq_Some_conv start_def)
qed

lemma iface_desc_roundtrip_sample:
  "let rec = \<lparr>ir_IfaceName = ''I'', ir_Methods = [\<lparr>dm_Name = ''m'', dm_Sig = ''fn()'', dm_NameHash = 7, dm_SigHash = 8,
     dm_DeclIdx = 0, dm_SlotMasks = []\<rparr>]\<rparr>
   in length (fst (EncodeIfaceDesc rec)) = 94 \<and> DecodeIfaceDesc (fst (EncodeIfaceDesc rec)) = Some rec"
proof -
  let ?rec = "\<lparr>ir_IfaceName = ''I'', ir_Methods = [\<lparr>dm_Name = ''m'', dm_Sig = ''fn()'', dm_NameHash = 7, dm_SigHash = 8,
     dm_DeclIdx = 0, dm_SlotMasks = []\<rparr>]\<rparr>"
  have l: "length (fst (EncodeIfaceDesc ?rec)) = 94"
    by (simp add: EncodeIfaceDesc_def Let_def addStr_def idHeadFixed_def idMethodStride_def)
  obtain b rs where "EncodeIfaceDesc ?rec = (b, rs)" by (metis surj_pair)
  with iface_desc_roundtrip[OF this] l show ?thesis by (simp add: Let_def)
qed

section \<open>Malformed blocks\<close>

text \<open>
  The decoders test that a text or a mask region ends within the block, but the sum in the test wraps:
  a block with such a field is a panic and not the empty text or list that the functions promise.
\<close>

lemma getStr_wraps: "getStr b (- 1) 1 = None"
  by (simp add: getStr_def word_greater_zero_iff)

lemma slot_masks_wrap: "decodeSlotMasks (replicate 8 0 @ u64_bytes (2 ^ 61)) 8 = None"
proof -
  have "getU64 (replicate 8 0 @ u64_bytes (2 ^ 61)) 8 = Some (2 ^ 61)" by (rule getU64_here) simp_all
  then show ?thesis by (simp add: decodeSlotMasks_def maxAlloc_def)
qed

end
