(* ===== verification/GoText.thy ===== *)
theory GoText
  imports Encoder
begin

text \<open>
  The parts of Go's packages \<open>strings\<close>, \<open>strconv\<close> and \<open>bufio\<close> that the assembler \<open>cmd/bas\<close> uses, on
  strings of bytes: white space (that of Unicode, in UTF-8), prefixes, fields, integers in a given base
  and width, and lines read with a \<open>Scanner\<close>.
\<close>

section \<open>White space\<close>

text \<open>The encodings of the runes for which \<open>unicode.IsSpace\<close> holds.  No encoding begins in the middle of
  another rune, so a byte-wise search finds exactly these runes.\<close>

definition spaces :: "string list" where
  "spaces = [[CHR 0x09], [CHR 0x0A], [CHR 0x0B], [CHR 0x0C], [CHR 0x0D], [CHR 0x20], [CHR 0xC2, CHR 0x85],
     [CHR 0xC2, CHR 0xA0], [CHR 0xE1, CHR 0x9A, CHR 0x80]] @
     map (\<lambda>n. [CHR 0xE2, CHR 0x80, char_of n]) ([0x80 ..< 0x8B] @ [0xA8, 0xA9, 0xAF] :: nat list) @
     [[CHR 0xE2, CHR 0x81, CHR 0x9F], [CHR 0xE3, CHR 0x80, CHR 0x80]]"

fun starts_with :: "string \<Rightarrow> string \<Rightarrow> bool" where
  "starts_with s [] = True"
| "starts_with [] (p # ps) = False"
| "starts_with (c # s) (p # ps) = (c = p \<and> starts_with s ps)"

text \<open>\<open>strings.HasPrefix\<close>, \<open>strings.TrimPrefix\<close>.\<close>

abbreviation HasPrefix :: "string \<Rightarrow> string \<Rightarrow> bool" where
  "HasPrefix s p \<equiv> starts_with s p"

definition TrimPrefix :: "string \<Rightarrow> string \<Rightarrow> string" where
  "TrimPrefix s p = (if HasPrefix s p then drop (length p) s else s)"

text \<open>The length of the first code that begins the string, 0 if none does.\<close>

fun lead :: "string list \<Rightarrow> string \<Rightarrow> nat" where
  "lead [] s = 0"
| "lead (p # ps) s = (if starts_with s p then length p else lead ps s)"

function strip_left :: "string list \<Rightarrow> string \<Rightarrow> string" where
  "strip_left ps s = (if lead ps s = 0 \<or> s = [] then s else strip_left ps (drop (lead ps s) s))"
  by pat_completeness auto
termination by (relation "measure (\<lambda>(ps, s). length s)") auto

declare strip_left.simps [simp del]

definition TrimSpace :: "string \<Rightarrow> string" where
  "TrimSpace s = rev (strip_left (map rev spaces) (rev (strip_left spaces s)))"

text \<open>\<open>strings.Fields\<close>: the pieces between white space.\<close>

function fields_from :: "string \<Rightarrow> string \<Rightarrow> string list" where
  "fields_from w s =
     (if s = [] then (if w = [] then [] else [w])
      else if lead spaces s = 0 then fields_from (w @ [hd s]) (tl s)
      else (if w = [] then [] else [w]) @ fields_from [] (drop (lead spaces s) s))"
  by pat_completeness auto
termination by (relation "measure (\<lambda>(w, s). length s)") (auto simp: length_greater_0_conv)

declare fields_from.simps [simp del]

definition Fields :: "string \<Rightarrow> string list" where
  "Fields s = fields_from [] s"

section \<open>Searching and splitting\<close>

text \<open>\<open>strings.IndexByte\<close> and \<open>strings.IndexAny\<close> as the parts before and after the byte found.\<close>

fun cut :: "(char \<Rightarrow> bool) \<Rightarrow> string \<Rightarrow> (string \<times> string) option" where
  "cut P [] = None"
| "cut P (c # s) = (if P c then Some ([], s) else map_option (\<lambda>(a, b). (c # a, b)) (cut P s))"

definition blank :: "char \<Rightarrow> bool" where
  "blank c \<longleftrightarrow> c = CHR '' '' \<or> c = CHR 0x09"

text \<open>\<open>strings.Split\<close> at a byte.\<close>

fun Split :: "char \<Rightarrow> string \<Rightarrow> string list" where
  "Split sep [] = [[]]"
| "Split sep (c # s) = (if c = sep then [] # Split sep s
     else case Split sep s of [] \<Rightarrow> [[c]] | w # ws \<Rightarrow> (c # w) # ws)"

text \<open>\<open>strings.SplitN\<close> with a positive count.\<close>

fun SplitN :: "nat \<Rightarrow> char \<Rightarrow> string \<Rightarrow> string list" where
  "SplitN 0 sep s = []"
| "SplitN (Suc 0) sep s = [s]"
| "SplitN (Suc (Suc n)) sep s = (case cut (\<lambda>c. c = sep) s of
      None \<Rightarrow> [s]
    | Some (a, b) \<Rightarrow> a # SplitN (Suc n) sep b)"

text \<open>\<open>strings.Trim\<close> with a set of bytes.\<close>

definition Trim :: "char \<Rightarrow> string \<Rightarrow> string" where
  "Trim c s = rev (dropWhile (\<lambda>d. d = c) (rev (dropWhile (\<lambda>d. d = c) s)))"

section \<open>Integers\<close>

text \<open>\<open>strconv.ParseUint\<close> and \<open>ParseInt\<close> with an explicit base.\<close>

definition ParseUint :: "nat \<Rightarrow> nat \<Rightarrow> string \<Rightarrow> nat option" where
  "ParseUint base bits s =
     (if s = [] then None
      else case parse_digits base 0 s of
          None \<Rightarrow> None
        | Some n \<Rightarrow> if n < 2 ^ bits then Some n else None)"

definition sign :: "string \<Rightarrow> bool \<times> string" where
  "sign s = (case s of
      c # cs \<Rightarrow> if c = CHR ''-'' then (True, cs) else if c = CHR ''+'' then (False, cs) else (False, s)
    | [] \<Rightarrow> (False, s))"

definition ParseInt :: "nat \<Rightarrow> nat \<Rightarrow> string \<Rightarrow> int option" where
  "ParseInt base bits s = (let (neg, ds) = sign s in
     if ds = [] then None
     else case parse_digits base 0 ds of
         None \<Rightarrow> None
       | Some n \<Rightarrow>
           if neg then (if n \<le> 2 ^ (bits - 1) then Some (- int n) else None)
           else if n < 2 ^ (bits - 1) then Some (int n) else None)"

definition between :: "nat \<Rightarrow> nat \<Rightarrow> char \<Rightarrow> bool" where
  "between lo hi c \<longleftrightarrow> lo \<le> of_char c \<and> of_char c \<le> hi"

text \<open>\<open>ParseUint\<close> with base 0: the base is given by a prefix, and single underscores may separate digits.\<close>

definition lower :: "char \<Rightarrow> char" where
  "lower c = (let n = of_char c :: nat in if 65 \<le> n \<and> n \<le> 90 then char_of (n + 32) else c)"

definition base_prefix :: "string \<Rightarrow> (nat \<times> string) option" where
  "base_prefix s = (case s of
      z # c # ds \<Rightarrow>
        if z \<noteq> CHR ''0'' then None
        else if lower c = CHR ''b'' then Some (2, ds)
        else if lower c = CHR ''o'' then Some (8, ds)
        else if lower c = CHR ''x'' then Some (16, ds)
        else None
    | _ \<Rightarrow> None)"

definition base0 :: "string \<Rightarrow> nat \<times> string" where
  "base0 s = (case s of
      [] \<Rightarrow> (10, s)
    | c # ds \<Rightarrow>
        if c \<noteq> CHR ''0'' then (10, s)
        else case base_prefix s of
            Some (b, r) \<Rightarrow> if r = [] then (8, ds) else (b, r)
          | None \<Rightarrow> (8, ds))"

datatype seen = SNone | SDigit | SUnderscore | SOther

fun underscores_from :: "bool \<Rightarrow> seen \<Rightarrow> string \<Rightarrow> bool" where
  "underscores_from hex saw [] = (saw \<noteq> SUnderscore)"
| "underscores_from hex saw (c # s) =
     (if between 48 57 c \<or> (hex \<and> between 97 102 (lower c))
      then underscores_from hex SDigit s
      else if c = CHR ''_'' then (saw = SDigit \<and> underscores_from hex SUnderscore s)
      else saw \<noteq> SUnderscore \<and> underscores_from hex SOther s)"

definition underscoreOK :: "string \<Rightarrow> bool" where
  "underscoreOK s0 = (let s = snd (sign s0) in
     (case base_prefix s of
        Some (b, ds) \<Rightarrow> underscores_from (b = 16) SDigit ds
      | None \<Rightarrow> underscores_from False SNone s))"

definition ParseUint0 :: "nat \<Rightarrow> string \<Rightarrow> nat option" where
  "ParseUint0 bits s =
     (if s = [] then None
      else let (b, ds) = base0 s in
        case parse_digits b 0 (filter (\<lambda>c. c \<noteq> CHR ''_'') ds) of
          None \<Rightarrow> None
        | Some n \<Rightarrow> if n < 2 ^ bits \<and> (CHR ''_'' \<in> set ds \<longrightarrow> underscoreOK s) then Some n else None)"

section \<open>Lines\<close>

text \<open>
  \<open>bufio.Scanner\<close> with its default split function and buffer: lines without their end, and none from
  the first one on that does not fit the buffer of 64 KB.
\<close>

definition max_token :: nat where
  "max_token = 65536"

fun raw_lines :: "string \<Rightarrow> string list" where
  "raw_lines [] = []"
| "raw_lines (c # s) =
     (if c = CHR 0x0A then [] # raw_lines s
      else case raw_lines s of [] \<Rightarrow> [[c]] | l # ls \<Rightarrow> (c # l) # ls)"

definition dropCR :: "string \<Rightarrow> string" where
  "dropCR l = (if l \<noteq> [] \<and> last l = CHR 0x0D then butlast l else l)"

definition scan_lines :: "string \<Rightarrow> string list" where
  "scan_lines content = map dropCR (takeWhile (\<lambda>l. length l < max_token) (raw_lines content))"

end
