(* ===== verification/Bas.thy ===== *)
theory Bas
  imports GoText TypeInfo Rallocs ObjCodec
begin

text \<open>
  The assembler \<open>cmd/bas/main.go\<close>: from the lines of the source files to the object file it writes.

  A run that stops with a message is \<open>Some (Inl e)\<close>, one that panics is \<open>None\<close>; both leave with
  status 1.  A function under construction is the state of theory \<open>Rallocs\<close>; it is shared with the
  object file, so it is entered there again after every line.  Lines are read by the functions that
  need them: a directive with a block takes the lines after it and answers the lines that are left.
\<close>

section \<open>Results\<close>

datatype data_err =
    NoQuote
  | DanglingEscape
  | HexTooShort
  | BadHex
  | UnknownEscape char
  | Unterminated

datatype fatal =
    NoFiles
  | NoPackage
  | OtherPackage string
  | Malformed string string
  | EndOfFile string
  | BadData data_err
  | BadNumber string string
  | Rejected decl_err
  | Refused ra_err
  | NoRegister string
  | RegisterTaken string
  | NotInFunction
  | NoVariable string
  | LabelTaken string
  | BadPartial string
  | BadIndirect string
  | BadOperand part_err
  | NoCache string string

type_synonym 'a res = "(fatal + 'a) option"

definition xbind :: "'a res \<Rightarrow> ('a \<Rightarrow> 'b res) \<Rightarrow> 'b res" where
  "xbind m f = (case m of None \<Rightarrow> None | Some (Inl e) \<Rightarrow> Some (Inl e) | Some (Inr x) \<Rightarrow> f x)"

definition stop :: "fatal \<Rightarrow> 'a res" where
  "stop e = Some (Inl e)"

definition done' :: "'a \<Rightarrow> 'a res" where
  "done' x = Some (Inr x)"

text \<open>A panic, a missing value and an error value as results.\<close>

definition run :: "'a option \<Rightarrow> 'a res" where
  "run m = map_option Inr m"

definition need :: "fatal \<Rightarrow> 'a option \<Rightarrow> 'a res" where
  "need e m = (case m of None \<Rightarrow> stop e | Some x \<Rightarrow> done' x)"

definition accept :: "('e \<Rightarrow> fatal) \<Rightarrow> 'e + 'a \<Rightarrow> 'a res" where
  "accept g m = Some (map_sum g id m)"

section \<open>Immediates\<close>

text \<open>\<open>bits.Len64\<close>.\<close>

fun bit_len :: "nat \<Rightarrow> nat" where
  "bit_len n = (if n = 0 then 0 else Suc (bit_len (n div 2)))"

declare bit_len.simps [simp del]

definition smallestUi :: "64 word \<Rightarrow> operand" where
  "smallestUi i = (let n = bit_len (unat i) in
     if n \<le> 8 then OU8 (ucast i)
     else if n \<le> 16 then OU16 (ucast i)
     else if n \<le> 32 then OU32 (ucast i)
     else OU64 i)"

definition smallestInt :: "64 word \<Rightarrow> operand" where
  "smallestInt i =
     (if sint i < 0 then
        (if sint i < - (2 ^ 31) then OI64 i
         else if sint i < - (2 ^ 15) then OI32 (ucast i)
         else if sint i < - (2 ^ 7) then OI16 (ucast i)
         else OI8 (ucast i))
      else if sint i > 2 ^ 32 - 1 then OU64 i
      else if sint i > 2 ^ 16 - 1 then OU32 (ucast i)
      else if sint i > 2 ^ 8 - 1 then OU16 (ucast i)
      else OU8 (ucast i))"

definition smallestI :: "64 word \<Rightarrow> operand" where
  "smallestI i =
     (if sint i \<ge> 2 ^ 31 - 1 then OI64 i
      else if sint i \<ge> 2 ^ 15 - 1 then OI32 (ucast i)
      else if sint i \<ge> 2 ^ 7 - 1 then OI16 (ucast i)
      else if sint i \<ge> - (2 ^ 7) then OI8 (ucast i)
      else if sint i \<ge> - (2 ^ 15) then OI16 (ucast i)
      else if sint i \<ge> - (2 ^ 31) then OI32 (ucast i)
      else OI64 i)"

section \<open>Words of a line\<close>

definition untab :: "string \<Rightarrow> string" where
  "untab = map (\<lambda>c. if c = CHR 0x09 then CHR '' '' else c)"

definition SplitNSpace :: "string \<Rightarrow> nat \<Rightarrow> string list" where
  "SplitNSpace s n = filter (\<lambda>w. w \<noteq> []) (SplitN n (CHR '' '') (untab s))"

definition SplitSpace :: "string \<Rightarrow> string list" where
  "SplitSpace s = filter (\<lambda>w. w \<noteq> []) (Split (CHR '' '') (untab s))"

text \<open>\<open>strings.TrimSpace(strings.TrimPrefix(line, d))\<close>.\<close>

definition after :: "string \<Rightarrow> string \<Rightarrow> string" where
  "after d line = TrimSpace (TrimPrefix line d)"

definition basUnquoteSigTok :: "string \<Rightarrow> string" where
  "basUnquoteSigTok = map (\<lambda>c. if c = CHR 0x1F then CHR '' '' else c)"

definition mustParseU64 :: "string \<Rightarrow> string \<Rightarrow> fatal + 64 word" where
  "mustParseU64 field s = (case ParseUint 10 64 s of None \<Rightarrow> Inl (BadNumber field s) | Some n \<Rightarrow> Inr (of_nat n))"

fun parseSlotMasks :: "string list \<Rightarrow> fatal + 64 word list" where
  "parseSlotMasks [] = Inr []"
| "parseSlotMasks (t # ts) = (case ParseUint0 64 t of
      None \<Rightarrow> Inl (BadNumber ''slot mask'' t)
    | Some n \<Rightarrow> rbind (parseSlotMasks ts) (\<lambda>ns. Inr (of_nat n # ns)))"

text \<open>\<open>strconv.Atoi\<close> of a number that may not be negative.\<close>

definition index_of :: "string \<Rightarrow> nat option" where
  "index_of s = (case Atoi s of None \<Rightarrow> None | Some n \<Rightarrow> if n < 0 then None else Some (nat n))"

fun indices :: "string list \<Rightarrow> fatal + int list" where
  "indices [] = Inr []"
| "indices (t # ts) = (case index_of t of
      None \<Rightarrow> Inl (BadNumber ''index'' t)
    | Some n \<Rightarrow> rbind (indices ts) (\<lambda>ns. Inr (int n # ns)))"

text \<open>Growing the list to the slot and setting it.\<close>

definition set_slot :: "nat \<Rightarrow> int list \<Rightarrow> int list list \<Rightarrow> int list list" where
  "set_slot i ps xs = (xs @ replicate (Suc i - length xs) [])[i := ps]"

text \<open>\<open>fmt.Sprintf("byte[%d]", n)\<close>.\<close>

fun decimal :: "nat \<Rightarrow> string" where
  "decimal n = (if n < 10 then [char_of (48 + n)] else decimal (n div 10) @ [char_of (48 + n mod 10)])"

declare decimal.simps [simp del]

definition byte_type :: "nat \<Rightarrow> string" where
  "byte_type n = ''byte['' @ decimal n @ '']''"

definition alpha :: "char \<Rightarrow> bool" where
  "alpha c \<longleftrightarrow> between 97 122 c \<or> between 65 90 c \<or> c = CHR ''_''"

definition digit :: "char \<Rightarrow> bool" where
  "digit c \<longleftrightarrow> between 48 57 c"

text \<open>A dot is refused at the ends only; the first character is a letter.\<close>

definition isIdentifier :: "string \<Rightarrow> bool" where
  "isIdentifier s \<longleftrightarrow> s \<noteq> [] \<and> alpha (hd s) \<and> last s \<noteq> CHR ''.'' \<and>
     list_all (\<lambda>c. c = CHR ''.'' \<or> alpha c \<or> digit c) s"

section \<open>String literals\<close>

text \<open>The characters after the opening quote.\<close>

definition put :: "byte \<Rightarrow> data_err + byte list \<Rightarrow> data_err + byte list" where
  "put b m = map_sum id (\<lambda>bs. b # bs) m"

fun parse_chars :: "string \<Rightarrow> data_err + byte list" where
  "parse_chars [] = Inl Unterminated"
| "parse_chars (c # s) =
     (if c = CHR 0x5C then
        (case s of
           [] \<Rightarrow> Inl DanglingEscape
         | e # s' \<Rightarrow>
             if e = CHR ''n'' then put 10 (parse_chars s')
             else if e = CHR ''r'' then put 13 (parse_chars s')
             else if e = CHR ''t'' then put 9 (parse_chars s')
             else if e = CHR 0x5C then put 0x5C (parse_chars s')
             else if e = CHR 0x22 then put 0x22 (parse_chars s')
             else if e = CHR ''0'' then put 0 (parse_chars s')
             else if e = CHR ''x'' then
               (case s' of
                  h # l # s'' \<Rightarrow> (case ParseUint 16 8 [h, l] of
                      None \<Rightarrow> Inl BadHex
                    | Some n \<Rightarrow> put (of_nat n) (parse_chars s''))
                | _ \<Rightarrow> Inl HexTooShort)
             else Inl (UnknownEscape e))
      else if c = CHR 0x22 then (if s = [] then Inr [] else Inl Unterminated)
      else put (of_char c) (parse_chars s))"

definition parseString :: "string \<Rightarrow> data_err + byte list" where
  "parseString s = (if \<not> HasPrefix s [CHR 0x22] then Inl NoQuote else parse_chars (tl s))"

definition parseData :: "string \<Rightarrow> data_err + byte list" where
  "parseData s = (if HasPrefix s [CHR 0x22] then parseString s else Inl NoQuote)"

section \<open>Memory operands\<close>

definition sizeKeywords :: "(string \<times> int) list" where
  "sizeKeywords = [(''qword'', 64), (''dword'', 32), (''word'', 16), (''byte'', 8)]"

fun size_prefix :: "(string \<times> int) list \<Rightarrow> string \<Rightarrow> (int \<times> string) option" where
  "size_prefix [] s = None"
| "size_prefix ((k, n) # ks) s = (if HasPrefix s (k @ ''['') then Some (n, drop (length k) s) else size_prefix ks s)"

definition parseSizePrefix :: "string \<Rightarrow> (int \<times> string) option" where
  "parseSizePrefix = size_prefix sizeKeywords"

definition word_char :: "char \<Rightarrow> bool" where
  "word_char c \<longleftrightarrow> alpha c \<or> digit c"

text \<open>\<open>\s\<close>.\<close>

definition re_space :: "char \<Rightarrow> bool" where
  "re_space c \<longleftrightarrow> c \<in> {CHR 0x09, CHR 0x0A, CHR 0x0C, CHR 0x0D, CHR '' ''}"

record parts =
  p_base :: string
  p_sign :: string
  p_index :: string
  p_scale :: string

text \<open>
  The regular expression of \<open>ParseIndirect\<close> behind its opening bracket.  What follows a repetition
  never begins with a character of the repetition, so the longest match is the only one.
\<close>

definition match_index :: "string \<Rightarrow> (string \<times> string \<times> string) option" where
  "match_index r = (case r of
      c # t \<Rightarrow>
        if c = CHR ''+'' \<or> c = CHR ''-'' then
          (let t = dropWhile re_space t; i = takeWhile word_char t in
           if i = [] then None else Some ([c], i, dropWhile word_char t))
        else Some ([], [], r)
    | [] \<Rightarrow> Some ([], [], r))"

definition match_scale :: "string \<Rightarrow> (string \<times> string) option" where
  "match_scale r = (case r of
      c # t \<Rightarrow>
        if c = CHR ''*'' then
          (let t = dropWhile re_space t; i = takeWhile (\<lambda>c. digit c \<or> c = CHR ''x'') t in
           if i = [] then None else Some (i, dropWhile (\<lambda>c. digit c \<or> c = CHR ''x'') t))
        else Some ([], r)
    | [] \<Rightarrow> Some ([], r))"

definition match_bracket :: "string \<Rightarrow> parts option" where
  "match_bracket s = (let b = takeWhile word_char s in
     if b = [] then None
     else do {
       (sg, i, r) \<leftarrow> match_index (dropWhile re_space (dropWhile word_char s));
       (sc, r) \<leftarrow> match_scale (dropWhile re_space r);
       if HasPrefix r '']'' then Some \<lparr>p_base = b, p_sign = sg, p_index = i, p_scale = sc\<rparr> else None })"

text \<open>\<open>FindStringSubmatch\<close>: the leftmost match.\<close>

fun find_parts :: "string \<Rightarrow> parts option" where
  "find_parts [] = None"
| "find_parts (c # s) =
     (if c = CHR ''['' then (case match_bracket s of Some p \<Rightarrow> Some p | None \<Rightarrow> find_parts s) else find_parts s)"

text \<open>A register by its name, or the register of a variable, which may emit code to load it.\<close>

definition reg_or_var :: "Asm \<Rightarrow> string \<Rightarrow> fstate \<Rightarrow> (Register option \<times> fstate) option" where
  "reg_or_var a n s = (case ParseReg n of
      Inr r \<Rightarrow> Some (Some r, s)
    | Inl _ \<Rightarrow> (case AllocFor n s of
        Some p \<Rightarrow> map_option (\<lambda>(r, s). (Some r, s)) (Ralloc_Register a p s)
      | None \<Rightarrow> Some (None, s)))"

text \<open>\<open>indirectFor\<close>; the base is a register or, when there is none, the symbol.\<close>

definition indirectFor :: "Register option \<Rightarrow> string \<Rightarrow> int \<Rightarrow> operand" where
  "indirectFor b n off = OInd (case b of
      Some r \<Rightarrow> \<lparr>in_Reg = r, in_Off = word_of_int off, in_Size = 0, in_Symbol = ''''\<rparr>
    | None \<Rightarrow> \<lparr>in_Reg = reg0, in_Off = word_of_int off, in_Size = 0, in_Symbol = n\<rparr>)"

definition parse_scale :: "string \<Rightarrow> int option" where
  "parse_scale s = (if s = [] then Some 1
     else case ParseInt 10 32 s of None \<Rightarrow> None | Some i \<Rightarrow> if i \<in> {1, 2, 4, 8} then Some i else None)"

definition ParseIndirect :: "Asm \<Rightarrow> OFile \<Rightarrow> string \<Rightarrow> fstate \<Rightarrow> (operand \<times> fstate) res" where
  "ParseIndirect a oo s f = xbind (run (find_parts s)) (\<lambda>p.
     xbind (run (reg_or_var a (p_base p) f)) (\<lambda>(b, f).
     if b = None \<and> \<not> has (o_Vars oo) (p_base p) \<and> \<not> has (o_Data oo) (p_base p) then stop (BadIndirect s)
     else if HasPrefix (p_index p) ''0x'' then
       (case ParseInt 16 32 (TrimPrefix (p_index p) ''0x'') of
          None \<Rightarrow> stop (BadNumber ''offset'' (p_index p))
        | Some i \<Rightarrow>
            if p_scale p \<noteq> [] \<or> p_sign p \<noteq> ''+'' then stop (BadIndirect s)
            else done' (indirectFor b (p_base p) i, f))
     else (case ParseInt 10 32 (p_index p) of
         Some i \<Rightarrow>
           if p_scale p \<noteq> [] then stop (BadIndirect s)
           else done' (indirectFor b (p_base p) (if p_sign p = ''-'' then - i else i), f)
       | None \<Rightarrow>
           if p_index p = [] then
             (if p_scale p \<noteq> [] then stop (BadIndirect s) else done' (indirectFor b (p_base p) 0, f))
           else (case b of
               None \<Rightarrow> stop (BadIndirect s)
             | Some br \<Rightarrow> xbind (run (reg_or_var a (p_index p) f)) (\<lambda>(ix, f).
                 (case ix of
                    None \<Rightarrow> stop (BadIndirect s)
                  | Some ir \<Rightarrow> (case parse_scale (p_scale p) of
                        None \<Rightarrow> stop (BadNumber ''scale'' (p_scale p))
                      | Some sc \<Rightarrow> done' (OBis \<lparr>bis_Base = br, bis_Index = ir, bis_Scale = sc\<rparr>, f))))))))"

section \<open>Operands of an instruction\<close>

definition with_size :: "int \<Rightarrow> operand \<Rightarrow> operand" where
  "with_size n o' = (case o' of OInd i \<Rightarrow> OInd (i\<lparr>in_Size := n\<rparr>) | _ \<Rightarrow> o')"

text \<open>\<open>name:N\<close> with the name of a variable; a colon in anything else is left to the other cases.\<close>

definition partial_arg :: "string \<Rightarrow> fstate \<Rightarrow> (fatal + arg) option" where
  "partial_arg w f = (case cut (\<lambda>c. c = CHR '':'') w of
      Some (n, sz) \<Rightarrow>
        if n = [] then None
        else (case AllocFor n f of
            None \<Rightarrow> None
          | Some p \<Rightarrow> (case Atoi sz of
                None \<Rightarrow> Some (Inl (BadPartial w))
              | Some k \<Rightarrow> Some (if k \<in> {8, 16, 32, 64} then Inr (APart p k) else Inl (BadPartial w))))
    | None \<Rightarrow> None)"

definition literal_arg :: "string \<Rightarrow> operand res" where
  "literal_arg w =
     (if HasPrefix w ''0x'' then
        need (BadNumber ''hex'' w) (map_option (\<lambda>n. smallestUi (of_nat n)) (ParseUint 16 64 (TrimPrefix w ''0x'')))
      else (case ParseInt 10 64 w of
          Some i \<Rightarrow> done' (smallestInt (word_of_int i))
        | None \<Rightarrow> (case ParseUint 10 64 w of
            Some n \<Rightarrow> done' (smallestUi (of_nat n))
          | None \<Rightarrow> done' (if isIdentifier w then OVar w else OOther))))"

definition one_arg :: "Asm \<Rightarrow> OFile \<Rightarrow> string \<Rightarrow> fstate \<Rightarrow> (arg \<times> fstate) res" where
  "one_arg a oo w f = (case partial_arg w f of
      Some (Inl e) \<Rightarrow> stop e
    | Some (Inr x) \<Rightarrow> done' (x, f)
    | None \<Rightarrow> (case AllocFor w f of
        Some p \<Rightarrow> done' (AOp (ORa p), f)
      | None \<Rightarrow> (case VarFor oo w of
          Some v \<Rightarrow> done' (AOp (OVar (v_Name v)), f)
        | None \<Rightarrow> (case ParseReg w of
            Inr r \<Rightarrow> done' (AOp (OReg r), f)
          | Inl _ \<Rightarrow> (case parseSizePrefix w of
              Some (n, rest) \<Rightarrow> xbind (ParseIndirect a oo rest f) (\<lambda>(o', f). done' (AOp (with_size n o'), f))
            | None \<Rightarrow>
                if HasPrefix w ''['' then xbind (ParseIndirect a oo w f) (\<lambda>(o', f). done' (AOp o', f))
                else xbind (literal_arg w) (\<lambda>o'. done' (AOp o', f)))))))"

fun all_args :: "Asm \<Rightarrow> OFile \<Rightarrow> string list \<Rightarrow> fstate \<Rightarrow> (arg list \<times> fstate) res" where
  "all_args a oo [] f = done' ([], f)"
| "all_args a oo (w # ws) f = xbind (one_arg a oo w f) (\<lambda>(x, f).
     xbind (all_args a oo ws f) (\<lambda>(xs, f). done' (x # xs, f)))"

section \<open>Directives with a block\<close>

text \<open>\<open>step\<close> handles one line of the body; the result has the lines behind the closing brace.\<close>

definition skipped :: "string \<Rightarrow> bool" where
  "skipped l \<longleftrightarrow> l = [] \<or> HasPrefix l ''//''"

fun block :: "(string \<Rightarrow> 'a \<Rightarrow> fatal + 'a) \<Rightarrow> string \<Rightarrow> string list \<Rightarrow> 'a \<Rightarrow> fatal + ('a \<times> string list)" where
  "block step what [] acc = Inl (EndOfFile what)"
| "block step what (l # ls) acc = (let body = TrimSpace l in
     if skipped body then block step what ls acc
     else if body = ''}'' then Inr (acc, ls)
     else rbind (step body acc) (block step what ls))"

lemma block_shorter: "block step what ls acc = Inr (acc', ls') \<Longrightarrow> length ls' < length ls"
proof (induction ls arbitrary: acc)
  case (Cons l ls)
  show ?case
  proof (cases "skipped (TrimSpace l) \<or> TrimSpace l = ''}''")
    case True
    with Cons show ?thesis by (auto simp: Let_def split: if_splits intro: less_SucI)
  next
    case False
    with Cons(2) obtain x where "block step what ls x = Inr (acc', ls')" by (auto simp: Let_def rbind_eq_Inr)
    then show ?thesis using Cons(1) by fastforce
  qed
qed simp

text \<open>The head of a directive: what stands between it and its brace.\<close>

definition head_of :: "string \<Rightarrow> string \<Rightarrow> fatal + string" where
  "head_of what rest = (case cut (\<lambda>c. c = CHR ''{'') rest of
      None \<Rightarrow> Inl (Malformed what rest)
    | Some (h, _) \<Rightarrow> if TrimSpace h = [] then Inl (Malformed what rest) else Inr (TrimSpace h))"

text \<open>A name and a type behind white space.\<close>

definition name_type :: "string \<Rightarrow> string \<Rightarrow> fatal + FieldShape" where
  "name_type what s = (case cut blank s of
      None \<Rightarrow> Inl (Malformed what s)
    | Some (n, t) \<Rightarrow>
        if TrimSpace t = [] then Inl (Malformed what s) else Inr \<lparr>fs_Name = n, fs_Type = TrimSpace t\<rparr>)"

text \<open>\<open>slot: index index ...\<close>; \<open>words\<close> splits the indices.\<close>

definition slot_line :: "(string \<Rightarrow> string list) \<Rightarrow> string \<Rightarrow> int list list \<Rightarrow> fatal + int list list" where
  "slot_line words rest xs = (case cut (\<lambda>c. c = CHR '':'') rest of
      None \<Rightarrow> Inl (Malformed ''retaliases'' rest)
    | Some (n, ps) \<Rightarrow> (case index_of (TrimSpace n) of
        None \<Rightarrow> Inl (BadNumber ''slot'' n)
      | Some i \<Rightarrow> rbind (indices (words ps)) (\<lambda>is. Inr (set_slot i is xs))))"

text \<open>The body of a method of an interface: parameters, return type if one was given, aliases.\<close>

type_synonym method_body = "FieldShape list \<times> string option \<times> int list list"

definition method_line :: "string \<Rightarrow> method_body \<Rightarrow> fatal + method_body" where
  "method_line body m = (case m of (params, ret, als) \<Rightarrow>
     if HasPrefix body ''param '' then
       rbind (name_type ''param'' (after ''param'' body)) (\<lambda>p. Inr (params @ [p], ret, als))
     else if HasPrefix body ''return '' then Inr (params, Some (after ''return'' body), als)
     else if HasPrefix body ''retaliases '' then
       rbind (slot_line Fields (after ''retaliases'' body) als) (\<lambda>als. Inr (params, ret, als))
     else Inl (Malformed ''method'' body))"

function iface_block :: "string list \<Rightarrow> InterfaceMethodShape list \<Rightarrow> fatal + (InterfaceMethodShape list \<times> string list)" where
  "iface_block [] ms = Inl (EndOfFile ''interface'')"
| "iface_block (l # ls) ms = (let body = TrimSpace l in
     if skipped body then iface_block ls ms
     else if body = ''}'' then Inr (ms, ls)
     else if \<not> HasPrefix body ''method '' then Inl (Malformed ''interface'' body)
     else (case head_of ''method'' (after ''method'' body) of
         Inl e \<Rightarrow> Inl e
       | Inr n \<Rightarrow> (case block method_line ''method'' ls ([], None, []) of
           Inl e \<Rightarrow> Inl e
         | Inr ((params, ret, als), ls') \<Rightarrow> (case ret of
             None \<Rightarrow> Inl (Malformed ''method'' n)
           | Some r \<Rightarrow> iface_block ls'
               (ms @ [\<lparr>im_Name = n, im_Params = params, im_Return = r, im_ReturnAliases = als\<rparr>])))))"
  by pat_completeness auto
termination by (relation "measure (\<lambda>(ls, ms). length ls)") (auto dest: block_shorter)

type_synonym decl = "fatal + (OFile \<times> string list)"

definition interface_directive :: "string \<Rightarrow> bool \<Rightarrow> string list \<Rightarrow> OFile \<Rightarrow> decl" where
  "interface_directive line pub rest oo =
     rbind (head_of ''interface'' (after ''interface'' line)) (\<lambda>n.
     rbind (iface_block rest []) (\<lambda>(ms, rest).
     rbind (map_sum Rejected id (AddInterface n ms pub oo)) (\<lambda>oo. Inr (oo, rest))))"

definition typealias_directive :: "string \<Rightarrow> bool \<Rightarrow> OFile \<Rightarrow> fatal + OFile" where
  "typealias_directive line pub oo = (case Fields (TrimPrefix line ''typealias '') of
      n # u # ms \<Rightarrow> map_sum Rejected id (AddTypeAlias n u ms pub oo)
    | _ \<Rightarrow> Inl (Malformed ''typealias'' line))"

definition set_var :: "string \<Rightarrow> (Var \<Rightarrow> Var) \<Rightarrow> OFile \<Rightarrow> OFile" where
  "set_var n g oo = (case map_of (o_Vars oo) n of
      None \<Rightarrow> oo
    | Some v \<Rightarrow> oo\<lparr>o_Vars := AList.update n (g v) (o_Vars oo)\<rparr>)"

definition set_data :: "string \<Rightarrow> (Var \<Rightarrow> Var) \<Rightarrow> OFile \<Rightarrow> OFile" where
  "set_data n g oo = (case map_of (o_Data oo) n of
      None \<Rightarrow> oo
    | Some v \<Rightarrow> oo\<lparr>o_Data := AList.update n (g v) (o_Data oo)\<rparr>)"

definition typedesc_cache_directive :: "string \<Rightarrow> bool \<Rightarrow> OFile \<Rightarrow> fatal + OFile" where
  "typedesc_cache_directive line pub oo = (let n = after ''typedesc_cache'' line in
     if n = [] then Inl (Malformed ''typedesc_cache'' line)
     else map_sum Rejected (set_var n (\<lambda>v. v\<lparr>v_Kind := KindTypedescCache\<rparr>))
       (AddVar n ''byte[8]'' (ValBytes (replicate 8 0)) pub oo))"

definition typedesc_line :: "string \<Rightarrow> TypedescRecord \<Rightarrow> fatal + TypedescRecord" where
  "typedesc_line body rec =
     (if HasPrefix body ''name '' then Inr (rec\<lparr>tr_TypeName := Trim (CHR 0x22) (after ''name'' body)\<rparr>)
      else if HasPrefix body ''size '' then
        rbind (mustParseU64 ''size'' (after ''size'' body)) (\<lambda>n. Inr (rec\<lparr>tr_SizeBytes := n\<rparr>))
      else if HasPrefix body ''cache_ref '' then Inr (rec\<lparr>tr_CacheSym := after ''cache_ref'' body\<rparr>)
      else if HasPrefix body ''method '' then (case Fields (TrimPrefix body ''method'') of
          n # sg # nh # sh # rs # fs # masks \<Rightarrow>
            rbind (mustParseU64 ''name_hash'' nh) (\<lambda>nh.
            rbind (mustParseU64 ''sig_hash'' sh) (\<lambda>sh.
            rbind (mustParseU64 ''recv_shape'' rs) (\<lambda>rs.
            rbind (parseSlotMasks masks) (\<lambda>masks.
            Inr (rec\<lparr>tr_Methods := tr_Methods rec @ [\<lparr>tm_Name = n, tm_Sig = basUnquoteSigTok sg, tm_NameHash = nh,
              tm_SigHash = sh, tm_RecvShape = rs, tm_FnSym = fs, tm_SlotMasks = masks\<rparr>]\<rparr>)))))
        | _ \<Rightarrow> Inl (Malformed ''typedesc method'' body))
      else Inl (Malformed ''typedesc'' body))"

definition typedesc_directive :: "string \<Rightarrow> bool \<Rightarrow> string list \<Rightarrow> OFile \<Rightarrow> decl" where
  "typedesc_directive line pub rest oo =
     rbind (head_of ''typedesc'' (after ''typedesc'' line)) (\<lambda>n.
     rbind (block typedesc_line ''typedesc'' rest
       \<lparr>tr_TypeName = [], tr_SizeBytes = 0, tr_CacheSym = [], tr_Methods = []\<rparr>) (\<lambda>(rec, rest).
     let (data, relocs) = EncodeTypedesc rec in
     rbind (map_sum Rejected (set_data n (\<lambda>v. v\<lparr>v_Relocs := relocs, v_Kind := KindTypedesc\<rparr>))
       (AddData n (byte_type (length data)) (ValBytes data) pub oo)) (\<lambda>oo. Inr (oo, rest))))"

definition iface_desc_line :: "string \<Rightarrow> IfaceDescRecord \<Rightarrow> fatal + IfaceDescRecord" where
  "iface_desc_line body rec =
     (if HasPrefix body ''name '' then Inr (rec\<lparr>ir_IfaceName := Trim (CHR 0x22) (after ''name'' body)\<rparr>)
      else if HasPrefix body ''method '' then (case Fields (TrimPrefix body ''method'') of
          n # sg # nh # sh # di # masks \<Rightarrow>
            rbind (mustParseU64 ''name_hash'' nh) (\<lambda>nh.
            rbind (mustParseU64 ''sig_hash'' sh) (\<lambda>sh.
            rbind (mustParseU64 ''decl_idx'' di) (\<lambda>di.
            rbind (parseSlotMasks masks) (\<lambda>masks.
            Inr (rec\<lparr>ir_Methods := ir_Methods rec @ [\<lparr>dm_Name = n, dm_Sig = basUnquoteSigTok sg, dm_NameHash = nh,
              dm_SigHash = sh, dm_DeclIdx = di, dm_SlotMasks = masks\<rparr>]\<rparr>)))))
        | _ \<Rightarrow> Inl (Malformed ''iface_desc method'' body))
      else Inl (Malformed ''iface_desc'' body))"

definition iface_desc_directive :: "string \<Rightarrow> bool \<Rightarrow> string list \<Rightarrow> OFile \<Rightarrow> decl" where
  "iface_desc_directive line pub rest oo =
     rbind (head_of ''iface_desc'' (after ''iface_desc'' line)) (\<lambda>n.
     rbind (block iface_desc_line ''iface_desc'' rest \<lparr>ir_IfaceName = [], ir_Methods = []\<rparr>) (\<lambda>(rec, rest).
     let data = fst (EncodeIfaceDesc rec) in
     rbind (map_sum Rejected (set_data n (\<lambda>v. v\<lparr>v_Kind := KindIfaceDesc\<rparr>))
       (AddData n (byte_type (length data)) (ValBytes data) pub oo)) (\<lambda>oo. Inr (oo, rest))))"

type_synonym values_body = "string \<times> ValuesCaseShape list \<times> ProjectionShape list \<times> string list"

definition values_line :: "string \<Rightarrow> values_body \<Rightarrow> fatal + values_body" where
  "values_line body v = (case v of (tag, cases, projs, ms) \<Rightarrow>
     if HasPrefix body ''tag '' then Inr (after ''tag'' body, cases, projs, ms)
     else if HasPrefix body ''case '' then (case Fields (TrimPrefix body ''case '') of
         [n, t] \<Rightarrow> (case ParseInt 10 64 t of
             None \<Rightarrow> Inl (BadNumber ''tag'' t)
           | Some i \<Rightarrow> Inr (tag, cases @ [\<lparr>vc_Name = n, vc_Tag = word_of_int i\<rparr>], projs, ms))
       | _ \<Rightarrow> Inl (Malformed ''case'' body))
     else if HasPrefix body ''projection '' then
       (let pt = after ''projection'' body in
        if pt = [] then Inl (Malformed ''projection'' body)
        else Inr (tag, cases, projs @ [\<lparr>pj_TargetType = pt\<rparr>], ms))
     else if HasPrefix body ''method '' then
       (let mn = after ''method'' body in
        if mn = [] then Inl (Malformed ''method'' body) else Inr (tag, cases, projs, ms @ [mn]))
     else Inl (Malformed ''values'' body))"

definition values_directive :: "string \<Rightarrow> bool \<Rightarrow> string list \<Rightarrow> OFile \<Rightarrow> decl" where
  "values_directive line pub rest oo =
     rbind (head_of ''values'' (after ''values'' line)) (\<lambda>n.
     rbind (block values_line ''values'' rest ([], [], [], [])) (\<lambda>((tag, cases, projs, ms), rest).
     if tag = [] then Inl (Malformed ''values'' n)
     else rbind (map_sum Rejected id (AddValues n tag cases projs ms pub oo)) (\<lambda>oo. Inr (oo, rest))))"

definition struct_line :: "string \<Rightarrow> FieldShape list \<Rightarrow> fatal + FieldShape list" where
  "struct_line body fs = rbind (name_type ''struct'' body) (\<lambda>f. Inr (fs @ [f]))"

text \<open>The head is the name and the names of methods.\<close>

definition struct_directive :: "string \<Rightarrow> bool \<Rightarrow> string list \<Rightarrow> OFile \<Rightarrow> decl" where
  "struct_directive line pub rest oo = (case cut (\<lambda>c. c = CHR ''{'') (after ''struct'' line) of
      None \<Rightarrow> Inl (Malformed ''struct'' line)
    | Some (h, _) \<Rightarrow> (case Fields (TrimSpace h) of
        [] \<Rightarrow> Inl (Malformed ''struct'' line)
      | n # ms \<Rightarrow>
          rbind (block struct_line ''struct'' rest []) (\<lambda>(fs, rest).
          rbind (map_sum Rejected id (AddStruct n fs ms pub oo)) (\<lambda>oo. Inr (oo, rest)))))"

definition data_directive :: "string \<Rightarrow> bool \<Rightarrow> OFile \<Rightarrow> fatal + OFile" where
  "data_directive line pub oo = (case SplitNSpace (after ''data'' line) 3 of
      [n, t, d] \<Rightarrow> rbind (map_sum BadData id (parseData d)) (\<lambda>bs.
        map_sum Rejected id (AddData n t (ValBytes bs) pub oo))
    | _ \<Rightarrow> Inl (Malformed ''data'' line))"

text \<open>The block of a variable: its bytes, once, and relocations.\<close>

type_synonym var_body = "byte list option \<times> DataReloc list"

definition var_line :: "string \<Rightarrow> var_body \<Rightarrow> fatal + var_body" where
  "var_line body v = (case v of (bytes, relocs) \<Rightarrow>
     if HasPrefix body ''bytes'' then
       (if bytes \<noteq> None then Inl (Malformed ''var'' body)
        else let payload = after ''bytes'' body in
          if \<not> HasPrefix payload [CHR 0x22] then Inl (Malformed ''var'' body)
          else rbind (map_sum BadData id (parseData payload)) (\<lambda>bs. Inr (Some bs, relocs)))
     else if HasPrefix body ''reloc'' then (case SplitSpace (after ''reloc'' body) of
         [ow, tw, aw] \<Rightarrow> (case ParseUint 10 32 ow of
             None \<Rightarrow> Inl (BadNumber ''offset'' ow)
           | Some i \<Rightarrow> (case ParseInt 10 64 aw of
               None \<Rightarrow> Inl (BadNumber ''addend'' aw)
             | Some k \<Rightarrow> Inr (bytes, relocs @
                 [\<lparr>dr_Offset = of_nat i, dr_Symbol = tw, dr_Addend = word_of_int k\<rparr>])))
       | _ \<Rightarrow> Inl (Malformed ''reloc'' body))
     else Inl (Malformed ''var'' body))"

definition var_block :: "string \<Rightarrow> string list \<Rightarrow> fatal + ((byte list \<times> DataReloc list) \<times> string list)" where
  "var_block n rest = rbind (block var_line ''var'' rest (None, [])) (\<lambda>((bytes, relocs), rest).
     case bytes of
       None \<Rightarrow> Inl (Malformed ''var'' n)
     | Some bs \<Rightarrow>
         if list_all (\<lambda>r. unat (dr_Offset r) + 8 \<le> length bs) relocs then Inr ((bs, relocs), rest)
         else Inl (Malformed ''reloc'' n))"

text \<open>A literal, a block or a number of zero bytes; \<open>make\<close> panics on a size beyond the address space.\<close>

definition var_value :: "string \<Rightarrow> string \<Rightarrow> string list \<Rightarrow> ((byte list \<times> DataReloc list) \<times> string list) res" where
  "var_value n v rest =
     (if HasPrefix v [CHR 0x22] then accept id (rbind (map_sum BadData id (parseData v)) (\<lambda>bs. Inr ((bs, []), rest)))
      else if v = ''{'' then accept id (var_block n rest)
      else case Atoi v of
          None \<Rightarrow> stop (BadNumber ''size'' v)
        | Some k \<Rightarrow>
            if k < 0 then stop (BadNumber ''size'' v)
            else if k > maxAlloc then None
            else done' ((replicate (nat k) 0, []), rest))"

definition var_directive :: "string \<Rightarrow> bool \<Rightarrow> string list \<Rightarrow> OFile \<Rightarrow> (OFile \<times> string list) res" where
  "var_directive line pub rest oo = (case SplitNSpace (after ''var'' line) 3 of
      [n, t, v] \<Rightarrow>
        xbind (var_value n v rest) (\<lambda>((bs, relocs), rest).
        xbind (accept Rejected (AddVar n t (ValBytes bs) pub oo)) (\<lambda>oo.
        done' (if relocs = [] then oo else set_var n (\<lambda>v. v\<lparr>v_Relocs := relocs\<rparr>) oo, rest)))
    | _ \<Rightarrow> stop (Malformed ''var'' line))"

section \<open>Lines of a function\<close>

text \<open>What the run depends on besides its input: the instruction tables, the order in which maps are
  iterated over, the spare capacity of buffers.\<close>

record env =
  e_asm :: Asm
  e_iter :: "string list \<Rightarrow> string list"
  e_spare :: "Function \<Rightarrow> nat"

definition on_fn :: "(Function \<Rightarrow> Function) \<Rightarrow> fstate \<Rightarrow> fstate" where
  "on_fn g f = f\<lparr>fs_fn := g (fs_fn f)\<rparr>"

definition reg_arg :: "string \<Rightarrow> Register res" where
  "reg_arg w = (case ParseReg w of Inr r \<Rightarrow> done' r | Inl _ \<Rightarrow> stop (NoRegister w))"

definition retaliases_line :: "string \<Rightarrow> fstate \<Rightarrow> fstate res" where
  "retaliases_line line f = xbind
     (accept id (slot_line (\<lambda>ps. SplitSpace (TrimSpace ps)) (after ''retaliases'' line) (f_ReturnAliases (fs_fn f))))
     (\<lambda>als. done' (on_fn (\<lambda>fn. fn\<lparr>f_ReturnAliases := als\<rparr>) f))"

text \<open>\<open>local\<close> and \<open>bytes\<close>: a name, a size, and the register the variable starts in.\<close>

definition new_line :: "Asm \<Rightarrow> (string \<Rightarrow> int \<Rightarrow> fstate \<Rightarrow> ra_err + (nat \<times> fstate)) \<Rightarrow> string \<Rightarrow> string list \<Rightarrow>
    fstate \<Rightarrow> fstate res" where
  "new_line a mkvar what ws f =
     (if length ws < 2 \<or> length ws > 3 then stop (Malformed what '''')
      else xbind (need (BadNumber what (ws ! 1)) (Atoi (ws ! 1))) (\<lambda>n.
        xbind (accept Refused (mkvar (ws ! 0) n f)) (\<lambda>(p, f).
        if length ws = 3 then xbind (reg_arg (ws ! 2)) (\<lambda>r. run (UseRegister a p r f)) else done' f)))"

definition forget_line :: "string \<Rightarrow> fstate \<Rightarrow> fstate res" where
  "forget_line line f = (case SplitSpace (after ''forget'' line) of
      [n] \<Rightarrow> xbind (run (Forget n f)) (accept Refused)
    | _ \<Rightarrow> stop (Malformed ''forget'' line))"

definition inreg_line :: "Asm \<Rightarrow> string \<Rightarrow> fstate \<Rightarrow> fstate res" where
  "inreg_line a line f = (case SplitSpace (after ''inreg'' line) of
      [n, w] \<Rightarrow> xbind (need (NoVariable n) (AllocFor n f)) (\<lambda>p.
        xbind (reg_arg w) (\<lambda>r. run (UseRegister a p r f)))
    | _ \<Rightarrow> stop (Malformed ''inreg'' line))"

definition use_line :: "string \<Rightarrow> fstate \<Rightarrow> fstate res" where
  "use_line line f = xbind (reg_arg (after ''use'' line)) (\<lambda>r.
     xbind (run (Function_Use r f)) (\<lambda>(ok, f). if ok then done' f else stop (RegisterTaken (after ''use'' line))))"

definition argi_line :: "string \<Rightarrow> fstate \<Rightarrow> fstate res" where
  "argi_line line f = (let ws = SplitSpace (after ''argi'' line) in
     if length ws < 2 \<or> length ws > 3 then stop (Malformed ''argi'' line)
     else xbind (need (BadNumber ''argi'' (ws ! 1)) (ParseInt 10 64 (ws ! 1))) (\<lambda>i.
       xbind (if length ws = 3 then need (BadNumber ''argi'' (ws ! 2)) (ParseInt 10 64 (ws ! 2)) else done' 64) (\<lambda>n.
       xbind (run (ArgI (ws ! 0) i (Some n) f)) (\<lambda>res.
       xbind (accept Refused res) (\<lambda>(p, f). done' f)))))"

definition arg_line :: "string \<Rightarrow> fstate \<Rightarrow> fstate res" where
  "arg_line line f = (case SplitSpace (after ''arg'' line) of
      [n, w] \<Rightarrow> (case ParseReg w of
          Inr r \<Rightarrow> xbind (run (Arg n r f)) (\<lambda>res. xbind (accept Refused res) (\<lambda>(p, f). done' f))
        | Inl _ \<Rightarrow> (case ParseInt 10 64 w of
            Some i \<Rightarrow> xbind (accept Refused (StackArg n i f)) (\<lambda>(p, f). done' f)
          | None \<Rightarrow> stop (Malformed ''arg'' line)))
    | _ \<Rightarrow> stop (Malformed ''arg'' line))"

text \<open>The loops of \<open>evict\<close>, \<open>acquire\<close> and \<open>release\<close>: a bad word stops after those before it were handled.\<close>

fun each_reg :: "(Register \<Rightarrow> fstate \<Rightarrow> fstate option) \<Rightarrow> string list \<Rightarrow> fstate \<Rightarrow> fstate res" where
  "each_reg g [] f = done' f"
| "each_reg g (w # ws) f = xbind (reg_arg w) (\<lambda>r. xbind (run (g r f)) (each_reg g ws))"

definition evict_line :: "Asm \<Rightarrow> string \<Rightarrow> fstate \<Rightarrow> fstate res" where
  "evict_line a line f = (let ws = SplitSpace (after ''evict'' line) in
     if ws = [] then run (EvictAll a f) else each_reg (EvictReg a) ws f)"

definition some_regs :: "(Register \<Rightarrow> fstate \<Rightarrow> fstate option) \<Rightarrow> string \<Rightarrow> string \<Rightarrow> fstate \<Rightarrow> fstate res" where
  "some_regs g d line f = (let ws = SplitSpace (after d line) in
     if ws = [] then stop (Malformed d line) else each_reg g ws f)"

definition label_line :: "Asm \<Rightarrow> string \<Rightarrow> fstate \<Rightarrow> fstate res" where
  "label_line a line f = (let l = after ''label'' line in
     xbind (run (Function_Label a l f)) (\<lambda>(new, f). if new then done' f else stop (LabelTaken l)))"

definition jumps :: "string list" where
  "jumps = [''JA'', ''JAE'', ''JB'', ''JBE'', ''JC'', ''JE'', ''JECXZ'', ''JG'', ''JGE'', ''JL'', ''JLE'', ''JMP'', ''JNA'',
     ''JNAE'', ''JNB'', ''JNBE'', ''JNC'', ''JNE'', ''JNG'', ''JNGE'', ''JNL'', ''JNLE'', ''JNO'', ''JNP'', ''JNS'', ''JNZ'',
     ''JO'', ''JP'', ''JPE'', ''JPO'', ''JRCXZ'', ''JS'', ''JZ'', ''CALL'']"

definition instr_result :: "(part_err option \<times> fstate) option \<Rightarrow> fstate res" where
  "instr_result m = xbind (run m) (\<lambda>(e, f). case e of None \<Rightarrow> done' f | Some e \<Rightarrow> stop (BadOperand e))"

text \<open>A call through a variable or a register, or a jump to a label or symbol.\<close>

definition jump_line :: "Asm \<Rightarrow> string \<Rightarrow> string \<Rightarrow> fstate \<Rightarrow> fstate res" where
  "jump_line a i w f =
     (if i = ''CALL'' then (case AllocFor w f of
          Some p \<Rightarrow> xbind (run (EvictForCall a f)) (\<lambda>f. instr_result (Instr a ''CALL'' [AOp (ORa p)] f))
        | None \<Rightarrow> (case ParseReg w of
            Inr r \<Rightarrow> xbind (run (EvictForCall a f)) (\<lambda>f. instr_result (Instr a ''CALL'' [AOp (OReg r)] f))
          | Inl _ \<Rightarrow> run (Function_Jump a i w f)))
      else run (Function_Jump a i w f))"

definition insn_line :: "Asm \<Rightarrow> OFile \<Rightarrow> string \<Rightarrow> fstate \<Rightarrow> fstate res" where
  "insn_line a oo line f = (case SplitSpace line of
      [] \<Rightarrow> None
    | w # ws \<Rightarrow> (let i = ToUpper w in
        if i \<in> set jumps then (case ws of [t] \<Rightarrow> jump_line a i t f | _ \<Rightarrow> stop (Malformed ''jump'' line))
        else xbind (all_args a oo ws f) (\<lambda>(xs, f). instr_result (Instr a i xs f))))"

text \<open>A line inside a function, the tests in the order of the code.\<close>

definition function_line :: "env \<Rightarrow> OFile \<Rightarrow> string \<Rightarrow> fstate \<Rightarrow> fstate res" where
  "function_line e oo line f = (let a = e_asm e in
     if HasPrefix line ''type'' then done' (on_fn (\<lambda>fn. fn\<lparr>f_Type := after ''type'' line\<rparr>) f)
     else if HasPrefix line ''retaliases'' then retaliases_line line f
     else if HasPrefix line ''local'' then new_line a NewLocal ''local'' (SplitSpace (after ''local'' line)) f
     else if HasPrefix line ''bytes'' then new_line a AllocBytes ''bytes'' (SplitSpace (after ''bytes'' line)) f
     else if HasPrefix line ''volatile'' then
       xbind (run (VolatileLocal a (after ''volatile'' line) f)) (accept Refused)
     else if HasPrefix line ''forgetall'' then run (ForgetAll (e_iter e) f)
     else if HasPrefix line ''forget'' then forget_line line f
     else if HasPrefix line ''inreg'' then inreg_line a line f
     else if HasPrefix line ''use'' then use_line line f
     else if HasPrefix line ''argi'' then argi_line line f
     else if HasPrefix line ''arg'' then arg_line line f
     else if HasPrefix line ''evict'' then evict_line a line f
     else if HasPrefix line ''acquire'' then some_regs (Acquire a) ''acquire'' line f
     else if HasPrefix line ''release'' then some_regs Function_Release ''release'' line f
     else if HasPrefix line ''label'' then label_line a line f
     else if line = ''prologue'' then run (Prologue a f)
     else if line = ''epilogue'' then run (Epilogue a (e_spare e (fs_fn f)) f)
     else insn_line a oo line f)"

section \<open>Files\<close>

text \<open>The flag \<open>-o\<close>, the object file, and the function the lines belong to.\<close>

record bas =
  b_out :: string
  b_o :: "OFile option"
  b_f :: "fstate option"

definition package_line :: "string \<Rightarrow> bas \<Rightarrow> bas res" where
  "package_line line st = (let pkg = after ''package'' line;
       out = (if b_out st = [] then pkg @ ''.bo'' else b_out st) in
     case b_o st of
       None \<Rightarrow> done' (st\<lparr>b_out := out, b_o := Some (NewOFile out pkg)\<rparr>)
     | Some oo \<Rightarrow> if o_Pkgname oo = pkg then done' (st\<lparr>b_out := out\<rparr>) else stop (OtherPackage pkg))"

definition function_directive :: "string \<Rightarrow> int \<Rightarrow> string \<Rightarrow> bool \<Rightarrow> OFile \<Rightarrow> fatal + (OFile \<times> fstate)" where
  "function_directive file ln line pub oo = (let n = after ''function'' line in
     if CHR '' '' \<in> set n then Inl (Malformed ''function'' n)
     else rbind (map_sum Rejected id (NewFunction file ln n [] oo)) (\<lambda>oo.
       let fn = (new_function (o_Pkgname oo) file ln n [])\<lparr>f_IsPub := pub\<rparr> in
       Inr (oo\<lparr>o_Funcs := AList.update n fn (o_Funcs oo)\<rparr>, NewRallocs fn)))"

text \<open>The function is shared with the object file.\<close>

definition commit :: "fstate \<Rightarrow> OFile \<Rightarrow> OFile" where
  "commit f oo = oo\<lparr>o_Funcs := AList.update (f_Name (fs_fn f)) (fs_fn f) (o_Funcs oo)\<rparr>"

text \<open>A line behind the package declaration: the new state and the lines that are left.\<close>

definition after_decl :: "bas \<Rightarrow> decl \<Rightarrow> (bas \<times> string list) res" where
  "after_decl st d = xbind (accept id d) (\<lambda>(oo, rest). done' (st\<lparr>b_o := Some oo\<rparr>, rest))"

definition package_member :: "env \<Rightarrow> string \<Rightarrow> int \<Rightarrow> string \<Rightarrow> string list \<Rightarrow> OFile \<Rightarrow> bas \<Rightarrow>
    (bas \<times> string list) res" where
  "package_member e file ln line0 rest oo st =
     (let pub = HasPrefix line0 ''pub ''; line = (if pub then after ''pub '' line0 else line0);
          single = (\<lambda>d. after_decl st (rbind d (\<lambda>oo. Inr (oo, rest)))) in
      if HasPrefix line ''typealias '' then single (typealias_directive line pub oo)
      else if HasPrefix line ''interface'' then after_decl st (interface_directive line pub rest oo)
      else if HasPrefix line ''typedesc_cache'' then single (typedesc_cache_directive line pub oo)
      else if HasPrefix line ''typedesc'' then after_decl st (typedesc_directive line pub rest oo)
      else if HasPrefix line ''iface_desc'' then after_decl st (iface_desc_directive line pub rest oo)
      else if HasPrefix line ''values '' then after_decl st (values_directive line pub rest oo)
      else if HasPrefix line ''struct'' then after_decl st (struct_directive line pub rest oo)
      else if HasPrefix line ''function'' then
        xbind (accept id (function_directive file ln line pub oo)) (\<lambda>(oo, f).
        done' (st\<lparr>b_o := Some oo, b_f := Some f\<rparr>, rest))
      else if HasPrefix line ''data'' then
        after_decl (st\<lparr>b_f := None\<rparr>) (rbind (data_directive line pub oo) (\<lambda>oo. Inr (oo, rest)))
      else if HasPrefix line ''var'' then
        xbind (var_directive line pub rest oo) (\<lambda>(oo, rest). done' (st\<lparr>b_o := Some oo, b_f := None\<rparr>, rest))
      else (case b_f st of
          None \<Rightarrow> stop NotInFunction
        | Some f \<Rightarrow> xbind (function_line e oo line f) (\<lambda>f.
            done' (st\<lparr>b_o := Some (commit f oo), b_f := Some f\<rparr>, rest))))"

definition source_line :: "env \<Rightarrow> string \<Rightarrow> int \<Rightarrow> string \<Rightarrow> string list \<Rightarrow> bas \<Rightarrow> (bas \<times> string list) res" where
  "source_line e file ln l rest st = (let line = TrimSpace l in
     if skipped line then done' (st, rest)
     else if HasPrefix line ''package'' then xbind (package_line line st) (\<lambda>st. done' (st, rest))
     else (case b_o st of
         None \<Rightarrow> stop NoPackage
       | Some oo \<Rightarrow> package_member e file ln line rest oo st))"

subsection \<open>The lines of a file\<close>

lemma xbind_cong [fundef_cong]:
  "m = m' \<Longrightarrow> (\<And>x. m' = Some (Inr x) \<Longrightarrow> f x = f' x) \<Longrightarrow> xbind m f = xbind m' f'"
  by (auto simp: xbind_def split: option.split sum.split)

lemma xbind_simps [simp]:
  "xbind None f = None"
  "xbind (stop e) f = stop e"
  "xbind (done' x) f = f x"
  by (simp_all add: xbind_def stop_def done'_def)

lemma xbind_ok: "xbind m f = Some (Inr y) \<longleftrightarrow> (\<exists>x. m = Some (Inr x) \<and> f x = Some (Inr y))"
  by (auto simp: xbind_def split: option.split sum.split)

lemma res_ok [simp]:
  "stop e \<noteq> Some (Inr y)"
  "done' x = Some (Inr y) \<longleftrightarrow> x = y"
  "run m = Some (Inr y) \<longleftrightarrow> m = Some y"
  "need e m = Some (Inr y) \<longleftrightarrow> m = Some y"
  "accept g s = Some (Inr y) \<longleftrightarrow> s = Inr y"
  by (auto simp: stop_def done'_def run_def need_def accept_def split: option.split) (cases s; simp)+

lemma map_sum_Inr: "map_sum g h m = Inr y \<longleftrightarrow> (\<exists>x. m = Inr x \<and> y = h x)"
  by (cases m) auto

lemma iface_block_shorter: "iface_block ls ms = Inr (ms', ls') \<Longrightarrow> length ls' < length ls"
proof (induction ls ms rule: iface_block.induct)
  case (2 l ls ms)
  show ?case
  proof (cases "skipped (TrimSpace l) \<or> TrimSpace l = ''}''")
    case True
    with 2 show ?thesis by (auto simp: Let_def split: if_splits intro: less_SucI)
  next
    case False
    with 2(3) obtain n params r als ls1 where h: "HasPrefix (TrimSpace l) ''method ''"
      "head_of ''method'' (after ''method'' (TrimSpace l)) = Inr n"
      "block method_line ''method'' ls ([], None, []) = Inr ((params, Some r, als), ls1)"
      "iface_block ls1 (ms @ [\<lparr>im_Name = n, im_Params = params, im_Return = r, im_ReturnAliases = als\<rparr>]) = Inr (ms', ls')"
      by (auto simp: Let_def split: if_splits sum.splits option.splits)
    have "length ls' < length ls1" using 2(2)[OF refl _ _ _ h(2,3) refl refl refl refl] False h by auto
    with block_shorter[OF h(3)] show ?thesis by simp
  qed
qed simp

text \<open>Every directive leaves a suffix of the lines.\<close>

lemmas decl_ok = rbind_eq_Inr map_sum_Inr Let_def

lemma directives_shorter:
  "interface_directive line pub rest oo = Inr (oo', rest') \<Longrightarrow> length rest' \<le> length rest"
  "typedesc_directive line pub rest oo = Inr (oo', rest') \<Longrightarrow> length rest' \<le> length rest"
  "iface_desc_directive line pub rest oo = Inr (oo', rest') \<Longrightarrow> length rest' \<le> length rest"
  "values_directive line pub rest oo = Inr (oo', rest') \<Longrightarrow> length rest' \<le> length rest"
  "struct_directive line pub rest oo = Inr (oo', rest') \<Longrightarrow> length rest' \<le> length rest"
  by (auto simp: interface_directive_def typedesc_directive_def iface_desc_directive_def values_directive_def
      struct_directive_def decl_ok case_prod_unfold split: option.splits list.splits if_splits
      dest!: block_shorter iface_block_shorter)

lemma var_directive_shorter:
  "var_directive line pub rest oo = Some (Inr (oo', rest')) \<Longrightarrow> length rest' \<le> length rest"
  by (auto simp: var_directive_def var_value_def var_block_def xbind_ok decl_ok
      split: list.splits option.splits if_splits prod.splits dest!: block_shorter)

lemma package_member_shorter:
  "package_member e file ln line rest oo st = Some (Inr (st', rest')) \<Longrightarrow> length rest' \<le> length rest"
  unfolding package_member_def Let_def after_decl_def
  by (auto simp: xbind_ok rbind_eq_Inr split: if_splits option.splits dest: directives_shorter var_directive_shorter)

lemma source_line_shorter: "source_line e file ln l rest st = Some (Inr (st', rest')) \<Longrightarrow> length rest' \<le> length rest"
  by (auto simp: source_line_def xbind_ok Let_def split: if_splits option.splits dest: package_member_shorter)

text \<open>\<open>count\<close> is the number of lines of the file.\<close>

function source_lines :: "env \<Rightarrow> string \<Rightarrow> nat \<Rightarrow> string list \<Rightarrow> bas \<Rightarrow> bas res" where
  "source_lines e file count [] st = done' st"
| "source_lines e file count (l # ls) st =
     xbind (source_line e file (int (count - length ls)) l ls st) (\<lambda>(st, ls). source_lines e file count ls st)"
  by pat_completeness auto
termination by (relation "measure (\<lambda>(e, file, count, ls, st). length ls)") (auto dest: source_line_shorter)

text \<open>A file that cannot be opened is reported and has no lines.\<close>

definition source_file :: "env \<Rightarrow> string \<times> string option \<Rightarrow> bas \<Rightarrow> bas res" where
  "source_file e f st = (case f of (n, content) \<Rightarrow>
     let ls = (case content of None \<Rightarrow> [] | Some c \<Rightarrow> scan_lines c) in
     source_lines e n (length ls) ls (st\<lparr>b_f := None\<rparr>))"

fun source_files :: "env \<Rightarrow> (string \<times> string option) list \<Rightarrow> bas \<Rightarrow> bas res" where
  "source_files e [] st = done' st"
| "source_files e (f # fs) st = xbind (source_file e f st) (source_files e fs)"

text \<open>Every type descriptor has its cache.\<close>

definition cache_name :: "string \<Rightarrow> string" where
  "cache_name n = ''__typedesc_cache_'' @ TrimPrefix n ''__typedesc_''"

definition unpaired :: "OFile \<Rightarrow> string \<times> Var \<Rightarrow> bool" where
  "unpaired oo d \<longleftrightarrow> v_Kind (snd d) = KindTypedesc \<and>
     (case map_of (o_Vars oo) (cache_name (fst d)) of None \<Rightarrow> True | Some c \<Rightarrow> v_Kind c \<noteq> KindTypedescCache)"

definition assemble :: "env \<Rightarrow> string \<Rightarrow> (string \<times> string option) list \<Rightarrow> OFile res" where
  "assemble e out fs =
     (if fs = [] then stop NoFiles
      else xbind (source_files e fs \<lparr>b_out = out, b_o = None, b_f = None\<rparr>) (\<lambda>st.
        case b_o st of
          None \<Rightarrow> stop NoFiles
        | Some oo \<Rightarrow> (case filter (unpaired oo) (o_Data oo) of
            [] \<Rightarrow> done' oo
          | (n, _) # _ \<Rightarrow> stop (NoCache n (cache_name n)))))"

text \<open>
  The whole run.  The object file is written before the bodies of its functions are looked at, so a run
  that fails at the end has written its file all the same; a write that fails leaves what was written.
\<close>

datatype outcome =
    Nothing
  | Partly string
  | Written string "byte list" bool

definition body_fine :: "Function \<Rightarrow> bool" where
  "body_fine f = (case Body f of Some (Inr _) \<Rightarrow> True | _ \<Rightarrow> False)"

definition bas_main :: "env \<Rightarrow> string \<Rightarrow> (string \<times> string option) list \<Rightarrow> outcome" where
  "bas_main e out fs = (case assemble e out fs of
      None \<Rightarrow> Nothing
    | Some (Inl _) \<Rightarrow> Nothing
    | Some (Inr oo) \<Rightarrow> (case writeOFile oo of
        Inl _ \<Rightarrow> Partly (o_Filename oo)
      | Inr bs \<Rightarrow> Written (o_Filename oo) bs (list_all (\<lambda>(n, f). body_fine f) (o_Funcs oo))))"

end
