(* ===== verification/Growth.thy ===== *)
theory Growth
  imports Rallocs
begin

text \<open>
  What the operations on a function do to the function itself: they append code, whose relocations lie
  within it, enter labels and jumps, and patch the frame size in place.  So a function whose code has
  been assembled by them is one that the object-file theory knows as \<open>built\<close>, whatever the instruction
  tables say, except that a jump must end in a displacement of four bytes.
\<close>

section \<open>Relocations of the encoder\<close>

definition reloc_in :: "nat \<Rightarrow> byte list \<Rightarrow> Relocation list \<Rightarrow> bool" where
  "reloc_in len code rs \<longleftrightarrow> length rs \<le> 1 \<and> (len + length code < 2 ^ 31 \<longrightarrow>
     (\<forall>r \<in> set rs. len \<le> unat (r_Offset r) \<and> unat (r_Offset r) + 4 \<le> len + length code))"

lemma reloc_in_Nil [simp]: "reloc_in len code []"
  by (simp add: reloc_in_def)

lemma reloc_in_after: "reloc_in (len + length pre) code rs \<Longrightarrow> reloc_in len (pre @ code) rs"
  by (auto simp: reloc_in_def)

lemma reloc_in_before: "reloc_in len code rs \<Longrightarrow> reloc_in len (code @ post) rs"
  by (force simp: reloc_in_def)

lemma modrm_mode_reloc:
  "modrm_mode len x os = Some (Inr md) \<Longrightarrow> m_relocations md = [] \<or> \<not> m_doSib md \<and>
     (\<exists>ind. m_indirect md = Some ind \<and> in_Reg ind = R_RIP) \<and> (\<exists>s a. m_relocations md = [\<lparr>r_Offset = of_nat (len + 1), r_Symbol = s, r_Addend = a\<rparr>])"
  by (auto simp: modrm_mode_def plain_mode_def split: if_splits operand.splits)

lemma modrm_reloc:
  assumes "modrm_Encode len x os = Some (bs, Inr rs)"
  shows "reloc_in len bs rs"
proof -
  obtain md xreg where m: "modrm_mode len x os = Some (Inr md)" "modrm_reg x os = Some (Inr xreg)"
    "(if m_doSib md then modrm_sib md xreg else modrm_plain md xreg x os) = Some (bs, Inr rs)"
    using assms by (auto simp: modrm_Encode_def failed_def split: Option.bind_splits sum.splits)
  have rs: "rs = m_relocations md"
    using m(3) by (auto simp: modrm_sib_def modrm_plain_def failed_def Let_def
      split: if_splits option.splits Option.bind_splits sum.splits)
  from modrm_mode_reloc[OF m(1)] show ?thesis
  proof (elim disjE conjE exE)
    fix ind s a
    assume "\<not> m_doSib md" "m_indirect md = Some ind" "in_Reg ind = R_RIP"
      and r: "m_relocations md = [\<lparr>r_Offset = of_nat (len + 1), r_Symbol = s, r_Addend = a\<rparr>]"
    then have "length bs = 5" using m(3) by (auto simp: modrm_plain_def)
    moreover have "unat (of_nat (len + 1) :: 32 word) = len + 1" if "len + 5 < 2 ^ 31"
      unfolding unat_of_nat using that by (intro mod_less) simp
    ultimately show ?thesis unfolding reloc_in_def rs r by (simp del: of_nat_add of_nat_Suc)
  qed (simp add: rs)
qed

lemma Encode_reloc: "Encode len e os = Some (bs, Inr rs) \<Longrightarrow> reloc_in len bs rs"
proof (induction e)
  case (Emodrm x)
  then show ?case by (simp add: modrm_reloc)
qed (auto simp: wrote_def failed_def rex_Encode_def opcode_Encode_def immediate_Encode_def codeOffset_Encode_def
    dataOffset_Encode_def split: if_splits Option.bind_splits sum.splits operand.splits)

lemma encode_parts_reloc:
  "encode_parts len es os rs0 = Some (bs, Inr rs) \<Longrightarrow> es = [] \<and> rs = rs0 \<and> bs = [] \<or> reloc_in len bs rs"
proof (induction len es os rs0 arbitrary: bs rule: encode_parts.induct)
  case (2 len e es os rs0)
  then obtain b1 rs1 b2 where s: "Encode len e os = Some (b1, Inr rs1)"
    "encode_parts (len + length b1) es os rs1 = Some (b2, Inr rs)" "bs = b1 @ b2"
    by (auto split: Option.bind_splits sum.splits)
  from 2(1)[OF s(1) refl refl s(2)] show ?case
    using Encode_reloc[OF s(1)] s(3) by (auto intro: reloc_in_after)
qed simp

lemma encode_alts_reloc:
  "encode_alts len ess os prev = Some (bs, Inr rs) \<Longrightarrow> prev = Inr rs \<and> bs = [] \<or> reloc_in len bs rs"
proof (induction len ess os prev arbitrary: bs rule: encode_alts.induct)
  case (2 len es ess os prev)
  then obtain b1 res where s: "encode_parts len es os [] = Some (b1, res)" by (auto split: Option.bind_splits)
  show ?case
  proof (cases res)
    case (Inr rs1)
    then have "bs = b1" "rs = rs1" using 2(2) s by auto
    then show ?thesis using encode_parts_reloc[of len es os "[]" b1 rs1] s Inr by auto
  next
    case (Inl e)
    then obtain b2 where b2: "encode_alts (len + length b1) ess os (Inl e) = Some (b2, Inr rs)" "bs = b1 @ b2"
      using 2(2) s by (auto split: Option.bind_splits)
    from 2(1)[OF s refl Inl b2(1)] show ?thesis using b2(2) by (auto intro: reloc_in_after)
  qed
qed simp

lemma form_reloc: "IForm_Encode len f os = Some (bs, Inr rs) \<Longrightarrow> reloc_in len bs rs"
  by (auto simp: IForm_Encode_def split: Option.bind_splits if_splits dest!: encode_alts_reloc)

lemma asm_reloc: "Asm_Encode a h len i os = Some (bs, Inr rs) \<Longrightarrow> reloc_in len bs rs"
  by (auto simp: Asm_Encode_def failed_def split: Option.bind_splits sum.splits dest: form_reloc)

section \<open>Growing functions\<close>

definition grows :: "Function \<Rightarrow> Function \<Rightarrow> bool" where
  "grows f g \<longleftrightarrow> f_Name g = f_Name f \<and> length (f_bs f) \<le> length (f_bs g) \<and>
     (\<forall>pkg n. built pkg n f \<longrightarrow> length (f_bs g) < 2 ^ 31 \<longrightarrow> built pkg n g)"

abbreviation grown :: "fstate \<Rightarrow> fstate \<Rightarrow> bool" where
  "grown s s' \<equiv> grows (fs_fn s) (fs_fn s')"

lemma grows_refl [simp]: "grows f f"
  by (simp add: grows_def)

lemma grows_trans: "grows f g \<Longrightarrow> grows g h \<Longrightarrow> grows f h"
  by (auto simp: grows_def)

lemma grows_emit: "reloc_in (length (f_bs f)) code rs \<Longrightarrow> grows f (emit code rs f)"
proof -
  assume r: "reloc_in (length (f_bs f)) code rs"
  have s: "sorted_wrt P rs" for P :: "Relocation \<Rightarrow> Relocation \<Rightarrow> bool"
    using r by (cases rs; cases "tl rs") (auto simp: reloc_in_def)
  have "built pkg n (emit code rs f)" if "built pkg n f" "length (f_bs (emit code rs f)) < 2 ^ 31" for pkg n
    by (rule built_emit[OF that(1)]) (use r s that(2) in \<open>auto simp: reloc_in_def relocs_ok_def emit_def\<close>)
  then show ?thesis by (auto simp: grows_def emit_def)
qed

lemma emit_twice: "emit [] rs (emit code [] f) = emit code rs f"
  by (simp add: emit_def)

lemma grown_insn: "emit_insn a i os s = Some s' \<Longrightarrow> grown s s'"
  by (auto simp: emit_insn_def split: Option.bind_splits prod.splits sum.splits intro!: grows_emit asm_reloc)

lemma fs_fn_simps [simp]:
  "fs_fn (upd p g s) = fs_fn s" "fs_fn (updateLRU r s) = fs_fn s" "fs_fn (removeLRU r s) = fs_fn s"
  "fs_fn (settle p r s) = fs_fn s" "fs_fn (returnSpace n off s) = fs_fn s" "fs_fn (snd (new_ralloc nm v s)) = fs_fn s"
  by (simp_all add: upd_def updateLRU_def removeLRU_def settle_def returnSpace_def new_ralloc_def)

lemma fs_fn_give_up: "give_up r s = Some s' \<Longrightarrow> fs_fn s' = fs_fn s"
  by (auto simp: give_up_def)

lemma fs_fn_space: "space n s = (off, s') \<Longrightarrow> fs_fn s' = fs_fn s"
  by (auto simp: space_def Let_def split: option.splits)

lemmas run_splits = Option.bind_splits prod.splits if_splits option.splits sum.splits

lemma grown_Evict: "Evict a p s = Some (r, s') \<Longrightarrow> grown s s'"
  by (auto simp: Evict_def Let_def split: run_splits dest!: fs_fn_give_up grown_insn)

lemma grown_evict_lru: "evict_lru a n rs s = Some (got, s') \<Longrightarrow> grown s s'"
  by (induction a n rs s rule: evict_lru.induct) (auto split: run_splits dest!: grown_Evict)

lemma grown_evict_each: "evict_each a cs s = Some s' \<Longrightarrow> grown s s'"
  by (induction a cs s rule: evict_each.induct) (fastforce split: run_splits dest: grown_Evict intro: grows_trans)+

lemma grown_EvictReg: "EvictReg a r s = Some s' \<Longrightarrow> grown s s'"
  by (auto simp: EvictReg_def split: run_splits dest: grown_evict_each)

lemma grown_evict_all: "evict_all a cs s = Some s' \<Longrightarrow> grown s s'"
  by (induction a cs s rule: evict_all.induct) (fastforce split: run_splits dest: grown_Evict intro: grows_trans)+

lemma grown_EvictAll: "EvictAll a s = Some s' \<Longrightarrow> grown s s'"
  by (simp add: EvictAll_def grown_evict_all)

lemma grown_evict_regs: "evict_regs a cs s = Some s' \<Longrightarrow> grown s s'"
  by (induction a cs s rule: evict_regs.induct) (auto split: run_splits dest!: grown_EvictReg intro: grows_trans)

lemma grown_EvictForCall: "EvictForCall a s = Some s' \<Longrightarrow> grown s s'"
  by (simp add: EvictForCall_def grown_evict_regs)

lemma grown_Acquire: "Acquire a r s = Some s' \<Longrightarrow> grown s s'"
  by (auto simp: Acquire_def split: run_splits dest!: grown_evict_all)

lemma grown_obtain: "obtain_reg a n s = Some (r, s') \<Longrightarrow> grown s s'"
  by (auto simp: obtain_reg_def Rallocs_Evict_def split: run_splits dest!: grown_evict_lru)

lemma grown_Register: "Ralloc_Register a p s = Some (r, s') \<Longrightarrow> grown s s'"
  by (auto simp: Ralloc_Register_def Let_def split: run_splits dest!: grown_obtain grown_insn intro: grows_trans)

lemma grown_move_in: "move_in a p r s = Some s' \<Longrightarrow> grown s s'"
  by (auto simp: move_in_def Let_def split: run_splits dest!: grown_insn)

lemma grown_UseRegister: "UseRegister a p r s = Some s' \<Longrightarrow> grown s s'"
  by (fastforce simp: UseRegister_def Let_def split: run_splits dest!: grown_EvictReg grown_move_in intro: grows_trans)

lemma grown_Indirect: "Ralloc_Indirect a p s = Some (x, s') \<Longrightarrow> grown s s'"
  by (auto simp: Ralloc_Indirect_def split: run_splits dest!: grown_Evict)

lemma grown_Volatile: "VolatileLocal a n s = Some (Inr s') \<Longrightarrow> grown s s'"
  by (auto simp: VolatileLocal_def split: run_splits dest!: grown_Evict)

lemma grown_Convert: "ConvertRalloc a op p s = Some (x, s') \<Longrightarrow> grown s s'"
  by (auto simp: ConvertRalloc_def split: run_splits dest!: grown_Register grown_Indirect)

lemma grown_convert: "convert_ops a ops os s = Some (os', s') \<Longrightarrow> grown s s'"
proof (induction a ops os s arbitrary: os' s' rule: convert_ops.induct)
  case (3 a op ops o' os s)
  then obtain c s1 cs where c: "(case o' of ORa p \<Rightarrow> ConvertRalloc a op p s | _ \<Rightarrow> Some (o', s)) = Some (c, s1)"
    "convert_ops a ops os s1 = Some (cs, s')"
    by (auto split: Option.bind_splits prod.splits)
  have "grown s s1" using c(1) by (auto split: operand.splits dest: grown_Convert)
  with 3 c show ?case by (blast intro: grows_trans)
qed auto

text \<open>\<open>form_Encode\<close> and what calls it leave the relocations of the last code to \<open>Instr\<close>.\<close>

definition last_code :: "fstate \<Rightarrow> fstate \<Rightarrow> enc_err + Relocation list \<Rightarrow> bool" where
  "last_code s s' res \<longleftrightarrow> (\<exists>f code. grows (fs_fn s) f \<and> fs_fn s' = emit code [] f \<and>
     (\<forall>rs. res = Inr rs \<longrightarrow> reloc_in (length (f_bs f)) code rs))"

lemma last_code_grown: "last_code s s' res \<Longrightarrow> grown s s'"
  by (auto simp: last_code_def intro!: grows_trans[OF _ grows_emit])

lemma last_code_trans: "grown s t \<Longrightarrow> last_code t s' res \<Longrightarrow> last_code s s' res"
  unfolding last_code_def by (blast intro: grows_trans)

lemma last_code_same: "last_code s s (Inl e)"
  unfolding last_code_def by (intro exI[of _ "fs_fn s"] exI[of _ "[]"]) (simp add: emit_def)

lemma form_last: "form_Encode a i f os s = Some (res, os', s') \<Longrightarrow> last_code s s' res"
proof -
  assume "form_Encode a i f os s = Some (res, os', s')"
  then obtain s1 bs where s: "convert_ops a (form_ops f) os s = Some (os', s1)"
    "IForm_Encode (length (f_bs (fs_fn s1))) f os' = Some (bs, res)" "fs_fn s' = emit bs [] (fs_fn s1)"
    by (auto simp: form_Encode_def split: Option.bind_splits prod.splits)
  have "\<forall>rs. res = Inr rs \<longrightarrow> reloc_in (length (f_bs (fs_fn s1))) bs rs" using form_reloc s(2) by blast
  then show ?thesis unfolding last_code_def using grown_convert[OF s(1)] s(3) by blast
qed

lemma instr_last: "instr_Encode a i fs m os s = Some (res, os', s') \<Longrightarrow> last_code s s' res"
  by (auto simp: instr_Encode_def last_code_same split: run_splits dest: form_last)

lemma loop_last: "encode_loop a i fs m os newos s = Some (res, os', s') \<Longrightarrow> last_code s s' res"
proof (induction a i fs m os newos s arbitrary: res os' s' rule: encode_loop.induct)
  case (1 a i fs m os newos s)
  from 1(2) obtain res1 newos1 s1 where s1: "instr_Encode a i fs m newos s = Some (res1, newos1, s1)"
    by (auto simp: encode_loop.simps[of a i fs m os newos s] split: Option.bind_splits)
  note l1 = instr_last[OF s1]
  show ?case
  proof (cases res1)
    case (Inr rs)
    then show ?thesis using 1(2) s1 l1 by (simp add: encode_loop.simps[of a i fs m os newos s])
  next
    case (Inl e)
    show ?thesis
    proof (cases "first_indirect newos1 os 0")
      case None
      then show ?thesis using 1(2) s1 l1 Inl by (simp add: encode_loop.simps[of a i fs m os newos s])
    next
      case (Some ip)
      obtain k p where ip: "ip = (k, p)" by (cases ip)
      obtain r s2 where s2: "Ralloc_Register a p s1 = Some (r, s2)"
        "encode_loop a i fs m os (newos1[k := OReg r]) s2 = Some (res, os', s')"
        using 1(2) s1 Inl Some ip
      by (auto simp: encode_loop.simps[of a i fs m os newos s] split: Option.bind_splits)
      have "last_code s2 s' res" by (rule 1(1)[OF s1 refl refl Inl Some[unfolded ip] refl s2(1) refl s2(2)])
      then show ?thesis using last_code_grown[OF l1] grown_Register[OF s2(1)] by (blast intro: last_code_trans grows_trans)
    qed
  qed
qed

section \<open>Instr\<close>

lemma asm_last: "asm_Encode a i os s = Some (res, os', s') \<Longrightarrow> last_code s s' res"
  by (auto simp: asm_Encode_def last_code_same split: run_splits dest: loop_last)

lemma asOperand_fn: "asOperand p n s = Some (res, s') \<Longrightarrow> fs_fn s' = fs_fn s"
  by (auto simp: asOperand_def Let_def split: run_splits)

lemma resolve_fn: "resolve_args xs s = Some (res, s') \<Longrightarrow> fs_fn s' = fs_fn s"
proof (induction xs s arbitrary: res s' rule: resolve_args.induct)
  case (2 x xs s)
  obtain r1 s1 where s1: "(case x of AOp o' \<Rightarrow> Some (Inr o', s) | APart p n \<Rightarrow> asOperand p n s) = Some (r1, s1)"
    using 2(2) by (auto split: Option.bind_splits)
  have eq: "fs_fn s1 = fs_fn s" using s1 asOperand_fn by (cases x) auto
  show ?case
  proof (cases r1)
    case (Inr o')
    then obtain r2 where "resolve_args xs s1 = Some (r2, s')" using 2(2) s1 by (auto split: Option.bind_splits)
    then show ?thesis using 2(1)[OF s1 refl Inr] eq by simp
  qed (use 2(2) s1 eq in auto)
qed simp

lemma NewLocal_fn: "NewLocal n z s = Inr (p, s') \<Longrightarrow> fs_fn s' = fs_fn s"
  by (auto simp: NewLocal_def new_ralloc_def split: if_splits prod.splits dest: fs_fn_space)

lemma AllocBytes_fn: "AllocBytes n z s = Inr (p, s') \<Longrightarrow> fs_fn s' = fs_fn s"
  by (auto simp: AllocBytes_def new_ralloc_def split: if_splits prod.splits dest: fs_fn_space)

lemma Forget_fn: "Forget n s = Some (Inr s') \<Longrightarrow> fs_fn s' = fs_fn s"
  by (auto simp: Forget_def Let_def split: run_splits dest: fs_fn_give_up)

lemma forget_each_fn: "forget_each ns s = Some s' \<Longrightarrow> fs_fn s' = fs_fn s"
  by (induction ns s rule: forget_each.induct) (auto split: run_splits dest: Forget_fn)

lemma ForgetAll_fn: "ForgetAll iter s = Some s' \<Longrightarrow> fs_fn s' = fs_fn s"
  by (simp add: ForgetAll_def forget_each_fn)

lemma Arg_fn: "Arg n r s = Some (Inr (p, s')) \<Longrightarrow> fs_fn s' = fs_fn s"
  by (auto simp: Arg_def Let_def new_ralloc_def split: run_splits dest: fs_fn_space)

lemma StackArg_fn: "StackArg n i s = Inr (p, s') \<Longrightarrow> fs_fn s' = fs_fn s"
  by (auto simp: StackArg_def new_ralloc_def split: if_splits)

lemma ArgI_fn: "ArgI n i z s = Some (Inr (p, s')) \<Longrightarrow> fs_fn s' = fs_fn s"
  by (auto simp: ArgI_def Let_def split: if_splits option.splits dest: Arg_fn StackArg_fn)

lemma lea_fn: "lea_source a os s = Some s' \<Longrightarrow> grown s s'"
  by (auto simp: lea_source_def split: run_splits operand.splits dest!: grown_Evict)

lemma fixLEA_fn:
  assumes "fixLEAVar a os s = Some (i, os', s')"
  shows "grown s s'"
proof (cases "\<exists>ind v. os = [OInd ind, OVar v]")
  case True
  then obtain ind v where os: "os = [OInd ind, OVar v]" by blast
  obtain p s1 r s2 res where s: "NewLocal ''__movvar'' 64 s = Inr (p, s1)" "Ralloc_Register a p s1 = Some (r, s2)"
    "Forget ''__movvar'' s2 = Some res" "emit_insn a ''LEA'' [OReg r, OVar v] (case res of Inl _ \<Rightarrow> s2 | Inr s3 \<Rightarrow> s3) = Some s'"
    using assms by (auto simp: fixLEAVar_def os Let_def split: run_splits)
  have "fs_fn (case res of Inl _ \<Rightarrow> s2 | Inr s3 \<Rightarrow> s3) = fs_fn s2"
    using Forget_fn[of "''__movvar''" s2] s(3) by (auto split: sum.splits)
  then show ?thesis
    using NewLocal_fn[OF s(1)] grown_Register[OF s(2)] grown_insn[OF s(4)] by (simp add: grows_trans)
next
  case False
  then show ?thesis using assms by (auto simp: fixLEAVar_def split: list.splits operand.splits)
qed

lemma fixMovzx_fn: "fixMovzx32To64 a os s = Some (i, os', s') \<Longrightarrow> grown s s'"
  by (auto simp: fixMovzx32To64_def split: list.splits operand.splits run_splits dest: grown_Register)

lemma retarget_fn: "retarget a i os s = Some (i', os', s') \<Longrightarrow> grown s s'"
  unfolding retarget_def
  by (auto split: Option.bind_splits if_splits dest: fixMovzx_fn intro: grows_trans[OF lea_fn fixLEA_fn])

lemma grown_Instr:
  assumes "Instr a i xs s = Some (res, s')"
  shows "grown s s'"
proof -
  obtain r s1 where r: "resolve_args xs s = Some (r, s1)" using assms by (auto simp: Instr_def split: Option.bind_splits)
  show ?thesis
  proof (cases r)
    case (Inl e)
    then show ?thesis using assms r resolve_fn[OF r] by (simp add: Instr_def)
  next
    case (Inr os)
    obtain i' os1 s2 rs os2 s3 where s: "retarget a i os s1 = Some (i', os1, s2)"
      "asm_Encode a i' os1 s2 = Some (Inr rs, os2, s3)" "s' = s3\<lparr>fs_fn := emit [] rs (fs_fn s3)\<rparr>"
      using assms r Inr by (auto simp: Instr_def split: Option.bind_splits sum.splits)
    obtain f code where f: "grows (fs_fn s2) f" "fs_fn s3 = emit code [] f" "reloc_in (length (f_bs f)) code rs"
      using asm_last[OF s(2)] by (auto simp: last_code_def)
    have "fs_fn s' = emit code rs f" by (simp add: s(3) f(2) emit_twice)
    then show ?thesis
      using resolve_fn[OF r] retarget_fn[OF s(1)] f(1) grows_emit[OF f(3)] by (auto intro: grows_trans)
  qed
qed

section \<open>Bodies\<close>

lemma grown_emit_all: "emit_all a is s = Some s' \<Longrightarrow> grown s s'"
  by (induction a "is" s rule: emit_all.induct) (auto split: run_splits dest!: grown_insn intro: grows_trans)

lemma grown_Prologue: "Prologue a s = Some s' \<Longrightarrow> grown s s'"
  by (auto simp: Prologue_def Function_Use_def split: Option.bind_splits dest!: grown_emit_all)

lemma grows_patch: "length bs = length (f_bs f) \<Longrightarrow> grows f (f\<lparr>f_bs := bs\<rparr>)"
  by (auto simp: grows_def intro: built_patch)

lemma grown_Epilogue: "Epilogue a spare s = Some s' \<Longrightarrow> grown s s'"
proof -
  let ?t = "\<lambda>rs bs. s\<lparr>fs_rs := rs, fs_fn := (fs_fn s)\<lparr>f_bs := bs\<rparr>\<rparr>"
  let ?bs = "if unat (fs_localsLocation s) + 4 > length (f_bs (fs_fn s)) + spare then f_bs (fs_fn s)
    else overwrite (f_bs (fs_fn s)) (unat (fs_localsLocation s)) (le_bytes 4 (unat (frame_size (fs_localoff s))))"
  let ?ins = "(''MOV'', [OReg R_RSP, OReg R_RBP]) # map (\<lambda>r. (''POP'', [OReg r])) (rev saved_regs)"
  assume "Epilogue a spare s = Some s'"
  then obtain rs where e: "emit_all a ?ins (?t rs ?bs) = Some s'"
    by (auto simp: Epilogue_def Function_Release_def Let_def simp del: le_bytes.simps emit_all.simps
      split: Option.bind_splits if_split_asm)
  have "grown s (?t rs ?bs)" by (simp add: grows_patch del: le_bytes.simps)
  with grown_emit_all[OF e] show ?thesis by (blast intro: grows_trans)
qed

lemma grown_Label: "Function_Label a l s = Some (b, s') \<Longrightarrow> grown s s'"
proof -
  assume "Function_Label a l s = Some (b, s')"
  then obtain s1 where s: "EvictAll a s = Some s1" "fs_fn s' = Label [] l (fs_fn s1)"
    by (auto simp: Function_Label_def split: Option.bind_splits)
  have "f_bs (Label [] l f) = f_bs f \<and> f_Name (Label [] l f) = f_Name f" for f by (simp add: Label_def emit_def Let_def)
  then have "grows f (Label [] l f)" for f by (auto simp: grows_def intro: built_Label)
  with grown_EvictAll[OF s(1)] show ?thesis unfolding s(2) by (rule grows_trans)
qed

text \<open>The displacement of a jump takes its last four bytes.\<close>

definition long_jumps :: "Asm \<Rightarrow> bool" where
  "long_jumps a \<longleftrightarrow> (\<forall>h len i bs rs. Asm_Encode a h len i [OI32 0] = Some (bs, Inr rs) \<longrightarrow> 4 \<le> length bs)"

lemma grown_Jump:
  assumes "Function_Jump a i l s = Some s'" "long_jumps a"
  shows "grown s s'"
proof -
  obtain s1 bs rs where s: "(if i = ''CALL'' then EvictForCall a s else EvictAll a s) = Some s1"
    "Asm_Encode a (fs_heap s1) (length (f_bs (fs_fn s1))) i [OI32 0] = Some (bs, Inr rs)" "fs_fn s' = Jump [] bs l (fs_fn s1)"
    using assms(1) by (auto simp: Function_Jump_def split: Option.bind_splits sum.splits)
  have "4 \<le> length bs" using assms(2) s(2) unfolding long_jumps_def by blast
  moreover have "f_bs (Jump [] bs l f) = f_bs f @ bs \<and> f_Name (Jump [] bs l f) = f_Name f" for f by (simp add: Jump_def emit_def Let_def)
  ultimately have "grows f (Jump [] bs l f)" for f by (auto simp: grows_def intro!: built_Jump)
  moreover have "grown s s1" using s(1) grown_EvictAll grown_EvictForCall by (auto split: if_splits)
  ultimately show ?thesis unfolding s(3) by (blast intro: grows_trans)
qed


lemma grows_decor: "grows f (f\<lparr>f_IsPub := p, f_Type := t, f_Args := as, f_Symbols := ss, f_ReturnAliases := ra\<rparr>)"
  by (auto simp: grows_def intro: built_decor)

lemma grows_type: "grows f (f\<lparr>f_Type := t\<rparr>)"
  using grows_decor[where p = "f_IsPub f" and t = t and as = "f_Args f" and ss = "f_Symbols f" and ra = "f_ReturnAliases f" and f = f] by simp

lemma grows_aliases: "grows f (f\<lparr>f_ReturnAliases := ra\<rparr>)"
  using grows_decor[where p = "f_IsPub f" and t = "f_Type f" and as = "f_Args f" and ss = "f_Symbols f" and ra = ra and f = f] by simp

end
