(* ===== verification/BasProps.thy ===== *)
theory BasProps
  imports Bas EncoderProps
begin

text \<open>
  What the assembler makes of the text it reads: literals keep their value, string literals their bytes.
\<close>

section \<open>Digits\<close>

lemma digit_value_decimal: "d < 10 \<Longrightarrow> digit_value (char_of (48 + d)) = Some d"
  by (simp add: digit_value_def Let_def)

lemma parse_digits_append: "parse_digits b acc (xs @ ys) = Option.bind (parse_digits b acc xs) (\<lambda>acc. parse_digits b acc ys)"
  by (induction b acc xs rule: parse_digits.induct) (auto split: option.split)

lemma parse_decimal: "parse_digits 10 0 (decimal n) = Some n"
proof (induction n rule: decimal.induct)
  case (1 n)
  show ?case
  proof (cases "n < 10")
    case True
    then show ?thesis by (simp add: decimal.simps digit_value_decimal)
  next
    case False
    then show ?thesis
      using 1 by (subst decimal.simps) (simp add: parse_digits_append digit_value_decimal)
  qed
qed

lemma decimal_chars: "c \<in> set (decimal n) \<Longrightarrow> digit c"
proof (induction n rule: decimal.induct)
  case (1 n)
  have d: "digit (char_of (48 + d))" if "d < 10" for d :: nat using that by (simp add: digit_def between_def)
  show ?case
  proof (cases "n < 10")
    case True
    then show ?thesis using 1(2) d by (simp add: decimal.simps)
  next
    case False
    then have "c \<in> set (decimal (n div 10)) \<or> c = char_of (48 + n mod 10)" using 1(2) by (subst (asm) decimal.simps) auto
    then show ?thesis using 1(1)[OF False] d[of "n mod 10"] by auto
  qed
qed

lemma decimal_nonempty: "decimal n \<noteq> []"
  by (subst decimal.simps) simp

lemma not_sign: "digit c \<Longrightarrow> c \<noteq> CHR ''-'' \<and> c \<noteq> CHR ''+''"
  by (auto simp: digit_def between_def)

lemma sign_decimal: "sign (decimal n) = (False, decimal n)"
proof (cases "decimal n")
  case (Cons c cs)
  then show ?thesis using not_sign[of c] decimal_chars[of c n] by (simp add: sign_def)
qed (simp add: decimal_nonempty)

lemma ParseUint_decimal: "n < 2 ^ k \<Longrightarrow> ParseUint 10 k (decimal n) = Some n"
  by (simp add: ParseUint_def decimal_nonempty parse_decimal)

lemma ParseInt_decimal: "ParseInt 10 k (decimal n) = (if n < 2 ^ (k - 1) then Some (int n) else None)"
  by (simp add: ParseInt_def sign_decimal decimal_nonempty parse_decimal)

lemma ParseInt_minus: "ParseInt 10 k (CHR ''-'' # decimal n) = (if n \<le> 2 ^ (k - 1) then Some (- int n) else None)"
  by (simp add: ParseInt_def sign_def decimal_nonempty parse_decimal)

section \<open>Immediates\<close>

lemma bit_len_le: "bit_len n \<le> k \<longleftrightarrow> n < 2 ^ k"
proof (induction n arbitrary: k rule: bit_len.induct)
  case (1 n)
  show ?case
  proof (cases "n = 0")
    case False
    then show ?thesis
    proof (cases k)
      case (Suc j)
      have "n div 2 < 2 ^ j \<longleftrightarrow> n < 2 ^ Suc j" by (simp add: div_less_iff_less_mult mult.commute)
      with False Suc 1[OF False, of j] show ?thesis by (subst bit_len.simps) simp
    qed (simp add: bit_len.simps)
  qed (simp add: bit_len.simps)
qed

lemma uint_fits: "unat (i :: 64 word) < 2 ^ n \<Longrightarrow> uint i < 2 ^ n"
  by (metis of_nat_less_iff of_nat_numeral of_nat_power uint_nat)

lemma smallestUi_value: "int_value (smallestUi i) = uint i"
  using uint_fits[of i 8] uint_fits[of i 16] uint_fits[of i 32]
  by (auto simp: smallestUi_def Let_def bit_len_le int_value_def unsigned_ucast_eq take_bit_int_eq_self)

lemma sint_ucast_down:
  assumes "LENGTH('b) \<le> 64" "- (2 ^ (LENGTH('b) - 1)) \<le> sint i" "sint i < 2 ^ (LENGTH('b) - 1)"
  shows "sint (ucast (i :: 64 word) :: 'b::len word) = sint i"
proof -
  have "take_bit LENGTH('b) (sint i) = take_bit LENGTH('b) (uint i)"
    using assms(1) by (simp add: sint_uint take_bit_signed_take_bit)
  then have "signed_take_bit (LENGTH('b) - 1) (uint i) = signed_take_bit (LENGTH('b) - 1) (sint i)"
    by (simp add: signed_take_bit_eq_iff_take_bit_eq)
  also have "\<dots> = sint i" using assms(2,3) by (simp add: signed_take_bit_int_eq_self)
  finally show ?thesis by (simp add: signed_ucast_eq)
qed

lemma uint_ucast_down:
  assumes "LENGTH('b) \<le> 64" "0 \<le> sint i" "sint i < 2 ^ LENGTH('b)"
  shows "uint (ucast (i :: 64 word) :: 'b::len word) = sint i"
proof -
  have "take_bit LENGTH('b) (uint i) = take_bit LENGTH('b) (sint i)"
    using assms(1) by (simp add: sint_uint take_bit_signed_take_bit)
  then show ?thesis using assms(2,3) by (simp add: unsigned_ucast_eq take_bit_int_eq_self)
qed

lemma smallestInt_value: "int_value (smallestInt i) = sint i"
proof -
  have "0 \<le> sint i \<Longrightarrow> uint i = sint i" using uint_ucast_down[where 'b = 64, of i] sint_lt[of i] by simp
  then show ?thesis
    using uint_ucast_down[where 'b = 8, of i] uint_ucast_down[where 'b = 16, of i] uint_ucast_down[where 'b = 32, of i]
      sint_ucast_down[where 'b = 8, of i] sint_ucast_down[where 'b = 16, of i] sint_ucast_down[where 'b = 32, of i]
    by (auto simp: smallestInt_def int_value_def)
qed

text \<open>The text of a number, as \<open>fmt\<close> prints it.\<close>

definition int_text :: "int \<Rightarrow> string" where
  "int_text i = (if i < 0 then CHR ''-'' # decimal (nat (- i)) else decimal (nat i))"

lemma decimal_not_hex: "\<not> HasPrefix (decimal n) ''0x''"
proof
  assume "HasPrefix (decimal n) ''0x''"
  then obtain cs where "decimal n = CHR ''0'' # CHR ''x'' # cs" by (auto elim!: starts_with.elims)
  then have "digit (CHR ''x'')" using decimal_chars[of "CHR ''x''" n] by simp
  then show False by (simp add: digit_def between_def)
qed

lemma not_identifier: "\<not> isIdentifier (decimal n)" "\<not> isIdentifier (CHR ''-'' # s)"
proof -
  show "\<not> isIdentifier (CHR ''-'' # s)" by (simp add: isIdentifier_def alpha_def between_def)
  have "\<not> alpha c" if "digit c" for c using that by (auto simp: alpha_def digit_def between_def)
  then show "\<not> isIdentifier (decimal n)"
    using decimal_chars[of "hd (decimal n)" n] decimal_nonempty[of n] by (auto simp: isIdentifier_def)
qed

lemma done_inj [simp]: "done' x = done' y \<longleftrightarrow> x = y"
  by (simp add: done'_def)

lemma ParseUint_minus: "ParseUint 10 k (CHR ''-'' # s) = None"
  by (simp add: ParseUint_def digit_value_def)

text \<open>C24. The assembler, number literals: a decimal literal becomes an immediate of exactly its value,
  from the least signed to the largest unsigned number of 64 bits; a number outside of that range becomes
  an operand of no kind, which no instruction takes, and never one with a wrapped value.\<close>

theorem literal_exact:
  "\<exists>x. literal_arg (int_text i) = done' x \<and>
     (if - (2 ^ 63) \<le> i \<and> i < 2 ^ 64 then int_value x = i else x = OOther)"
proof (cases "i < 0")
  case True
  then have i: "int_text i = CHR ''-'' # decimal (nat (- i))" by (simp add: int_text_def)
  show ?thesis
  proof (cases "- (2 ^ 63) \<le> i")
    case True
    have "ParseInt 10 64 (int_text i) = Some i" using True \<open>i < 0\<close> unfolding i by (simp add: ParseInt_minus)
    moreover have "sint (word_of_int i :: 64 word) = i"
      using True \<open>i < 0\<close> by (simp add: signed_of_int signed_take_bit_int_eq_self)
    ultimately show ?thesis using True \<open>i < 0\<close> by (simp add: literal_arg_def i smallestInt_value)
  next
    case False
    have "ParseInt 10 64 (int_text i) = None" using False \<open>i < 0\<close> unfolding i by (simp add: ParseInt_minus)
    then show ?thesis using False by (simp add: literal_arg_def i ParseUint_minus not_identifier)
  qed
next
  case False
  define n where "n = nat i"
  have i: "i = int n" and t: "int_text (int n) = decimal n" using False by (simp_all add: int_text_def n_def)
  show ?thesis
  proof (cases "n < 2 ^ 63")
    case True
    moreover have "sint (word_of_int (int n) :: 64 word) = int n"
      using True by (simp add: signed_of_nat signed_take_bit_int_eq_self)
    ultimately show ?thesis unfolding i by (simp add: literal_arg_def t decimal_not_hex ParseInt_decimal smallestInt_value)
  next
    case big: False
    then have p: "ParseInt 10 64 (decimal n) = None" by (simp add: ParseInt_decimal)
    show ?thesis
    proof (cases "n < 2 ^ 64")
      case True
      then have "uint (of_nat n :: 64 word) = int n" by (simp add: uint_nat take_bit_nat_eq_self unat_of_nat)
      then show ?thesis
        using True p unfolding i by (simp add: literal_arg_def t decimal_not_hex ParseUint_decimal smallestUi_value)
    next
      case False
      then have "ParseUint 10 64 (decimal n) = None" by (simp add: ParseUint_def decimal_nonempty parse_decimal)
      then show ?thesis using False p unfolding i by (simp add: literal_arg_def t decimal_not_hex not_identifier)
    qed
  qed
qed

section \<open>Where the code and its comments part\<close>

text \<open>\<open>smallestI\<close> promises the smallest signed representation; at the largest number of a width it takes
  the next.\<close>

lemma smallestI_at_bounds: "smallestI 127 = OI16 127" "smallestI 32767 = OI32 32767" "smallestI 2147483647 = OI64 2147483647"
  by code_simp+

text \<open>Words are split before empty ones are dropped, so a second space takes a word away; and tabs of a
  string literal become spaces.\<close>

lemma SplitNSpace_words:
  "SplitNSpace ''x  qword 0'' 3 = [''x'', ''qword 0'']"
  "SplitNSpace (''x byte '' @ [CHR 0x22, CHR 0x09, CHR 0x22]) 3 = [''x'', ''byte'', [CHR 0x22, CHR '' '', CHR 0x22]]"
  by (simp_all add: SplitNSpace_def untab_def numeral_3_eq_3 numeral_2_eq_2)

end
