(* ===== verification/BasInv.thy ===== *)
theory BasInv
  imports Bas Growth
begin

text \<open>
  What the assembler hands over, whatever it was given: an object file of the declaration and function
  operations, in which every descriptor decodes, every type descriptor has its cache, and every data
  relocation lies within its variable.
\<close>

section \<open>Lines of a function\<close>

lemma reg_or_var_grown: "reg_or_var a n f = Some (r, f') \<Longrightarrow> grown f f'"
  by (auto simp: reg_or_var_def split: sum.splits option.splits dest: grown_Register)

lemma ParseIndirect_grown: "ParseIndirect a oo s f = Some (Inr (x, f')) \<Longrightarrow> grown f f'"
proof -
  assume r: "ParseIndirect a oo s f = Some (Inr (x, f'))"
  then obtain p b f1 where p: "find_parts s = Some p" "reg_or_var a (p_base p) f = Some (b, f1)"
    by (auto simp: ParseIndirect_def xbind_ok)
  have "grown f1 f'"
    using r p by (auto simp: ParseIndirect_def xbind_ok split: if_splits option.splits dest: reg_or_var_grown)
  with reg_or_var_grown[OF p(2)] show ?thesis by (rule grows_trans)
qed

lemma one_arg_grown: "one_arg a oo w f = Some (Inr (x, f')) \<Longrightarrow> grown f f'"
  by (auto simp: one_arg_def xbind_ok split: option.splits sum.splits if_splits prod.splits dest: ParseIndirect_grown)

lemma all_args_grown: "all_args a oo ws f = Some (Inr (xs, f')) \<Longrightarrow> grown f f'"
proof (induction a oo ws f arbitrary: xs f' rule: all_args.induct)
  case (2 a oo w ws f)
  then obtain x f1 ys where s: "one_arg a oo w f = Some (Inr (x, f1))" "all_args a oo ws f1 = Some (Inr (ys, f'))"
    by (auto simp: xbind_ok)
  show ?case using one_arg_grown[OF s(1)] 2(1)[OF s(2)] by (rule grows_trans)
qed simp

lemma instr_result_grown: "instr_result (Instr a i xs f) = Some (Inr f') \<Longrightarrow> grown f f'"
  by (auto simp: instr_result_def xbind_ok split: option.splits dest: grown_Instr)

lemma jump_line_grown: "jump_line a i w f = Some (Inr f') \<Longrightarrow> long_jumps a \<Longrightarrow> grown f f'"
  by (auto simp: jump_line_def xbind_ok split: if_splits option.splits sum.splits
      dest: grown_Jump intro: grows_trans[OF grown_EvictForCall instr_result_grown])

lemma insn_line_grown: "insn_line a oo line f = Some (Inr f') \<Longrightarrow> long_jumps a \<Longrightarrow> grown f f'"
  by (auto simp: insn_line_def xbind_ok Let_def simp del: all_args.simps split: list.splits if_splits
      dest: jump_line_grown intro: grows_trans[OF all_args_grown instr_result_grown])

lemma each_reg_grown:
  "(\<And>r f f'. g r f = Some f' \<Longrightarrow> grown f f') \<Longrightarrow> each_reg g ws f = Some (Inr f') \<Longrightarrow> grown f f'"
  by (induction g ws f rule: each_reg.induct) (fastforce simp: xbind_ok intro: grows_trans)+

lemma Release_grown: "Function_Release r f = Some f' \<Longrightarrow> grown f f'"
  by (auto simp: Function_Release_def)

lemma new_line_grown:
  assumes "\<And>n z p f'. mkvar n z f = Inr (p, f') \<Longrightarrow> fs_fn f' = fs_fn f" "new_line a mkvar what ws f = Some (Inr f')"
  shows "grown f f'"
proof -
  obtain n p f1 where s: "mkvar (ws ! 0) n f = Inr (p, f1)"
    "f' = f1 \<or> (\<exists>r. UseRegister a p r f1 = Some f')"
    using assms(2) by (auto simp: new_line_def xbind_ok split: if_splits)
  then show ?thesis using assms(1)[OF s(1)] grown_UseRegister[of a p _ f1 f'] by auto
qed

lemma small_lines_grown:
  "retaliases_line line f = Some (Inr f') \<Longrightarrow> grown f f'"
  "forget_line line f = Some (Inr f') \<Longrightarrow> grown f f'"
  "inreg_line a line f = Some (Inr f') \<Longrightarrow> grown f f'"
  "use_line line f = Some (Inr f') \<Longrightarrow> grown f f'"
  "argi_line line f = Some (Inr f') \<Longrightarrow> grown f f'"
  "arg_line line f = Some (Inr f') \<Longrightarrow> grown f f'"
  "evict_line a line f = Some (Inr f') \<Longrightarrow> grown f f'"
  "label_line a line f = Some (Inr f') \<Longrightarrow> grown f f'"
  by (auto simp: retaliases_line_def on_fn_def grows_aliases forget_line_def inreg_line_def use_line_def Function_Use_def
      argi_line_def arg_line_def evict_line_def label_line_def xbind_ok Let_def
      split: list.splits if_splits sum.splits option.splits
      dest!: Forget_fn ArgI_fn Arg_fn StackArg_fn grown_UseRegister grown_EvictAll grown_Label
      dest: each_reg_grown[rotated] grown_EvictReg)

lemma var_lines_grown:
  "new_line a NewLocal what ws f = Some (Inr f') \<Longrightarrow> grown f f'"
  "new_line a AllocBytes what ws f = Some (Inr f') \<Longrightarrow> grown f f'"
  by (erule new_line_grown[rotated], erule NewLocal_fn AllocBytes_fn)+

lemma reg_lines_grown:
  "each_reg (Acquire a) ws f = Some (Inr f') \<Longrightarrow> grown f f'"
  "each_reg Function_Release ws f = Some (Inr f') \<Longrightarrow> grown f f'"
  by (erule each_reg_grown[rotated], erule grown_Acquire Release_grown)+

lemma function_line_grown:
  assumes "function_line e oo line f = Some (Inr f')" "long_jumps (e_asm e)"
  shows "grown f f'"
  using assms unfolding function_line_def Let_def some_regs_def
  by (auto simp: xbind_ok on_fn_def grows_type split: if_splits
      dest: small_lines_grown var_lines_grown grown_Volatile ForgetAll_fn
        reg_lines_grown grown_Prologue grown_Epilogue insn_line_grown)

section \<open>Declarations\<close>

definition relocs_within :: "Var \<Rightarrow> bool" where
  "relocs_within v \<longleftrightarrow> (\<forall>r \<in> set (v_Relocs v). unat (dr_Offset r) + 8 \<le> length (v_Val v))"

text \<open>A data block is a descriptor laid out from a record, or has no relocations.\<close>

definition block_ok :: "Var \<Rightarrow> bool" where
  "block_ok v \<longleftrightarrow>
     (if v_Kind v = KindTypedesc then \<exists>rec. EncodeTypedesc rec = (v_Val v, v_Relocs v)
      else if v_Kind v = KindIfaceDesc then \<exists>rec. EncodeIfaceDesc rec = (v_Val v, v_Relocs v)
      else v_Relocs v = [])"

definition each :: "('a \<Rightarrow> bool) \<Rightarrow> (string \<times> 'a) list \<Rightarrow> bool" where
  "each P t \<longleftrightarrow> (\<forall>(n, v) \<in> set t. P v)"

definition data_ok :: "OFile \<Rightarrow> bool" where
  "data_ok oo \<longleftrightarrow> each relocs_within (o_Vars oo) \<and> each block_ok (o_Data oo)"

text \<open>What a declaration other than that of a function does.\<close>

definition declares :: "OFile \<Rightarrow> OFile \<Rightarrow> bool" where
  "declares oo oo' \<longleftrightarrow> o_Funcs oo' = o_Funcs oo \<and> (assembled oo \<longrightarrow> assembled oo') \<and> (data_ok oo \<longrightarrow> data_ok oo')"

lemma declares_refl [simp]: "declares oo oo"
  by (simp add: declares_def)

lemma kinds_differ: "KindTypedesc \<noteq> []" "KindIfaceDesc \<noteq> []" "KindTypedesc \<noteq> KindIfaceDesc"
  by (simp_all add: KindTypedesc_def KindIfaceDesc_def)

lemma each_update: "each P t \<Longrightarrow> P v \<Longrightarrow> each P (AList.update k v t)"
  using set_update_subset[of k v t] by (auto simp: each_def)

lemma update_here [simp]: "map_of (AList.update k v t) k = Some v"
  by (simp add: update_conv)

lemma new_var_ok: "relocs_within (new_var n t v p)" "block_ok (new_var n t v p)"
  using kinds_differ(1,2)[symmetric] by (simp_all add: relocs_within_def block_ok_def new_var_def)

lemma declares_alias: "AddTypeAlias n u ms p oo = Inr oo' \<Longrightarrow> declares oo oo'"
  by (auto simp: declares_def data_ok_def intro: as_alias) (auto simp: AddTypeAlias_def split: if_splits)

lemma declares_iface: "AddInterface n ms p oo = Inr oo' \<Longrightarrow> declares oo oo'"
  by (auto simp: declares_def data_ok_def intro: as_iface) (auto simp: AddInterface_def split: if_splits)

lemma declares_values: "AddValues n t cs ps ms p oo = Inr oo' \<Longrightarrow> declares oo oo'"
  by (auto simp: declares_def data_ok_def intro: as_values) (auto simp: AddValues_def split: if_splits)

lemma declares_struct: "AddStruct n fs ms p oo = Inr oo' \<Longrightarrow> declares oo oo'"
  by (auto simp: declares_def data_ok_def intro: as_struct) (auto simp: AddStruct_def split: if_splits)

lemma added_var:
  "AddVar n t v p oo = Inr oo' \<Longrightarrow> map_of (o_Vars oo') n = Some (new_var n t v p) \<and> o_Funcs oo' = o_Funcs oo \<and>
     o_Data oo' = o_Data oo \<and> o_Vars oo' = AList.update n (new_var n t v p) (o_Vars oo)"
  by (auto simp: AddVar_def split: if_splits)

lemma added_data:
  "AddData n t v p oo = Inr oo' \<Longrightarrow> map_of (o_Data oo') n = Some (new_var n t v p) \<and> o_Funcs oo' = o_Funcs oo \<and>
     o_Vars oo' = o_Vars oo \<and> o_Data oo' = AList.update n (new_var n t v p) (o_Data oo)"
  by (auto simp: AddData_def split: if_splits)

lemma declares_var: "AddVar n t v p oo = Inr oo' \<Longrightarrow> declares oo oo'"
  using added_var[of n t v p oo oo'] by (auto simp: declares_def data_ok_def intro: as_var each_update new_var_ok)

lemma declares_data: "AddData n t v p oo = Inr oo' \<Longrightarrow> declares oo oo'"
  using added_data[of n t v p oo oo'] by (auto simp: declares_def data_ok_def intro: as_data each_update new_var_ok)

text \<open>Fields set on what was just declared.\<close>

lemma declares_var_fields:
  assumes "AddVar n t v p oo = Inr oo1" "relocs_within ((new_var n t v p)\<lparr>v_Relocs := rs, v_Kind := k\<rparr>)"
  shows "declares oo (set_var n (\<lambda>v. v\<lparr>v_Relocs := rs, v_Kind := k\<rparr>) oo1)"
proof -
  note a = added_var[OF assms(1)]
  have d: "declares oo oo1" by (rule declares_var[OF assms(1)])
  have "set_var n (\<lambda>v. v\<lparr>v_Relocs := rs, v_Kind := k\<rparr>) oo1 =
      oo1\<lparr>o_Vars := AList.update n ((new_var n t v p)\<lparr>v_Relocs := rs, v_Kind := k\<rparr>) (o_Vars oo1)\<rparr>"
    using a by (simp add: set_var_def)
  moreover have "assembled oo1 \<Longrightarrow>
      assembled (oo1\<lparr>o_Vars := AList.update n ((new_var n t v p)\<lparr>v_Relocs := rs, v_Kind := k\<rparr>) (o_Vars oo1)\<rparr>)"
    using a by (intro as_var_relocs) simp_all
  ultimately show ?thesis using d each_update[where P = relocs_within, OF _ assms(2)] by (auto simp: declares_def data_ok_def)
qed

lemma declares_data_fields:
  assumes "AddData n t v p oo = Inr oo1" "block_ok ((new_var n t v p)\<lparr>v_Relocs := rs, v_Kind := k\<rparr>)"
  shows "declares oo (set_data n (\<lambda>v. v\<lparr>v_Relocs := rs, v_Kind := k\<rparr>) oo1)"
proof -
  note a = added_data[OF assms(1)]
  have d: "declares oo oo1" by (rule declares_data[OF assms(1)])
  have "set_data n (\<lambda>v. v\<lparr>v_Relocs := rs, v_Kind := k\<rparr>) oo1 =
      oo1\<lparr>o_Data := AList.update n ((new_var n t v p)\<lparr>v_Relocs := rs, v_Kind := k\<rparr>) (o_Data oo1)\<rparr>"
    using a by (simp add: set_data_def)
  moreover have "assembled oo1 \<Longrightarrow>
      assembled (oo1\<lparr>o_Data := AList.update n ((new_var n t v p)\<lparr>v_Relocs := rs, v_Kind := k\<rparr>) (o_Data oo1)\<rparr>)"
    using a by (intro as_data_relocs) simp_all
  ultimately show ?thesis using d each_update[where P = block_ok, OF _ assms(2)] by (auto simp: declares_def data_ok_def)
qed

section \<open>Directives\<close>

lemma directives_declare:
  "typealias_directive line pub oo = Inr oo' \<Longrightarrow> declares oo oo'"
  "interface_directive line pub rest oo = Inr (oo', rest') \<Longrightarrow> declares oo oo'"
  "values_directive line pub rest oo = Inr (oo', rest') \<Longrightarrow> declares oo oo'"
  "struct_directive line pub rest oo = Inr (oo', rest') \<Longrightarrow> declares oo oo'"
  "data_directive line pub oo = Inr oo' \<Longrightarrow> declares oo oo'"
  by (auto simp: typealias_directive_def interface_directive_def values_directive_def struct_directive_def data_directive_def
      decl_ok case_prod_unfold split: list.splits option.splits if_splits
      intro: declares_alias declares_iface declares_values declares_struct declares_data)

lemma cache_declares:
  assumes "typedesc_cache_directive line pub oo = Inr oo'"
  shows "declares oo oo'"
proof -
  obtain n oo1 where a: "AddVar n ''byte[8]'' (ValBytes (replicate 8 0)) pub oo = Inr oo1"
    "oo' = set_var n (\<lambda>v. v\<lparr>v_Kind := KindTypedescCache\<rparr>) oo1"
    using assms by (auto simp: typedesc_cache_directive_def decl_ok split: if_splits)
  have "oo' = set_var n (\<lambda>v. v\<lparr>v_Relocs := [], v_Kind := KindTypedescCache\<rparr>) oo1"
    using added_var[OF a(1)] a(2) by (simp add: set_var_def new_var_def)
  then show ?thesis using declares_var_fields[OF a(1)] by (simp add: relocs_within_def)
qed

lemma typedesc_declares:
  assumes "typedesc_directive line pub rest oo = Inr (oo', rest')"
  shows "declares oo oo'"
proof -
  obtain n rec data relocs oo1 where a: "EncodeTypedesc rec = (data, relocs)"
    "AddData n (byte_type (length data)) (ValBytes data) pub oo = Inr oo1"
    "oo' = set_data n (\<lambda>v. v\<lparr>v_Relocs := relocs, v_Kind := KindTypedesc\<rparr>) oo1"
    using assms by (auto simp: typedesc_directive_def decl_ok case_prod_unfold split: if_splits) (metis surjective_pairing)
  then show ?thesis unfolding a(3) by (intro declares_data_fields[OF a(2)]) (auto simp: block_ok_def new_var_def)
qed

lemma iface_desc_declares:
  assumes "iface_desc_directive line pub rest oo = Inr (oo', rest')"
  shows "declares oo oo'"
proof -
  obtain n rec oo1 where a: "AddData n (byte_type (length (fst (EncodeIfaceDesc rec)))) (ValBytes (fst (EncodeIfaceDesc rec))) pub oo = Inr oo1"
    "oo' = set_data n (\<lambda>v. v\<lparr>v_Kind := KindIfaceDesc\<rparr>) oo1"
    using assms by (auto simp: iface_desc_directive_def decl_ok case_prod_unfold split: if_splits)
  have r: "snd (EncodeIfaceDesc rec) = []" by (simp add: EncodeIfaceDesc_def Let_def case_prod_unfold)
  have "oo' = set_data n (\<lambda>v. v\<lparr>v_Relocs := [], v_Kind := KindIfaceDesc\<rparr>) oo1"
    using added_data[OF a(1)] a(2) by (simp add: set_data_def new_var_def)
  moreover have "block_ok ((new_var n t (ValBytes (fst (EncodeIfaceDesc rec))) pub)\<lparr>v_Relocs := [], v_Kind := KindIfaceDesc\<rparr>)" for t
    using r kinds_differ(3)[symmetric] by (auto simp: block_ok_def new_var_def intro!: exI[of _ rec] prod_eqI)
  ultimately show ?thesis using declares_data_fields[OF a(1)] by simp
qed

lemma var_value_relocs:
  "var_value n v rest = Some (Inr ((bs, relocs), rest')) \<Longrightarrow> \<forall>r \<in> set relocs. unat (dr_Offset r) + 8 \<le> length bs"
  by (auto simp: var_value_def var_block_def decl_ok list_all_iff split: option.splits if_splits)

lemma var_declares:
  assumes "var_directive line pub rest oo = Some (Inr (oo', rest'))"
  shows "declares oo oo'"
proof -
  obtain n t bs relocs oo1 where a: "AddVar n t (ValBytes bs) pub oo = Inr oo1"
    "oo' = (if relocs = [] then oo1 else set_var n (\<lambda>v. v\<lparr>v_Relocs := relocs\<rparr>) oo1)"
    "\<forall>r \<in> set relocs. unat (dr_Offset r) + 8 \<le> length bs"
    using assms unfolding var_directive_def
    by (auto simp: xbind_ok simp del: if_split split: list.splits dest: var_value_relocs)
  show ?thesis
  proof (cases "relocs = []")
    case False
    then have "oo' = set_var n (\<lambda>v. v\<lparr>v_Relocs := relocs, v_Kind := []\<rparr>) oo1"
      using added_var[OF a(1)] a(2) by (simp add: set_var_def new_var_def)
    then show ?thesis using declares_var_fields[OF a(1)] a(3) by (simp add: relocs_within_def new_var_def)
  qed (use a declares_var in simp)
qed

section \<open>The state of the assembler\<close>

definition bodies_short :: "OFile \<Rightarrow> bool" where
  "bodies_short oo \<longleftrightarrow> (\<forall>n f. map_of (o_Funcs oo) n = Some f \<longrightarrow> length (f_bs f) < 2 ^ 31)"

definition file_inv :: "OFile \<Rightarrow> bool" where
  "file_inv oo \<longleftrightarrow> (bodies_short oo \<longrightarrow> assembled oo) \<and> data_ok oo"

text \<open>The function being assembled is the one the object file has.\<close>

definition bas_inv :: "bas \<Rightarrow> bool" where
  "bas_inv st \<longleftrightarrow> (case b_o st of
      None \<Rightarrow> b_f st = None
    | Some oo \<Rightarrow> file_inv oo \<and> (\<forall>f. b_f st = Some f \<longrightarrow> map_of (o_Funcs oo) (f_Name (fs_fn f)) = Some (fs_fn f)))"

lemma declares_inv: "file_inv oo \<Longrightarrow> declares oo oo' \<Longrightarrow> file_inv oo' \<and> o_Funcs oo' = o_Funcs oo"
  by (auto simp: file_inv_def declares_def bodies_short_def)

lemma new_inv: "file_inv (NewOFile out pkg)"
  by (simp add: file_inv_def as_new data_ok_def each_def NewOFile_def as_new[unfolded NewOFile_def])

lemma package_line_inv: "package_line line st = Some (Inr st') \<Longrightarrow> bas_inv st \<Longrightarrow> bas_inv st'"
  by (auto simp: package_line_def Let_def bas_inv_def new_inv split: option.splits if_splits)

lemma replace_function:
  assumes "file_inv oo" "map_of (o_Funcs oo) (f_Name f) = Some f" "grows f g"
  shows "file_inv (oo\<lparr>o_Funcs := AList.update (f_Name g) g (o_Funcs oo)\<rparr>)" (is "file_inv ?oo")
proof -
  have n: "f_Name g = f_Name f" and l: "length (f_bs f) \<le> length (f_bs g)" using assms(3) by (simp_all add: grows_def)
  have "assembled ?oo" if s: "bodies_short ?oo"
  proof -
    have g: "length (f_bs g) < 2 ^ 31" using s[unfolded bodies_short_def, rule_format, of "f_Name g" g] by simp
    have "bodies_short oo"
      unfolding bodies_short_def
    proof (intro allI impI)
      fix k h assume "map_of (o_Funcs oo) k = Some h"
      then show "length (f_bs h) < 2 ^ 31"
        using s g l n assms(2) by (cases "k = f_Name f") (auto simp: bodies_short_def update_conv' split: if_splits)
    qed
    then have a: "assembled oo" using assms(1) by (simp add: file_inv_def)
    have "(f_Name f, f) \<in> set (o_Funcs oo)" using assms(2) by (rule map_of_SomeD)
    then have "built (o_Pkgname oo) (f_Name f) f" using assembled_built[OF a] by (auto simp: funcs_built_def)
    then have "built (o_Pkgname oo) (f_Name g) g" using assms(3) g n by (simp add: grows_def)
    moreover have "has (o_Funcs oo) (f_Name g)" using assms(2) n by (simp add: has_def)
    ultimately show ?thesis using a by (intro as_body)
  qed
  then show ?thesis using assms(1) by (simp add: file_inv_def data_ok_def)
qed

lemma function_directive_inv:
  assumes "function_directive file ln line pub oo = Inr (oo', f)" "file_inv oo"
  shows "file_inv oo' \<and> map_of (o_Funcs oo') (f_Name (fs_fn f)) = Some (fs_fn f)"
proof -
  let ?fn = "\<lambda>n oo. new_function (o_Pkgname oo) file ln n []"
  obtain n oo1 where s: "NewFunction file ln n [] oo = Inr oo1"
    "oo' = oo1\<lparr>o_Funcs := AList.update n ((?fn n oo1)\<lparr>f_IsPub := pub\<rparr>) (o_Funcs oo1)\<rparr>" "f = NewRallocs ((?fn n oo1)\<lparr>f_IsPub := pub\<rparr>)"
    using assms(1) by (auto simp: function_directive_def decl_ok split: if_splits)
  have oo1: "oo1 = oo\<lparr>o_Funcs := AList.update n (?fn n oo) (o_Funcs oo)\<rparr>" and fresh: "map_of (o_Funcs oo) n = None"
    using s(1) by (auto simp: NewFunction_def split: option.splits if_splits)
  have "bodies_short oo1 \<Longrightarrow> bodies_short oo"
    unfolding bodies_short_def
  proof (intro allI impI)
    fix k h assume a: "\<forall>k h. map_of (o_Funcs oo1) k = Some h \<longrightarrow> length (f_bs h) < 2 ^ 31" "map_of (o_Funcs oo) k = Some h"
    then have "k \<noteq> n" using fresh by auto
    then have "map_of (o_Funcs oo1) k = Some h" using a(2) by (simp add: oo1 update_conv')
    with a(1) show "length (f_bs h) < 2 ^ 31" by blast
  qed
  then have i1: "file_inv oo1" using assms(2) as_func[OF _ s(1)] by (auto simp: file_inv_def data_ok_def oo1)
  have g: "grows (?fn n oo1) ((?fn n oo1)\<lparr>f_IsPub := pub\<rparr>)"
    using grows_decor[where f = "?fn n oo1" and p = pub and t = "f_Type (?fn n oo1)" and as = "f_Args (?fn n oo1)" and
      ss = "f_Symbols (?fn n oo1)" and ra = "f_ReturnAliases (?fn n oo1)"] by simp
  have nm: "f_Name (?fn n oo1) = n" "f_Name ((?fn n oo1)\<lparr>f_IsPub := pub\<rparr>) = n" by (simp_all add: new_function_def)
  have m: "map_of (o_Funcs oo1) n = Some (?fn n oo1)" by (simp add: oo1)
  have "file_inv oo'"
    using replace_function[OF i1 _ g] m nm unfolding s(2) by simp
  then show ?thesis by (simp add: s(2,3) NewRallocs_def nm)
qed

lemma commit_inv:
  "file_inv oo \<Longrightarrow> map_of (o_Funcs oo) (f_Name (fs_fn f)) = Some (fs_fn f) \<Longrightarrow> grown f f' \<Longrightarrow>
   file_inv (commit f' oo) \<and> map_of (o_Funcs (commit f' oo)) (f_Name (fs_fn f')) = Some (fs_fn f')"
  unfolding commit_def by (simp add: replace_function)

lemma after_decl_inv:
  assumes "after_decl st d = Some (Inr (st', rest))" "\<And>oo' rest. d = Inr (oo', rest) \<Longrightarrow> declares oo oo'" "b_o st = Some oo" "bas_inv st"
  shows "bas_inv st'"
proof -
  obtain oo' where d: "d = Inr (oo', rest)" "st' = st\<lparr>b_o := Some oo'\<rparr>" using assms(1) by (auto simp: after_decl_def xbind_ok)
  have "file_inv oo" using assms(3,4) by (simp add: bas_inv_def)
  from declares_inv[OF this assms(2)[OF d(1)]] show ?thesis using assms(3,4) by (auto simp: d(2) bas_inv_def)
qed

lemma no_function_inv: "bas_inv st \<Longrightarrow> bas_inv (st\<lparr>b_f := None\<rparr>)"
  by (auto simp: bas_inv_def split: option.splits)

lemma package_member_inv:
  assumes "package_member e file ln line0 rest oo st = Some (Inr (st', rest'))" "b_o st = Some oo" "bas_inv st" "long_jumps (e_asm e)"
  shows "bas_inv st'"
proof -
  have fi: "file_inv oo" using assms(2,3) by (simp add: bas_inv_def)
  have var: "bas_inv (st\<lparr>b_o := Some oo', b_f := None\<rparr>)" if "var_directive line pub rest oo = Some (Inr (oo', r))" for line pub oo' r
    using declares_inv[OF fi var_declares[OF that]] by (simp add: bas_inv_def)
  have fn: "bas_inv (st\<lparr>b_o := Some oo', b_f := Some f\<rparr>)" if "function_directive file ln line pub oo = Inr (oo', f)" for line pub oo' f
    using function_directive_inv[OF that fi] by (simp add: bas_inv_def)
  have line: "bas_inv (st\<lparr>b_o := Some (commit f' oo), b_f := Some f'\<rparr>)"
    if "b_f st = Some f" "function_line e oo line f = Some (Inr f')" for f f' line
    using commit_inv[OF fi _ function_line_grown[OF that(2) assms(4)]] that(1) assms(2,3) by (simp add: bas_inv_def)
  note decl = after_decl_inv[OF _ _ assms(2,3)] after_decl_inv[OF _ _ _ no_function_inv[OF assms(3)]]
  show ?thesis
    using assms(1,2) unfolding package_member_def Let_def
    by (auto simp: xbind_ok rbind_eq_Inr split: if_splits option.splits
        intro: var fn line elim!: decl dest: directives_declare cache_declares typedesc_declares iface_desc_declares)
qed

lemma source_line_inv:
  "source_line e file ln l rest st = Some (Inr (st', rest')) \<Longrightarrow> bas_inv st \<Longrightarrow> long_jumps (e_asm e) \<Longrightarrow> bas_inv st'"
  by (auto simp: source_line_def xbind_ok Let_def split: if_splits option.splits dest: package_line_inv package_member_inv)

lemma source_lines_inv:
  "source_lines e file count ls st = Some (Inr st') \<Longrightarrow> bas_inv st \<Longrightarrow> long_jumps (e_asm e) \<Longrightarrow> bas_inv st'"
proof (induction e "file" count ls st rule: source_lines.induct)
  case (2 e fname count l ls st)
  then obtain st1 rest where s: "source_line e fname (int (count - length ls)) l ls st = Some (Inr (st1, rest))"
    "source_lines e fname count rest st1 = Some (Inr st')"
    by (auto simp: xbind_ok)
  show ?case using 2(1)[OF s(1) refl s(2) source_line_inv[OF s(1) 2(3,4)] 2(4)] .
qed simp

lemma source_files_inv:
  "source_files e fs st = Some (Inr st') \<Longrightarrow> bas_inv st \<Longrightarrow> long_jumps (e_asm e) \<Longrightarrow> bas_inv st'"
proof (induction e fs st rule: source_files.induct)
  case (2 e f fs st)
  then obtain st1 where s: "source_file e f st = Some (Inr st1)" "source_files e fs st1 = Some (Inr st')"
    by (auto simp: xbind_ok)
  have "bas_inv st1" using s(1) 2(3,4) by (auto simp: source_file_def Let_def split: prod.splits intro: source_lines_inv no_function_inv)
  then show ?case using 2 s by blast
qed simp

lemma assemble_inv:
  assumes "assemble e out fs = Some (Inr oo)" "long_jumps (e_asm e)"
  shows "file_inv oo \<and> (\<forall>d \<in> set (o_Data oo). \<not> unpaired oo d)"
proof -
  obtain st where st: "source_files e fs \<lparr>b_out = out, b_o = None, b_f = None\<rparr> = Some (Inr st)"
    and r: "(case b_o st of None \<Rightarrow> stop NoFiles
      | Some oo \<Rightarrow> (case filter (unpaired oo) (o_Data oo) of [] \<Rightarrow> done' oo | (n, _) # _ \<Rightarrow> stop (NoCache n (cache_name n)))) =
      Some (Inr oo)"
    using assms(1) by (auto simp: assemble_def xbind_ok simp del: split_paired_Ex split: if_splits)
  obtain o1 where o1: "b_o st = Some o1" using r by (cases "b_o st") auto
  have no: "filter (unpaired o1) (o_Data o1) = []" and eq: "o1 = oo"
    using r by (cases "filter (unpaired o1) (o_Data o1)"; auto simp: o1)+
  have "bas_inv st" by (rule source_files_inv[OF st _ assms(2)]) (simp add: bas_inv_def)
  then show ?thesis using o1 no eq by (auto simp: bas_inv_def filter_empty_conv)
qed

end
