(* ===== verification/BasOutput.thy ===== *)
theory BasOutput
  imports BasInv Toolchain
begin

text \<open>
  The object file the assembler hands over, as the linker needs it: descriptors that decode and have
  their caches, relocations within their variables, and files that survive being written and read.
\<close>

section \<open>A source file\<close>

text \<open>A package with the entry point, a type descriptor and its cache; no instruction is used, so the
  tables are empty.\<close>

definition src_env :: env where
  "src_env = \<lparr>e_asm = \<lparr>asm_ArchName = '''', asm_heap = [], asm_instrs = [], asm_specforms = []\<rparr>, e_iter = (\<lambda>ns. ns), e_spare = (\<lambda>_. 0)\<rparr>"

definition src_lines :: "string list" where
  "src_lines = [''package _init'', ''typedesc_cache __typedesc_cache_T'', ''typedesc __typedesc_T {'', ''size 8'', ''}'', ''function start'', ''label l'']"

definition src_text :: string where
  "src_text = concat (map (\<lambda>l. l @ [CHR 0x0A]) src_lines)"

lemma src_scan: "scan_lines src_text = src_lines" by (simp add: scan_lines_def src_text_def src_lines_def max_token_def dropCR_def)

lemma spaces_eq: "spaces = [[CHR 0x09], [CHR 0x0A], [CHR 0x0B], [CHR 0x0C], [CHR 0x0D], [CHR 0x20], [CHR 0xC2, CHR 0x85],
     [CHR 0xC2, CHR 0xA0], [CHR 0xE1, CHR 0x9A, CHR 0x80], [CHR 0xE2, CHR 0x80, CHR 0x80], [CHR 0xE2, CHR 0x80, CHR 0x81], [CHR 0xE2, CHR 0x80, CHR 0x82], [CHR 0xE2, CHR 0x80, CHR 0x83], [CHR 0xE2, CHR 0x80, CHR 0x84], [CHR 0xE2, CHR 0x80, CHR 0x85], [CHR 0xE2, CHR 0x80, CHR 0x86], [CHR 0xE2, CHR 0x80, CHR 0x87], [CHR 0xE2, CHR 0x80, CHR 0x88], [CHR 0xE2, CHR 0x80, CHR 0x89], [CHR 0xE2, CHR 0x80, CHR 0x8A], [CHR 0xE2, CHR 0x80, CHR 0xA8], [CHR 0xE2, CHR 0x80, CHR 0xA9], [CHR 0xE2, CHR 0x80, CHR 0xAF],
     [CHR 0xE2, CHR 0x81, CHR 0x9F], [CHR 0xE3, CHR 0x80, CHR 0x80]]"
  by code_simp

lemmas text_eval = TrimSpace_def spaces_eq strip_left.simps after_def TrimPrefix_def

lemma res_eval: "accept g (Inr x) = done' x" "run (Some y) = done' y" by (simp_all add: accept_def run_def done'_def)

abbreviation "src_start \<equiv> \<lparr>b_out = [], b_o = None, b_f = None\<rparr>"

lemma src_package: "source_line src_env n k ''package _init'' rest src_start =
  done' (\<lparr>b_out = ''_init.bo'', b_o = Some (NewOFile ''_init.bo'' ''_init''), b_f = None\<rparr>, rest)"
  by (simp add: source_line_def package_line_def skipped_def text_eval Let_def)

definition "file1 = (NewOFile ''_init.bo'' ''_init'')\<lparr>o_Vars := [(''__typedesc_cache_T'', (new_var ''__typedesc_cache_T'' ''byte[8]'' (ValBytes (replicate 8 0)) False)\<lparr>v_Kind := KindTypedescCache\<rparr>)]\<rparr>"

lemma src_cache: "source_line src_env n k ''typedesc_cache __typedesc_cache_T'' rest \<lparr>b_out = x, b_o = Some (NewOFile ''_init.bo'' ''_init''), b_f = None\<rparr> =
  done' (\<lparr>b_out = x, b_o = Some file1, b_f = None\<rparr>, rest)"
  by (simp add: source_line_def package_member_def skipped_def text_eval Let_def typedesc_cache_directive_def AddVar_def NewOFile_def
    after_decl_def res_eval file1_def set_var_def has_def)

definition "src_desc = \<lparr>tr_TypeName = [], tr_SizeBytes = 8, tr_CacheSym = [], tr_Methods = []\<rparr>"

definition "desc_len = length (fst (EncodeTypedesc src_desc))"

definition "file2 = file1\<lparr>o_Data := [(''__typedesc_T'', (new_var ''__typedesc_T'' (byte_type desc_len) (ValBytes (fst (EncodeTypedesc src_desc))) False)\<lparr>v_Relocs := snd (EncodeTypedesc src_desc), v_Kind := KindTypedesc\<rparr>)]\<rparr>"

lemma parse_8: "ParseUint 10 64 ''8'' = Some 8" by (simp add: ParseUint_def parse_digits.simps digit_value_def)

lemma src_block: "block typedesc_line ''typedesc'' (''size 8'' # ''}'' # rest) \<lparr>tr_TypeName = [], tr_SizeBytes = 0, tr_CacheSym = [], tr_Methods = []\<rparr> = Inr (src_desc, rest)"
  by (simp add: typedesc_line_def skipped_def text_eval Let_def mustParseU64_def parse_8 src_desc_def)

lemma src_typedesc: "source_line src_env n k ''typedesc __typedesc_T {'' (''size 8'' # ''}'' # rest) \<lparr>b_out = x, b_o = Some file1, b_f = None\<rparr> =
  done' (\<lparr>b_out = x, b_o = Some file2, b_f = None\<rparr>, rest)"
  by (simp add: source_line_def package_member_def skipped_def text_eval Let_def typedesc_directive_def AddData_def src_block head_of_def
    after_decl_def res_eval set_data_def has_def file2_def file1_def NewOFile_def desc_len_def case_prod_unfold del: block.simps)

definition "fn1 = (new_function ''_init'' ''a.bs'' 6 ''start'' [])\<lparr>f_IsPub := False\<rparr>"

definition "file3 = file2\<lparr>o_Funcs := [(''start'', fn1)]\<rparr>"

lemma src_function: "source_line src_env ''a.bs'' 6 ''function start'' rest \<lparr>b_out = x, b_o = Some file2, b_f = None\<rparr> =
  done' (\<lparr>b_out = x, b_o = Some file3, b_f = Some (NewRallocs fn1)\<rparr>, rest)"
  by (simp add: source_line_def package_member_def skipped_def text_eval Let_def function_directive_def NewFunction_def
    after_decl_def res_eval set_data_def has_def file2_def file1_def NewOFile_def file3_def fn1_def)

definition "fn2 = Label [] ''l'' fn1"

lemma src_label: "source_line src_env ''a.bs'' 7 ''label l'' rest \<lparr>b_out = x, b_o = Some file3, b_f = Some (NewRallocs fn1)\<rparr> =
  done' (\<lparr>b_out = x, b_o = Some (file3\<lparr>o_Funcs := [(''start'', fn2)]\<rparr>), b_f = Some ((NewRallocs fn1)\<lparr>fs_fn := fn2\<rparr>)\<rparr>, rest)"
  by (simp add: source_line_def package_member_def skipped_def text_eval Let_def function_line_def label_line_def
    Function_Label_def res_eval commit_def EvictAll_def fn2_def NewRallocs_def file3_def fn1_def new_function_def Label_def emit_def Let_def src_env_def)

definition "src_output = file3\<lparr>o_Funcs := [(''start'', fn2)]\<rparr>"

lemmas src_steps = src_package src_cache src_typedesc src_function src_label

lemma src_assembles: "assemble src_env [] [(''a.bs'', Some src_text)] = Some (Inr src_output)"
  by (simp add: assemble_def source_file_def src_scan src_lines_def Let_def src_steps src_output_def[symmetric])
    (simp add: src_output_def file3_def file2_def file1_def unpaired_def cache_name_def TrimPrefix_def NewOFile_def done'_def)

section \<open>What the linker needs\<close>

text \<open>The slots of the relocations of variables are apart; the assembler does not look at this.\<close>

definition relocs_apart :: "OFile \<Rightarrow> bool" where
  "relocs_apart oo \<longleftrightarrow> (\<forall>(n, v) \<in> set (o_Vars oo). sorted_wrt (\<lambda>a b. {unat (dr_Offset a) ..< unat (dr_Offset a) + 8} \<inter>
     {unat (dr_Offset b) ..< unat (dr_Offset b) + 8} = {}) (v_Relocs v))"

text \<open>Bodies and blocks within the range of the offsets of relocations.\<close>

definition in_range :: "OFile \<Rightarrow> bool" where
  "in_range oo \<longleftrightarrow> (\<forall>(n, f) \<in> set (o_Funcs oo). length (f_bs f) < 2 ^ 31) \<and>
     (\<forall>(n, v) \<in> set (o_Data oo). length (v_Val v) < 2 ^ 32)"

lemma fn_relocs_drs:
  assumes "base + length ms * tdMethodStride < 2 ^ 32"
  shows "drs_ok (base + length ms * tdMethodStride) (fn_relocs base ms) \<and>
    (\<forall>r \<in> set (fn_relocs base ms). base + 56 \<le> unat (dr_Offset r))"
  using assms
proof (induction ms arbitrary: base)
  case (Cons m ms)
  have o: "unat (of_nat (base + 56) :: 32 word) = base + 56"
    using Cons.prems by (simp add: unat_of_nat take_bit_nat_eq_self tdMethodStride_def del: of_nat_add)
  have "drs_ok (base + length (m # ms) * tdMethodStride) (fn_relocs (base + tdMethodStride) ms)"
    and far: "\<forall>r \<in> set (fn_relocs (base + tdMethodStride) ms). base + tdMethodStride + 56 \<le> unat (dr_Offset r)"
    using Cons.IH[of "base + tdMethodStride"] Cons.prems by (simp_all add: algebra_simps)
  moreover have "base + 64 \<le> base + length (m # ms) * tdMethodStride" by (simp add: tdMethodStride_def)
  moreover have "{base + 56 ..< base + 56 + 8} \<inter> {unat (dr_Offset r) ..< unat (dr_Offset r) + 8} = {}"
    if "r \<in> set (fn_relocs (base + tdMethodStride) ms)" for r
    using bspec[OF far that] by (auto simp: tdMethodStride_def)
  ultimately show ?case using o far by (auto simp: drs_ok_def tdMethodStride_def simp del: of_nat_add of_nat_numeral)
qed (simp add: drs_ok_def)

lemma typedesc_drs:
  assumes "EncodeTypedesc rec = (b, rs)" "length b < 2 ^ 32"
  shows "drs_ok (length b) rs"
proof -
  note r = typedesc_relocs[OF assms(1)]
  have "drs_ok (tdHeadFixed + length (tr_Methods rec) * tdMethodStride) (fn_relocs tdHeadFixed (tr_Methods rec)) \<and>
      (\<forall>r \<in> set (fn_relocs tdHeadFixed (tr_Methods rec)). tdHeadFixed + 56 \<le> unat (dr_Offset r))"
    by (rule fn_relocs_drs) (use r(2) assms(2) in simp)
  then show ?thesis using r by (fastforce simp: drs_ok_def tdHeadFixed_def tdCacheRefOff_def)
qed

lemma drs_none [simp]: "drs_ok n []"
  by (simp add: drs_ok_def)

lemma ifacedesc_relocs: "EncodeIfaceDesc rec = (b, rs) \<Longrightarrow> rs = []"
  by (auto simp add: EncodeIfaceDesc_def Let_def case_prod_unfold)

lemma assemble_drs:
  assumes "data_ok oo" "in_range oo" "relocs_apart oo" "(n, v) \<in> set (o_Vars oo) \<union> set (o_Data oo)"
  shows "drs_ok (length (v_Val v)) (v_Relocs v)"
proof (cases "(n, v) \<in> set (o_Vars oo)")
  case True
  then show ?thesis using assms(1,3) by (fastforce simp: data_ok_def each_def relocs_within_def drs_ok_def relocs_apart_def)
next
  case False
  then have "block_ok v" "length (v_Val v) < 2 ^ 32" using assms by (auto simp: data_ok_def each_def in_range_def)
  then show ?thesis
    by (auto simp: block_ok_def split: if_splits intro: typedesc_drs dest: ifacedesc_relocs)
qed

lemma assemble_ready:
  assumes "assemble e out fs = Some (Inr oo)" "long_jumps (e_asm e)" "in_range oo" "relocs_apart oo" "fits_file oo"
  shows "ready oo"
proof -
  have "bodies_short oo" using assms(3) by (auto simp: in_range_def bodies_short_def dest!: map_of_SomeD)
  then have "assembled oo" "data_ok oo" using assemble_inv[OF assms(1,2)] by (simp_all add: file_inv_def)
  then show ?thesis using assemble_drs[OF _ assms(3,4)] assms(5) by (auto simp: ready_def)
qed

lemma ready_body:
  assumes "ready oo" "(n, f) \<in> set (o_Funcs oo)"
  shows "Bas.body_fine f"
proof -
  obtain g where "Resolve f = Some g" "f_errors f = []" using ready_sound[OF assms] by (auto simp: sound_fn_def)
  then show ?thesis using Resolve_keeps[of f g] by (simp add: Bas.body_fine_def Body_def)
qed

lemma bas_main_writes:
  assumes "assemble e out fs = Some (Inr oo)" "ready oo" "writeOFile oo = Inr bs"
  shows "bas_main e out fs = Written (o_Filename oo) bs True"
  using assms ready_body by (auto simp: bas_main_def list_all_iff)

section \<open>Properties\<close>

text \<open>C7. The assembler, its output: whatever sources it accepts, with an instruction table whose jumps
  have four bytes of displacement and bodies and blocks below the range of the offsets, the object file
  keeps the invariant of object files; data relocations lie within their variables and blocks; every type
  descriptor is a laid out record that decodes to itself and has its cache variable; every interface
  descriptor decodes likewise, and no other data block carries relocations.\<close>

theorem assemble_output:
  assumes "assemble e out fs = Some (Inr oo)" "long_jumps (e_asm e)" "in_range oo"
  shows "assembled oo \<and>
    (\<forall>(n, v) \<in> set (o_Vars oo) \<union> set (o_Data oo). \<forall>r \<in> set (v_Relocs v). unat (dr_Offset r) + 8 \<le> length (v_Val v)) \<and>
    (\<forall>(n, v) \<in> set (o_Data oo).
       if v_Kind v = KindTypedesc then
         (\<exists>rec. EncodeTypedesc rec = (v_Val v, v_Relocs v) \<and> DecodeTypedesc (v_Val v) (v_Relocs v) = Some rec) \<and>
         (\<exists>c. map_of (o_Vars oo) (cache_name n) = Some c \<and> v_Kind c = KindTypedescCache)
       else v_Relocs v = [] \<and> (v_Kind v = KindIfaceDesc \<longrightarrow>
         (\<exists>rec. EncodeIfaceDesc rec = (v_Val v, []) \<and> DecodeIfaceDesc (v_Val v) = Some rec)))"
proof -
  have "bodies_short oo" using assms(3) by (auto simp: in_range_def bodies_short_def dest!: map_of_SomeD)
  then have a: "assembled oo" and d: "data_ok oo" and c: "\<forall>d \<in> set (o_Data oo). \<not> unpaired oo d"
    using assemble_inv[OF assms(1,2)] by (simp_all add: file_inv_def)
  have var: "unat (dr_Offset r) + 8 \<le> length (v_Val v)" if "(n, v) \<in> set (o_Vars oo)" "r \<in> set (v_Relocs v)" for n v r
    using d that by (auto simp: data_ok_def each_def relocs_within_def)
  have block: "block_ok v" "length (v_Val v) < 2 ^ 32" if "(n, v) \<in> set (o_Data oo)" for n v
    using d assms(3) that by (auto simp: data_ok_def each_def in_range_def)
  have data: "unat (dr_Offset r) + 8 \<le> length (v_Val v)" if "(n, v) \<in> set (o_Data oo)" "r \<in> set (v_Relocs v)" for n v r
  proof -
    have "drs_ok (length (v_Val v)) (v_Relocs v)"
      using block[OF that(1)] by (auto simp: block_ok_def split: if_splits intro: typedesc_drs dest: ifacedesc_relocs)
    with that(2) show ?thesis by (simp add: drs_ok_def)
  qed
  have paired: "\<exists>c. map_of (o_Vars oo) (cache_name n) = Some c \<and> v_Kind c = KindTypedescCache"
    if "(n, v) \<in> set (o_Data oo)" "v_Kind v = KindTypedesc" for n v
    using c that by (force simp: unpaired_def split: option.splits)
  have desc: "\<exists>rec. EncodeTypedesc rec = (v_Val v, v_Relocs v) \<and> DecodeTypedesc (v_Val v) (v_Relocs v) = Some rec"
    if "(n, v) \<in> set (o_Data oo)" "v_Kind v = KindTypedesc" for n v
    using block[OF that(1)] that(2) typedesc_decodes by (auto simp: block_ok_def)
  have other: "v_Relocs v = [] \<and> (v_Kind v = KindIfaceDesc \<longrightarrow>
      (\<exists>rec. EncodeIfaceDesc rec = (v_Val v, []) \<and> DecodeIfaceDesc (v_Val v) = Some rec))"
    if "(n, v) \<in> set (o_Data oo)" "v_Kind v \<noteq> KindTypedesc" for n v
    using block[OF that(1)] that(2) iface_desc_roundtrip by (fastforce simp: block_ok_def split: if_splits)
  show ?thesis using a var data desc paired other by auto
qed

lemma src_long_jumps: "long_jumps (e_asm src_env)"
  by (simp add: src_env_def long_jumps_def Asm_Encode_def select_form_def find_instr_def failed_def)

lemma src_in_range: "in_range src_output"
  by (simp add: in_range_def src_output_def file3_def file2_def file1_def NewOFile_def fn2_def fn1_def Label_def emit_def
      new_function_def Let_def new_var_def EncodeTypedesc_def src_desc_def addStr_def length_masks tdHeadFixed_def tdMethodStride_def)

theorem assemble_output_witness:
  "\<exists>oo v c. assemble src_env [] [(''a.bs'', Some src_text)] = Some (Inr oo) \<and> assembled oo \<and>
     map_of (o_Data oo) ''__typedesc_T'' = Some v \<and> v_Kind v = KindTypedesc \<and>
     map_of (o_Vars oo) ''__typedesc_cache_T'' = Some c \<and> v_Kind c = KindTypedescCache"
proof -
  have d: "\<exists>v. map_of (o_Data src_output) ''__typedesc_T'' = Some v \<and> v_Kind v = KindTypedesc"
    by (simp add: src_output_def file3_def file2_def)
  then obtain v where v: "map_of (o_Data src_output) ''__typedesc_T'' = Some v" "v_Kind v = KindTypedesc" by blast
  have n: "cache_name ''__typedesc_T'' = ''__typedesc_cache_T''" by (simp add: cache_name_def TrimPrefix_def)
  show ?thesis
    using assemble_output[OF src_assembles src_long_jumps src_in_range] v map_of_SomeD[OF v(1)] n
    by (fastforce simp: src_assembles)
qed

text \<open>The sample is within the bounds of the format.\<close>

lemma length_decimal: "length (decimal n) \<le> Suc n"
proof (induction n rule: decimal.induct)
  case (1 n)
  show ?case
  proof (cases "n < 10")
    case False
    then have "length (decimal n) = Suc (length (decimal (n div 10)))" by (subst decimal.simps) simp
    with 1[OF False] False show ?thesis by (simp add: le_trans)
  qed (simp add: decimal.simps)
qed

lemma src_fits: "fits_file src_output"
proof -
  have fn: "fits_fn fn2"
    by (simp add: fits_fn_def fn2_def fn1_def Label_def emit_def new_function_def Let_def Resolve_def resolved_def
        fits_bytes_def fits_slice_def fits_str_def maxAlloc_def fits_int_def body_of_def fits_aliases_def MaxInt_def)
  have data: "fits_bytes (fst (EncodeTypedesc src_desc))" "fits_slice 32 fits_dr (snd (EncodeTypedesc src_desc))"
    by (simp_all add: EncodeTypedesc_def src_desc_def addStr_def length_masks tdHeadFixed_def tdMethodStride_def Let_def
       fits_bytes_def maxAlloc_def fits_slice_def fits_dr_def fits_str_def)
  have "desc_len \<le> 1000" by (simp add: desc_len_def EncodeTypedesc_def src_desc_def addStr_def length_masks tdHeadFixed_def tdMethodStride_def Let_def)
  then have "length (byte_type desc_len) \<le> 2000" using length_decimal[of desc_len] by (simp add: byte_type_def)
  then show ?thesis using fn data
    by (simp add: fits_file_def fits_tab_def src_output_def file3_def file2_def file1_def NewOFile_def MaxInt_def
      fits_var_def new_var_def fits_str_def fits_slice_def fits_bytes_def maxAlloc_def KindTypedesc_def KindTypedescCache_def)
qed

end
