(* ===== verification/Types.thy ===== *)
theory Types
  imports BasProps
begin

text \<open>
  The types of the compiler (\<open>cmd/bosc/ast.go\<close>, lines 1466--2060): the tree of a type, the
  comparisons of types with and without their qualifiers, the coercions of values, and the text of a
  type.  Positions are left out; they occur in messages only.
\<close>

section \<open>Types\<close>

text \<open>The masks have a bit per level of pointers; an array size of 0 makes an element type a slice.\<close>

datatype ASTType = ASTType
    (t_Name: string)
    (t_Indirection: nat)
    (t_ArraySize: int)
    (t_Element: "ASTType option")
    (t_Signed: bool)
    (t_MutMask: "64 word")
    (t_OwnedMask: "64 word")
    (t_NilMask: "64 word")
    (t_FuncSig: "FuncSig option")
    (t_AnonFields: "Field list option")
    (t_MultiReturn: bool)
  and FuncSig = FuncSig (g_Args: "ASTType list") (g_Return: ASTType)
  and Field = Field (d_Name: string) (d_Type: ASTType)

text \<open>A type with a name only, and a pointer to it.\<close>

definition named :: "string \<Rightarrow> ASTType" where
  "named n = ASTType n 0 0 None False 0 0 0 None None False"

definition voidASTType :: ASTType where
  "voidASTType = named ''void''"

definition intlitASTType :: ASTType where
  "intlitASTType = named ''<intlit>''"

definition byteSliceASTType :: ASTType where
  "byteSliceASTType = ASTType [] 0 0 (Some (named ''byte'')) False 0 0 0 None None False"

definition IsSlice :: "ASTType \<Rightarrow> bool" where
  "IsSlice t \<longleftrightarrow> t_Element t \<noteq> None \<and> t_ArraySize t = 0"

definition IsArray :: "ASTType \<Rightarrow> bool" where
  "IsArray t \<longleftrightarrow> t_Element t \<noteq> None \<and> t_ArraySize t > 0"

definition IsSliceOrArray :: "ASTType \<Rightarrow> bool" where
  "IsSliceOrArray t \<longleftrightarrow> t_Element t \<noteq> None"

text \<open>\<open>ElementType\<close> panics on anything but a slice or array.\<close>

definition ElementType :: "ASTType \<Rightarrow> ASTType option" where
  "ElementType t = t_Element t"

lemma size_parts [termination_simp]:
  "t_Element t = Some e \<Longrightarrow> size e < size t"
  "t_FuncSig t = Some g \<Longrightarrow> size g < size t"
  "t_AnonFields t = Some fs \<Longrightarrow> f \<in> set fs \<Longrightarrow> size f < size t"
  "a \<in> set (g_Args g) \<Longrightarrow> size a < size g"
  "size (g_Return g) < size g"
  "size (d_Type f) < size f"
proof -
  show "t_Element t = Some e \<Longrightarrow> size e < size t" "t_FuncSig t = Some g \<Longrightarrow> size g < size t" by (cases t; simp)+
  show "t_AnonFields t = Some fs \<Longrightarrow> f \<in> set fs \<Longrightarrow> size f < size t"
    using size_list_estimation'[of f fs "size f" size] by (cases t) simp
  show "a \<in> set (g_Args g) \<Longrightarrow> size a < size g"
    using size_list_estimation'[of a "g_Args g" "size a" size] by (cases g) simp
  show "size (g_Return g) < size g" by (cases g) simp
  show "size (d_Type f) < size f" by (cases f) simp
qed

lemma size_parts_deep [termination_simp]:
  "t_AnonFields t = Some fs \<Longrightarrow> f \<in> set fs \<Longrightarrow> size (d_Type f) < size t"
  "t_FuncSig t = Some g \<Longrightarrow> a \<in> set (g_Args g) \<Longrightarrow> size a < size t"
  "t_FuncSig t = Some g \<Longrightarrow> size (g_Return g) < size t"
  by (meson less_trans size_parts)+

fun BaseType :: "ASTType \<Rightarrow> ASTType" where
  "BaseType t = (case t_Element t of None \<Rightarrow> t | Some e \<Rightarrow> BaseType e)"

declare BaseType.simps [simp del]

section \<open>Comparisons\<close>

text \<open>Two options, lists of equal length: \<open>rel_option\<close> and \<open>list_all2\<close> are the tests for nil and for
  the lengths with the loop.\<close>

lemma rel_option_cong' [fundef_cong]:
  "x = x' \<Longrightarrow> y = y' \<Longrightarrow> (\<And>a b. x' = Some a \<Longrightarrow> y' = Some b \<Longrightarrow> P a b = Q a b) \<Longrightarrow> rel_option P x y = rel_option Q x' y'"
  by (cases x'; cases y') auto

lemma list_all2_cong' [fundef_cong]:
  "xs = xs' \<Longrightarrow> ys = ys' \<Longrightarrow> (\<And>a b. a \<in> set xs' \<Longrightarrow> b \<in> set ys' \<Longrightarrow> P a b = Q a b) \<Longrightarrow> list_all2 P xs ys = list_all2 Q xs' ys'"
  by (metis list.rel_cong)

fun SameExact :: "ASTType \<Rightarrow> ASTType \<Rightarrow> bool" and SameSig :: "FuncSig \<Rightarrow> FuncSig \<Rightarrow> bool" where
  "SameExact t t2 \<longleftrightarrow> t_Name t = t_Name t2 \<and> t_Indirection t = t_Indirection t2 \<and> t_ArraySize t = t_ArraySize t2 \<and>
     t_MutMask t = t_MutMask t2 \<and> t_OwnedMask t = t_OwnedMask t2 \<and> t_NilMask t = t_NilMask t2 \<and>
     rel_option SameExact (t_Element t) (t_Element t2) \<and>
     rel_option SameSig (t_FuncSig t) (t_FuncSig t2) \<and>
     rel_option (list_all2 (\<lambda>f f2. d_Name f = d_Name f2 \<and> SameExact (d_Type f) (d_Type f2))) (t_AnonFields t) (t_AnonFields t2)"
| "SameSig g g2 \<longleftrightarrow> list_all2 SameExact (g_Args g) (g_Args g2) \<and> SameExact (g_Return g) (g_Return g2)"

definition Same :: "ASTType \<Rightarrow> ASTType \<Rightarrow> bool" where
  "Same = SameExact"

fun SameRepr :: "ASTType \<Rightarrow> ASTType \<Rightarrow> bool" where
  "SameRepr t t2 \<longleftrightarrow> t_Name t = t_Name t2 \<and> t_Indirection t = t_Indirection t2 \<and> t_ArraySize t = t_ArraySize t2 \<and>
     rel_option SameRepr (t_Element t) (t_Element t2) \<and>
     (t_FuncSig t = None \<longleftrightarrow> t_FuncSig t2 = None) \<and>
     rel_option (list_all2 (\<lambda>f f2. d_Name f = d_Name f2 \<and> SameRepr (d_Type f) (d_Type f2))) (t_AnonFields t) (t_AnonFields t2)"

text \<open>The fields are looked at only if there is no signature.\<close>

fun HasOwned :: "ASTType \<Rightarrow> bool" where
  "HasOwned t \<longleftrightarrow> t_OwnedMask t \<noteq> 0 \<or>
     (case t_Element t of None \<Rightarrow> False | Some e \<Rightarrow> HasOwned e) \<or>
     (case t_FuncSig t of
        Some g \<Rightarrow> list_ex HasOwned (g_Args g) \<or> HasOwned (g_Return g)
      | None \<Rightarrow> (case t_AnonFields t of None \<Rightarrow> False | Some fs \<Rightarrow> list_ex (\<lambda>f. HasOwned (d_Type f)) fs))"

fun SameOwned :: "ASTType \<Rightarrow> ASTType \<Rightarrow> bool" and SameOwnedSig :: "FuncSig \<Rightarrow> FuncSig \<Rightarrow> bool" where
  "SameOwned t t2 \<longleftrightarrow> t_Name t = t_Name t2 \<and> t_Indirection t = t_Indirection t2 \<and> t_ArraySize t = t_ArraySize t2 \<and>
     t_OwnedMask t = t_OwnedMask t2 \<and>
     rel_option SameOwned (t_Element t) (t_Element t2) \<and>
     rel_option SameOwnedSig (t_FuncSig t) (t_FuncSig t2) \<and>
     rel_option (list_all2 (\<lambda>f f2. d_Name f = d_Name f2 \<and> SameOwned (d_Type f) (d_Type f2))) (t_AnonFields t) (t_AnonFields t2)"
| "SameOwnedSig g g2 \<longleftrightarrow> list_all2 SameOwned (g_Args g) (g_Args g2) \<and> SameOwned (g_Return g) (g_Return g2)"

primrec StripOwned :: "ASTType \<Rightarrow> ASTType" and strip_sig :: "FuncSig \<Rightarrow> FuncSig" and strip_field :: "Field \<Rightarrow> Field" where
  "StripOwned (ASTType n i a e sg m ow nl g fs mr) =
     ASTType n i a (map_option StripOwned e) sg m 0 nl (map_option strip_sig g) (map_option (map strip_field) fs) mr"
| "strip_sig (FuncSig as r) = FuncSig (map StripOwned as) (StripOwned r)"
| "strip_field (Field n t) = Field n (StripOwned t)"

fun NilCompatible :: "ASTType \<Rightarrow> ASTType \<Rightarrow> bool" where
  "NilCompatible dst src \<longleftrightarrow> t_Name dst = t_Name src \<and> t_Indirection dst = t_Indirection src \<and> t_ArraySize dst = t_ArraySize src \<and>
     rel_option NilCompatible (t_Element dst) (t_Element src) \<and>
     and (t_NilMask src) (not (t_NilMask dst)) = 0 \<and>
     rel_option (list_all2 (\<lambda>f f2. d_Name f = d_Name f2 \<and> NilCompatible (d_Type f) (d_Type f2))) (t_AnonFields dst) (t_AnonFields src)"

fun MutCompatible :: "ASTType \<Rightarrow> ASTType \<Rightarrow> bool" where
  "MutCompatible dst src \<longleftrightarrow> t_Name dst = t_Name src \<and> t_Indirection dst = t_Indirection src \<and> t_ArraySize dst = t_ArraySize src \<and>
     rel_option MutCompatible (t_Element dst) (t_Element src) \<and>
     rel_option (list_all2 (\<lambda>f f2. d_Name f = d_Name f2 \<and> MutCompatible (d_Type f) (d_Type f2))) (t_AnonFields dst) (t_AnonFields src) \<and>
     and (t_MutMask dst) (t_MutMask src) = t_MutMask dst"

declare SameExact.simps [simp del] SameSig.simps [simp del] SameRepr.simps [simp del] HasOwned.simps [simp del]
  SameOwned.simps [simp del] SameOwnedSig.simps [simp del] NilCompatible.simps [simp del] MutCompatible.simps [simp del]

section \<open>Coercions\<close>

definition Accepts :: "ASTType \<Rightarrow> ASTType \<Rightarrow> bool" where
  "Accepts dst src \<longleftrightarrow>
     (if Same src intlitASTType then True
      else if t_Name src = ''<nil>'' then t_Indirection dst > 0 \<and> bit (t_NilMask dst) 0
      else if \<not> HasOwned dst then
        (let src = StripOwned src in MutCompatible dst src \<and> NilCompatible dst src)
      else SameOwned dst src \<and> MutCompatible dst src \<and> NilCompatible dst src)"

datatype coerceReason = coerceOK | coerceValuesFromIntLit | coerceTypeMismatch

text \<open>\<open>values n\<close> says whether the context has a values type \<open>n\<close>; the effective type of a failure is the
  zero type.\<close>

definition zero_type :: ASTType where
  "zero_type = named []"

fun coerceType :: "(string \<Rightarrow> bool) \<Rightarrow> ASTType \<Rightarrow> ASTType \<Rightarrow> ASTType \<times> coerceReason" where
  "coerceType is_values dst src =
     (if Same src intlitASTType then
        (if is_values (t_Name dst) then (zero_type, coerceValuesFromIntLit) else (dst, coerceOK))
      else if t_Name src = ''<nil>'' then
        (if t_Indirection dst > 0 \<and> bit (t_NilMask dst) 0 then (dst, coerceOK) else (zero_type, coerceTypeMismatch))
      else if Accepts dst src then (src, coerceOK)
      else if IsArray dst \<and> IsArray src \<and> t_ArraySize dst = t_ArraySize src then
        (case (t_Element dst, t_Element src) of
           (Some d, Some s) \<Rightarrow>
             if snd (coerceType is_values d s) = coerceOK then (dst, coerceOK) else (zero_type, coerceTypeMismatch)
         | _ \<Rightarrow> (zero_type, coerceTypeMismatch))
      else (zero_type, coerceTypeMismatch))"

declare coerceType.simps [simp del]

section \<open>The text of a type\<close>

definition flag :: "bool \<Rightarrow> string \<Rightarrow> string" where
  "flag b s = (if b then s else [])"

text \<open>The pointer levels, outermost first.\<close>

definition levels_text :: "ASTType \<Rightarrow> string" where
  "levels_text t = concat (map (\<lambda>i. ''*'' @ flag (bit (t_NilMask t) i) ''?'' @
     flag (bit (t_MutMask t) (i + 1)) ''mut '' @ flag (bit (t_OwnedMask t) (i + 1)) ''owned '') [0 ..< t_Indirection t])"

fun comma_list :: "string list \<Rightarrow> string" where
  "comma_list [] = []"
| "comma_list [s] = s"
| "comma_list (s # ss) = s @ '','' @ comma_list ss"

fun type_String :: "ASTType \<Rightarrow> string" where
  "type_String t = flag (bit (t_OwnedMask t) 0) ''owned '' @ levels_text t @
     (case t_Element t of
        Some e \<Rightarrow>
          (let s = type_String e;
               inner = (if IsArray t then s @ ''['' @ int_text (t_ArraySize t) @ '']''
                 else flag (bit (t_OwnedMask t) 1) ''owned '' @ flag (bit (t_MutMask t) 1) ''mut '' @ s @ ''[]'')
           in if t_Indirection t > 0 then ''('' @ inner @ '')'' else inner)
      | None \<Rightarrow> (case t_FuncSig t of
          Some g \<Rightarrow> ''fn('' @ comma_list (map type_String (g_Args g)) @ '')'' @
            (if Same (g_Return g) voidASTType then [] else type_String (g_Return g))
        | None \<Rightarrow> (case t_AnonFields t of
            Some fs \<Rightarrow> (if t_MultiReturn t then ''multiretu{'' else ''struct{'') @
              comma_list (map (\<lambda>f. d_Name f @ '':'' @ type_String (d_Type f)) fs) @ ''}''
          | None \<Rightarrow> t_Name t)))"

declare type_String.simps [simp del]

section \<open>Declarations in scope\<close>

text \<open>A context and its parents, the innermost scope first; no context at all is the empty list.\<close>

record Binding =
  bd_Name :: string
  bd_Type :: ASTType

record InterfaceMethodSig =
  ms_Name :: string
  ms_Params :: "Binding list"
  ms_Return :: ASTType
  ms_ReturnAliases :: "int list list"

record InterfaceDecl =
  id_Name :: string
  id_Methods :: "InterfaceMethodSig list"

record FuncDecl =
  fd_Name :: string
  fd_Args :: "Binding list"
  fd_Return :: ASTType
  fd_ReturnAliases :: "int list list"

record scope =
  c_pkgname :: string
  c_structs :: "string \<rightharpoonup> Binding list"
  c_typeAliases :: "string \<rightharpoonup> ASTType"
  c_interfaceDecls :: "string \<rightharpoonup> InterfaceDecl"
  c_valuesDecls :: "string \<rightharpoonup> ASTType"
  c_typeMethods :: "string \<rightharpoonup> FuncDecl list"

type_synonym Context = "scope list"

fun Pkgname :: "Context \<Rightarrow> string" where
  "Pkgname [] = []"
| "Pkgname (s # c) = (if c_pkgname s \<noteq> [] then c_pkgname s else Pkgname c)"

text \<open>The first scope that has the name.\<close>

fun find_decl :: "(scope \<Rightarrow> string \<rightharpoonup> 'a) \<Rightarrow> Context \<Rightarrow> string \<Rightarrow> 'a option" where
  "find_decl sel [] n = None"
| "find_decl sel (s # c) n = (case sel s n of Some d \<Rightarrow> Some d | None \<Rightarrow> find_decl sel c n)"

definition TypeAliasFor :: "Context \<Rightarrow> string \<Rightarrow> ASTType option" where
  "TypeAliasFor = find_decl c_typeAliases"

definition StructDeclForName :: "Context \<Rightarrow> string \<Rightarrow> Binding list option" where
  "StructDeclForName = find_decl c_structs"

text \<open>Of a values declaration only the type of its tags is kept.\<close>

definition ValuesDeclForName :: "Context \<Rightarrow> string \<Rightarrow> ASTType option" where
  "ValuesDeclForName = find_decl c_valuesDecls"

definition InterfaceForName :: "Context \<Rightarrow> string \<Rightarrow> InterfaceDecl option" where
  "InterfaceForName c n = (if c = [] then None
     else case c_interfaceDecls (last c) n of
         Some d \<Rightarrow> Some d
       | None \<Rightarrow> c_interfaceDecls (last c) (''builtin.'' @ n))"

definition IsInterfaceType :: "Context \<Rightarrow> ASTType \<Rightarrow> bool" where
  "IsInterfaceType c t \<longleftrightarrow> c \<noteq> [] \<and> \<not> (t_Indirection t > 0 \<or> IsSliceOrArray t \<or> t_FuncSig t \<noteq> None) \<and>
     InterfaceForName c (t_Name t) \<noteq> None"

definition TypeMethodsFor :: "Context \<Rightarrow> string \<Rightarrow> FuncDecl list option" where
  "TypeMethodsFor c n = (if c = [] then None else c_typeMethods (last c) n)"

definition MethodForType :: "Context \<Rightarrow> string \<Rightarrow> string \<Rightarrow> FuncDecl option" where
  "MethodForType c tn mn = (case TypeMethodsFor c tn of None \<Rightarrow> None | Some ms \<Rightarrow> List.find (\<lambda>m. fd_Name m = mn) ms)"

fun set_masks :: "ASTType \<Rightarrow> ASTType \<Rightarrow> ASTType" where
  "set_masks (ASTType n i a e sg m ow nl g fs mr) t = ASTType n i a e sg (t_MutMask t) (t_OwnedMask t) (t_NilMask t) g fs mr"

definition ResolveUnderlying :: "Context \<Rightarrow> ASTType \<Rightarrow> ASTType" where
  "ResolveUnderlying c t =
     (if t_Indirection t > 0 \<or> IsSliceOrArray t then t
      else case TypeAliasFor c (t_Name t) of Some u \<Rightarrow> set_masks u t | None \<Rightarrow> t)"

fun set_Signed :: "bool \<Rightarrow> ASTType \<Rightarrow> ASTType" where
  "set_Signed b (ASTType n i a e sg m ow nl g fs mr) = ASTType n i a e b m ow nl g fs mr"

definition AugmentType :: "Context \<Rightarrow> ASTType \<Rightarrow> ASTType" where
  "AugmentType c t =
     (if t_Indirection t > 0 \<or> IsSliceOrArray t then t
      else case TypeAliasFor c (t_Name t) of Some u \<Rightarrow> set_Signed (t_Signed u) t | None \<Rightarrow> t)"

text \<open>\<open>TypeByName\<close>; a name that ends in \<open>[]\<close> is a slice of what precedes it.\<close>

definition signed_names :: "string list" where
  "signed_names = [''i8'', ''i16'', ''i32'', ''i64'']"

definition plain_names :: "string list" where
  "plain_names = [''u8'', ''u16'', ''u32'', ''u64'', ''byte'', ''bool'']"

function TypeByName :: "Context \<Rightarrow> string \<Rightarrow> ASTType option" where
  "TypeByName c n =
     (if n \<in> set signed_names then Some (set_Signed True (named n))
      else if n \<in> set plain_names then Some (named n)
      else case TypeAliasFor c n of
          Some t \<Rightarrow> Some (set_Signed (t_Signed t) (named n))
        | None \<Rightarrow>
            if ValuesDeclForName c n \<noteq> None \<or> StructDeclForName c n \<noteq> None then Some (named n)
            else if length n \<ge> 2 \<and> drop (length n - 2) n = ''[]'' then
              (case TypeByName c (take (length n - 2) n) of
                 Some t \<Rightarrow> Some (ASTType [] 0 0 (Some t) False 0 0 0 None None False)
               | None \<Rightarrow> None)
            else None)"
  by pat_completeness auto
termination by (relation "measure (\<lambda>(c, n). length n)") auto

declare TypeByName.simps [simp del]

section \<open>Sizes\<close>

text \<open>
  \<open>Size\<close> and \<open>ZeroInitializable\<close> follow names to declarations without a check for cycles, so they need
  not return; the first argument bounds the depth, and \<open>None\<close> stands for a run that goes deeper.
  Sizes are 64 bit integers and wrap.
\<close>

datatype size_err = IntLitSize | NoSuchType string

type_synonym size = "(size_err + 64 word) option"

fun sum_sizes :: "size list \<Rightarrow> size" where
  "sum_sizes [] = Some (Inr 0)"
| "sum_sizes (x # xs) = (case x of
      Some (Inr n) \<Rightarrow> map_option (map_sum id (\<lambda>m. n + m)) (sum_sizes xs)
    | e \<Rightarrow> e)"

definition PTR_SIZE :: "64 word" where
  "PTR_SIZE = 8"

definition scalar_size :: "string \<Rightarrow> 64 word option" where
  "scalar_size n =
     (if n \<in> {''i64'', ''u64''} then Some 8
      else if n \<in> {''i32'', ''u32''} then Some 4
      else if n \<in> {''i16'', ''u16''} then Some 2
      else if n \<in> {''i8'', ''u8'', ''byte'', ''bool''} then Some 1
      else None)"

text \<open>What is neither a pointer nor a slice or array; \<open>sz\<close> is the recursive call.\<close>

definition Size_named :: "(ASTType \<Rightarrow> size) \<Rightarrow> Context \<Rightarrow> ASTType \<Rightarrow> size" where
  "Size_named sz c t =
     (if t_Name t = ''<intlit>'' then Some (Inl IntLitSize)
      else case scalar_size (t_Name t) of
        Some n \<Rightarrow> Some (Inr n)
      | None \<Rightarrow> (case TypeAliasFor c (t_Name t) of
          Some u \<Rightarrow> sz u
        | None \<Rightarrow>
            if InterfaceForName c (t_Name t) \<noteq> None then Some (Inr 16)
            else (case ValuesDeclForName c (t_Name t) of
              Some tag \<Rightarrow> sz tag
            | None \<Rightarrow> (case t_AnonFields t of
                Some fs \<Rightarrow> sum_sizes (map (\<lambda>f. sz (d_Type f)) fs)
              | None \<Rightarrow> (case StructDeclForName c (t_Name t) of
                  Some fs \<Rightarrow> sum_sizes (map (\<lambda>f. sz (bd_Type f)) fs)
                | None \<Rightarrow> Some (Inl (NoSuchType (t_Name t))))))))"

fun Size :: "nat \<Rightarrow> Context \<Rightarrow> ASTType \<Rightarrow> size" where
  "Size 0 c t = None"
| "Size (Suc k) c t =
     (if t_FuncSig t \<noteq> None \<or> t_Indirection t > 0 then Some (Inr PTR_SIZE)
      else case t_Element t of
        Some e \<Rightarrow>
          if t_ArraySize t = 0 then Some (Inr 16)
          else if t_ArraySize t > 0 then map_option (map_sum id (\<lambda>n. n * word_of_int (t_ArraySize t))) (Size k c e)
          else Size_named (Size k c) c t
      | None \<Rightarrow> Size_named (Size k c) c t)"

text \<open>\<open>StructDecl.Size\<close> and \<open>ByteOffset\<close>; the type of a field that is not there is the zero type.\<close>

definition StructDecl_Size :: "nat \<Rightarrow> Context \<Rightarrow> Binding list \<Rightarrow> size" where
  "StructDecl_Size k c fs = sum_sizes (map (\<lambda>f. Size k c (bd_Type f)) fs)"

definition ByteOffset :: "nat \<Rightarrow> Context \<Rightarrow> Binding list \<Rightarrow> string \<Rightarrow> (size_err + 64 word \<times> ASTType) option" where
  "ByteOffset k c fs n =
     map_option (map_sum id (\<lambda>off. (off, case List.find (\<lambda>f. bd_Name f = n) fs of Some f \<Rightarrow> bd_Type f | None \<Rightarrow> zero_type)))
       (sum_sizes (map (\<lambda>f. Size k c (bd_Type f)) (takeWhile (\<lambda>f. bd_Name f \<noteq> n) fs)))"

definition parentOwnsFields :: "ASTType \<Rightarrow> bool" where
  "parentOwnsFields t \<longleftrightarrow> bit (t_OwnedMask t) (t_Indirection t)"

definition fieldTypeForBase :: "ASTType \<Rightarrow> ASTType \<Rightarrow> ASTType" where
  "fieldTypeForBase base f = (if parentOwnsFields base then f else StripOwned f)"

text \<open>The loop over the fields, which stops at the first that is not.\<close>

fun all_zero :: "bool option list \<Rightarrow> bool option" where
  "all_zero [] = Some True"
| "all_zero (x # xs) = (case x of Some True \<Rightarrow> all_zero xs | r \<Rightarrow> r)"

text \<open>Resolving changed the type.\<close>

definition resolved_differs :: "ASTType \<Rightarrow> ASTType \<Rightarrow> bool" where
  "resolved_differs u t \<longleftrightarrow> t_Name u \<noteq> t_Name t \<or> t_Indirection u \<noteq> t_Indirection t \<or> t_ArraySize u \<noteq> t_ArraySize t \<or>
     (t_Element u = None) \<noteq> (t_Element t = None) \<or> (t_FuncSig u = None) \<noteq> (t_FuncSig t = None)"

fun ZeroInitializable :: "nat \<Rightarrow> Context \<Rightarrow> ASTType \<Rightarrow> bool option" where
  "ZeroInitializable 0 c t = None"
| "ZeroInitializable (Suc k) c t =
     (if t_Indirection t > 0 then Some (bit (t_NilMask t) 0)
      else if t_FuncSig t \<noteq> None then Some False
      else if IsSlice t then Some True
      else if IsArray t then ZeroInitializable k c (the (t_Element t))
      else if IsInterfaceType c t then Some (bit (t_NilMask t) 0)
      else if resolved_differs (ResolveUnderlying c t) t then ZeroInitializable k c (ResolveUnderlying c t)
      else case t_AnonFields t of
          Some fs \<Rightarrow> all_zero (map (\<lambda>f. ZeroInitializable k c (fieldTypeForBase t (d_Type f))) fs)
        | None \<Rightarrow> (case StructDeclForName c (t_Name t) of
            Some fs \<Rightarrow> all_zero (map (\<lambda>f. ZeroInitializable k c (fieldTypeForBase t (bd_Type f))) fs)
          | None \<Rightarrow> Some True))"

end
