(* ===== verification/TypeProps.thy ===== *)
theory TypeProps
  imports Types
begin

text \<open>
  What the comparisons of types decide, what coercions keep, and the sizes of values.
\<close>

section \<open>Parts of types\<close>

lemma type_induct [case_names type]:
  assumes "\<And>t. (\<And>u. size u < size (t :: ASTType) \<Longrightarrow> P u) \<Longrightarrow> P t"
  shows "P t"
  using assms by (rule measure_induct_rule[where f = size])

lemma rel_option_self: "(\<And>x. o' = Some x \<Longrightarrow> P x x) \<Longrightarrow> rel_option P o' o'"
  by (cases o') auto

lemma list_all2_self: "(\<And>x. x \<in> set xs \<Longrightarrow> P x x) \<Longrightarrow> list_all2 P xs xs"
  by (induction xs) auto



lemma rel_option_map: "rel_option (\<lambda>x y. f x = f y) a b \<longleftrightarrow> map_option f a = map_option f b"
  by (cases a; cases b) auto

lemma list_all2_image: "list_all2 (\<lambda>x y. f x = f y) xs ys \<longleftrightarrow> map f xs = map f ys"
  by (auto simp: list_all2_conv_all_nth list_eq_iff_nth_eq)

section \<open>Comparing types\<close>

text \<open>A type without what comparing ignores: the sign of a scalar, and whether fields stand for several
  results.\<close>

primrec erase :: "ASTType \<Rightarrow> ASTType" and erase_sig :: "FuncSig \<Rightarrow> FuncSig" and erase_field :: "Field \<Rightarrow> Field" where
  "erase (ASTType n i a e sg m ow nl g fs mr) =
     ASTType n i a (map_option erase e) False m ow nl (map_option erase_sig g) (map_option (map erase_field) fs) False"
| "erase_sig (FuncSig as r) = FuncSig (map erase as) (erase r)"
| "erase_field (Field n t) = Field n (erase t)"

lemma erase_eq: "erase t = erase u \<longleftrightarrow> t_Name t = t_Name u \<and> t_Indirection t = t_Indirection u \<and>
    t_ArraySize t = t_ArraySize u \<and> t_MutMask t = t_MutMask u \<and> t_OwnedMask t = t_OwnedMask u \<and> t_NilMask t = t_NilMask u \<and>
    rel_option (\<lambda>x y. erase x = erase y) (t_Element t) (t_Element u) \<and>
    rel_option (\<lambda>x y. erase_sig x = erase_sig y) (t_FuncSig t) (t_FuncSig u) \<and>
    rel_option (list_all2 (\<lambda>f g. d_Name f = d_Name g \<and> erase (d_Type f) = erase (d_Type g))) (t_AnonFields t) (t_AnonFields u)"
proof -
  have f: "d_Name f = d_Name g \<and> erase (d_Type f) = erase (d_Type g) \<longleftrightarrow> erase_field f = erase_field g" for f g
    by (cases f; cases g) simp
  show ?thesis
    unfolding f list_all2_image rel_option_map by (cases t; cases u) auto
qed

lemma erase_sig_eq: "erase_sig g = erase_sig h \<longleftrightarrow>
    list_all2 (\<lambda>x y. erase x = erase y) (g_Args g) (g_Args h) \<and> erase (g_Return g) = erase (g_Return h)"
  by (cases g; cases h) (simp add: list_all2_image)

lemma same_erase:
  "SameExact t u \<longleftrightarrow> erase t = erase u"
  "SameSig g h \<longleftrightarrow> erase_sig g = erase_sig h"
proof (induction t u and g h rule: SameExact_SameSig.induct)
  case (1 t u)
  have "rel_option SameExact (t_Element t) (t_Element u) \<longleftrightarrow> rel_option (\<lambda>x y. erase x = erase y) (t_Element t) (t_Element u)"
    using 1 by (intro rel_option_cong') auto
  moreover have "rel_option SameSig (t_FuncSig t) (t_FuncSig u) \<longleftrightarrow>
      rel_option (\<lambda>x y. erase_sig x = erase_sig y) (t_FuncSig t) (t_FuncSig u)"
    using 1 by (intro rel_option_cong') auto
  moreover have "rel_option (list_all2 (\<lambda>f g. d_Name f = d_Name g \<and> SameExact (d_Type f) (d_Type g))) (t_AnonFields t) (t_AnonFields u) \<longleftrightarrow>
      rel_option (list_all2 (\<lambda>f g. d_Name f = d_Name g \<and> erase (d_Type f) = erase (d_Type g))) (t_AnonFields t) (t_AnonFields u)"
    using 1 by (intro rel_option_cong' list_all2_cong') auto
  ultimately show ?case by (simp only: SameExact.simps[of t u] erase_eq[of t u])
next
  case (2 g h)
  have "list_all2 SameExact (g_Args g) (g_Args h) \<longleftrightarrow> list_all2 (\<lambda>x y. erase x = erase y) (g_Args g) (g_Args h)"
    using 2 by (intro list_all2_cong') auto
  then show ?case using 2 by (simp add: SameSig.simps erase_sig_eq)
qed

section \<open>Compatible types\<close>

lemma MutCompatible_refl: "MutCompatible t t"
proof (induction t rule: type_induct)
  case (type t)
  then show ?case
    by (subst MutCompatible.simps) (auto intro!: rel_option_self list_all2_self simp: size_parts size_parts_deep)
qed

lemma NilCompatible_refl: "NilCompatible t t"
proof (induction t rule: type_induct)
  case (type t)
  then show ?case
    by (subst NilCompatible.simps) (auto intro!: rel_option_self list_all2_self simp: size_parts size_parts_deep)
qed





text \<open>Ownership: \<open>SameOwned\<close> compares what is left when the other masks are cleared, too.\<close>

primrec owned_part :: "ASTType \<Rightarrow> ASTType" and owned_sig :: "FuncSig \<Rightarrow> FuncSig" and owned_field :: "Field \<Rightarrow> Field" where
  "owned_part (ASTType n i a e sg m ow nl g fs mr) =
     ASTType n i a (map_option owned_part e) False 0 ow 0 (map_option owned_sig g) (map_option (map owned_field) fs) False"
| "owned_sig (FuncSig as r) = FuncSig (map owned_part as) (owned_part r)"
| "owned_field (Field n t) = Field n (owned_part t)"

lemma owned_part_eq: "owned_part t = owned_part u \<longleftrightarrow> t_Name t = t_Name u \<and> t_Indirection t = t_Indirection u \<and>
    t_ArraySize t = t_ArraySize u \<and> t_OwnedMask t = t_OwnedMask u \<and>
    rel_option (\<lambda>x y. owned_part x = owned_part y) (t_Element t) (t_Element u) \<and>
    rel_option (\<lambda>x y. owned_sig x = owned_sig y) (t_FuncSig t) (t_FuncSig u) \<and>
    rel_option (list_all2 (\<lambda>f g. d_Name f = d_Name g \<and> owned_part (d_Type f) = owned_part (d_Type g))) (t_AnonFields t) (t_AnonFields u)"
proof -
  have f: "d_Name f = d_Name g \<and> owned_part (d_Type f) = owned_part (d_Type g) \<longleftrightarrow> owned_field f = owned_field g" for f g
    by (cases f; cases g) simp
  show ?thesis
    unfolding f list_all2_image rel_option_map by (cases t; cases u) auto
qed

lemma owned_sig_eq: "owned_sig g = owned_sig h \<longleftrightarrow>
    list_all2 (\<lambda>x y. owned_part x = owned_part y) (g_Args g) (g_Args h) \<and> owned_part (g_Return g) = owned_part (g_Return h)"
  by (cases g; cases h) (simp add: list_all2_image)

lemma same_owned:
  "SameOwned t u \<longleftrightarrow> owned_part t = owned_part u"
  "SameOwnedSig g h \<longleftrightarrow> owned_sig g = owned_sig h"
proof (induction t u and g h rule: SameOwned_SameOwnedSig.induct)
  case (1 t u)
  have "rel_option SameOwned (t_Element t) (t_Element u) \<longleftrightarrow> rel_option (\<lambda>x y. owned_part x = owned_part y) (t_Element t) (t_Element u)"
    using 1 by (intro rel_option_cong') auto
  moreover have "rel_option SameOwnedSig (t_FuncSig t) (t_FuncSig u) \<longleftrightarrow>
      rel_option (\<lambda>x y. owned_sig x = owned_sig y) (t_FuncSig t) (t_FuncSig u)"
    using 1 by (intro rel_option_cong') auto
  moreover have "rel_option (list_all2 (\<lambda>f g. d_Name f = d_Name g \<and> SameOwned (d_Type f) (d_Type g))) (t_AnonFields t) (t_AnonFields u) \<longleftrightarrow>
      rel_option (list_all2 (\<lambda>f g. d_Name f = d_Name g \<and> owned_part (d_Type f) = owned_part (d_Type g))) (t_AnonFields t) (t_AnonFields u)"
    using 1 by (intro rel_option_cong' list_all2_cong') auto
  ultimately show ?case by (simp only: SameOwned.simps[of t u] owned_part_eq[of t u])
next
  case (2 g h)
  have "list_all2 SameOwned (g_Args g) (g_Args h) \<longleftrightarrow> list_all2 (\<lambda>x y. owned_part x = owned_part y) (g_Args g) (g_Args h)"
    using 2 by (intro list_all2_cong') auto
  then show ?case using 2 by (simp add: SameOwnedSig.simps owned_sig_eq)
qed

lemma owned_part_sel [simp]:
  "t_OwnedMask (owned_part t) = t_OwnedMask t" "t_Element (owned_part t) = map_option owned_part (t_Element t)"
  "t_FuncSig (owned_part t) = map_option owned_sig (t_FuncSig t)"
  "t_AnonFields (owned_part t) = map_option (map owned_field) (t_AnonFields t)"
  "g_Args (owned_sig g) = map owned_part (g_Args g)" "g_Return (owned_sig g) = owned_part (g_Return g)"
  "d_Type (owned_field f) = owned_part (d_Type f)"
  by (cases t; simp) (cases t; simp | cases g; simp | cases f; simp)+



section \<open>Stripping ownership\<close>

lemma strip_sel [simp]:
  "t_Name (StripOwned t) = t_Name t" "t_Indirection (StripOwned t) = t_Indirection t"
  "t_ArraySize (StripOwned t) = t_ArraySize t" "t_MutMask (StripOwned t) = t_MutMask t"
  "t_NilMask (StripOwned t) = t_NilMask t" "t_OwnedMask (StripOwned t) = 0"
  "t_Element (StripOwned t) = map_option StripOwned (t_Element t)"
  "t_FuncSig (StripOwned t) = map_option strip_sig (t_FuncSig t)"
  "t_AnonFields (StripOwned t) = map_option (map strip_field) (t_AnonFields t)"
  "g_Args (strip_sig g) = map StripOwned (g_Args g)" "g_Return (strip_sig g) = StripOwned (g_Return g)"
  "d_Type (strip_field f) = StripOwned (d_Type f)" "d_Name (strip_field f) = d_Name f"
  by (cases t; simp | cases g; simp | cases f; simp)+

lemma StripOwned_not_owned: "\<not> HasOwned (StripOwned t)"
proof (induction t rule: type_induct)
  case (type t)
  then show ?case
    by (subst HasOwned.simps) (auto split: option.splits simp: list_ex_iff size_parts size_parts_deep)
qed

lemma MutCompatible_strip: "MutCompatible a (StripOwned b) \<longleftrightarrow> MutCompatible a b"
proof (induction a b rule: MutCompatible.induct)
  case (1 a b)
  have "rel_option (\<lambda>x y. MutCompatible x (StripOwned y)) (t_Element a) (t_Element b) \<longleftrightarrow> rel_option MutCompatible (t_Element a) (t_Element b)"
    using 1(1) by (intro rel_option_cong') auto
  moreover have "rel_option (list_all2 (\<lambda>f g. d_Name f = d_Name g \<and> MutCompatible (d_Type f) (StripOwned (d_Type g)))) (t_AnonFields a) (t_AnonFields b) \<longleftrightarrow>
      rel_option (list_all2 (\<lambda>f g. d_Name f = d_Name g \<and> MutCompatible (d_Type f) (d_Type g))) (t_AnonFields a) (t_AnonFields b)"
    using 1(2) by (intro rel_option_cong' list_all2_cong') auto
  ultimately show ?case
    by (subst (1 2) MutCompatible.simps) (simp add: option.rel_map list.rel_map)
qed

lemma NilCompatible_strip: "NilCompatible a (StripOwned b) \<longleftrightarrow> NilCompatible a b"
proof (induction a b rule: NilCompatible.induct)
  case (1 a b)
  have "rel_option (\<lambda>x y. NilCompatible x (StripOwned y)) (t_Element a) (t_Element b) \<longleftrightarrow> rel_option NilCompatible (t_Element a) (t_Element b)"
    using 1(1) by (intro rel_option_cong') auto
  moreover have "rel_option (list_all2 (\<lambda>f g. d_Name f = d_Name g \<and> NilCompatible (d_Type f) (StripOwned (d_Type g)))) (t_AnonFields a) (t_AnonFields b) \<longleftrightarrow>
      rel_option (list_all2 (\<lambda>f g. d_Name f = d_Name g \<and> NilCompatible (d_Type f) (d_Type g))) (t_AnonFields a) (t_AnonFields b)"
    using 1(2) by (intro rel_option_cong' list_all2_cong') auto
  ultimately show ?case
    by (subst (1 2) NilCompatible.simps) (simp add: option.rel_map list.rel_map)
qed

section \<open>Coercions\<close>

text \<open>A type of a variable: not that of an integer literal or of nil.\<close>

definition value_type :: "ASTType \<Rightarrow> bool" where
  "value_type t \<longleftrightarrow> \<not> Same t intlitASTType \<and> t_Name t \<noteq> ''<nil>''"

lemma Accepts_value:
  "value_type b \<Longrightarrow> Accepts a b \<longleftrightarrow> (HasOwned a \<longrightarrow> SameOwned a b) \<and> MutCompatible a b \<and> NilCompatible a b"
  by (auto simp: value_type_def Accepts_def Let_def MutCompatible_strip NilCompatible_strip)

lemma Accepts_refl: "value_type t \<Longrightarrow> Accepts t t"
  by (simp add: Accepts_value MutCompatible_refl NilCompatible_refl same_owned)




section \<open>Sizes\<close>

lemma sum_sizes_cong: "(\<And>x. x \<in> set xs \<Longrightarrow> f x = g x) \<Longrightarrow> sum_sizes (map f xs) = sum_sizes (map g xs)"
  by (metis map_cong)

lemma Size_repr: "SameRepr t u \<Longrightarrow> Size k c t = Size k c u"
proof (induction k arbitrary: t u)
  case (Suc k)
  note s = Suc.prems[unfolded SameRepr.simps[of t u]]
  have fields: "sum_sizes (map (\<lambda>f. Size k c (d_Type f)) fs) = sum_sizes (map (\<lambda>f. Size k c (d_Type f)) gs)"
    if "list_all2 (\<lambda>f g. d_Name f = d_Name g \<and> SameRepr (d_Type f) (d_Type g)) fs gs" for fs gs
    using that Suc.IH by (intro arg_cong[of _ _ sum_sizes] nth_equalityI) (auto simp: list_all2_conv_all_nth)
  have "Size_named (Size k c) c t = Size_named (Size k c) c u"
    using s fields by (cases "t_AnonFields t"; cases "t_AnonFields u") (auto simp: Size_named_def split: option.splits)
  then show ?case using s Suc.IH by (cases "t_Element t"; cases "t_Element u") auto
qed simp

lemma sum_sizes_more:
  "(\<And>x. x \<in> set xs \<Longrightarrow> f x \<noteq> None \<Longrightarrow> g x = f x) \<Longrightarrow> sum_sizes (map f xs) \<noteq> None \<Longrightarrow> sum_sizes (map g xs) = sum_sizes (map f xs)"
  by (induction xs) (auto split: option.splits sum.splits)

lemma Size_named_more:
  assumes "\<And>u. sz u \<noteq> None \<Longrightarrow> sz' u = sz u" "Size_named sz c t \<noteq> None"
  shows "Size_named sz' c t = Size_named sz c t"
proof -
  have "sum_sizes (map (\<lambda>f. sz' (d_Type f)) fs) = sum_sizes (map (\<lambda>f. sz (d_Type f)) fs)"
    if "sum_sizes (map (\<lambda>f. sz (d_Type f)) fs) \<noteq> None" for fs
    using that assms(1) by (intro sum_sizes_more)
  moreover have "sum_sizes (map (\<lambda>f. sz' (bd_Type f)) fs) = sum_sizes (map (\<lambda>f. sz (bd_Type f)) fs)"
    if "sum_sizes (map (\<lambda>f. sz (bd_Type f)) fs) \<noteq> None" for fs
    using that assms(1) by (intro sum_sizes_more)
  ultimately show ?thesis using assms by (auto simp: Size_named_def split: option.splits if_splits)
qed

lemma Size_Suc: "Size k c t \<noteq> None \<Longrightarrow> Size (Suc k) c t = Size k c t"
proof (induction k arbitrary: t)
  case (Suc k)
  have n: "Size_named (Size (Suc k) c) c t = Size_named (Size k c) c t" if "Size_named (Size k c) c t \<noteq> None"
    using Suc.IH that by (intro Size_named_more)
  have e: "Size (Suc k) c e = Size k c e" if "Size k c e \<noteq> None" for e using Suc.IH that by blast
  note eqs = Size.simps(2)[of "Suc k" c t] Size.simps(2)[of k c t]
  show ?case
    using Suc.prems e n unfolding eqs by (cases "t_Element t") (auto simp del: Size.simps split: if_splits)
qed simp

lemma Size_more: "k \<le> k' \<Longrightarrow> Size k c t = Some r \<Longrightarrow> Size k' c t = Some r"
  by (induction k' rule: dec_induct) (auto simp del: Size.simps simp: Size_Suc)

subsection \<open>Termination\<close>

text \<open>The names a value of the type holds in its own storage, not behind a pointer or slice.\<close>

fun held :: "ASTType \<Rightarrow> string set" where
  "held t =
     (if t_FuncSig t \<noteq> None \<or> t_Indirection t > 0 then {}
      else case t_Element t of
        Some e \<Rightarrow> if t_ArraySize t = 0 then {} else if t_ArraySize t > 0 then held e
          else {t_Name t} \<union> (case t_AnonFields t of None \<Rightarrow> {} | Some fs \<Rightarrow> (\<Union>f \<in> set fs. held (d_Type f)))
      | None \<Rightarrow> {t_Name t} \<union> (case t_AnonFields t of None \<Rightarrow> {} | Some fs \<Rightarrow> (\<Union>f \<in> set fs. held (d_Type f))))"

declare held.simps [simp del]

text \<open>The types a declaration of a name refers to.\<close>

definition decl_types :: "Context \<Rightarrow> string \<Rightarrow> ASTType set" where
  "decl_types c n = {u. TypeAliasFor c n = Some u \<or> ValuesDeclForName c n = Some u \<or>
     (\<exists>fs. StructDeclForName c n = Some fs \<and> u \<in> bd_Type ` set fs)}"

text \<open>No declaration holds itself: names can be ranked.\<close>

definition acyclic_decls :: "Context \<Rightarrow> bool" where
  "acyclic_decls c \<longleftrightarrow> (\<exists>r :: string \<Rightarrow> nat. \<forall>n. \<forall>u \<in> decl_types c n. \<forall>m \<in> held u. r m < r n)"

text \<open>The recursive calls of \<open>Size_named\<close>.\<close>

definition callees :: "Context \<Rightarrow> ASTType \<Rightarrow> ASTType set" where
  "callees c t = decl_types c (t_Name t) \<union> (case t_AnonFields t of None \<Rightarrow> {} | Some fs \<Rightarrow> d_Type ` set fs)"

lemma sum_sizes_some: "(\<And>x. x \<in> set xs \<Longrightarrow> x \<noteq> None) \<Longrightarrow> sum_sizes xs \<noteq> None"
  by (induction xs) (auto split: option.splits sum.splits)

lemma Size_named_some:
  assumes "\<And>u. u \<in> callees c t \<Longrightarrow> sz u \<noteq> None"
  shows "Size_named sz c t \<noteq> None"
proof -
  have "sum_sizes (map (\<lambda>f. sz (d_Type f)) fs) \<noteq> None" if "t_AnonFields t = Some fs" for fs
    using assms that by (intro sum_sizes_some) (auto simp: callees_def)
  moreover have "sum_sizes (map (\<lambda>f. sz (bd_Type f)) fs) \<noteq> None" if "StructDeclForName c (t_Name t) = Some fs" for fs
    using assms that by (intro sum_sizes_some) (fastforce simp: callees_def decl_types_def)
  ultimately show ?thesis
    using assms by (auto simp: Size_named_def callees_def decl_types_def split: option.splits)
qed

lemma common_fuel:
  assumes "finite U" "\<And>u. u \<in> U \<Longrightarrow> \<exists>k. Size k c u \<noteq> None"
  shows "\<exists>k. \<forall>u \<in> U. Size k c u \<noteq> None"
  using assms
proof (induction U)
  case (insert u U)
  then obtain k1 k2 where k: "Size k1 c u \<noteq> None" "\<forall>v \<in> U. Size k2 c v \<noteq> None" by blast
  have "Size (max k1 k2) c v \<noteq> None" if "v \<in> insert u U" for v
    using that k Size_more[of k1 "max k1 k2" c] Size_more[of k2 "max k1 k2" c] by fastforce
  then show ?case by blast
qed simp

lemma finite_callees: "finite (callees c t)"
proof -
  have "finite (decl_types c n)" for n
  proof -
    have "decl_types c n \<subseteq> set_option (TypeAliasFor c n) \<union> set_option (ValuesDeclForName c n) \<union>
        (case StructDeclForName c n of None \<Rightarrow> {} | Some fs \<Rightarrow> bd_Type ` set fs)"
      by (auto simp: decl_types_def)
    then show ?thesis by (rule finite_subset) (auto split: option.split)
  qed
  then show ?thesis by (auto simp: callees_def split: option.split)
qed

lemma Size_ends:
  fixes r :: "string \<Rightarrow> nat"
  assumes r: "\<forall>n. \<forall>u \<in> decl_types c n. \<forall>m \<in> held u. r m < r n"
  shows "\<forall>m \<in> held t. r m < b \<Longrightarrow> \<exists>k. Size k c t \<noteq> None"
proof (induction b arbitrary: t rule: less_induct)
  case (less b)
  show ?case using less.prems
  proof (induction t rule: type_induct)
    case (type t)
    have named: "\<exists>k. Size_named (Size k c) c t \<noteq> None"
      if h: "held t = {t_Name t} \<union> (case t_AnonFields t of None \<Rightarrow> {} | Some fs \<Rightarrow> (\<Union>f \<in> set fs. held (d_Type f)))"
    proof -
      have "\<exists>k. Size k c u \<noteq> None" if u: "u \<in> callees c t" for u
      proof (cases "u \<in> decl_types c (t_Name t)")
        case True
        then have "\<forall>m \<in> held u. r m < r (t_Name t)" using r by blast
        moreover have "r (t_Name t) < b" using type.prems h by auto
        ultimately show ?thesis using less.IH by blast
      next
        case False
        then obtain fs f where f: "t_AnonFields t = Some fs" "f \<in> set fs" "u = d_Type f"
          using u by (auto simp: callees_def split: option.splits)
        then have "held u \<subseteq> held t" using h by auto
        with f show ?thesis using type.IH[of u] type.prems size_parts_deep(1)[OF f(1,2)] by blast
      qed
      from common_fuel[OF finite_callees this] obtain k where "\<forall>u \<in> callees c t. Size k c u \<noteq> None" by blast
      then show ?thesis using Size_named_some[of c t "Size k c"] by blast
    qed
    have done_: "\<exists>k. Size k c t \<noteq> None" if "\<exists>k. Size (Suc k) c t \<noteq> None" using that by blast
    show ?case
    proof (rule done_, cases "t_FuncSig t \<noteq> None \<or> t_Indirection t > 0")
      case False
      show "\<exists>k. Size (Suc k) c t \<noteq> None"
      proof (cases "t_Element t")
        case None
        then show ?thesis using named False by (simp add: held.simps[of t])
      next
        case (Some e)
        show ?thesis
        proof (cases "t_ArraySize t > 0")
          case True
          then have "held e = held t" using Some False by (simp add: held.simps[of t])
          then obtain k where "Size k c e \<noteq> None" using type.IH[of e] type.prems size_parts(1)[OF Some] by metis
          then show ?thesis using Some True False by auto
        next
          case neg: False
          then show ?thesis using named Some False by (auto simp: held.simps[of t])
        qed
      qed
    qed auto
  qed
qed

section \<open>Properties\<close>

text \<open>Types, comparison: two types are the same exactly when they are equal up to the sign of scalars,
  which the name already tells, and the mark of several results, at every depth of elements, signatures
  and fields; in particular comparing is an equivalence.\<close>

theorem Same_iff: "Same t u \<longleftrightarrow> erase t = erase u"
  by (simp add: Same_def same_erase)


text \<open>A pointer, by its masks; the innermost level last.\<close>

definition pointer :: "nat \<Rightarrow> 64 word \<Rightarrow> 64 word \<Rightarrow> string \<Rightarrow> ASTType" where
  "pointer i mut nil n = ASTType n i 0 None False mut 0 nil None None False"


text \<open>Elements of nested arrays.\<close>

fun peel :: "nat \<Rightarrow> ASTType \<Rightarrow> ASTType option" where
  "peel 0 t = Some t"
| "peel (Suc k) t = (case t_Element t of None \<Rightarrow> None | Some e \<Rightarrow> peel k e)"

lemma same_intlit: "Same s intlitASTType \<Longrightarrow> t_Name s = ''<intlit>'' \<and> t_Element s = None"
  by (auto simp: Same_def SameExact.simps[of s] intlitASTType_def named_def)

lemma MutCompatible_peel:
  "MutCompatible a b \<Longrightarrow> peel k b = Some s \<Longrightarrow> \<exists>d. peel k a = Some d \<and> t_Name d = t_Name s"
proof (induction k arbitrary: a b)
  case 0
  then show ?case by (auto simp: MutCompatible.simps[of a b])
next
  case (Suc k)
  then obtain e where e: "t_Element b = Some e" "peel k e = Some s" by (auto split: option.splits)
  then obtain e' where "t_Element a = Some e'" "MutCompatible e' e"
    using Suc.prems(1)[unfolded MutCompatible.simps[of a b]] by (cases "t_Element a") auto
  then show ?case using Suc.IH e by auto
qed

text \<open>C26. Types, closed sets of values: an integer literal never becomes a member of a values type, be it
  the value itself or an element of an array literal at any depth; what is coerced at that place has
  another type.\<close>

theorem values_closed:
  assumes "snd (coerceType is_values dst src) = coerceOK" "\<not> is_values ''<intlit>''"
    and "peel k src = Some s" "Same s intlitASTType" "peel k dst = Some d"
    and "\<forall>j u. peel j src = Some u \<longrightarrow> t_Name u \<noteq> ''<nil>''"
  shows "\<not> is_values (t_Name d)"
  using assms(1,3,5,6)
proof (induction k arbitrary: dst src)
  case 0
  then show ?case using assms(4) by (auto simp: coerceType.simps[of is_values dst src] split: if_splits)
next
  case (Suc k)
  then obtain se de where e: "t_Element src = Some se" "peel k se = Some s" "t_Element dst = Some de" "peel k de = Some d"
    by (auto split: option.splits)
  have no: "\<not> Same src intlitASTType" using e(1) same_intlit by fastforce
  have nil: "t_Name src \<noteq> ''<nil>''" using Suc.prems(4) by (metis peel.simps(1))
  have sub: "\<forall>j u. peel j se = Some u \<longrightarrow> t_Name u \<noteq> ''<nil>''"
    using Suc.prems(4) e(1) by (metis option.simps(5) peel.simps(2))
  show ?case
  proof (cases "Accepts dst src")
    case True
    then have "MutCompatible dst src" using no nil by (auto simp: Accepts_value value_type_def)
    then obtain d' where "peel (Suc k) dst = Some d'" "t_Name d' = t_Name s" using MutCompatible_peel Suc.prems(2) by blast
    then show ?thesis using Suc.prems(3) same_intlit[OF assms(4)] assms(2) by simp
  next
    case False
    then have "snd (coerceType is_values de se) = coerceOK"
      using Suc.prems(1) no nil e by (subst (asm) coerceType.simps) (auto split: if_splits)
    then show ?thesis using Suc.IH e sub by blast
  qed
qed

theorem values_closed_witness:
  "snd (coerceType (\<lambda>n. n = ''color'') (ASTType [] 0 2 (Some (named ''i64'')) False 0 0 0 None None False)
     (ASTType [] 0 2 (Some intlitASTType) False 0 0 0 None None False)) = coerceOK \<and> ''i64'' \<noteq> ''color''"
proof -
  let ?dst = "ASTType [] 0 2 (Some (named ''i64'')) False 0 0 0 None None False"
  let ?src = "ASTType [] 0 2 (Some intlitASTType) False 0 0 0 None None False"
  have c: "snd (coerceType (\<lambda>n. n = ''color'') ?dst ?src) = coerceOK" by code_simp
  have nil: "\<forall>j u. peel j ?src = Some u \<longrightarrow> t_Name u \<noteq> ''<nil>''"
  proof (intro allI impI)
    fix j u assume "peel j ?src = Some u"
    then show "t_Name u \<noteq> ''<nil>''"
      by (cases j; cases "j - 1") (auto simp: intlitASTType_def named_def)
  qed
  have "\<not> (\<lambda>n. n = ''color'') (t_Name (named ''i64''))"
    by (rule values_closed[OF c _ _ _ _ nil, of "Suc 0" intlitASTType "named ''i64''"]) (simp_all, code_simp)
  then show ?thesis using c by (simp add: named_def)
qed

text \<open>C27. Sizes, termination: where no declaration holds itself in its own storage, directly or through
  aliases, arrays, values and fields, computing a size comes to an end with a size or an error, which more
  depth does not change.\<close>

theorem Size_terminates:
  assumes "acyclic_decls c"
  shows "\<exists>k r. \<forall>k' \<ge> k. Size k' c t = Some r"
proof -
  obtain r :: "string \<Rightarrow> nat" where r: "\<forall>n. \<forall>u \<in> decl_types c n. \<forall>m \<in> held u. r m < r n"
    using assms by (auto simp: acyclic_decls_def)
  have "finite (held t)"
  proof (induction t rule: type_induct)
    case (type t)
    then show ?case by (subst held.simps) (auto split: option.splits simp: size_parts size_parts_deep)
  qed
  then have "\<forall>m \<in> held t. r m < Suc (Max (r ` held t))" by (simp add: le_imp_less_Suc)
  from Size_ends[OF r this] obtain k x where "Size k c t = Some x" by blast
  then show ?thesis using Size_more by blast
qed

definition node_scope :: scope where
  "node_scope = \<lparr>c_pkgname = ''m'', c_structs = [''node'' \<mapsto> [\<lparr>bd_Name = ''val'', bd_Type = named ''i32''\<rparr>,
     \<lparr>bd_Name = ''next'', bd_Type = pointer 1 0 1 ''node''\<rparr>]], c_typeAliases = Map.empty, c_interfaceDecls = Map.empty,
     c_valuesDecls = Map.empty, c_typeMethods = Map.empty\<rparr>"

lemma node_declared: "decl_types [node_scope] n = (if n = ''node'' then {named ''i32'', pointer 1 0 1 ''node''} else {})"
  by (auto simp: decl_types_def node_scope_def TypeAliasFor_def ValuesDeclForName_def StructDeclForName_def)

theorem Size_terminates_witness:
  "acyclic_decls [node_scope] \<and> (\<exists>k. \<forall>k' \<ge> k. Size k' [node_scope] (named ''node'') = Some (Inr 12))"
proof -
  have "\<forall>n. \<forall>u \<in> decl_types [node_scope] n. \<forall>m \<in> held u. (if m = ''node'' then 1 else 0 :: nat) < (if n = ''node'' then 1 else 0)"
    by (simp add: node_declared held.simps named_def pointer_def)
  then have a: "acyclic_decls [node_scope]"
    unfolding acyclic_decls_def by (intro exI[of _ "\<lambda>n. if n = ''node'' then 1 else 0"])
  obtain k r where k: "\<forall>k' \<ge> k. Size k' [node_scope] (named ''node'') = Some r" using Size_terminates[OF a] by blast
  have "Size 2 [node_scope] (named ''node'') = Some (Inr 12)"
    by (simp add: numeral_2_eq_2 Size_named_def named_def pointer_def scalar_size_def node_scope_def TypeAliasFor_def
        InterfaceForName_def ValuesDeclForName_def StructDeclForName_def PTR_SIZE_def)
  then have "r = Inr 12" using k Size_more[of 2 "max k 2"] by (metis max.cobounded1 max.cobounded2 option.inject)
  then show ?thesis using a k by blast
qed

text \<open>Nothing looks for a declaration that holds itself; of such a type there is no size at any depth.\<close>

lemma Size_self:
  assumes "StructDeclForName c n = Some [\<lparr>bd_Name = f, bd_Type = named n\<rparr>]" "TypeAliasFor c n = None"
    "InterfaceForName c n = None" "ValuesDeclForName c n = None" "scalar_size n = None" "n \<noteq> ''<intlit>''"
  shows "Size k c (named n) = None"
  using assms by (induction k) (simp_all add: Size_named_def named_def)

subsection \<open>Layout of structs\<close>

lemma sum_sizes_values:
  "map sz fs = map (\<lambda>n. Some (Inr n)) ns \<Longrightarrow> sum_sizes (map sz fs) = Some (Inr (sum_list ns))"
  by (induction fs arbitrary: ns) auto

lemma unat_sum_list: "sum_list (map unat ns) < 2 ^ 64 \<Longrightarrow> unat (sum_list ns :: 64 word) = sum_list (map unat ns)"
proof (induction ns)
  case (Cons n ns)
  then have "unat (sum_list ns) = sum_list (map unat ns)" by simp
  with Cons.prems show ?case by (simp add: unat_word_ariths)
qed simp

lemma takeWhile_names:
  "distinct (map g fs) \<Longrightarrow> i < length fs \<Longrightarrow> takeWhile (\<lambda>f. g f \<noteq> g (fs ! i)) fs = take i fs \<and> List.find (\<lambda>f. g f = g (fs ! i)) fs = Some (fs ! i)"
proof (induction fs arbitrary: i)
  case (Cons f fs)
  then show ?case by (cases i) (auto simp: nth_mem)
qed simp

text \<open>Sizes, layout of a struct: the fields lie one after the other without gaps or overlaps and within
  the size of the struct, in the order of their declarations, when that size does not wrap.\<close>

theorem struct_layout:
  assumes "distinct (map bd_Name fs)" and sz: "map (\<lambda>f. Size k c (bd_Type f)) fs = map (\<lambda>n. Some (Inr n)) ns"
    and small: "sum_list (map unat ns) < 2 ^ 64" and "i < length fs"
  shows "\<exists>off. ByteOffset k c fs (bd_Name (fs ! i)) = Some (Inr (off, bd_Type (fs ! i))) \<and>
      unat off = (\<Sum>n \<leftarrow> take i ns. unat n) \<and>
      (\<exists>total. StructDecl_Size k c fs = Some (Inr total) \<and> unat off + unat (ns ! i) \<le> unat total)"
proof -
  note f = takeWhile_names[of bd_Name, OF assms(1,4)]
  have len: "length fs = length ns" using arg_cong[OF sz, of length] by simp
  have "map (\<lambda>f. Size k c (bd_Type f)) (take i fs) = map (\<lambda>n. Some (Inr n)) (take i ns)"
    using arg_cong[OF sz, of "take i"] by (simp add: take_map)
  note off = sum_sizes_values[OF this]
  have split: "sum_list (map unat ns) = (\<Sum>n \<leftarrow> take i ns. unat n) + unat (ns ! i) + (\<Sum>n \<leftarrow> drop (Suc i) ns. unat n)"
    using assms(4) len id_take_nth_drop[of i ns] by (metis add.assoc list.simps(9) map_append sum_list.Cons sum_list.append)
  have "unat (sum_list (take i ns)) = (\<Sum>n \<leftarrow> take i ns. unat n)" using split small by (intro unat_sum_list) simp
  moreover have "unat (sum_list ns) = sum_list (map unat ns)" using small by (rule unat_sum_list)
  ultimately show ?thesis
    using f off sum_sizes_values[OF sz] split by (simp add: ByteOffset_def StructDecl_Size_def)
qed

theorem struct_layout_witness:
  "\<exists>off. ByteOffset 1 [] [\<lparr>bd_Name = ''a'', bd_Type = named ''u8''\<rparr>, \<lparr>bd_Name = ''b'', bd_Type = named ''i64''\<rparr>] ''b'' =
     Some (Inr (off, named ''i64'')) \<and> unat off = 1"
proof -
  let ?fs = "[\<lparr>bd_Name = ''a'', bd_Type = named ''u8''\<rparr>, \<lparr>bd_Name = ''b'', bd_Type = named ''i64''\<rparr>]"
  have "map (\<lambda>f. Size 1 [] (bd_Type f)) ?fs = map (\<lambda>n. Some (Inr n)) [1, 8]"
    by (simp add: named_def Size_named_def scalar_size_def)
  from struct_layout[OF _ this, of 1] show ?thesis by fastforce
qed

section \<open>Where the code and its comments part\<close>

text \<open>Signatures are not compared when nothing is owned: a function of any signature is accepted.\<close>

definition fn_type :: "ASTType list \<Rightarrow> ASTType \<Rightarrow> ASTType" where
  "fn_type as r = ASTType [] 0 0 None False 0 0 0 (Some (FuncSig as r)) None False"

lemma Accepts_any_signature:
  "\<not> HasOwned (fn_type as r) \<Longrightarrow> Accepts (fn_type as r) (fn_type as' r')"
  by (subst (asm) fn_type_def, auto simp: Accepts_def Let_def MutCompatible_strip NilCompatible_strip fn_type_def
      MutCompatible.simps[of "ASTType [] 0 0 None False 0 0 0 g None False" for g]
      NilCompatible.simps[of "ASTType [] 0 0 None False 0 0 0 g None False" for g])

text \<open>Rights are compared level by level also below a level that can be written: a pointer to a writable
  place for a \<open>*T\<close> may point to a place for a \<open>*mut T\<close>, and one for \<open>*?T\<close> to one for \<open>*T\<close>.\<close>

lemma Accepts_covariant:
  "Accepts (pointer 2 2 0 ''T'') (pointer 2 6 0 ''T'')"
  "Accepts (pointer 2 2 2 ''T'') (pointer 2 2 0 ''T'')"
  by code_simp+

text \<open>A literal is accepted for any type, pointers and structs included.\<close>

lemma coerceType_literal: "\<not> is_values (t_Name dst) \<Longrightarrow> coerceType is_values dst intlitASTType = (dst, coerceOK)"
  by (simp add: coerceType.simps Same_def same_erase)

text \<open>The text of a slice behind a pointer has the write mark of the pointer, and not its own.\<close>

definition slice_behind :: "64 word \<Rightarrow> ASTType" where
  "slice_behind m = ASTType [] 1 0 (Some (named ''T'')) False m 0 0 None None False"

lemma text_of_slice_behind:
  "type_String (slice_behind 0) = ''*(T[])''" "type_String (slice_behind 4) = ''*(T[])''"
  "type_String (slice_behind 2) = ''*mut (mut T[])''"
  by (simp_all add: type_String.simps slice_behind_def named_def levels_text_def flag_def IsArray_def bit_word_iff_drop_bit_and
      drop_bit_eq_div)

text \<open>That an interface may be nil is not in the text of its type.\<close>

lemma text_of_nullable: "type_String (ASTType n 0 0 None sg 0 0 nil None None mr) = n"
  by (simp add: type_String.simps levels_text_def flag_def)

end
