(* ===== verification/Shape.thy ===== *)
theory Shape
  imports TypeProps
begin

text \<open>
  Shape words (\<open>cmd/bosc/shape.go\<close>): the pointer, slice and array levels of a type as a stack and as one
  64 bit word, and the receivers a value of a shape can call.
\<close>

section \<open>The stack of a type\<close>

definition shapeKindPtr :: nat where "shapeKindPtr = 1"
definition shapeKindMutPtr :: nat where "shapeKindMutPtr = 2"
definition shapeKindSlice :: nat where "shapeKindSlice = 3"
definition shapeKindMutSli :: nat where "shapeKindMutSli = 4"
definition shapeKindArray :: nat where "shapeKindArray = 5"
definition shapeKindNullPtr :: nat where "shapeKindNullPtr = 6"
definition shapeKindNullMut :: nat where "shapeKindNullMut = 7"

lemmas shape_kinds = shapeKindPtr_def shapeKindMutPtr_def shapeKindSlice_def shapeKindMutSli_def shapeKindArray_def
  shapeKindNullPtr_def shapeKindNullMut_def

definition shapeCountBits :: nat where "shapeCountBits = 4"
definition shapeKindBits :: nat where "shapeKindBits = 3"
definition shapeArrayLenBits :: nat where "shapeArrayLenBits = 13"
definition shapeArrayLenMax :: int where "shapeArrayLenMax = 2 ^ shapeArrayLenBits - 1"
definition shapeTotalBits :: nat where "shapeTotalBits = 64"
definition maxShapeLevels :: nat where "maxShapeLevels = (shapeTotalBits - shapeCountBits) div shapeKindBits"

lemmas shape_bits = shapeCountBits_def shapeKindBits_def shapeArrayLenBits_def shapeArrayLenMax_def shapeTotalBits_def
  maxShapeLevels_def

record shapeLevel =
  sl_kind :: nat
  sl_arrayLen :: int

datatype shape_err = ArrayTooLong int | TooManyLevels nat | NoFit

definition level :: "nat \<Rightarrow> shapeLevel" where
  "level k = \<lparr>sl_kind = k, sl_arrayLen = 0\<rparr>"

definition ptr_kind :: "ASTType \<Rightarrow> nat \<Rightarrow> nat" where
  "ptr_kind t i = (if bit (t_NilMask t) i \<and> bit (t_MutMask t) (i + 1) then shapeKindNullMut
     else if bit (t_NilMask t) i then shapeKindNullPtr
     else if bit (t_MutMask t) (i + 1) then shapeKindMutPtr
     else shapeKindPtr)"

text \<open>The list \<open>outer\<close> the loop builds.\<close>

fun outer_levels :: "ASTType \<Rightarrow> shape_err + shapeLevel list" where
  "outer_levels t =
     (let ptrs = map (\<lambda>i. level (ptr_kind t i)) (rev [0 ..< t_Indirection t]) in
      case t_Element t of
        None \<Rightarrow> Inr ptrs
      | Some e \<Rightarrow>
          if IsArray t then
            (if t_ArraySize t > shapeArrayLenMax then Inl (ArrayTooLong (t_ArraySize t))
             else rbind (outer_levels e) (\<lambda>ls. Inr (ptrs @ \<lparr>sl_kind = shapeKindArray, sl_arrayLen = t_ArraySize t\<rparr> # ls)))
          else
            (let k = (if bit (t_MutMask t) (t_Indirection t + 1) then shapeKindMutSli else shapeKindSlice) in
             rbind (outer_levels e) (\<lambda>ls. Inr (ptrs @ level k # ls))))"

declare outer_levels.simps [simp del]

definition shapeStackFor :: "ASTType \<Rightarrow> shape_err + shapeLevel list" where
  "shapeStackFor t = rbind (outer_levels (StripOwned t)) (\<lambda>outer.
     if length outer > maxShapeLevels then Inl (TooManyLevels (length outer)) else Inr (rev outer))"

section \<open>The word\<close>

text \<open>The closure \<open>put\<close>: the word and the cursor.\<close>

definition put_bits :: "64 word \<Rightarrow> nat \<Rightarrow> 64 word \<times> nat \<Rightarrow> shape_err + (64 word \<times> nat)" where
  "put_bits v n wc = (case wc of (w, cur) \<Rightarrow>
     if cur + n > shapeTotalBits then Inl NoFit
     else Inr (or w (push_bit cur (and v (mask n))), cur + n))"

fun put_levels :: "shapeLevel list \<Rightarrow> 64 word \<times> nat \<Rightarrow> shape_err + (64 word \<times> nat)" where
  "put_levels [] wc = Inr wc"
| "put_levels (l # ls) wc =
     rbind (put_bits (of_nat (sl_kind l)) shapeKindBits wc) (\<lambda>wc.
     rbind (if sl_kind l = shapeKindArray then put_bits (word_of_int (sl_arrayLen l)) shapeArrayLenBits wc else Inr wc)
       (put_levels ls))"

definition shapeWordFor :: "ASTType \<Rightarrow> shape_err + 64 word" where
  "shapeWordFor t = rbind (shapeStackFor t) (\<lambda>levels.
     map_sum id fst (put_levels levels (and (of_nat (length levels)) (mask shapeCountBits), shapeCountBits)))"

definition shapeBaseName :: "ASTType \<Rightarrow> string" where
  "shapeBaseName t = t_Name (BaseType (StripOwned t))"

definition level_text :: "shapeLevel \<Rightarrow> string" where
  "level_text l = (let k = sl_kind l in
     if k = shapeKindPtr then ''p'' else if k = shapeKindMutPtr then ''pm'' else if k = shapeKindNullPtr then ''pn''
     else if k = shapeKindNullMut then ''pnm'' else if k = shapeKindSlice then ''s'' else if k = shapeKindMutSli then ''sm''
     else if k = shapeKindArray then ''a'' @ int_text (sl_arrayLen l) else [])"

definition shapeMangle :: "shapeLevel list \<Rightarrow> string" where
  "shapeMangle levels = (if levels = [] then ''v'' else concat (map level_text levels))"

section \<open>Receivers\<close>

definition recvShapeValue :: nat where "recvShapeValue = 0"
definition recvShapePtr :: nat where "recvShapePtr = 1"
definition recvShapeMutPtr :: nat where "recvShapeMutPtr = 2"
definition recvShapeNone :: nat where "recvShapeNone = 0xFF"



definition receiverShapeOf :: "ASTType \<Rightarrow> nat" where
  "receiverShapeOf recv = (let recv = StripOwned recv in
     if t_Indirection recv = 0 then recvShapeValue
     else if t_Indirection recv = 1 then (if bit (t_MutMask recv) 1 then recvShapeMutPtr else recvShapePtr)
     else recvShapeNone)"

definition receiverSatisfies :: "nat \<Rightarrow> nat \<Rightarrow> bool" where
  "receiverSatisfies methodRecv expected \<longleftrightarrow>
     (if expected = recvShapeNone \<or> methodRecv = recvShapeNone then False
      else if expected = recvShapeValue then methodRecv = recvShapeValue
      else if expected = recvShapePtr then methodRecv = recvShapePtr
      else if expected = recvShapeMutPtr then methodRecv = recvShapePtr \<or> methodRecv = recvShapeMutPtr
      else False)"

section \<open>Satisfying an interface\<close>

text \<open>\<open>slotDeclaresParam\<close>, \<open>methodAliasesSatisfy\<close> and \<open>aliasSetSubset\<close>; what a method's results may borrow is
  taken from its declaration, as for a function whose inference has run.\<close>

definition slotDeclaresParam :: "int list list \<Rightarrow> nat \<Rightarrow> int \<Rightarrow> bool" where
  "slotDeclaresParam decl sn p \<longleftrightarrow> sn < length decl \<and> p \<in> set (decl ! sn)"

definition aliasSetSubset :: "int list list \<Rightarrow> int list list \<Rightarrow> bool" where
  "aliasSetSubset sub super \<longleftrightarrow>
     list_all (\<lambda>sn. list_all (slotDeclaresParam super sn) (sub ! sn)) [0 ..< length sub]"

definition methodAliasesSatisfy :: "FuncDecl \<Rightarrow> int list list \<Rightarrow> bool" where
  "methodAliasesSatisfy m decl = aliasSetSubset (fd_ReturnAliases m) decl"

definition method_fits :: "nat \<Rightarrow> InterfaceMethodSig \<Rightarrow> FuncDecl \<Rightarrow> bool" where
  "method_fits expectedRecv isig m \<longleftrightarrow> fd_Name m = ms_Name isig \<and> fd_Args m \<noteq> [] \<and> ms_Params isig \<noteq> [] \<and>
     receiverSatisfies (receiverShapeOf (bd_Type (hd (fd_Args m)))) expectedRecv \<and>
     length (fd_Args m) = length (ms_Params isig) \<and>
     list_all2 (\<lambda>x y. Same (bd_Type x) (bd_Type y)) (tl (fd_Args m)) (tl (ms_Params isig)) \<and>
     Same (fd_Return m) (ms_Return isig) \<and> methodAliasesSatisfy m (ms_ReturnAliases isig)"

text \<open>No interface at all is \<open>None\<close>.\<close>

definition TypeSatisfiesInterfaceAs :: "Context \<Rightarrow> string \<Rightarrow> InterfaceDecl option \<Rightarrow> nat \<Rightarrow> bool" where
  "TypeSatisfiesInterfaceAs c n iface expectedRecv = (case iface of
      None \<Rightarrow> True
    | Some d \<Rightarrow>
        if id_Methods d = [] then True
        else if expectedRecv = recvShapeNone then False
        else (case TypeMethodsFor c n of
            None \<Rightarrow> False
          | Some ms \<Rightarrow> list_all (\<lambda>isig. list_ex (method_fits expectedRecv isig) ms) (id_Methods d)))"

definition interfaceIsPointerShape :: "InterfaceDecl \<Rightarrow> bool" where
  "interfaceIsPointerShape d = (case List.find (\<lambda>m. ms_Params m \<noteq> []) (id_Methods d) of
      None \<Rightarrow> False
    | Some m \<Rightarrow> t_Indirection (bd_Type (hd (ms_Params m))) > 0)"

definition TypeSatisfiesInterface :: "Context \<Rightarrow> string \<Rightarrow> InterfaceDecl \<Rightarrow> bool" where
  "TypeSatisfiesInterface c n d =
     TypeSatisfiesInterfaceAs c n (Some d) (if interfaceIsPointerShape d then recvShapePtr else recvShapeValue)"

section \<open>The word determines the stack\<close>

lemma put_bits_value:
  assumes "put_bits v n (w, cur) = Inr (w', cur')" "unat w < 2 ^ cur" "unat v < 2 ^ n"
  shows "cur' = cur + n \<and> unat w' = unat w + 2 ^ cur * unat v \<and> unat w' < 2 ^ cur'"
proof -
  have c: "cur + n \<le> 64" "cur' = cur + n" "w' = or w (push_bit cur (and v (mask n)))"
    using assms(1) by (auto simp: put_bits_def shapeTotalBits_def split: if_splits)
  have "take_bit n v = v" using assms(3) by (simp add: word_unat_eq_iff unsigned_take_bit_eq take_bit_nat_eq_self)
  then have v: "and v (mask n) = v" by (simp add: take_bit_eq_mask)
  have prod: "2 ^ cur * unat v + unat w < 2 ^ (cur + n)"
  proof -
    have "2 ^ cur * unat v + unat w < 2 ^ cur * Suc (unat v)" using assms(2) by simp
    also have "\<dots> \<le> 2 ^ cur * 2 ^ n" using assms(3) by (intro mult_le_mono) auto
    finally show ?thesis by (simp add: power_add)
  qed
  also have "\<dots> \<le> (2 :: nat) ^ 64" using c(1) by (intro power_increasing) auto
  finally have fits: "2 ^ cur * unat v + unat w < 2 ^ 64" .
  have p: "unat (push_bit cur v) = 2 ^ cur * unat v"
    using fits by (subst unsigned_push_bit_eq) (simp add: push_bit_eq_mult take_bit_nat_eq_self mult.commute)
  have "take_bit cur w = w" using assms(2) by (simp add: word_unat_eq_iff unsigned_take_bit_eq take_bit_nat_eq_self)
  then have low: "bit w i \<Longrightarrow> i < cur" for i by (metis bit_take_bit_iff)
  have "and w (push_bit cur v) = 0"
    by (rule bit_eqI) (auto simp: bit_and_iff bit_push_bit_iff dest: low)
  then have "w' = w + push_bit cur v" using c(3) v by (simp add: disjunctive_add_eq_or)
  then have "unat w' = (unat w + 2 ^ cur * unat v) mod 2 ^ 64" using unat_word_ariths(1)[of w "push_bit cur v"] p by simp
  then have "unat w' = unat w + 2 ^ cur * unat v" using fits by simp
  then show ?thesis using c(2) prod by simp
qed

text \<open>A level of a stack, and the number the levels make.\<close>

definition level_ok :: "shapeLevel \<Rightarrow> bool" where
  "level_ok l \<longleftrightarrow> 1 \<le> sl_kind l \<and> sl_kind l < 8 \<and> 0 \<le> sl_arrayLen l \<and> sl_arrayLen l < 2 ^ 13 \<and>
     (sl_kind l \<noteq> shapeKindArray \<longrightarrow> sl_arrayLen l = 0)"

fun levels_number :: "shapeLevel list \<Rightarrow> nat" where
  "levels_number [] = 0"
| "levels_number (l # ls) = sl_kind l + 8 *
     (if sl_kind l = shapeKindArray then nat (sl_arrayLen l) + 2 ^ 13 * levels_number ls else levels_number ls)"

lemma put_levels_value:
  "put_levels ls (w, cur) = Inr (w', cur') \<Longrightarrow> \<forall>l \<in> set ls. level_ok l \<Longrightarrow> unat w < 2 ^ cur \<Longrightarrow>
   unat w' = unat w + 2 ^ cur * levels_number ls"
proof (induction ls arbitrary: w cur)
  case (Cons l ls)
  have ok: "level_ok l" using Cons.prems(2) by simp
  obtain w1 c1 where 1: "put_bits (of_nat (sl_kind l)) 3 (w, cur) = Inr (w1, c1)"
    and rest: "rbind (if sl_kind l = shapeKindArray then put_bits (word_of_int (sl_arrayLen l)) 13 (w1, c1) else Inr (w1, c1))
       (put_levels ls) = Inr (w', cur')"
    using Cons.prems(1) unfolding put_levels.simps shape_bits by (cases "put_bits (of_nat (sl_kind l)) 3 (w, cur)") auto
  have k: "unat (of_nat (sl_kind l) :: 64 word) = sl_kind l" using ok by (simp add: level_ok_def unat_of_nat take_bit_nat_eq_self)
  have v1: "c1 = cur + 3" "unat w1 = unat w + 2 ^ cur * sl_kind l" "unat w1 < 2 ^ c1"
    using put_bits_value[OF 1 Cons.prems(3)] k ok by (auto simp: level_ok_def)
  show ?case
  proof (cases "sl_kind l = shapeKindArray")
    case True
    then obtain w2 c2 where 2: "put_bits (word_of_int (sl_arrayLen l)) 13 (w1, c1) = Inr (w2, c2)"
      "put_levels ls (w2, c2) = Inr (w', cur')" using rest by (auto simp: rbind_eq_Inr)
    have a: "unat (word_of_int (sl_arrayLen l) :: 64 word) = nat (sl_arrayLen l)"
      using ok by (simp add: level_ok_def unsigned_of_int take_bit_int_eq_self)
    have v2: "c2 = c1 + 13" "unat w2 = unat w1 + 2 ^ c1 * nat (sl_arrayLen l)" "unat w2 < 2 ^ c2"
      using put_bits_value[OF 2(1) v1(3)] a ok by (auto simp: level_ok_def nat_less_iff)
    have "unat w' = unat w2 + 2 ^ c2 * levels_number ls" using Cons.IH[OF 2(2) _ v2(3)] Cons.prems(2) by simp
    then show ?thesis using True v1 v2 by (simp add: power_add algebra_simps)
  next
    case False
    then have "put_levels ls (w1, c1) = Inr (w', cur')" using rest by simp
    then have "unat w' = unat w1 + 2 ^ c1 * levels_number ls" using Cons.IH[OF _ _ v1(3)] Cons.prems(2) by simp
    then show ?thesis using False v1 by (simp add: power_add algebra_simps)
  qed
qed simp

lemma levels_number_inj:
  "\<forall>l \<in> set ls. level_ok l \<Longrightarrow> \<forall>l \<in> set ms. level_ok l \<Longrightarrow> levels_number ls = levels_number ms \<Longrightarrow> ls = ms"
proof (induction ls arbitrary: ms)
  case Nil
  then show ?case by (cases ms) (auto simp: level_ok_def)
next
  case (Cons l ls)
  then obtain m ms' where ms: "ms = m # ms'" by (cases ms) (auto simp: level_ok_def)
  have ok: "level_ok l" "level_ok m" using Cons.prems ms by auto
  let ?rest = "\<lambda>l ls. if sl_kind l = shapeKindArray then nat (sl_arrayLen l) + 2 ^ 13 * levels_number ls else levels_number ls"
  have eq: "sl_kind l + 8 * ?rest l ls = sl_kind m + 8 * ?rest m ms'" using Cons.prems(3) ms by simp
  then have "(sl_kind l + 8 * ?rest l ls) mod 8 = (sl_kind m + 8 * ?rest m ms') mod 8" by simp
  then have k: "sl_kind l = sl_kind m" using ok by (simp add: level_ok_def)
  then have r: "?rest l ls = ?rest m ms'" using eq by simp
  have "sl_arrayLen l = sl_arrayLen m \<and> levels_number ls = levels_number ms'"
  proof (cases "sl_kind l = shapeKindArray")
    case True
    then have e: "nat (sl_arrayLen l) + 2 ^ 13 * levels_number ls = nat (sl_arrayLen m) + 2 ^ 13 * levels_number ms'"
      using r k by simp
    then have "(nat (sl_arrayLen l) + 2 ^ 13 * levels_number ls) mod 2 ^ 13 = (nat (sl_arrayLen m) + 2 ^ 13 * levels_number ms') mod 2 ^ 13"
      by simp
    then have "nat (sl_arrayLen l) = nat (sl_arrayLen m)" using ok by (simp add: level_ok_def nat_less_iff)
    then show ?thesis using e ok by (simp add: level_ok_def eq_nat_nat_iff)
  next
    case False
    then show ?thesis using r k ok by (simp add: level_ok_def)
  qed
  then show ?case using Cons.IH[of ms'] Cons.prems k ms by (cases l; cases m) simp
qed


lemma outer_levels_ok: "outer_levels t = Inr ls \<Longrightarrow> l \<in> set ls \<Longrightarrow> level_ok l"
proof (induction t arbitrary: ls rule: type_induct)
  case (type t)
  have p: "level_ok (level (ptr_kind t i))" for i by (simp add: level_ok_def level_def ptr_kind_def shape_kinds)
  show ?case
  proof (cases "t_Element t")
    case None
    then show ?thesis using type.prems p by (auto simp: outer_levels.simps[of t])
  next
    case (Some e)
    have "level_ok \<lparr>sl_kind = shapeKindArray, sl_arrayLen = t_ArraySize t\<rparr>" if "IsArray t" "t_ArraySize t \<le> shapeArrayLenMax"
      using that by (simp add: level_ok_def shape_kinds IsArray_def shape_bits)
    moreover have "level_ok (level k)" if "k = shapeKindMutSli \<or> k = shapeKindSlice" for k
      using that by (auto simp: level_ok_def level_def shape_kinds)
    ultimately show ?thesis
      using type.prems type.IH[OF size_parts(1)[OF Some]] p Some
      by (auto simp: outer_levels.simps[of t] rbind_eq_Inr Let_def split: if_splits)
  qed
qed

lemma shapeWordFor_value:
  assumes "shapeWordFor t = Inr w"
  shows "\<exists>ls. shapeStackFor t = Inr ls \<and> (\<forall>l \<in> set ls. level_ok l) \<and> unat w = length ls mod 16 + 16 * levels_number ls"
proof -
  obtain ls w0 cur where ls: "shapeStackFor t = Inr ls"
    and put: "put_levels ls (and (of_nat (length ls)) (mask 4), 4) = Inr (w0, cur)" "w = w0"
    using assms by (auto simp: shapeWordFor_def rbind_eq_Inr map_sum_Inr shape_bits)
  have ok: "\<forall>l \<in> set ls. level_ok l"
    using ls outer_levels_ok by (fastforce simp: shapeStackFor_def rbind_eq_Inr split: if_splits)
  have short: "length ls \<le> 20" using ls by (auto simp: shapeStackFor_def rbind_eq_Inr shape_bits split: if_splits)
  have cnt: "unat (and (of_nat (length ls)) (mask 4) :: 64 word) = length ls mod 16"
    using short by (simp flip: take_bit_eq_mask add: unsigned_take_bit_eq unat_of_nat take_bit_nat_eq_self) (simp add: take_bit_eq_mod)
  have "unat w0 = length ls mod 16 + 2 ^ 4 * levels_number ls"
    using put_levels_value[OF put(1) ok] cnt by simp
  then show ?thesis using ls ok put(2) by simp
qed

text \<open>C28. Shape words, no collisions: two types with the same word have the same stack of pointer, slice
  and array levels, lengths and rights included, although the levels have fields of different widths and
  the count of the levels has four bits for up to twenty of them.\<close>

theorem shape_word_determines:
  assumes "shapeWordFor t = Inr w" "shapeWordFor u = Inr w"
  shows "shapeStackFor t = shapeStackFor u"
proof -
  obtain ls where ls: "shapeStackFor t = Inr ls" "\<forall>l \<in> set ls. level_ok l" "unat w = length ls mod 16 + 16 * levels_number ls"
    using shapeWordFor_value[OF assms(1)] by blast
  obtain ms where ms: "shapeStackFor u = Inr ms" "\<forall>l \<in> set ms. level_ok l" "unat w = length ms mod 16 + 16 * levels_number ms"
    using shapeWordFor_value[OF assms(2)] by blast
  have "levels_number ls = unat w div 16" "levels_number ms = unat w div 16" using ls(3) ms(3) by simp_all
  then have "ls = ms" using levels_number_inj[OF ls(2) ms(2)] by simp
  then show ?thesis using ls(1) ms(1) by simp
qed

theorem shape_word_determines_witness:
  "\<exists>w. shapeWordFor (pointer 1 2 0 ''A'') = Inr w \<and> shapeWordFor (pointer 1 2 0 ''B'') = Inr w \<and>
     shapeStackFor (pointer 1 2 0 ''A'') = shapeStackFor (pointer 1 2 0 ''B'')"
proof -
  have a: "shapeWordFor (pointer 1 2 0 ''A'') = Inr 33" by code_simp
  have b: "shapeWordFor (pointer 1 2 0 ''B'') = Inr 33" by code_simp
  show ?thesis using a b shape_word_determines[OF a b] by blast
qed

text \<open>The field for the count has four bits, for up to twenty levels: a pointer of seventeen levels has the
  count 1 and the first level of a plain pointer.\<close>

lemma shape_count_wraps:
  "shapeWordFor (pointer 17 0 0 ''T'') = Inr w \<Longrightarrow> and w 0x7F = and 0x11 0x7F"
proof -
  assume w: "shapeWordFor (pointer 17 0 0 ''T'') = Inr w"
  have "shapeWordFor (pointer 17 0 0 ''T'') = Inr 5146971002709137" by code_simp
  with w show ?thesis by simp
qed

text \<open>The levels of pointers are pushed from the inside, so they end up with the outermost first.\<close>

lemma shape_order: "shapeStackFor (pointer 2 2 0 ''T'') = Inr [level shapeKindMutPtr, level shapeKindPtr]"
  by code_simp

section \<open>Receivers and interfaces\<close>



end
