(* ===== verification/Emit.thy ===== *)
theory Emit
  imports Shape BasOutput
begin

text \<open>
  What the compiler writes for the assembler: descriptors of types and interfaces with the hashes by which
  the run time finds methods (\<open>cmd/bosc/typeinfo.go\<close>), tables of methods (\<open>Context.WriteVtables\<close>) and
  variables with their bytes and relocations (\<open>cmd/bosc/globals.go\<close>).  A text is the list of its lines,
  each ended by a newline where it is written.
\<close>

section \<open>Hashes and signatures\<close>

definition fnvOffset64 :: "64 word" where "fnvOffset64 = 1469598103934665603"
definition fnvPrime64 :: "64 word" where "fnvPrime64 = 1099511628211"

definition fnv1a64 :: "string \<Rightarrow> 64 word" where
  "fnv1a64 s = foldl (\<lambda>h c. (xor h (of_char c)) * fnvPrime64) fnvOffset64 s"

definition universal_names :: "string list" where
  "universal_names = [''i8'', ''i16'', ''i32'', ''i64'', ''u8'', ''u16'', ''u32'', ''u64'', ''byte'', ''bool'', ''void'',
     ''self'', ''any'', ''error'', ''built_error'']"

definition canonicalTypeName :: "Context \<Rightarrow> string \<Rightarrow> string" where
  "canonicalTypeName c n =
     (if n = [] \<or> CHR ''.'' \<in> set n then n
      else if n \<in> set universal_names then n
      else if c = [] then n
      else Pkgname c @ ''.'' @ n)"

fun set_Name :: "string \<Rightarrow> ASTType \<Rightarrow> ASTType" where
  "set_Name n' (ASTType n i a e sg m ow nl g fs mr) = ASTType n' i a e sg m ow nl g fs mr"

fun set_Element :: "ASTType \<Rightarrow> ASTType \<Rightarrow> ASTType" where
  "set_Element e' (ASTType n i a e sg m ow nl g fs mr) = ASTType n i a (Some e') sg m ow nl g fs mr"

fun canonicalTypeStringElem :: "Context \<Rightarrow> ASTType \<Rightarrow> ASTType" where
  "canonicalTypeStringElem c t = (case t_Element t of
      Some e \<Rightarrow> set_Element (canonicalTypeStringElem c e) t
    | None \<Rightarrow> if t_Name t \<noteq> [] then set_Name (canonicalTypeName c (t_Name t)) t else t)"

declare canonicalTypeStringElem.simps [simp del]

definition canonicalTypeString :: "Context \<Rightarrow> ASTType \<Rightarrow> string" where
  "canonicalTypeString c t =
     (if t_Name t \<noteq> [] \<and> t_AnonFields t = None \<and> t_FuncSig t = None
      then type_String (set_Name (canonicalTypeName c (t_Name t)) t)
      else case t_Element t of
        Some e \<Rightarrow> type_String (set_Element (canonicalTypeStringElem c e) t)
      | None \<Rightarrow> type_String t)"

definition canonicalSig :: "Context \<Rightarrow> Binding list \<Rightarrow> ASTType \<Rightarrow> string" where
  "canonicalSig c params ret =
     ''('' @ comma_list (map (\<lambda>p. canonicalTypeString c (bd_Type p)) params) @ '')->'' @ canonicalTypeString c ret"

section \<open>Masks\<close>

record methodEntry =
  me_name :: string
  me_sig :: string
  me_nameHash :: "64 word"
  me_sigHash :: "64 word"
  me_recvShape :: nat
  me_fnReloc :: string
  me_masks :: "64 word list"

record reqEntry =
  re_name :: string
  re_sig :: string
  re_nameHash :: "64 word"
  re_sigHash :: "64 word"
  re_declIdx :: nat
  re_masks :: "64 word list"

definition borrowMaskBound :: int where
  "borrowMaskBound = 64"

text \<open>A parameter without a bit is a panic with an error of the compiler: \<open>Inl\<close> the index.\<close>

fun slot_mask :: "int list \<Rightarrow> int + 64 word" where
  "slot_mask [] = Inr 0"
| "slot_mask (p # ps) = (if p < 0 \<or> p \<ge> borrowMaskBound then Inl p
     else rbind (slot_mask ps) (\<lambda>m. Inr (or (push_bit (nat p) 1) m)))"

fun slot_masks :: "int list list \<Rightarrow> int + 64 word list" where
  "slot_masks [] = Inr []"
| "slot_masks (ps # as) = rbind (slot_mask ps) (\<lambda>m. rbind (slot_masks as) (\<lambda>ms. Inr (m # ms)))"

definition slotBitmasksFromAliases :: "int list list \<Rightarrow> int + 64 word list" where
  "slotBitmasksFromAliases aliases =
     rbind (slot_masks aliases) (\<lambda>ms. Inr (if list_ex (\<lambda>m. m \<noteq> 0) ms then ms else []))"

definition borrowMasksFor :: "FuncDecl \<Rightarrow> int + 64 word list" where
  "borrowMasksFor m = slotBitmasksFromAliases (fd_ReturnAliases m)"

fun formatMaskTokens :: "64 word list \<Rightarrow> string" where
  "formatMaskTokens [] = []"
| "formatMaskTokens (m # ms) = '' '' @ decimal (unat m) @ formatMaskTokens ms"

section \<open>Rows of the tables\<close>

text \<open>Methods without a receiver are skipped.\<close>

fun method_rows :: "Context \<Rightarrow> string \<Rightarrow> string \<Rightarrow> FuncDecl list \<Rightarrow> int + methodEntry list" where
  "method_rows c tn pkg [] = Inr []"
| "method_rows c tn pkg (m # ms) =
     (if fd_Args m = [] then method_rows c tn pkg ms
      else rbind (borrowMasksFor m) (\<lambda>masks.
        let sg = canonicalSig c (tl (fd_Args m)) (fd_Return m) in
        rbind (method_rows c tn pkg ms) (\<lambda>rows. Inr (
          \<lparr>me_name = fd_Name m, me_sig = sg, me_nameHash = fnv1a64 (fd_Name m), me_sigHash = fnv1a64 sg,
           me_recvShape = receiverShapeOf (bd_Type (hd (fd_Args m))),
           me_fnReloc = pkg @ ''.'' @ tn @ ''.'' @ fd_Name m, me_masks = masks\<rparr> # rows))))"

definition methodEntriesForType :: "Context \<Rightarrow> string \<Rightarrow> string \<Rightarrow> int + methodEntry list" where
  "methodEntriesForType c tn pkg = (case TypeMethodsFor c tn of None \<Rightarrow> Inr [] | Some ms \<Rightarrow> method_rows c tn pkg ms)"

fun req_rows :: "Context \<Rightarrow> nat \<Rightarrow> InterfaceMethodSig list \<Rightarrow> int + reqEntry list" where
  "req_rows c i [] = Inr []"
| "req_rows c i (m # ms) =
     (let sg = canonicalSig c (tl (ms_Params m)) (ms_Return m) in
      rbind (slotBitmasksFromAliases (ms_ReturnAliases m)) (\<lambda>masks.
      rbind (req_rows c (Suc i) ms) (\<lambda>rows. Inr (
        \<lparr>re_name = ms_Name m, re_sig = sg, re_nameHash = fnv1a64 (ms_Name m), re_sigHash = fnv1a64 sg,
         re_declIdx = i, re_masks = masks\<rparr> # rows))))"

definition reqEntriesForInterface :: "Context \<Rightarrow> InterfaceDecl \<Rightarrow> int + reqEntry list" where
  "reqEntriesForInterface c d = req_rows c 0 (id_Methods d)"

section \<open>Directives\<close>

definition pubPrefix :: "bool \<Rightarrow> string" where
  "pubPrefix pub = flag pub ''pub ''"

definition undot :: "string \<Rightarrow> string" where
  "undot = map (\<lambda>c. if c = CHR ''.'' then CHR ''_'' else c)"

definition typedescSymbolName :: "string \<Rightarrow> string" where
  "typedescSymbolName n = ''__typedesc_'' @ undot n"

definition typedescDirectiveName :: "string \<Rightarrow> string" where
  "typedescDirectiveName = typedescSymbolName"

definition typedescCacheName :: "string \<Rightarrow> string" where
  "typedescCacheName n = ''__typedesc_cache_'' @ undot n"

definition ifaceDescName :: "string \<Rightarrow> string" where
  "ifaceDescName n = ''__iface_desc_'' @ undot n"

definition basQuoteSig :: "string \<Rightarrow> string" where
  "basQuoteSig = map (\<lambda>c. if c = CHR '' '' then CHR 0x1F else c)"

definition quoted :: "string \<Rightarrow> string" where
  "quoted s = CHR 0x22 # s @ [CHR 0x22]"

text \<open>\<open>sort.Slice\<close> orders rows with equal keys in a way it does not promise: \<open>srt\<close> is the sorting done.\<close>

definition row_before :: "methodEntry \<Rightarrow> methodEntry \<Rightarrow> bool" where
  "row_before m n \<longleftrightarrow>
     (if me_nameHash m \<noteq> me_nameHash n then me_nameHash m < me_nameHash n
      else if me_sigHash m \<noteq> me_sigHash n then me_sigHash m < me_sigHash n
      else me_recvShape m < me_recvShape n)"

definition req_before :: "reqEntry \<Rightarrow> reqEntry \<Rightarrow> bool" where
  "req_before r q \<longleftrightarrow>
     (if re_nameHash r \<noteq> re_nameHash q then re_nameHash r < re_nameHash q
      else re_sigHash r < re_sigHash q)"

text \<open>What \<open>sort.Slice\<close> promises.\<close>

definition sorts :: "('a \<Rightarrow> 'a \<Rightarrow> bool) \<Rightarrow> ('a list \<Rightarrow> 'a list) \<Rightarrow> bool" where
  "sorts before srt \<longleftrightarrow> (\<forall>xs. mset (srt xs) = mset xs \<and> sorted_wrt (\<lambda>x y. \<not> before y x) (srt xs))"

definition method_text :: "methodEntry \<Rightarrow> string" where
  "method_text m = [CHR 0x09] @ ''method '' @ me_name m @ '' '' @ basQuoteSig (me_sig m) @ '' '' @ decimal (unat (me_nameHash m)) @
     '' '' @ decimal (unat (me_sigHash m)) @ '' '' @ decimal (me_recvShape m) @ '' '' @ me_fnReloc m @ formatMaskTokens (me_masks m)"

definition req_text :: "reqEntry \<Rightarrow> string" where
  "req_text r = [CHR 0x09] @ ''method '' @ re_name r @ '' '' @ basQuoteSig (re_sig r) @ '' '' @ decimal (unat (re_nameHash r)) @
     '' '' @ decimal (unat (re_sigHash r)) @ '' '' @ decimal (re_declIdx r) @ formatMaskTokens (re_masks r)"

definition emitTypedescStructured :: "(methodEntry list \<Rightarrow> methodEntry list) \<Rightarrow> bool \<Rightarrow> string \<Rightarrow> int \<Rightarrow> methodEntry list \<Rightarrow> string list" where
  "emitTypedescStructured srt isPub tn sizeBytes methods =
     [pubPrefix isPub @ ''typedesc '' @ typedescDirectiveName tn @ '' {'',
      [CHR 0x09] @ ''name '' @ quoted tn,
      [CHR 0x09] @ ''size '' @ int_text sizeBytes,
      [CHR 0x09] @ ''cache_ref '' @ typedescCacheName tn] @
     map method_text (srt methods) @
     [''}'', pubPrefix isPub @ ''typedesc_cache '' @ typedescCacheName tn]"

definition emitIfaceDescStructured :: "(reqEntry list \<Rightarrow> reqEntry list) \<Rightarrow> bool \<Rightarrow> string \<Rightarrow> reqEntry list \<Rightarrow> string list" where
  "emitIfaceDescStructured srt isPub n reqs =
     [pubPrefix isPub @ ''iface_desc '' @ ifaceDescName n @ '' {'',
      [CHR 0x09] @ ''name '' @ quoted n] @
     map req_text (srt reqs) @ [''}'']"

section \<open>Variables\<close>

text \<open>\<open>fmt\<close> of a byte with \<open>%02x\<close>.\<close>

definition hex_digit :: "nat \<Rightarrow> char" where
  "hex_digit d = (if d < 10 then char_of (48 + d) else char_of (87 + d))"

definition literal_char :: "byte \<Rightarrow> string" where
  "literal_char b =
     (if b = 0x5C then [CHR 0x5C, CHR 0x5C]
      else if b = 0x22 then [CHR 0x5C, CHR 0x22]
      else if 0x20 \<le> b \<and> b < 0x7F then [char_of (unat b)]
      else [CHR 0x5C, CHR ''x'', hex_digit (unat b div 16), hex_digit (unat b mod 16)])"

definition bytesToBasStringLiteral :: "byte list \<Rightarrow> string" where
  "bytesToBasStringLiteral bs = concat (map literal_char bs)"

record relocSpec =
  rs_Offset :: nat
  rs_Symbol :: string
  rs_Addend :: int

definition reloc_text :: "relocSpec \<Rightarrow> string" where
  "reloc_text r = [CHR 0x09] @ ''reloc '' @ decimal (rs_Offset r) @ '' '' @ rs_Symbol r @ '' '' @ int_text (rs_Addend r)"

definition emitVarBlock :: "string \<Rightarrow> string \<Rightarrow> byte list \<Rightarrow> relocSpec list \<Rightarrow> bool \<Rightarrow> string list" where
  "emitVarBlock n vtype data relocs isPub =
     (if relocs = [] then [pubPrefix isPub @ ''var '' @ n @ '' '' @ vtype @ '' '' @ quoted (bytesToBasStringLiteral data)]
      else [pubPrefix isPub @ ''var '' @ n @ '' '' @ vtype @ '' {'',
        [CHR 0x09] @ ''bytes '' @ quoted (bytesToBasStringLiteral data)] @ map reloc_text relocs @ [''}''])"

text \<open>One table of methods; the run writes those of a map in any order.\<close>

record vtableSpec =
  vs_typeName :: string
  vs_pkgName :: string
  vs_methods :: "string list"
  vs_shapeWord :: "64 word"

definition vtable_bytes :: "vtableSpec \<Rightarrow> byte list" where
  "vtable_bytes spec = replicate 8 0 @ le_bytes 8 (unat (vs_shapeWord spec)) @ replicate (8 * length (vs_methods spec)) 0"

definition vtable_relocs :: "vtableSpec \<Rightarrow> relocSpec list" where
  "vtable_relocs spec =
     \<lparr>rs_Offset = 0, rs_Symbol = vs_pkgName spec @ ''.__typedesc_'' @ vs_typeName spec, rs_Addend = 0\<rparr> #
     map (\<lambda>(i, m). \<lparr>rs_Offset = (i + 2) * 8, rs_Symbol = vs_pkgName spec @ ''.'' @ vs_typeName spec @ ''.'' @ m, rs_Addend = 0\<rparr>)
       (enumerate 0 (vs_methods spec))"

definition vtable_lines :: "string \<Rightarrow> vtableSpec \<Rightarrow> string list" where
  "vtable_lines n spec = (let k = length (vs_methods spec) + 2 in
     [''var '' @ n @ '' byte['' @ decimal (k * 8) @ ''] {'',
      [CHR 0x09] @ ''bytes '' @ quoted (bytesToBasStringLiteral (vtable_bytes spec))] @
     map reloc_text (vtable_relocs spec) @ [''}''])"

definition WriteVtables :: "(string \<times> vtableSpec) list \<Rightarrow> string list" where
  "WriteVtables vts = concat (map (\<lambda>(n, spec). vtable_lines n spec) vts)"

text \<open>The text as it is written.\<close>

definition written :: "string list \<Rightarrow> string" where
  "written ls = concat (map (\<lambda>l. l @ [CHR 0x0A]) ls)"

end
