(* ===== verification/EmitProps.thy ===== *)
theory EmitProps
  imports Emit
begin

text \<open>
  The compiler's directives as the assembler reads them: every byte of a variable, every row of a
  descriptor arrives as it was written.
\<close>

section \<open>Text without white space\<close>

text \<open>ASCII that is no white space.\<close>

definition solid :: "char \<Rightarrow> bool" where
  "solid c \<longleftrightarrow> (of_char c :: nat) < 128 \<and> (of_char c :: nat) \<notin> {9, 10, 11, 12, 13, 32}"

definition token :: "string \<Rightarrow> bool" where
  "token w \<longleftrightarrow> w \<noteq> [] \<and> list_all solid w"

definition tight :: "string \<Rightarrow> bool" where
  "tight s \<longleftrightarrow> s \<noteq> [] \<and> solid (hd s) \<and> solid (last s)"

lemma not_solid: "solid c \<Longrightarrow> of_char d \<ge> (128 :: nat) \<or> of_char d \<in> {9, 10, 11, 12, 13, 32 :: nat} \<Longrightarrow> c \<noteq> d"
  by (auto simp: solid_def)

lemma lead_solid [simp]: "solid c \<Longrightarrow> lead spaces (c # s) = 0" "solid c \<Longrightarrow> lead (map rev spaces) (c # s) = 0"
  by (simp_all add: spaces_eq not_solid)

lemma lead_blank [simp]: "lead spaces (CHR 0x20 # s) = 1" "lead spaces (CHR 0x09 # s) = 1"
  by (simp_all add: spaces_eq)

lemma strip_left_solid: "s = [] \<or> solid (hd s) \<Longrightarrow> strip_left spaces s = s"
  "s = [] \<or> solid (hd s) \<Longrightarrow> strip_left (map rev spaces) s = s"
  by (cases s; simp add: strip_left.simps)+

lemma strip_left_blank [simp]: "strip_left spaces (CHR 0x20 # s) = strip_left spaces s" "strip_left spaces (CHR 0x09 # s) = strip_left spaces s"
  by (subst strip_left.simps, simp)+

lemma TrimSpace_tight [simp]: "tight s \<Longrightarrow> TrimSpace s = s"
  by (simp add: TrimSpace_def strip_left_solid tight_def hd_rev)

lemma TrimSpace_blank [simp]: "TrimSpace (CHR 0x20 # s) = TrimSpace s" "TrimSpace (CHR 0x09 # s) = TrimSpace s"
  by (simp_all add: TrimSpace_def)

lemma tight_append: "tight a \<Longrightarrow> tight b \<Longrightarrow> tight (a @ c @ b)"
  by (simp add: tight_def)

lemma token_tight: "token w \<Longrightarrow> tight w"
  by (cases w) (auto simp: token_def tight_def list_all_iff)

lemma fields_from_solid: "list_all solid t \<Longrightarrow> fields_from w (t @ s) = fields_from (w @ t) s"
proof (induction t arbitrary: w)
  case (Cons c t)
  then show ?case by (subst fields_from.simps) simp
qed simp

lemma fields_from_blank: "fields_from w (CHR 0x20 # s) = (if w = [] then [] else [w]) @ fields_from [] s"
  by (subst fields_from.simps) simp

lemma fields_from_end: "fields_from w [] = (if w = [] then [] else [w])"
  by (subst fields_from.simps) simp

lemma fields_from_token: "token t \<Longrightarrow> fields_from w (t @ s) = fields_from (w @ t) s" "token t \<Longrightarrow> fields_from w t = [w @ t]"
  using fields_from_solid[of t w s] fields_from_solid[of t w "[]"] by (auto simp: token_def fields_from_end)

section \<open>Numbers\<close>

lemma digit_solid: "digit c \<Longrightarrow> solid c"
  by (auto simp: digit_def between_def solid_def)

lemma decimal_token: "token (decimal n)"
  using decimal_chars[of _ n] digit_solid by (auto simp: token_def list_all_iff decimal_nonempty)

lemma decimal_head: "n > 0 \<Longrightarrow> hd (decimal n) \<noteq> CHR ''0''"
proof (induction n rule: decimal.induct)
  case (1 n)
  show ?case
  proof (cases "n < 10")
    case True
    have "char_of (48 + n) \<noteq> CHR ''0''"
    proof
      assume "char_of (48 + n) = CHR ''0''"
      then have "(of_char (char_of (48 + n)) :: nat) = of_char (CHR ''0'')" by (rule arg_cong)
      then show False using 1(2) True by simp
    qed
    then show ?thesis using True by (simp add: decimal.simps)
  next
    case False
    then have "hd (decimal n) = hd (decimal (n div 10))"
      using decimal_nonempty[of "n div 10"] by (subst decimal.simps) simp
    then show ?thesis using 1(1)[OF False] False by simp
  qed
qed

lemma decimal_zero: "decimal 0 = ''0''"
  by code_simp

lemma ParseUint0_decimal:
  assumes "n < 2 ^ k"
  shows "ParseUint0 k (decimal n) = Some n"
proof -
  have "\<not> digit (CHR ''_'')" by (simp add: digit_def between_def)
  then have u: "CHR ''_'' \<notin> set (decimal n)" using decimal_chars by blast
  then have f: "filter (\<lambda>c. c \<noteq> CHR ''_'') (decimal n) = decimal n" by (simp add: filter_id_conv) metis
  show ?thesis
  proof (cases "n = 0")
    case True
    then show ?thesis using assms by (simp add: ParseUint0_def decimal_zero base0_def base_prefix_def)
  next
    case False
    then obtain c cs where c: "decimal n = c # cs" "c \<noteq> CHR ''0''"
      using decimal_head[of n] decimal_nonempty[of n] by (cases "decimal n") auto
    then have "base0 (decimal n) = (10, decimal n)" by (simp add: base0_def)
    then show ?thesis using f u assms parse_decimal[of n] by (simp add: ParseUint0_def decimal_nonempty)
  qed
qed

lemma parseSlotMasks_decimal: "parseSlotMasks (map (\<lambda>m. decimal (unat m)) ms) = Inr ms"
proof (induction ms)
  case (Cons m ms)
  have "unat m < 2 ^ 64" using unsigned_less[of m] by simp
  then show ?case using Cons by (simp add: ParseUint0_decimal)
qed simp

lemma mustParseU64_decimal: "n < 2 ^ 64 \<Longrightarrow> mustParseU64 w (decimal n) = Inr (of_nat n)"
  by (simp add: mustParseU64_def ParseUint_decimal)

lemma mustParseU64_word: "mustParseU64 w (decimal (unat x)) = Inr x"
  using mustParseU64_decimal[of "unat x" w] unsigned_less[of x] by simp

lemma formatMaskTokens_fields: "w \<noteq> [] \<Longrightarrow> fields_from w (formatMaskTokens ms) = w # map (\<lambda>m. decimal (unat m)) ms"
proof (induction ms arbitrary: w)
  case (Cons m ms)
  have "decimal (unat m) \<noteq> []" by (rule decimal_nonempty)
  then show ?case using Cons decimal_token by (simp add: fields_from_blank fields_from_token)
qed (simp add: fields_from_end)

section \<open>String literals\<close>

lemma digit_value_hex: "d < 16 \<Longrightarrow> digit_value (hex_digit d) = Some d"
  by (auto simp: hex_digit_def digit_value_def Let_def)

lemma parse_hex:
  assumes "n < 256"
  shows "ParseUint 16 8 [hex_digit (n div 16), hex_digit (n mod 16)] = Some n"
proof -
  have "n div 16 < 16" using assms by simp
  then show ?thesis using assms by (simp add: ParseUint_def digit_value_hex)
qed

lemma parse_literal_char: "parse_chars (literal_char b @ s) = put b (parse_chars s)"
proof -
  have u: "unat b < 256" using unsigned_less[of b] by simp
  show ?thesis
  proof (cases "b = 0x5C \<or> b = 0x22")
    case False
    show ?thesis
    proof (cases "0x20 \<le> b \<and> b < 0x7F")
      case True
      have o: "(of_char (char_of (unat b)) :: nat) = unat b" using u by simp
      have "char_of (unat b) \<noteq> CHR 0x5C"
      proof
        assume "char_of (unat b) = CHR 0x5C"
        then have "unat b = 0x5C" using o by simp
        then have "b = 0x5C" by (simp add: word_unat_eq_iff)
        then show False using False by simp
      qed
      moreover have "char_of (unat b) \<noteq> CHR 0x22"
      proof
        assume "char_of (unat b) = CHR 0x22"
        then have "unat b = 0x22" using o by simp
        then have "b = 0x22" by (simp add: word_unat_eq_iff)
        then show False using False by simp
      qed
      moreover have "(of_char (char_of (unat b)) :: byte) = b" using o by (metis of_nat_of_char of_nat_unat ucast_id)
      ultimately show ?thesis using True False by (simp add: literal_char_def)
    next
      case hex: False
      then have "literal_char b = [CHR 0x5C, CHR ''x'', hex_digit (unat b div 16), hex_digit (unat b mod 16)]"
        using False by (auto simp: literal_char_def)
      then show ?thesis using parse_hex[OF u] by simp
    qed
  qed (auto simp: literal_char_def)
qed

lemma parse_literal: "parse_chars (bytesToBasStringLiteral bs @ [CHR 0x22]) = Inr bs"
  by (induction bs) (simp_all add: bytesToBasStringLiteral_def parse_literal_char put_def)


text \<open>From the compiler to the assembler, string literals: whatever bytes the compiler writes between
  quotes, the assembler reads the same bytes.\<close>

theorem string_literal_roundtrip: "parseString (quoted (bytesToBasStringLiteral bs)) = Inr bs"
  by (simp add: parseString_def quoted_def parse_literal)

section \<open>Descriptors of types\<close>

lemma TrimSpace_end: "tight w \<Longrightarrow> TrimSpace (w @ [CHR 0x20]) = w"
proof -
  assume t: "tight w"
  have "lead (map rev spaces) (CHR 0x20 # rev w) = 1" by (simp add: spaces_eq)
  then have "strip_left (map rev spaces) (CHR 0x20 # rev w) = rev w"
    using t by (subst strip_left.simps) (simp add: strip_left_solid tight_def hd_rev)
  then show ?thesis using t by (simp add: TrimSpace_def strip_left_solid tight_def)
qed

lemma cut_none: "list_all (\<lambda>c. \<not> P c) s \<Longrightarrow> cut P (s @ c # r) = (if P c then Some (s, r) else map_option (\<lambda>(a, b). (s @ c # a, b)) (cut P r))"
  by (induction s) (auto simp: option.map_comp comp_def case_prod_unfold)

lemma head_of_token:
  assumes "token n" "CHR ''{'' \<notin> set n"
  shows "head_of what (n @ '' {'') = Inr n"
proof -
  have "list_all (\<lambda>c. c \<noteq> CHR ''{'') (n @ [CHR 0x20])" using assms(2) by (auto simp: list_all_iff)
  from cut_none[OF this, of "CHR ''{''" "[]"] have "cut (\<lambda>c. c = CHR ''{'') (n @ '' {'') = Some (n @ [CHR 0x20], [])" by simp
  then show ?thesis using TrimSpace_end[OF token_tight[OF assms(1)]] assms(1) by (simp add: head_of_def token_def)
qed

lemma Trim_quoted:
  assumes "s \<noteq> []" "hd s \<noteq> CHR 0x22" "last s \<noteq> CHR 0x22"
  shows "Trim (CHR 0x22) (quoted s) = s"
proof -
  have "dropWhile (\<lambda>d. d = CHR 0x22) (s @ [CHR 0x22]) = s @ [CHR 0x22]" using assms(1,2) by (cases s) auto
  moreover have "dropWhile (\<lambda>d. d = CHR 0x22) (rev s) = rev s"
    using assms(1,3) by (simp add: dropWhile_eq_self_iff hd_rev)
  ultimately show ?thesis by (simp add: Trim_def quoted_def)
qed

lemma quoted_tight: "tight (quoted s)"
  by (simp add: tight_def quoted_def solid_def)

text \<open>Names of symbols and types as the compiler makes them.\<close>

definition symbol :: "string \<Rightarrow> bool" where
  "symbol n \<longleftrightarrow> n \<noteq> [] \<and> list_all (\<lambda>c. solid c \<and> c \<notin> {CHR ''{'', CHR 0x22}) n"

lemma symbol_token: "symbol n \<Longrightarrow> token n"
  by (auto simp: symbol_def token_def list_all_iff)

lemma symbol_undot:
  assumes "list_all solid p" "CHR ''{'' \<notin> set p" "p \<noteq> []" "symbol n"
  shows "token (p @ undot n) \<and> CHR ''{'' \<notin> set (p @ undot n)"
proof -
  have u: "solid (CHR ''_'')" by (simp add: solid_def)
  have "solid c \<and> c \<noteq> CHR ''{''" if "c \<in> set (undot n)" for c
    using that assms(4) u by (auto simp: symbol_def undot_def list_all_iff)
  then show ?thesis using assms(1-3) by (auto simp: token_def list_all_iff)
qed

definition sig_ok :: "string \<Rightarrow> bool" where
  "sig_ok s \<longleftrightarrow> s \<noteq> [] \<and> list_all (\<lambda>c. (solid c \<or> c = CHR '' '') \<and> c \<noteq> CHR 0x1F) s"

lemma solid_unit: "solid (CHR 0x1F)"
  by (simp add: solid_def)

lemma basQuoteSig_token: "sig_ok s \<Longrightarrow> token (basQuoteSig s)"
  using solid_unit by (auto simp: sig_ok_def token_def basQuoteSig_def list_all_iff)

lemma basUnquoteSig_quote: "sig_ok s \<Longrightarrow> basUnquoteSigTok (basQuoteSig s) = s"
  unfolding sig_ok_def basUnquoteSigTok_def basQuoteSig_def list_all_iff map_map
  by (intro map_idI) (simp split: if_split)

definition row_ok :: "methodEntry \<Rightarrow> bool" where
  "row_ok m \<longleftrightarrow> symbol (me_name m) \<and> sig_ok (me_sig m) \<and> symbol (me_fnReloc m) \<and> me_recvShape m < 2 ^ 64"

definition row_method :: "methodEntry \<Rightarrow> TypedescMethod" where
  "row_method m = \<lparr>tm_Name = me_name m, tm_Sig = me_sig m, tm_NameHash = me_nameHash m, tm_SigHash = me_sigHash m,
     tm_RecvShape = of_nat (me_recvShape m), tm_FnSym = me_fnReloc m, tm_SlotMasks = me_masks m\<rparr>"

lemma method_fields:
  assumes "row_ok m"
  shows "Fields (TrimPrefix (tl (method_text m)) ''method'') =
    me_name m # basQuoteSig (me_sig m) # decimal (unat (me_nameHash m)) # decimal (unat (me_sigHash m)) #
    decimal (me_recvShape m) # me_fnReloc m # map (\<lambda>x. decimal (unat x)) (me_masks m)"
proof -
  have t: "token (me_name m)" "token (basQuoteSig (me_sig m))" "token (me_fnReloc m)"
    using assms symbol_token basQuoteSig_token by (auto simp: row_ok_def)
  then have n: "me_name m \<noteq> []" "basQuoteSig (me_sig m) \<noteq> []" "me_fnReloc m \<noteq> []" by (auto simp: token_def)
  show ?thesis
    using t n decimal_token decimal_nonempty
    by (simp add: method_text_def TrimPrefix_def Fields_def fields_from_blank fields_from_token formatMaskTokens_fields)
qed

lemma typedesc_line_method:
  assumes "row_ok m"
  shows "typedesc_line (tl (method_text m)) rec = Inr (rec\<lparr>tr_Methods := tr_Methods rec @ [row_method m]\<rparr>)"
proof -
  have p: "HasPrefix (tl (method_text m)) ''method ''" "\<not> HasPrefix (tl (method_text m)) ''name ''"
    "\<not> HasPrefix (tl (method_text m)) ''size ''" "\<not> HasPrefix (tl (method_text m)) ''cache_ref ''"
    by (simp_all add: method_text_def)
  show ?thesis
    using assms p unfolding typedesc_line_def method_fields[OF assms]
    by (simp add: mustParseU64_decimal mustParseU64_word parseSlotMasks_decimal row_method_def basUnquoteSig_quote row_ok_def)
qed

lemma last_formatMaskTokens: "s \<noteq> [] \<Longrightarrow> solid (last s) \<Longrightarrow> solid (last (s @ formatMaskTokens ms))"
proof (induction ms arbitrary: s)
  case (Cons m ms)
  have "solid (last (decimal (unat m)))" using token_tight[OF decimal_token] by (auto simp: tight_def)
  then show ?case using Cons.IH[of "s @ CHR 0x20 # decimal (unat m)"] decimal_nonempty[of "unat m"] by simp
qed simp

lemma method_text_tight: "row_ok m \<Longrightarrow> tight (tl (method_text m))"
proof -
  assume m: "row_ok m"
  then have f: "me_fnReloc m \<noteq> []" "solid (last (me_fnReloc m))"
    using token_tight[OF symbol_token] by (auto simp: row_ok_def tight_def)
  let ?s = "''method '' @ me_name m @ '' '' @ basQuoteSig (me_sig m) @ '' '' @ decimal (unat (me_nameHash m)) @
     '' '' @ decimal (unat (me_sigHash m)) @ '' '' @ decimal (me_recvShape m) @ '' '' @ me_fnReloc m"
  have "solid (last (?s @ formatMaskTokens (me_masks m)))" by (rule last_formatMaskTokens) (use f in auto)
  moreover have "tl (method_text m) = ?s @ formatMaskTokens (me_masks m)" by (simp add: method_text_def)
  ultimately show "tight (tl (method_text m))" by (simp add: tight_def solid_def)
qed

lemma block_methods:
  "list_all row_ok ms \<Longrightarrow> block typedesc_line what (map method_text ms @ ls) rec =
     block typedesc_line what ls (rec\<lparr>tr_Methods := tr_Methods rec @ map row_method ms\<rparr>)"
proof (induction ms arbitrary: rec)
  case (Cons m ms)
  have t: "TrimSpace (method_text m) = tl (method_text m)"
    using method_text_tight[of m] Cons.prems TrimSpace_blank(2)[of "tl (method_text m)"] by (simp add: method_text_def)
  have "tl (method_text m) \<noteq> ''}''" "\<not> skipped (tl (method_text m))" by (simp_all add: method_text_def skipped_def)
  then show ?case using Cons t typedesc_line_method[of m] by (simp add: Let_def)
qed simp

lemma prefix_here [simp]: "HasPrefix (p @ r) p"
  by (induction p) auto

lemma after_blank: "tight s \<Longrightarrow> after p (p @ CHR 0x20 # s) = s"
  by (simp add: after_def TrimPrefix_def)

lemma decimal_tight: "tight (decimal n)"
  using token_tight[OF decimal_token] .

definition typedesc_record :: "string \<Rightarrow> int \<Rightarrow> methodEntry list \<Rightarrow> TypedescRecord" where
  "typedesc_record tn n ms = \<lparr>tr_TypeName = tn, tr_SizeBytes = word_of_int n, tr_CacheSym = typedescCacheName tn,
     tr_Methods = map row_method ms\<rparr>"

lemma cache_name_token: "symbol n \<Longrightarrow> token (typedescCacheName n) \<and> CHR ''{'' \<notin> set (typedescCacheName n)"
  unfolding typedescCacheName_def by (rule symbol_undot) (simp_all add: solid_def)

lemma typedesc_name_token: "symbol n \<Longrightarrow> token (typedescSymbolName n) \<and> CHR ''{'' \<notin> set (typedescSymbolName n)"
  unfolding typedescSymbolName_def by (rule symbol_undot) (simp_all add: solid_def)

lemma block_line:
  assumes "tight body" "\<not> HasPrefix body ''//''" "body \<noteq> ''}''" "step body acc = Inr acc'"
  shows "block step what ((CHR 0x09 # body) # ls) acc = block step what ls acc'"
  using assms by (simp add: Let_def skipped_def) (auto simp: tight_def)

lemma block_typedesc:
  assumes "symbol tn" "0 \<le> n" "n < 2 ^ 64" "list_all row_ok ms"
  shows "block typedesc_line ''typedesc'' ([[CHR 0x09] @ ''name '' @ quoted tn, [CHR 0x09] @ ''size '' @ int_text n,
      [CHR 0x09] @ ''cache_ref '' @ typedescCacheName tn] @ map method_text ms @ ''}'' # rest)
      \<lparr>tr_TypeName = [], tr_SizeBytes = 0, tr_CacheSym = [], tr_Methods = []\<rparr> = Inr (typedesc_record tn n ms, rest)"
proof -
  have q: "tn \<noteq> []" "hd tn \<noteq> CHR 0x22" "last tn \<noteq> CHR 0x22" using assms(1) by (auto simp: symbol_def list_all_iff)
  have c: "tight (typedescCacheName tn)" using cache_name_token[OF assms(1)] token_tight by blast
  have s: "int_text n = decimal (nat n)" "nat n < 2 ^ 64" using assms(2,3) by (auto simp: int_text_def nat_less_iff)
  have t: "tight (''name '' @ quoted tn)" "tight (''size '' @ decimal (nat n))" "tight (''cache_ref '' @ typedescCacheName tn)"
    using c decimal_tight[of "nat n"] quoted_tight[of tn] by (simp_all add: tight_def solid_def)
  have a: "after ''name'' (''name'' @ CHR 0x20 # quoted tn) = quoted tn"
    "after ''size'' (''size'' @ CHR 0x20 # decimal (nat n)) = decimal (nat n)"
    "after ''cache_ref'' (''cache_ref'' @ CHR 0x20 # typedescCacheName tn) = typedescCacheName tn"
    using c decimal_tight[of "nat n"] quoted_tight[of tn] after_blank by blast+
  have e: "TrimSpace ''}'' = ''}''" by (intro TrimSpace_tight) (simp add: tight_def solid_def)
  have name: "typedesc_line (''name '' @ quoted tn) rec = Inr (rec\<lparr>tr_TypeName := tn\<rparr>)" for rec
    using a(1) Trim_quoted[OF q] by (simp add: typedesc_line_def)
  have sz: "typedesc_line (''size '' @ decimal (nat n)) rec = Inr (rec\<lparr>tr_SizeBytes := of_nat (nat n)\<rparr>)" for rec
    using a(2) mustParseU64_decimal[OF s(2)] by (simp add: typedesc_line_def)
  have cache: "typedesc_line (''cache_ref '' @ typedescCacheName tn) rec = Inr (rec\<lparr>tr_CacheSym := typedescCacheName tn\<rparr>)" for rec
    using a(3) by (simp add: typedesc_line_def)
  define b1 b2 b3 where "b1 = ''name '' @ quoted tn" and "b2 = ''size '' @ decimal (nat n)"
    and "b3 = ''cache_ref '' @ typedescCacheName tn"
  let ?block = "block typedesc_line ''typedesc''"
  have l1: "?block ((CHR 0x09 # b1) # ls) rec = ?block ls (rec\<lparr>tr_TypeName := tn\<rparr>)" for ls rec
    by (rule block_line) (use t(1) name in \<open>simp_all add: b1_def\<close>)
  have l2: "?block ((CHR 0x09 # b2) # ls) rec = ?block ls (rec\<lparr>tr_SizeBytes := of_nat (nat n)\<rparr>)" for ls rec
    by (rule block_line) (use t(2) sz in \<open>simp_all add: b2_def\<close>)
  have l3: "?block ((CHR 0x09 # b3) # ls) rec = ?block ls (rec\<lparr>tr_CacheSym := typedescCacheName tn\<rparr>)" for ls rec
    by (rule block_line) (use t(3) cache in \<open>simp_all add: b3_def\<close>)
  have l4: "?block (''}'' # rest) rec = Inr (rec, rest)" for rec using e by (simp add: skipped_def)
  show ?thesis
    unfolding s(1) b1_def[symmetric] b2_def[symmetric] b3_def[symmetric]
    using assms(2) by (simp add: l1 l2 l3 l4 block_methods[OF assms(4)] typedesc_record_def del: block.simps)
qed

text \<open>A declaration on a line of its own, with or without \<open>pub\<close>.\<close>

lemma pub_line:
  assumes "tight d" "\<not> HasPrefix d ''//''" "\<not> HasPrefix d ''package''" "\<not> HasPrefix d ''pub ''" "b_o st = Some oo"
  shows "source_line e fname ln (pubPrefix pub @ d) rest st = package_member e fname ln (pubPrefix pub @ d) rest oo st"
    and "HasPrefix (pubPrefix pub @ d) ''pub '' = pub"
    and "(if pub then after ''pub '' (pubPrefix pub @ d) else pubPrefix pub @ d) = d"
proof -
  have t: "tight (pubPrefix pub @ d)" using assms(1) by (simp add: pubPrefix_def flag_def tight_def solid_def)
  have "pubPrefix pub @ d \<noteq> []" using assms(1) by (auto simp: tight_def)
  then show "source_line e fname ln (pubPrefix pub @ d) rest st = package_member e fname ln (pubPrefix pub @ d) rest oo st"
    using t assms by (cases pub) (simp_all add: source_line_def skipped_def pubPrefix_def flag_def)
  show "HasPrefix (pubPrefix pub @ d) ''pub '' = pub" using assms(4) by (simp add: pubPrefix_def flag_def)
  show "(if pub then after ''pub '' (pubPrefix pub @ d) else pubPrefix pub @ d) = d"
    using assms(1) by (simp add: pubPrefix_def flag_def after_def TrimPrefix_def)
qed

lemma typedesc_source_line:
  assumes "symbol tn" "b_o st = Some oo"
  shows "source_line e fname ln (pubPrefix pub @ ''typedesc '' @ typedescSymbolName tn @ '' {'') rest st =
    after_decl st (typedesc_directive (''typedesc '' @ typedescSymbolName tn @ '' {'') pub rest oo)"
proof -
  define d where "d = ''typedesc '' @ typedescSymbolName tn @ '' {''"
  have t: "tight d" by (simp add: d_def tight_def solid_def)
  have p: "\<not> HasPrefix d ''//''" "\<not> HasPrefix d ''package''" "\<not> HasPrefix d ''pub ''" "\<not> HasPrefix d ''typealias ''"
    "\<not> HasPrefix d ''interface''" "\<not> HasPrefix d ''typedesc_cache''" "HasPrefix d ''typedesc''"
    by (simp_all add: d_def)
  note l = pub_line[OF t p(1-3) assms(2)]
  show ?thesis
    unfolding d_def[symmetric] l(1) package_member_def l(2) Let_def l(3) using p by simp
qed

lemma cache_source_line:
  assumes "symbol tn" "b_o st = Some oo"
  shows "source_line e fname ln (pubPrefix pub @ ''typedesc_cache '' @ typedescCacheName tn) rest st =
    after_decl st (rbind (typedesc_cache_directive (''typedesc_cache '' @ typedescCacheName tn) pub oo) (\<lambda>oo. Inr (oo, rest)))"
proof -
  define d where "d = ''typedesc_cache '' @ typedescCacheName tn"
  have "tight (typedescCacheName tn)" using cache_name_token[OF assms(1)] token_tight by blast
  then have t: "tight d" by (simp add: d_def tight_def solid_def)
  have p: "\<not> HasPrefix d ''//''" "\<not> HasPrefix d ''package''" "\<not> HasPrefix d ''pub ''" "\<not> HasPrefix d ''typealias ''"
    "\<not> HasPrefix d ''interface''" "HasPrefix d ''typedesc_cache''"
    by (simp_all add: d_def)
  note l = pub_line[OF t p(1-3) assms(2)]
  show ?thesis
    unfolding d_def[symmetric] l(1) package_member_def l(2) Let_def l(3) using p by simp
qed

definition fresh :: "OFile \<Rightarrow> string \<Rightarrow> bool" where
  "fresh oo n \<longleftrightarrow> \<not> has (o_Vars oo) n \<and> \<not> has (o_Data oo) n \<and> \<not> has (o_Funcs oo) n"

text \<open>C20. From the compiler to the assembler, type descriptors: the directives the compiler writes for a
  type with names and signatures in ASCII declare one data block and one cache variable, under the names
  the run time looks for, and the block decodes to the name and size of the type and exactly the rows of
  its methods in the order in which they were sorted: names, signatures with their spaces, hashes,
  receivers, functions and borrow masks.\<close>

theorem emitted_typedesc:
  assumes "symbol tn" "0 \<le> n" "n < 2 ^ 64" "list_all row_ok (srt ms)" "b_o st = Some oo"
    and "fresh oo (typedescSymbolName tn)" "fresh oo (typedescCacheName tn)"
    and "length (fst (EncodeTypedesc (typedesc_record tn n (srt ms)))) < 2 ^ 32"
  shows "\<exists>oo' v c. source_lines e fname cnt (emitTypedescStructured srt pub tn n ms @ rest) st =
      source_lines e fname cnt rest (st\<lparr>b_o := Some oo'\<rparr>) \<and>
    map_of (o_Data oo') (typedescSymbolName tn) = Some v \<and> v_Kind v = KindTypedesc \<and> v_IsPub v = pub \<and>
    DecodeTypedesc (v_Val v) (v_Relocs v) = Some (typedesc_record tn n (srt ms)) \<and>
    map_of (o_Vars oo') (typedescCacheName tn) = Some c \<and> v_Kind c = KindTypedescCache"
proof -
  define N C where "N = typedescSymbolName tn" and "C = typedescCacheName tn"
  define rec where "rec = typedesc_record tn n (srt ms)"
  have N: "token N" "CHR ''{'' \<notin> set N" and C: "tight C"
    using typedesc_name_token[OF assms(1)] cache_name_token[OF assms(1)] token_tight by (auto simp: N_def C_def)
  have "length N \<noteq> length C" by (simp add: N_def C_def typedescSymbolName_def typedescCacheName_def undot_def)
  then have ne: "N \<noteq> C" by auto
  let ?body = "[[CHR 0x09] @ ''name '' @ quoted tn, [CHR 0x09] @ ''size '' @ int_text n, [CHR 0x09] @ ''cache_ref '' @ C] @
    map method_text (srt ms) @ [''}'', pubPrefix pub @ ''typedesc_cache '' @ C]"
  have lines: "emitTypedescStructured srt pub tn n ms @ rest = (pubPrefix pub @ ''typedesc '' @ N @ '' {'') # ?body @ rest"
    by (simp add: emitTypedescStructured_def typedescDirectiveName_def N_def C_def)
  obtain v1 where v1: "AddData N (byte_type (length (fst (EncodeTypedesc rec)))) (ValBytes (fst (EncodeTypedesc rec))) pub oo =
      Inr (oo\<lparr>o_Data := AList.update N v1 (o_Data oo)\<rparr>)" "v_Val v1 = fst (EncodeTypedesc rec)" "v_IsPub v1 = pub"
    using assms(6) by (simp add: AddData_def fresh_def N_def new_var_def)
  define v where "v = v1\<lparr>v_Relocs := snd (EncodeTypedesc rec), v_Kind := KindTypedesc\<rparr>"
  define oo1 where "oo1 = set_data N (\<lambda>v. v\<lparr>v_Relocs := snd (EncodeTypedesc rec), v_Kind := KindTypedesc\<rparr>)
    (oo\<lparr>o_Data := AList.update N v1 (o_Data oo)\<rparr>)"
  have oo1: "o_Vars oo1 = o_Vars oo" "o_Funcs oo1 = o_Funcs oo" "o_Data oo1 = AList.update N v (AList.update N v1 (o_Data oo))"
    by (simp_all add: oo1_def set_data_def v_def)
  have "after ''typedesc'' (''typedesc '' @ N @ '' {'') = N @ '' {''"
    using after_blank[of "N @ '' {''" "''typedesc''"] N(1) by (simp add: token_def tight_def list_all_iff) (simp add: solid_def)
  then have d: "typedesc_directive (''typedesc '' @ N @ '' {'') pub (?body @ rest) oo =
      Inr (oo1, (pubPrefix pub @ ''typedesc_cache '' @ C) # rest)"
    using head_of_token[OF N] block_typedesc[OF assms(1-4)] v1(1)
    by (simp add: typedesc_directive_def C_def[symmetric] rec_def[symmetric] oo1_def case_prod_unfold del: block.simps)
  obtain c1 where c1: "AddVar C ''byte[8]'' (ValBytes (replicate 8 0)) pub oo1 = Inr (oo1\<lparr>o_Vars := AList.update C c1 (o_Vars oo1)\<rparr>)"
    using assms(7) oo1 ne by (simp add: AddVar_def fresh_def C_def[symmetric] has_def update_conv')
  define oo2 where "oo2 = set_var C (\<lambda>v. v\<lparr>v_Kind := KindTypedescCache\<rparr>) (oo1\<lparr>o_Vars := AList.update C c1 (o_Vars oo1)\<rparr>)"
  have "C \<noteq> []" using C by (auto simp: tight_def)
  then have cd: "typedesc_cache_directive (''typedesc_cache '' @ C) pub oo1 = Inr oo2"
    using after_blank[OF C, of "''typedesc_cache''"] c1 by (simp add: typedesc_cache_directive_def Let_def oo2_def)
  have oo2: "o_Data oo2 = o_Data oo1" "map_of (o_Vars oo2) C = Some (c1\<lparr>v_Kind := KindTypedescCache\<rparr>)"
    by (simp_all add: oo2_def set_var_def update_conv')
  have "source_lines e fname cnt (emitTypedescStructured srt pub tn n ms @ rest) st = source_lines e fname cnt rest (st\<lparr>b_o := Some oo2\<rparr>)"
    unfolding lines
    using typedesc_source_line[OF assms(1,5)] cache_source_line[OF assms(1), of "st\<lparr>b_o := Some oo1\<rparr>" oo1] d cd
    by (simp add: N_def[symmetric] C_def[symmetric] after_decl_def res_eval)
  moreover have "map_of (o_Data oo2) N = Some v" using oo2(1) oo1(3) by (simp add: update_conv')
  moreover have "DecodeTypedesc (v_Val v) (v_Relocs v) = Some rec"
    using typedesc_decodes[of rec "fst (EncodeTypedesc rec)" "snd (EncodeTypedesc rec)"] assms(8) v1(2) by (simp add: v_def rec_def)
  ultimately show ?thesis using oo2(2) v1(3) unfolding N_def[symmetric] C_def[symmetric] rec_def[symmetric]
    by (intro exI[of _ oo2] exI[of _ v] exI[of _ "c1\<lparr>v_Kind := KindTypedescCache\<rparr>"]) (simp add: v_def)
qed

lemma id_rows: "list_all row_ok ((\<lambda>ms. ms) [\<lparr>me_name = ''len'', me_sig = ''(*mut i64)->u8'', me_nameHash = fnv1a64 ''len'',
    me_sigHash = 7, me_recvShape = 1, me_fnReloc = ''m.T.len'', me_masks = [0, 3]\<rparr>])"
  by (simp add: row_ok_def symbol_def sig_ok_def solid_def)

theorem emitted_typedesc_witness:
  "\<exists>oo' v. source_lines src_env ''a.bs'' 7 (emitTypedescStructured (\<lambda>ms. ms) True ''T'' 8
       [\<lparr>me_name = ''len'', me_sig = ''(*mut i64)->u8'', me_nameHash = fnv1a64 ''len'', me_sigHash = 7, me_recvShape = 1,
         me_fnReloc = ''m.T.len'', me_masks = [0, 3]\<rparr>] @ []) \<lparr>b_out = [], b_o = Some (NewOFile ''m.bo'' ''m''), b_f = None\<rparr> =
     done' \<lparr>b_out = [], b_o = Some oo', b_f = None\<rparr> \<and> map_of (o_Data oo') ''__typedesc_T'' = Some v \<and>
     map_option (map tm_Sig \<circ> tr_Methods) (DecodeTypedesc (v_Val v) (v_Relocs v)) = Some [''(*mut i64)->u8'']"
proof -
  let ?m = "\<lparr>me_name = ''len'', me_sig = ''(*mut i64)->u8'', me_nameHash = fnv1a64 ''len'', me_sigHash = 7, me_recvShape = 1,
    me_fnReloc = ''m.T.len'', me_masks = [0, 3]\<rparr>"
  let ?st = "\<lparr>b_out = [], b_o = Some (NewOFile ''m.bo'' ''m''), b_f = None\<rparr>"
  have n: "typedescSymbolName ''T'' = ''__typedesc_T''" "typedescCacheName ''T'' = ''__typedesc_cache_T''"
    by (simp_all add: typedescSymbolName_def typedescCacheName_def undot_def)
  have f: "fresh (NewOFile ''m.bo'' ''m'') k" for k by (simp add: fresh_def NewOFile_def has_def)
  have s: "symbol ''T''" by (simp add: symbol_def solid_def)
  have l: "length (fst (EncodeTypedesc (typedesc_record ''T'' 8 [?m]))) < 2 ^ 32"
    by (simp add: EncodeTypedesc_def Let_def addStr_def length_masks tdHeadFixed_def tdMethodStride_def typedesc_record_def row_method_def)
  have st: "b_o ?st = Some (NewOFile ''m.bo'' ''m'')" by simp
  from emitted_typedesc[where srt = "\<lambda>ms. ms" and ms = "[?m]" and n = 8 and st = ?st and rest = "[]" and e = src_env
      and fname = "''a.bs''" and cnt = 7 and pub = True, OF s _ _ id_rows st f f l]
  show ?thesis by (fastforce simp: n typedesc_record_def row_method_def)
qed

section \<open>Borrow masks\<close>







section \<open>Variables\<close>




















end
