(* ===== verification/Spec2Isabelle.thy ===== *)
theory Spec2Isabelle
  imports RegAlloc Toolchain Exe EncoderProps AllocTheorems TypeInfo GoText Bas Growth BasProps BasOutput TypeProps EmitProps
begin

text \<open>
  gbasm: assembler, linker and Boson compiler.
\<close>

text \<open>C1. Object files and the linker together: every file the assembler hands over can be written
  and read back, and linking the files read back gives the same result (the image, or the error) as
  linking the files in memory.\<close>

theorem write_read_link:
  assumes "\<forall>oo \<in> set os. ready oo"
  defines "saved \<equiv> \<lambda>oo oo'. \<exists>bs. writeOFile oo = Inr bs \<and> ReadOFile (o_Filename oo) bs = Inr oo'"
  shows "(\<exists>os'. list_all2 saved os os') \<and>
    (\<forall>os'. list_all2 saved os os' \<longrightarrow> Link spare iter os' textoff = Link spare iter os textoff)"
proof (intro conjI allI impI)
  show "\<exists>os'. list_all2 saved os os'"
    using assms(1) ready_writes
    by (intro exI[of _ "map reread os"]) (auto simp: saved_def list_all2_map2 list.rel_refl_strong)
  fix os' assume "list_all2 saved os os'"
  then have "os' = map reread os"
    using assms(1)
  proof (induction rule: list_all2_induct)
    case (Cons oo os oo' os')
    then show ?case using ready_reread[of oo _ oo'] by (auto simp: saved_def)
  qed simp
  then show "Link spare iter os' textoff = Link spare iter os textoff" using Link_ready[OF assms(1)] by simp
qed

lemma sample_ready: "ready sample_ofile"
  using sample_ofile_assembled sample_ofile_fits
  by (simp add: ready_def sample_ofile_eq drs_ok_def new_var_def)

theorem write_read_link_witness:
  "\<exists>bs oo'. writeOFile sample_ofile = Inr bs \<and> ReadOFile ''a.bo'' bs = Inr oo' \<and>
     Link 0 id [oo'] 0x30000 = Link 0 id [sample_ofile] 0x30000"
proof -
  have r: "\<forall>oo \<in> set [sample_ofile]. ready oo" using sample_ready by simp
  note w = write_read_link[OF r, of 0 id "0x30000"]
  then obtain os' where os': "list_all2 (\<lambda>oo oo'. \<exists>bs. writeOFile oo = Inr bs \<and>
      ReadOFile (o_Filename oo) bs = Inr oo') [sample_ofile] os'" by blast
  then obtain oo' where "os' = [oo']" by (auto simp: list_all2_Cons1)
  then show ?thesis using w os' by (auto simp: sample_ofile_eq)
qed

text \<open>C2. From sources to the linker: runs of the assembler on sources it accepts, within the bounds of
  the format and with variable relocations apart, end well and leave files of which the linker makes the
  image (or reports the error) it would of the object files in memory.\<close>

theorem assembled_sources_link:
  assumes "\<forall>(e, out, fs, oo) \<in> set jobs. assemble e out fs = Some (Inr oo) \<and> long_jumps (e_asm e)"
    and "\<forall>(e, out, fs, oo) \<in> set jobs. in_range oo \<and> relocs_apart oo \<and> fits_file oo"
  defines "saved \<equiv> \<lambda>(e, out, fs, oo) oo'. \<exists>bs. bas_main e out fs = Written (o_Filename oo) bs True \<and>
    ReadOFile (o_Filename oo) bs = Inr oo'"
  shows "\<exists>os'. list_all2 saved jobs os' \<and>
    Link spare iter os' textoff = Link spare iter (map (\<lambda>(e, out, fs, oo). oo) jobs) textoff"
proof -
  let ?os = "map (\<lambda>(e, out, fs, oo). oo) jobs"
  have r: "ready oo" if "(e, out, fs, oo) \<in> set jobs" for e out fs oo
    using that assms(1,2) by (fastforce intro: assemble_ready)
  then have all: "\<forall>oo \<in> set ?os. ready oo" by auto
  have "saved (e, out, fs, oo) (reread oo)" if "(e, out, fs, oo) \<in> set jobs" for e out fs oo
    using ready_writes[OF r[OF that]] that assms(1) bas_main_writes[OF _ r[OF that]] by (fastforce simp: saved_def)
  then have "list_all2 saved jobs (map reread ?os)"
    by (auto simp: list_all2_map2 intro!: list.rel_refl_strong)
  moreover have "Link spare iter (map reread ?os) textoff = Link spare iter ?os textoff"
    by (rule Link_ready[OF all])
  ultimately show ?thesis by blast
qed

theorem assembled_sources_link_witness:
  "\<exists>bs oo'. bas_main src_env [] [(''a.bs'', Some src_text)] = Written ''_init.bo'' bs True \<and>
     ReadOFile ''_init.bo'' bs = Inr oo' \<and> Link 0 id [oo'] 0x30000 = Link 0 id [src_output] 0x30000"
proof -
  have n: "o_Filename src_output = ''_init.bo''" "relocs_apart src_output"
    by (simp_all add: src_output_def file3_def file2_def file1_def NewOFile_def relocs_apart_def new_var_def)
  let ?run = "(src_env, '''', [(''a.bs'', Some src_text)], src_output)"
  have "\<forall>(e, out, fs, oo) \<in> set [?run]. assemble e out fs = Some (Inr oo) \<and> long_jumps (e_asm e)"
    and "\<forall>(e, out, fs, oo) \<in> set [?run]. in_range oo \<and> relocs_apart oo \<and> fits_file oo"
    using src_assembles src_long_jumps src_in_range src_fits n by auto
  from assembled_sources_link[OF this, of 0 id "0x30000"] show ?thesis by (auto simp: list_all2_Cons1 n)
qed

end
